(* ===== verification/Kernel_Prelude.thy ===== *)
theory Kernel_Prelude
  imports Main "HOL-Library.Word"
begin

text \<open>
  Shared vocabulary of the kernel model: the C integer types of the RV64 (LP64) target as
  words, the ways a kernel routine can stop without returning to its caller, the result type
  of a stateful routine with its sequencing operators, the \<open>for\<close> loop over an index range,
  and the generic lemmas on lists and words that the component theories use.

  A routine on a state of type \<open>'s\<close> that returns a value of type \<open>'a\<close> is a function
  \<open>'s \<Rightarrow> ('s, 'a) kres\<close>: \<open>Inr (a, s')\<close> is a normal return, \<open>Inl (stop, s')\<close> says that
  control does not come back to the caller, with the state at that moment.
\<close>

unbundle bit_operations_syntax

subsection \<open>C integer types of the target\<close>

type_synonym u8 = "8 word"
type_synonym u16 = "16 word"
type_synonym u32 = "32 word"
type_synonym u64 = "64 word"

subsection \<open>Ways a routine does not return\<close>

datatype kstop =
    Panic string          \<comment> \<open>\<open>panic(msg)\<close>: prints the message and loops forever\<close>
  | DoExit int            \<comment> \<open>\<open>do_exit(code)\<close> was called for the current process\<close>
  | BadAccess u64         \<comment> \<open>a load, store or call through an invalid pointer\<close>
  | OutOfBounds           \<comment> \<open>an array access outside the array (undefined in C)\<close>
  | DivByZero             \<comment> \<open>an integer division by zero (undefined in C)\<close>
  | Loops                 \<comment> \<open>the routine never leaves one of its loops\<close>
  | Sleeps                \<comment> \<open>the routine called \<open>schedule\<close> and gave up the processor\<close>

type_synonym ('s, 'a) kres = "kstop \<times> 's + 'a \<times> 's"

definition kreturn :: "'a \<Rightarrow> 's \<Rightarrow> ('s, 'a) kres" where
  "kreturn a s = Inr (a, s)"

definition kstop :: "kstop \<Rightarrow> 's \<Rightarrow> ('s, 'a) kres" where
  "kstop e s = Inl (e, s)"

definition panic :: "string \<Rightarrow> 's \<Rightarrow> ('s, 'a) kres" where
  "panic msg s = Inl (Panic msg, s)"

definition kbind :: "('s \<Rightarrow> ('s, 'a) kres) \<Rightarrow> ('a \<Rightarrow> 's \<Rightarrow> ('s, 'b) kres) \<Rightarrow> 's \<Rightarrow> ('s, 'b) kres" where
  "kbind m f s = (case m s of Inl e \<Rightarrow> Inl e | Inr (a, s') \<Rightarrow> f a s')"

definition kseq :: "('s \<Rightarrow> ('s, 'a) kres) \<Rightarrow> ('s \<Rightarrow> ('s, 'b) kres) \<Rightarrow> 's \<Rightarrow> ('s, 'b) kres" where
  "kseq m n = kbind m (\<lambda>_. n)"

definition kmodify :: "('s \<Rightarrow> 's) \<Rightarrow> 's \<Rightarrow> ('s, unit) kres" where
  "kmodify f s = Inr ((), f s)"

text \<open>\<open>for (i = ...) body\<close> over the listed index values, in order.\<close>

primrec kfor :: "'i list \<Rightarrow> ('i \<Rightarrow> 's \<Rightarrow> ('s, unit) kres) \<Rightarrow> 's \<Rightarrow> ('s, unit) kres" where
  "kfor [] body s = Inr ((), s)"
| "kfor (i # is) body s = (case body i s of Inl e \<Rightarrow> Inl e | Inr (_, s') \<Rightarrow> kfor is body s')"

subsection \<open>Reasoning about results\<close>

named_theorems kres_simps \<open>evaluation of the sequencing operators\<close>
named_theorems kres_iff \<open>when a composed routine returns normally\<close>

lemma kres_basic [kres_simps]:
  "kreturn a s = Inr (a, s)"
  "kstop e s = Inl (e, s)"
  "panic msg s = Inl (Panic msg, s)"
  "kmodify f s = Inr ((), f s)"
  by (simp_all add: kreturn_def kstop_def panic_def kmodify_def)

lemma kbind_eval [kres_simps]:
  "m s = Inl e \<Longrightarrow> kbind m f s = Inl e"
  "m s = Inr (a, t) \<Longrightarrow> kbind m f s = f a t"
  by (simp_all add: kbind_def)

lemma kseq_eval [kres_simps]:
  "m s = Inl e \<Longrightarrow> kseq m n s = Inl e"
  "m s = Inr (a, t) \<Longrightarrow> kseq m n s = n t"
  by (simp_all add: kseq_def kbind_def)

lemma kbind_Inr_iff [kres_iff]:
  "kbind m f s = Inr r \<longleftrightarrow> (\<exists>a t. m s = Inr (a, t) \<and> f a t = Inr r)"
  by (auto simp: kbind_def split: sum.splits prod.splits)

lemma kseq_Inr_iff [kres_iff]:
  "kseq m n s = Inr r \<longleftrightarrow> (\<exists>a t. m s = Inr (a, t) \<and> n t = Inr r)"
  by (simp add: kseq_def kbind_Inr_iff)

lemma kfor_append:
  "kfor (is @ js) body s =
     (case kfor is body s of Inl e \<Rightarrow> Inl e | Inr (_, t) \<Rightarrow> kfor js body t)"
  by (induction "is" arbitrary: s) (auto split: sum.splits prod.splits)

lemma kfor_Cons_Inr_iff [kres_iff]:
  "kfor (i # is) body s = Inr r \<longleftrightarrow> (\<exists>u t. body i s = Inr (u, t) \<and> kfor is body t = Inr r)"
  by (auto split: sum.splits prod.splits)

lemma kfor_cong_on:
  "(\<And>i s. i \<in> set is \<Longrightarrow> f i s = g i s) \<Longrightarrow> kfor is f s = kfor is g s"
  by (induction "is" arbitrary: s) (auto split: sum.splits prod.splits)

lemma kfor_invariant:
  assumes "kfor is body s = Inr (u, t)" and "P s"
    and "\<And>i a b. i \<in> set is \<Longrightarrow> P a \<Longrightarrow> body i a = Inr ((), b) \<Longrightarrow> P b"
  shows "P t"
  using assms
proof (induction "is" arbitrary: s)
  case Nil
  then show ?case by simp
next
  case (Cons i "is")
  from Cons.prems(1) obtain v where v: "body i s = Inr ((), v)" and r: "kfor is body v = Inr (u, t)"
    by (auto simp: kres_iff simp del: kfor.simps)
  have "P v" using Cons.prems(3) [of i s v] Cons.prems(2) v by simp
  then show ?case
    by (rule Cons.IH [OF r]) (rule Cons.prems(3), simp_all)
qed

subsection \<open>Bounded first-match search\<close>

text \<open>The scanning loops of the kernel return the first index of a range with a property.\<close>

lemma find_upt_Some_iff:
  "find P [i..<j] = Some k \<longleftrightarrow> i \<le> k \<and> k < j \<and> P k \<and> (\<forall>l. i \<le> l \<and> l < k \<longrightarrow> \<not> P l)"
proof -
  have "find P [i..<j] = Some k \<longleftrightarrow>
     (\<exists>n < j - i. P (i + n) \<and> k = i + n \<and> (\<forall>m < n. \<not> P (i + m)))"
    by (auto simp: find_Some_iff)
  also have "\<dots> \<longleftrightarrow> i \<le> k \<and> k < j \<and> P k \<and> (\<forall>l. i \<le> l \<and> l < k \<longrightarrow> \<not> P l)"
    (is "?L \<longleftrightarrow> ?R")
  proof
    assume ?L
    then show ?R by (metis add_diff_cancel_left' le_add1 le_Suc_ex less_diff_conv add.commute)
  next
    assume r: ?R
    have "k - i < j - i \<and> P (i + (k - i)) \<and> k = i + (k - i) \<and> (\<forall>m < k - i. \<not> P (i + m))"
      using r by auto
    then show ?L by blast
  qed
  finally show ?thesis .
qed

lemma find_upt_None_iff: "find P [i..<j] = None \<longleftrightarrow> (\<forall>k. i \<le> k \<and> k < j \<longrightarrow> \<not> P k)"
  by (auto simp: find_None_iff)

subsection \<open>Words\<close>

lemma unat_drop_bit: "unat (drop_bit n (w :: 'a :: len word)) = unat w div 2 ^ n"
  by (subst unat_drop_bit_eq) (simp only: drop_bit_eq_div)

lemma unat_ucast_up_u32_u64 [simp]: "unat (ucast (w :: u32) :: u64) = unat w"
proof -
  have "unat w < 2 ^ 32" using unsigned_less [of w, where ?'a = nat] by simp
  then show ?thesis by (simp add: unsigned_ucast_eq take_bit_nat_eq_self)
qed

text \<open>Bits of a double word put together from smaller words, least significant first.\<close>

lemma bit_pieces:
  fixes g :: "nat \<Rightarrow> 'b :: len word"
  assumes "LENGTH('b) * n \<le> 64"
  shows "bit (fold (\<lambda>i w. w OR push_bit (LENGTH('b) * i) (ucast (g i) :: u64)) [0..<n] 0) k
      \<longleftrightarrow> k < LENGTH('b) * n \<and> bit (g (k div LENGTH('b))) (k mod LENGTH('b))"
  using assms
proof (induction n)
  case (Suc n)
  let ?c = "LENGTH('b)"
  have "bit (push_bit (?c * n) (ucast (g n) :: u64)) k
      \<longleftrightarrow> ?c * n \<le> k \<and> k < ?c * Suc n \<and> bit (g (k div ?c)) (k mod ?c)"
  proof (cases "?c * n \<le> k \<and> k < ?c * Suc n")
    case True
    then have "k div ?c = n" by (metis div_nat_eqI mult.commute)
    moreover from this have "k mod ?c = k - ?c * n" using minus_mult_div_eq_mod [of k ?c] by simp
    ultimately show ?thesis using True Suc.prems by (auto simp: bit_push_bit_iff bit_ucast_iff)
  next
    case False
    then show ?thesis
      using bit_imp_le_length [of "g n" "k - ?c * n"] by (auto simp: bit_push_bit_iff bit_ucast_iff)
  qed
  then show ?case using Suc by (auto simp: bit_or_iff)
qed simp

end
