(* ===== verification/Lib_Ctype.thy ===== *)
theory Lib_Ctype
  imports Kernel_Prelude
begin

text \<open>
  Character classification: the table of \<open>lib/ctype.c\<close> and the macros of
  \<open>include/ctype.h\<close>. \<open>char\<close> is unsigned on this target, so the scratch variable
  \<open>_ctmp\<close> is a \<^typ>\<open>u8\<close>, and the value of the conversion macros is an \<open>int\<close>.
\<close>

subsection \<open>Class bits and table\<close>

definition ct_U :: u8 where "ct_U = 0x01"
definition ct_L :: u8 where "ct_L = 0x02"
definition ct_D :: u8 where "ct_D = 0x04"
definition ct_C :: u8 where "ct_C = 0x08"
definition ct_P :: u8 where "ct_P = 0x10"
definition ct_S :: u8 where "ct_S = 0x20"
definition ct_X :: u8 where "ct_X = 0x40"
definition ct_SP :: u8 where "ct_SP = 0x80"

lemmas ct_defs = ct_U_def ct_L_def ct_D_def ct_C_def ct_P_def ct_S_def ct_X_def ct_SP_def

definition ctype_table :: "u8 list" where
  "ctype_table =
     [0]
     @ replicate 8 ct_C
     @ [ct_C] @ replicate 5 (ct_C OR ct_S) @ replicate 2 ct_C
     @ replicate 16 ct_C
     @ [ct_S OR ct_SP] @ replicate 15 ct_P
     @ replicate 10 ct_D @ replicate 6 ct_P
     @ [ct_P] @ replicate 6 (ct_U OR ct_X) @ [ct_U]
     @ replicate 19 ct_U @ replicate 5 ct_P
     @ [ct_P] @ replicate 6 (ct_L OR ct_X) @ [ct_L]
     @ replicate 19 ct_L @ replicate 4 ct_P @ [ct_C]
     @ replicate 128 0"

text \<open>\<open>(_ctype+1)[c]\<close>, the lookup every macro makes.\<close>

definition ctype_at :: "u8 \<Rightarrow> u8" where
  "ctype_at c = ctype_table ! (unat c + 1)"

definition isupper :: "u8 \<Rightarrow> bool" where
  "isupper c \<longleftrightarrow> ctype_at c AND ct_U \<noteq> 0"

definition islower :: "u8 \<Rightarrow> bool" where
  "islower c \<longleftrightarrow> ctype_at c AND ct_L \<noteq> 0"

definition isdigit :: "u8 \<Rightarrow> bool" where
  "isdigit c \<longleftrightarrow> ctype_at c AND ct_D \<noteq> 0"

definition isxdigit :: "u8 \<Rightarrow> bool" where
  "isxdigit c \<longleftrightarrow> ctype_at c AND (ct_D OR ct_X) \<noteq> 0"

definition isspace :: "u8 \<Rightarrow> bool" where
  "isspace c \<longleftrightarrow> ctype_at c AND ct_S \<noteq> 0"

definition isalnum :: "u8 \<Rightarrow> bool" where
  "isalnum c \<longleftrightarrow> ctype_at c AND (ct_U OR ct_L OR ct_D) \<noteq> 0"

definition tolower :: "u8 \<Rightarrow> int" where
  "tolower c = (if isupper c then uint c + (97 + 65) else uint c)"

definition toupper :: "u8 \<Rightarrow> int" where
  "toupper c = (if islower c then uint c + (65 - 97) else uint c)"

end
