(* ===== verification/Lib_Ctype_Props.thy ===== *)
theory Lib_Ctype_Props
  imports Lib_Ctype
begin

text \<open>
  The classes encoded by the table of \<open>lib/ctype.c\<close> and the case conversions of \<open>ctype.h\<close>.
\<close>

subsection \<open>The classes the table encodes\<close>

text \<open>Every class is decided by evaluating the table on the 256 character codes.\<close>

lemma length_ctype_table: "length ctype_table = 257"
  by (simp add: ctype_table_def)

lemma u8_cases_below:
  assumes "list_all (\<lambda>n. P (word_of_nat n)) [0..<256]"
  shows "P (c :: u8)"
proof -
  have "unat c < 256" using unsigned_less [of c, where ?'a = nat] by simp
  moreover from assms have "\<forall>n < 256. P (word_of_nat n)" by (simp add: list_all_iff)
  ultimately have "P (word_of_nat (unat c))" by blast
  then show ?thesis by simp
qed

lemma isupper_iff: "isupper c \<longleftrightarrow> 65 \<le> c \<and> c \<le> 90"
  by (rule u8_cases_below [where c = c]) code_simp

lemma islower_iff: "islower c \<longleftrightarrow> 97 \<le> c \<and> c \<le> 122"
  by (rule u8_cases_below [where c = c]) code_simp

lemma isdigit_iff: "isdigit c \<longleftrightarrow> 48 \<le> c \<and> c \<le> 57"
  by (rule u8_cases_below [where c = c]) code_simp

subsection \<open>Case conversion\<close>

text \<open>\<open>toupper\<close> subtracts 32 from exactly the codes of the letters a to z and is the
  identity on every other character code.\<close>

theorem toupper_correct:
  "toupper c = (if 97 \<le> c \<and> c \<le> 122 then uint c - 32 else uint c)"
  by (simp add: toupper_def islower_iff)

text \<open>\<open>tolower\<close> adds the sum of the codes of 'a' and 'A' instead of their difference,
  so no upper-case letter is converted to a lower-case one: every result for A to Z is above 127.\<close>

theorem tolower_never_lower:
  assumes "isupper c"
  shows "tolower c = uint c + 162 \<and> tolower c \<noteq> uint c + 32
     \<and> \<not> islower (word_of_int (tolower c)) \<and> 127 < tolower c"
proof -
  have "isupper c \<longrightarrow> \<not> islower (word_of_int (tolower c)) \<and> 127 < tolower c"
    by (rule u8_cases_below [where c = c]) code_simp
  with assms show ?thesis by (simp add: tolower_def)
qed

theorem tolower_never_lower_witness:
  "isupper 65 \<and> tolower 65 = uint (65 :: u8) + 162 \<and> tolower 65 \<noteq> uint (65 :: u8) + 32
     \<and> \<not> islower (word_of_int (tolower 65)) \<and> 127 < tolower 65"
proof -
  have "isupper 65" by (simp add: isupper_iff)
  with tolower_never_lower [OF this] show ?thesis by blast
qed

end
