(* ===== verification/Lib_String.thy ===== *)
theory Lib_String
  imports Kernel_Prelude "HOL-Library.Sublist"
begin

text \<open>
  The string and memory routines of \<open>lib/string.c\<close> on an explicit byte memory. A pointer is
  an address (\<^typ>\<open>nat\<close>), the memory a function from addresses to bytes, so aliasing of source
  and destination is part of the model. A loop that scans for a NUL byte may run forever and is a
  \<open>partial_function (option)\<close>: \<open>None\<close> is "does not return". A routine that can return
  the null pointer returns an \<^typ>\<open>nat option\<close> (\<open>None\<close> for NULL). The routines whose
  C result type is \<open>size_t\<close> although the value is a signed byte difference return a
  \<^typ>\<open>u64\<close>, the conversion written out.
\<close>

type_synonym mem = "nat \<Rightarrow> u8"

subsection \<open>Copying and concatenating\<close>

partial_function (option) strcpy_loop :: "mem \<Rightarrow> nat \<Rightarrow> nat \<Rightarrow> mem option" where
  "strcpy_loop m dest src =
     (if m src \<noteq> 0 then strcpy_loop (m(dest := m src)) (dest + 1) (src + 1)
      else Some (m(dest := m src)))"

definition strcpy :: "mem \<Rightarrow> nat \<Rightarrow> nat \<Rightarrow> (nat \<times> mem) option" where
  "strcpy m dest src = map_option (\<lambda>m'. (dest, m')) (strcpy_loop m dest src)"

text \<open>\<open>while (count-- && (*dest++ = *src++) != 0);\<close> yields the memory, \<open>dest\<close> and \<open>count\<close>.\<close>

partial_function (option) copy_counted :: "mem \<Rightarrow> nat \<Rightarrow> nat \<Rightarrow> int \<Rightarrow> (mem \<times> nat \<times> int) option" where
  "copy_counted m dest src count =
     (if count = 0 then Some (m, dest, count - 1)
      else if m src \<noteq> 0 then copy_counted (m(dest := m src)) (dest + 1) (src + 1) (count - 1)
      else Some (m(dest := m src), dest + 1, count - 1))"

function fill_zero :: "mem \<Rightarrow> nat \<Rightarrow> int \<Rightarrow> mem" where
  "fill_zero m dest count =
     (if count > 0 then fill_zero (m(dest := 0)) (dest + 1) (count - 1) else m)"
  by pat_completeness auto
termination
  by (relation "measure (\<lambda>(m, dest, count). nat count)") auto

declare fill_zero.simps [simp del]

definition strncpy :: "mem \<Rightarrow> nat \<Rightarrow> nat \<Rightarrow> int \<Rightarrow> (nat \<times> mem) option" where
  "strncpy m dest src count =
     map_option (\<lambda>(m', d, c). (dest, fill_zero m' d c)) (copy_counted m dest src count)"

partial_function (option) scan_end :: "mem \<Rightarrow> nat \<Rightarrow> nat option" where
  "scan_end m s = (if m s \<noteq> 0 then scan_end m (s + 1) else Some s)"

definition strcat :: "mem \<Rightarrow> nat \<Rightarrow> nat \<Rightarrow> (nat \<times> mem) option" where
  "strcat m dest src =
     Option.bind (scan_end m dest) (\<lambda>d. map_option (\<lambda>m'. (dest, m')) (strcpy_loop m d src))"

definition strncat :: "mem \<Rightarrow> nat \<Rightarrow> nat \<Rightarrow> int \<Rightarrow> (nat \<times> mem) option" where
  "strncat m dest src count =
     Option.bind (scan_end m dest) (\<lambda>d.
       map_option (\<lambda>(m', d', c). (dest, m'(d' := 0))) (copy_counted m d src count))"

subsection \<open>Comparing\<close>

definition byte_diff :: "u8 \<Rightarrow> u8 \<Rightarrow> u64" where
  "byte_diff a b = word_of_int (uint a - uint b)"

partial_function (option) strcmp_loop :: "mem \<Rightarrow> nat \<Rightarrow> nat \<Rightarrow> u64 option" where
  "strcmp_loop m cs ct =
     (if m cs \<noteq> 0 \<and> m cs = m ct then strcmp_loop m (cs + 1) (ct + 1)
      else Some (byte_diff (m cs) (m ct)))"

definition strcmp :: "mem \<Rightarrow> nat \<Rightarrow> nat \<Rightarrow> u64 option" where
  "strcmp m cs ct = strcmp_loop m cs ct"

partial_function (option) strncmp_loop :: "mem \<Rightarrow> nat \<Rightarrow> nat \<Rightarrow> int \<Rightarrow> u64 option" where
  "strncmp_loop m cs ct count =
     (if count - 1 \<noteq> 0 \<and> m cs \<noteq> 0 \<and> m cs = m ct
      then strncmp_loop m (cs + 1) (ct + 1) (count - 1)
      else Some (byte_diff (m cs) (m ct)))"

definition strncmp :: "mem \<Rightarrow> nat \<Rightarrow> nat \<Rightarrow> int \<Rightarrow> u64 option" where
  "strncmp m cs ct count = (if count = 0 then Some 0 else strncmp_loop m cs ct count)"

subsection \<open>Searching\<close>

partial_function (option) strchr :: "mem \<Rightarrow> nat \<Rightarrow> u8 \<Rightarrow> nat option option" where
  "strchr m s c =
     (if m s \<noteq> c then (if m s = 0 then Some None else strchr m (s + 1) c)
      else Some (Some s))"

partial_function (option) strrchr_loop :: "mem \<Rightarrow> nat \<Rightarrow> u8 \<Rightarrow> nat option \<Rightarrow> nat option option" where
  "strrchr_loop m s c found =
     (if m s \<noteq> 0 then strrchr_loop m (s + 1) c (if m s = c then Some s else found)
      else Some (if m s = c then Some s else found))"

definition strrchr :: "mem \<Rightarrow> nat \<Rightarrow> u8 \<Rightarrow> nat option option" where
  "strrchr m s c = strrchr_loop m s c None"

text \<open>\<open>for (p = ct; *p && *p != *cs; ++p);\<close> yields \<open>p\<close>.\<close>

partial_function (option) scan_accept :: "mem \<Rightarrow> nat \<Rightarrow> u8 \<Rightarrow> nat option" where
  "scan_accept m p c = (if m p \<noteq> 0 \<and> m p \<noteq> c then scan_accept m (p + 1) c else Some p)"

partial_function (option) strspn_loop :: "mem \<Rightarrow> nat \<Rightarrow> nat \<Rightarrow> nat option" where
  "strspn_loop m cs ct =
     (if m cs \<noteq> 0
      then Option.bind (scan_accept m ct (m cs))
             (\<lambda>p. if m p = 0 then Some cs else strspn_loop m (cs + 1) ct)
      else Some cs)"

definition strspn :: "mem \<Rightarrow> nat \<Rightarrow> nat \<Rightarrow> nat option" where
  "strspn m cs ct = map_option (\<lambda>e. e - cs) (strspn_loop m cs ct)"

text \<open>\<open>for (p = ct; *p; ++p) if (*p == *cs) return ...;\<close> tells whether the return was taken.\<close>

partial_function (option) scan_member :: "mem \<Rightarrow> nat \<Rightarrow> u8 \<Rightarrow> bool option" where
  "scan_member m p c =
     (if m p \<noteq> 0 then (if m p = c then Some True else scan_member m (p + 1) c) else Some False)"

partial_function (option) strcspn_loop :: "mem \<Rightarrow> nat \<Rightarrow> nat \<Rightarrow> nat option" where
  "strcspn_loop m cs ct =
     (if m cs \<noteq> 0
      then Option.bind (scan_member m ct (m cs))
             (\<lambda>hit. if hit then Some cs else strcspn_loop m (cs + 1) ct)
      else Some cs)"

definition strcspn :: "mem \<Rightarrow> nat \<Rightarrow> nat \<Rightarrow> nat option" where
  "strcspn m cs ct = map_option (\<lambda>e. e - cs) (strcspn_loop m cs ct)"

partial_function (option) strpbrk :: "mem \<Rightarrow> nat \<Rightarrow> nat \<Rightarrow> nat option option" where
  "strpbrk m cs ct =
     (if m cs \<noteq> 0
      then Option.bind (scan_member m ct (m cs))
             (\<lambda>hit. if hit then Some (Some cs) else strpbrk m (cs + 1) ct)
      else Some None)"

text \<open>\<open>while (*p2 && *p1 == *p2) { p1++; p2++; }\<close> yields \<open>p2\<close>.\<close>

partial_function (option) match_prefix :: "mem \<Rightarrow> nat \<Rightarrow> nat \<Rightarrow> nat option" where
  "match_prefix m p1 p2 =
     (if m p2 \<noteq> 0 \<and> m p1 = m p2 then match_prefix m (p1 + 1) (p2 + 1) else Some p2)"

partial_function (option) strstr_loop :: "mem \<Rightarrow> nat \<Rightarrow> nat \<Rightarrow> nat option option" where
  "strstr_loop m cs ct =
     (if m cs \<noteq> 0
      then Option.bind (match_prefix m cs ct)
             (\<lambda>p2. if m p2 = 0 then Some (Some cs) else strstr_loop m (cs + 1) ct)
      else Some None)"

definition strstr :: "mem \<Rightarrow> nat \<Rightarrow> nat \<Rightarrow> nat option option" where
  "strstr m cs ct = (if m ct = 0 then Some (Some cs) else strstr_loop m cs ct)"

definition strlen :: "mem \<Rightarrow> nat \<Rightarrow> nat option" where
  "strlen m s = map_option (\<lambda>sc. sc - s) (scan_end m s)"

function strnlen_loop :: "mem \<Rightarrow> nat \<Rightarrow> nat \<Rightarrow> nat \<Rightarrow> nat" where
  "strnlen_loop m s maxlen len =
     (if len < maxlen \<and> m (s + len) \<noteq> 0 then strnlen_loop m s maxlen (len + 1) else len)"
  by pat_completeness auto
termination
  by (relation "measure (\<lambda>(m, s, maxlen, len). maxlen - len)") auto

declare strnlen_loop.simps [simp del]

definition strnlen :: "mem \<Rightarrow> nat \<Rightarrow> nat \<Rightarrow> nat" where
  "strnlen m s maxlen = strnlen_loop m s maxlen 0"

text \<open>\<open>strtok\<close> keeps the static pointer \<open>olds\<close>; the state is (memory, \<open>olds\<close>).\<close>

definition strtok :: "mem \<Rightarrow> nat option \<Rightarrow> nat option \<Rightarrow> nat \<Rightarrow> (nat option \<times> mem \<times> nat option) option" where
  "strtok m olds s ct =
     (case (case s of Some p \<Rightarrow> Some p | None \<Rightarrow> olds) of
        None \<Rightarrow> Some (None, m, olds)
      | Some s1 \<Rightarrow>
          Option.bind (strspn m s1 ct) (\<lambda>n.
            let token = s1 + n in
            if m token = 0 then Some (None, m, None)
            else Option.bind (strpbrk m token ct) (\<lambda>r.
              case r of
                None \<Rightarrow> Some (Some token, m, None)
              | Some e \<Rightarrow> Some (Some token, m(e := 0), Some (e + 1)))))"

subsection \<open>Raw memory\<close>

primrec memcpy :: "mem \<Rightarrow> nat \<Rightarrow> nat \<Rightarrow> nat \<Rightarrow> mem" where
  "memcpy m dp sp 0 = m"
| "memcpy m dp sp (Suc n) = memcpy (m(dp := m sp)) (dp + 1) (sp + 1) n"

text \<open>The backward loop of \<open>memmove\<close> runs from the end: \<open>*--dp = *--sp\<close>.\<close>

primrec memcpy_back :: "mem \<Rightarrow> nat \<Rightarrow> nat \<Rightarrow> nat \<Rightarrow> mem" where
  "memcpy_back m d s 0 = m"
| "memcpy_back m d s (Suc n) = memcpy_back (m(d + n := m (s + n))) d s n"

definition memmove :: "mem \<Rightarrow> nat \<Rightarrow> nat \<Rightarrow> nat \<Rightarrow> mem" where
  "memmove m dest src n = (if dest < src then memcpy m dest src n else memcpy_back m dest src n)"

primrec memcmp :: "mem \<Rightarrow> nat \<Rightarrow> nat \<Rightarrow> nat \<Rightarrow> u64" where
  "memcmp m p1 p2 0 = 0"
| "memcmp m p1 p2 (Suc n) =
     (if m p1 \<noteq> m p2 then byte_diff (m p1) (m p2) else memcmp m (p1 + 1) (p2 + 1) n)"

primrec memchr :: "mem \<Rightarrow> nat \<Rightarrow> u8 \<Rightarrow> nat \<Rightarrow> nat option" where
  "memchr m p c 0 = None"
| "memchr m p c (Suc n) = (if m p = c then Some p else memchr m (p + 1) c n)"

primrec memset :: "mem \<Rightarrow> nat \<Rightarrow> u8 \<Rightarrow> nat \<Rightarrow> mem" where
  "memset m s c 0 = m"
| "memset m s c (Suc n) = memset (m(s := c)) (s + 1) c n"

subsection \<open>Specification vocabulary\<close>

text \<open>\<open>cstr m p xs\<close>: the NUL-terminated string at \<open>p\<close> has the characters \<open>xs\<close>.\<close>

primrec cstr :: "mem \<Rightarrow> nat \<Rightarrow> u8 list \<Rightarrow> bool" where
  "cstr m p [] \<longleftrightarrow> m p = 0"
| "cstr m p (x # xs) \<longleftrightarrow> m p = x \<and> x \<noteq> 0 \<and> cstr m (p + 1) xs"

text \<open>Two memories agree outside the \<open>n\<close> bytes from \<open>d\<close>.\<close>

definition same_outside :: "nat \<Rightarrow> nat \<Rightarrow> mem \<Rightarrow> mem \<Rightarrow> bool" where
  "same_outside d n m m' \<longleftrightarrow> (\<forall>a. a < d \<or> d + n \<le> a \<longrightarrow> m' a = m a)"

subsection \<open>Strings in memory\<close>

lemma cstr_cong:
  "(\<And>a. p \<le> a \<Longrightarrow> a \<le> p + length xs \<Longrightarrow> m' a = m a) \<Longrightarrow> cstr m' p xs = cstr m p xs"
proof (induction xs arbitrary: p)
  case Nil
  then show ?case by simp
next
  case (Cons x xs)
  have "cstr m' (p + 1) xs = cstr m (p + 1) xs"
    by (rule Cons.IH) (use Cons.prems in auto)
  moreover have "m' p = m p" using Cons.prems [of p] by simp
  ultimately show ?case by simp
qed

lemma cstr_upd: "d < p \<or> p + length xs < d \<Longrightarrow> cstr (m(d := c)) p xs = cstr m p xs"
  by (rule cstr_cong) auto

lemma cstr_iff:
  "cstr m p xs \<longleftrightarrow> (\<forall>i < length xs. m (p + i) = xs ! i) \<and> 0 \<notin> set xs \<and> m (p + length xs) = 0"
  by (induction xs arbitrary: p) (auto simp: All_less_Suc2)

lemma cstr_unique: "cstr m p xs \<Longrightarrow> cstr m p ys \<Longrightarrow> xs = ys"
proof (induction xs arbitrary: p ys)
  case Nil
  then show ?case by (cases ys) auto
next
  case (Cons x xs)
  then show ?case by (cases ys) auto
qed

lemma scan_end_cstr: "cstr m p xs \<Longrightarrow> scan_end m p = Some (p + length xs)"
  by (induction xs arbitrary: p) (simp_all add: scan_end.simps)

lemma strcpy_loop_cstr:
  assumes "cstr m s xs" and "d \<le> s \<or> s + length xs < d"
  shows "\<exists>m'. strcpy_loop m d s = Some m' \<and> cstr m' d xs \<and> same_outside d (length xs + 1) m m'"
  using assms
proof (induction xs arbitrary: m d s)
  case Nil
  then show ?case by (simp add: strcpy_loop.simps same_outside_def)
next
  case (Cons x xs)
  let ?m = "m(d := m s)"
  have c: "cstr ?m (s + 1) xs" using Cons.prems by (auto simp: cstr_upd)
  have le: "d + 1 \<le> s + 1 \<or> s + 1 + length xs < d + 1" using Cons.prems(2) by auto
  obtain m' where m': "strcpy_loop ?m (d + 1) (s + 1) = Some m'" "cstr m' (d + 1) xs"
      "same_outside (d + 1) (length xs + 1) ?m m'"
    using Cons.IH [OF c le] by blast
  have "strcpy_loop m d s = Some m'"
    using Cons.prems(1) m'(1) by (subst strcpy_loop.simps) simp
  moreover have "cstr m' d (x # xs)"
    using Cons.prems(1) m'(2,3) by (simp add: same_outside_def)
  moreover have "same_outside d (length (x # xs) + 1) m m'"
    using m'(3) by (auto simp: same_outside_def)
  ultimately show ?case by blast
qed

lemma copy_counted_cstr:
  assumes "cstr m s xs" and "d \<le> s \<or> s + length xs < d"
  shows "\<exists>m'. copy_counted m d s (int n) =
           Some (m', d + min n (length xs + 1), if n \<le> length xs then -1 else int n - int (length xs) - 1)
         \<and> (\<forall>i < min n (length xs + 1). m' (d + i) = (xs @ [0]) ! i)
         \<and> same_outside d (min n (length xs + 1)) m m'"
  using assms
proof (induction xs arbitrary: m d s n)
  case Nil
  then show ?case
    by (cases n) (auto simp: copy_counted.simps same_outside_def)
next
  case (Cons x xs)
  show ?case
  proof (cases n)
    case 0
    then show ?thesis by (simp add: copy_counted.simps same_outside_def)
  next
    case (Suc k)
    let ?m = "m(d := m s)"
    let ?l = "min k (length xs + 1)"
    have c: "cstr ?m (s + 1) xs" using Cons.prems by (auto simp: cstr_upd)
    have le: "d + 1 \<le> s + 1 \<or> s + 1 + length xs < d + 1" using Cons.prems(2) by auto
    obtain m' where m': "copy_counted ?m (d + 1) (s + 1) (int k) =
          Some (m', d + 1 + ?l, if k \<le> length xs then -1 else int k - int (length xs) - 1)"
        "\<forall>i < ?l. m' (d + 1 + i) = (xs @ [0]) ! i" "same_outside (d + 1) ?l ?m m'"
      using Cons.IH [OF c le, of k] by blast
    have "copy_counted m d s (int n) = copy_counted ?m (d + 1) (s + 1) (int k)"
      using Cons.prems(1) Suc by (subst copy_counted.simps) simp
    moreover have "\<forall>i < Suc ?l. m' (d + i) = ((x # xs) @ [0]) ! i"
      using m'(2,3) Cons.prems(1) by (auto simp: All_less_Suc2 same_outside_def)
    moreover have "same_outside d (Suc ?l) m m'"
      using m'(3) by (auto simp: same_outside_def)
    moreover have "min n (length (x # xs) + 1) = Suc ?l" using Suc by simp
    ultimately show ?thesis using m'(1) Suc by (auto simp: add.assoc)
  qed
qed

lemma fill_zero_eq:
  "fill_zero m d c = (\<lambda>a. if d \<le> a \<and> int a < int d + c then 0 else m a)"
proof (induction m d c rule: fill_zero.induct)
  case (1 m d c)
  show ?case
  proof (cases "c > 0")
    case True
    then have "fill_zero m d c = fill_zero (m(d := 0)) (d + 1) (c - 1)"
      by (subst fill_zero.simps) simp
    also have "\<dots> = (\<lambda>a. if d \<le> a \<and> int a < int d + c then 0 else m a)"
      unfolding "1.IH" [OF True] using True by (auto simp: fun_eq_iff)
    finally show ?thesis .
  next
    case False
    then show ?thesis by (subst fill_zero.simps) (auto simp: fun_eq_iff)
  qed
qed

subsection \<open>Raw memory in closed form\<close>

lemma find_map_aux: "find P (map f xs) = map_option f (find (P \<circ> f) xs)"
  by (induction xs) auto

lemma memcpy_eq:
  "d \<le> s \<or> s + n \<le> d \<Longrightarrow>
   memcpy m d s n = (\<lambda>a. if d \<le> a \<and> a < d + n then m (s + (a - d)) else m a)"
proof (induction n arbitrary: m d s)
  case 0
  then show ?case by (auto simp: fun_eq_iff)
next
  case (Suc n)
  then have le: "d + 1 \<le> s + 1 \<or> s + 1 + n \<le> d + 1" by auto
  have shift: "s + 1 + (a - (d + 1)) = s + (a - d)" if "d < a" for a
    using that by simp
  show ?case
    unfolding memcpy.simps Suc.IH [OF le]
    using Suc.prems
    by (intro ext) (auto simp: shift simp del: add_Suc add_Suc_right add_Suc_shift One_nat_def)
qed

lemma memcpy_back_eq:
  "s \<le> d \<or> d + n \<le> s \<Longrightarrow>
   memcpy_back m d s n = (\<lambda>a. if d \<le> a \<and> a < d + n then m (s + (a - d)) else m a)"
proof (induction n arbitrary: m)
  case 0
  then show ?case by (auto simp: fun_eq_iff)
next
  case (Suc n)
  then have le: "s \<le> d \<or> d + n \<le> s" by auto
  show ?case
    unfolding memcpy_back.simps Suc.IH [OF le]
    using Suc.prems by (auto simp: fun_eq_iff)
qed

lemma memset_eq: "memset m s c n = (\<lambda>a. if s \<le> a \<and> a < s + n then c else m a)"
  by (induction n arbitrary: m s) (auto simp: fun_eq_iff)

lemma sint_byte_diff: "sint (byte_diff a b) = uint a - uint b"
proof -
  have "uint a < 256" "uint b < 256" "0 \<le> uint a" "0 \<le> uint b"
    using uint_lt2p [of a] uint_lt2p [of b] by simp_all
  then have "- 9223372036854775808 \<le> uint a - uint b" and "uint a - uint b < 9223372036854775808"
    by linarith+
  then show ?thesis
    unfolding byte_diff_def sint_sbintrunc' by (intro signed_take_bit_int_eq_self) simp_all
qed

lemma byte_diff_eq_0_iff: "byte_diff a b = 0 \<longleftrightarrow> a = b"
  by (metis byte_diff_def cancel_comm_monoid_add_class.diff_cancel eq_iff_diff_eq_0
      sint_byte_diff sint_0 of_int_0 uint_word_of_int_eq word_uint_eqI)

lemma memcmp_eq_0_iff: "memcmp m p q n = 0 \<longleftrightarrow> (\<forall>i < n. m (p + i) = m (q + i))"
  by (induction n arbitrary: p q) (auto simp: byte_diff_eq_0_iff All_less_Suc2)

lemma memchr_eq: "memchr m p c n = map_option ((+) p) (find (\<lambda>i. m (p + i) = c) [0..<n])"
proof (induction n arbitrary: p)
  case 0
  then show ?case by simp
next
  case (Suc n)
  have "find (\<lambda>i. m (p + i) = c) [0..<Suc n] =
     (if m p = c then Some 0 else map_option Suc (find (\<lambda>i. m (p + 1 + i) = c) [0..<n]))"
    by (simp add: upt_conv_Cons find_map_aux comp_def flip: map_Suc_upt del: upt_Suc)
  then show ?case by (simp add: Suc.IH option.map_comp comp_def)
qed

subsection \<open>Scanning routines on terminated strings\<close>

lemma uint_pos_iff: "0 < uint (x :: u8) \<longleftrightarrow> x \<noteq> 0"
  using word_gt_0 [of x] by (simp add: word_less_def)

lemma strcmp_loop_cstr:
  assumes "cstr m p xs" and "cstr m q ys"
  shows "\<exists>r. strcmp_loop m p q = Some r \<and> (r = 0 \<longleftrightarrow> xs = ys)
     \<and> (sint r < 0 \<longleftrightarrow> (xs, ys) \<in> lexord {(a, b). a < b})"
  using assms
proof (induction xs arbitrary: p q ys)
  case Nil
  then show ?case
    by (cases ys)
      (auto simp: strcmp_loop.simps byte_diff_eq_0_iff sint_byte_diff uint_pos_iff)
next
  case (Cons x xs)
  show ?case
  proof (cases ys)
    case Nil
    with Cons.prems show ?thesis
      by (auto simp: strcmp_loop.simps byte_diff_eq_0_iff sint_byte_diff)
  next
    case (Cons y zs)
    show ?thesis
    proof (cases "x = y")
      case True
      have "strcmp_loop m p q = strcmp_loop m (p + 1) (q + 1)"
        using Cons.prems Cons True by (subst strcmp_loop.simps) simp
      then show ?thesis
        using Cons.IH [of "p + 1" "q + 1" zs] Cons.prems Cons True by auto
    next
      case False
      have "strcmp_loop m p q = Some (byte_diff x y)"
        using Cons.prems Cons False by (subst strcmp_loop.simps) auto
      then show ?thesis
        using Cons False by (auto simp: byte_diff_eq_0_iff sint_byte_diff word_less_def)
    qed
  qed
qed

lemma strncmp_loop_cstr:
  assumes "cstr m p xs" and "cstr m q ys" and "0 < n"
  shows "\<exists>r. strncmp_loop m p q (int n) = Some r \<and> (r = 0 \<longleftrightarrow> take n xs = take n ys)"
  using assms
proof (induction xs arbitrary: p q ys n)
  case Nil
  then show ?case
    by (cases ys; cases n) (auto simp: strncmp_loop.simps byte_diff_eq_0_iff)
next
  case (Cons x xs)
  obtain k where n: "n = Suc k" using Cons.prems(3) by (cases n) auto
  show ?case
  proof (cases "k \<noteq> 0 \<and> m p = m q")
    case True
    then obtain zs where ys: "ys = x # zs" using Cons.prems by (cases ys) auto
    have "strncmp_loop m p q (int n) = strncmp_loop m (p + 1) (q + 1) (int k)"
      using Cons.prems True n by (subst strncmp_loop.simps) auto
    then show ?thesis
      using Cons.IH [of "p + 1" "q + 1" zs k] Cons.prems True n ys by auto
  next
    case False
    have "strncmp_loop m p q (int n) = Some (byte_diff (m p) (m q))"
      using False n by (subst strncmp_loop.simps) auto
    then show ?thesis
      using Cons.prems False n by (cases ys) (auto simp: byte_diff_eq_0_iff)
  qed
qed

lemma scan_member_cstr: "cstr m q ys \<Longrightarrow> scan_member m q c = Some (c \<in> set ys)"
  by (induction ys arbitrary: q) (auto simp: scan_member.simps)

lemma scan_accept_cstr:
  "cstr m q ys \<Longrightarrow> c \<noteq> 0 \<Longrightarrow> \<exists>e. scan_accept m q c = Some e \<and> (m e = 0 \<longleftrightarrow> c \<notin> set ys)"
proof (induction ys arbitrary: q)
  case Nil
  then show ?case by (simp add: scan_accept.simps)
next
  case (Cons y ys)
  show ?case
  proof (cases "y = c")
    case True
    with Cons.prems show ?thesis by (simp add: scan_accept.simps)
  next
    case False
    have "scan_accept m q c = scan_accept m (q + 1) c"
      using Cons.prems False by (subst scan_accept.simps) simp
    with Cons.IH [of "q + 1"] Cons.prems False show ?thesis by auto
  qed
qed

lemma strspn_loop_cstr:
  assumes "cstr m p xs" and "cstr m q ys"
  shows "strspn_loop m p q = Some (p + length (takeWhile (\<lambda>c. c \<in> set ys) xs))"
  using assms(1)
proof (induction xs arbitrary: p)
  case Nil
  then show ?case by (simp add: strspn_loop.simps)
next
  case (Cons x xs)
  obtain e where e: "scan_accept m q x = Some e" "m e = 0 \<longleftrightarrow> x \<notin> set ys"
    using scan_accept_cstr [OF assms(2), of x] Cons.prems by auto
  have "strspn_loop m p q = (if m e = 0 then Some p else strspn_loop m (p + 1) q)"
    using Cons.prems e(1) by (subst strspn_loop.simps) simp
  then show ?case using Cons.IH [of "p + 1"] Cons.prems e(2) by auto
qed

lemma strcspn_loop_cstr:
  assumes "cstr m p xs" and "cstr m q ys"
  shows "strcspn_loop m p q = Some (p + length (takeWhile (\<lambda>c. c \<notin> set ys) xs))"
  using assms(1)
proof (induction xs arbitrary: p)
  case Nil
  then show ?case by (simp add: strcspn_loop.simps)
next
  case (Cons x xs)
  have "strcspn_loop m p q = (if x \<in> set ys then Some p else strcspn_loop m (p + 1) q)"
    using Cons.prems by (subst strcspn_loop.simps) (simp add: scan_member_cstr [OF assms(2)])
  then show ?case using Cons.IH [of "p + 1"] Cons.prems by auto
qed

lemma strpbrk_cstr:
  assumes "cstr m p xs" and "cstr m q ys"
  shows "strpbrk m p q = Some (if set xs \<inter> set ys = {} then None
           else Some (p + length (takeWhile (\<lambda>c. c \<notin> set ys) xs)))"
  using assms(1)
proof (induction xs arbitrary: p)
  case Nil
  then show ?case by (simp add: strpbrk.simps)
next
  case (Cons x xs)
  have "strpbrk m p q = (if x \<in> set ys then Some (Some p) else strpbrk m (p + 1) q)"
    using Cons.prems by (subst strpbrk.simps) (simp add: scan_member_cstr [OF assms(2)])
  then show ?case using Cons.IH [of "p + 1"] Cons.prems by auto
qed

lemma match_prefix_cstr:
  "cstr m p xs \<Longrightarrow> cstr m q ys \<Longrightarrow>
   \<exists>e. match_prefix m p q = Some e \<and> (m e = 0 \<longleftrightarrow> prefix ys xs)"
proof (induction ys arbitrary: p q xs)
  case Nil
  then show ?case by (simp add: match_prefix.simps)
next
  case (Cons y ys)
  show ?case
  proof (cases "m p = y")
    case True
    then obtain zs where xs: "xs = y # zs" using Cons.prems by (cases xs) auto
    have "match_prefix m p q = match_prefix m (p + 1) (q + 1)"
      using Cons.prems True by (subst match_prefix.simps) simp
    then show ?thesis using Cons.IH [of "p + 1" zs "q + 1"] Cons.prems xs by auto
  next
    case False
    have "match_prefix m p q = Some q"
      using Cons.prems False by (subst match_prefix.simps) simp
    then show ?thesis using Cons.prems False by (cases xs) auto
  qed
qed

lemma find_upt_Suc_shift:
  "find P [0..<Suc n] = (if P 0 then Some 0 else map_option Suc (find (\<lambda>i. P (Suc i)) [0..<n]))"
  by (simp add: upt_conv_Cons find_map_aux comp_def flip: map_Suc_upt del: upt_Suc)

lemma strstr_loop_cstr:
  assumes "cstr m p xs" and "cstr m q ys" and "ys \<noteq> []"
  shows "strstr_loop m p q =
           Some (map_option ((+) p) (find (\<lambda>i. prefix ys (drop i xs)) [0..<Suc (length xs)]))"
  using assms(1)
proof (induction xs arbitrary: p)
  case Nil
  with assms(3) show ?case by (simp add: strstr_loop.simps)
next
  case (Cons x xs)
  obtain e where e: "match_prefix m p q = Some e" "m e = 0 \<longleftrightarrow> prefix ys (x # xs)"
    using match_prefix_cstr [OF Cons.prems assms(2)] by blast
  have "strstr_loop m p q = (if m e = 0 then Some (Some p) else strstr_loop m (p + 1) q)"
    using Cons.prems e(1) by (subst strstr_loop.simps) simp
  also have "\<dots> = Some (map_option ((+) p)
      (find (\<lambda>i. prefix ys (drop i (x # xs))) [0..<Suc (length (x # xs))]))"
    using Cons.IH [of "p + 1"] Cons.prems e(2)
    by (simp add: find_upt_Suc_shift [of _ "Suc (length xs)"] option.map_comp comp_def del: upt_Suc)
  finally show ?case .
qed

subsection \<open>What the routines guarantee\<close>

text \<open>C38: \<open>memmove\<close> copies the \<open>n\<close> source bytes as they were before the call, for every
  overlap of source and destination, and changes no other byte.\<close>

theorem memmove_correct:
  "memmove m dest src n a = (if dest \<le> a \<and> a < dest + n then m (src + (a - dest)) else m a)"
  by (cases "dest < src") (simp_all add: memmove_def memcpy_eq memcpy_back_eq)

text \<open>\<open>strcpy\<close> of a terminated string returns, leaves the same string at the destination
  and changes no byte outside the string and its terminator, provided the destination does not
  start inside the source string.\<close>

theorem strcpy_copies:
  assumes "cstr m src xs" and "dest \<le> src \<or> src + length xs < dest"
  shows "\<exists>m'. strcpy m dest src = Some (dest, m') \<and> cstr m' dest xs
           \<and> same_outside dest (length xs + 1) m m'"
  using strcpy_loop_cstr [OF assms] by (auto simp: strcpy_def)

theorem strcpy_copies_witness:
  "\<exists>m'. strcpy ((\<lambda>_. 0)(5 := 104, 6 := 105)) 4 5 = Some (4, m') \<and> cstr m' 4 [104, 105]
     \<and> same_outside 4 (length [104 :: u8, 105] + 1) ((\<lambda>_. 0)(5 := 104, 6 := 105)) m'"
  using strcpy_copies [of "(\<lambda>_. 0)(5 := 104, 6 := 105)" 5 "[104, 105]" 4] by simp

text \<open>\<open>strcmp\<close> of two terminated strings returns; the result is 0 exactly for equal
  strings, and read as a signed number it is negative exactly when the first string comes first in
  byte-wise lexicographic order.\<close>

theorem strcmp_order:
  assumes "cstr m p xs" and "cstr m q ys"
  shows "\<exists>r. strcmp m p q = Some r \<and> (r = 0 \<longleftrightarrow> xs = ys)
     \<and> (sint r < 0 \<longleftrightarrow> (xs, ys) \<in> lexord {(a, b). a < b})"
  unfolding strcmp_def by (rule strcmp_loop_cstr [OF assms])

theorem strcmp_order_witness:
  "\<exists>r. strcmp ((\<lambda>_. 0)(1 := 97, 3 := 98)) 1 3 = Some r \<and> (r = 0 \<longleftrightarrow> [97] = [98 :: u8])
     \<and> (sint r < 0 \<longleftrightarrow> ([97 :: u8], [98]) \<in> lexord {(a, b). a < b})"
  using strcmp_order [of "(\<lambda>_. 0)(1 := 97, 3 := 98)" 1 "[97]" 3 "[98]"] by simp

text \<open>\<open>strstr\<close> returns the address of the first occurrence of the second string in the
  first one, NULL when there is none, and the first string itself when the second is empty.\<close>

theorem strstr_first_occurrence:
  assumes "cstr m p xs" and "cstr m q ys"
  shows "strstr m p q =
     Some (map_option ((+) p) (find (\<lambda>i. prefix ys (drop i xs)) [0..<Suc (length xs)]))"
proof (cases "ys = []")
  case True
  with assms(2) show ?thesis by (simp add: strstr_def find_upt_Suc_shift del: upt_Suc)
next
  case False
  with assms(2) have "m q \<noteq> 0" by (cases ys) auto
  then show ?thesis
    unfolding strstr_def using strstr_loop_cstr [OF assms False] by simp
qed

theorem strstr_first_occurrence_witness:
  "strstr ((\<lambda>_. 0)(1 := 97, 2 := 98, 4 := 98)) 1 4 = Some (Some 2)"
proof -
  have "cstr ((\<lambda>_. 0)(1 := 97, 2 := 98, 4 := 98)) 1 [97, 98]"
    and "cstr ((\<lambda>_. 0)(1 := 97, 2 := 98, 4 := 98)) 4 [98]" by simp_all
  from strstr_first_occurrence [OF this] show ?thesis
    by (simp add: upt_conv_Cons)
qed

text \<open>\<open>strncpy\<close> fills exactly \<open>n\<close> destination bytes: the source characters, cut at
  \<open>n\<close>, then NUL bytes.\<close>

theorem strncpy_pads:
  assumes "cstr m src xs" and "dest \<le> src \<or> src + length xs < dest"
  shows "\<exists>m'. strncpy m dest src (int n) = Some (dest, m')
     \<and> (\<forall>i < n. m' (dest + i) = (if i < length xs then xs ! i else 0))
     \<and> same_outside dest n m m'"
proof -
  let ?k = "min n (length xs + 1)"
  obtain m1 where m1: "copy_counted m dest src (int n) = Some (m1, dest + ?k,
        if n \<le> length xs then -1 else int n - int (length xs) - 1)"
      "\<forall>i < ?k. m1 (dest + i) = (xs @ [0]) ! i" "same_outside dest ?k m m1"
    using copy_counted_cstr [OF assms] by blast
  define m' where "m' = fill_zero m1 (dest + ?k) (if n \<le> length xs then -1 else int n - int (length xs) - 1)"
  have eq: "strncpy m dest src (int n) = Some (dest, m')"
    using m1(1) by (simp add: strncpy_def m'_def)
  have "m' (dest + i) = (if i < length xs then xs ! i else 0)" if "i < n" for i
    using m1(2) that by (auto simp: m'_def fill_zero_eq nth_append not_less)
  moreover have "same_outside dest n m m'"
    using m1(3) by (auto simp: m'_def fill_zero_eq same_outside_def min_def)
  ultimately show ?thesis using eq by blast
qed

theorem strncpy_pads_witness:
  "\<exists>m'. strncpy ((\<lambda>_. 7)(5 := 104, 6 := 0)) 9 5 3 = Some (9, m')
     \<and> (\<forall>i < 3. m' (9 + i) = (if i < 1 then [104] ! i else 0))
     \<and> same_outside 9 3 ((\<lambda>_. 7)(5 := 104, 6 := 0)) m'"
  using strncpy_pads [of "(\<lambda>_. 7)(5 := 104, 6 := 0)" 5 "[104]" 9 3] by simp

text \<open>\<open>strncat\<close> appends the source string, but when the source is shorter than
  \<open>count\<close> it stores one NUL byte more than the result needs: the byte after the
  terminator is overwritten too.\<close>

theorem strncat_extra_nul:
  assumes "cstr m dest xs" and "cstr m src ys" and "length ys < n"
    and "dest + length xs \<le> src \<or> src + length ys < dest + length xs"
  shows "\<exists>m'. strncat m dest src (int n) = Some (dest, m') \<and> cstr m' dest (xs @ ys)
     \<and> m' (dest + length xs + length ys + 1) = 0"
proof -
  let ?d = "dest + length xs"
  obtain m1 where m1: "copy_counted m ?d src (int n) =
        Some (m1, ?d + (length ys + 1), int n - int (length ys) - 1)"
      "\<forall>i < length ys + 1. m1 (?d + i) = (ys @ [0]) ! i" "same_outside ?d (length ys + 1) m m1"
    using copy_counted_cstr [OF assms(2,4), of n] assms(3) by (auto simp: min_absorb2)
  let ?m' = "m1(?d + (length ys + 1) := 0)"
  have "strncat m dest src (int n) = Some (dest, ?m')"
    using m1(1) by (simp add: strncat_def scan_end_cstr [OF assms(1)])
  moreover have "cstr ?m' dest (xs @ ys)"
  proof -
    have "m1 (dest + i) = ys ! (i - length xs)" if "length xs \<le> i" "i < length xs + length ys" for i
      using m1(2) [rule_format, of "i - length xs"] that
      by (simp add: nth_append less_diff_conv2)
    then show ?thesis
      using assms(1,2) m1(2,3)
      by (auto simp: cstr_iff nth_append same_outside_def add.assoc All_less_Suc not_less)
  qed
  ultimately show ?thesis by (auto simp: add.assoc)
qed

theorem strncat_extra_nul_witness:
  "\<exists>m'. strncat ((\<lambda>_. 7)(1 := 97, 2 := 0, 10 := 98, 11 := 0)) 1 10 5 = Some (1, m')
     \<and> cstr m' 1 [97, 98] \<and> m' (1 + 1 + 1 + 1) = 0"
  using strncat_extra_nul [of "(\<lambda>_. 7)(1 := 97, 2 := 0, 10 := 98, 11 := 0)" 1 "[97]" 10 "[98]" 5]
  by simp

end
