(* ===== verification/Vsprintf.thy ===== *)
theory Vsprintf
  imports Lib_String "HOL-Library.Sublist"
begin

text \<open>
  \<open>kernel/vsprintf.c\<close>: the formatter behind \<open>printk\<close>. The output cursor \<open>str\<close> is an
  address; the model's emitter state is the pair (memory, \<open>str\<close>), and every \<open>if (str <= end)
  *str = c; ++str;\<close> of the source is one \<open>put\<close>. The format is the list of its bytes before
  the NUL (the current character of the empty list is NUL), the variable arguments are the list of
  their 64-bit slots, and \<open>None\<close> is a call whose behaviour C leaves undefined: an argument
  list that is too short, a value that leaves the type \<open>int\<close>, or a cursor that leaves the address space.
\<close>

subsection \<open>Digits\<close>

definition do_div :: "u64 \<Rightarrow> u32 \<Rightarrow> u32 \<times> u64" where
  "do_div n base = (ucast (n mod ucast base), n div ucast base)"

text \<open>The values of the type \<open>int\<close>.\<close>

definition in_int :: "int \<Rightarrow> bool" where
  "in_int i \<longleftrightarrow> - (2 ^ 31) \<le> i \<and> i < 2 ^ 31"

text \<open>\<open>skip_atoi\<close> returns the value and the rest of the format; \<open>None\<close> if \<open>i*10 + c\<close> overflows.\<close>

fun skip_atoi_loop :: "int \<Rightarrow> u8 list \<Rightarrow> (int \<times> u8 list) option" where
  "skip_atoi_loop i [] = Some (i, [])"
| "skip_atoi_loop i (c # s) =
     (if 48 \<le> c \<and> c \<le> 57
      then if in_int (i * 10 + uint c) then skip_atoi_loop (i * 10 + uint c - 48) s else None
      else Some (i, c # s))"

definition skip_atoi :: "u8 list \<Rightarrow> (int \<times> u8 list) option" where
  "skip_atoi s = skip_atoi_loop 0 s"

definition ZEROPAD :: u32 where "ZEROPAD = 1"
definition SIGN :: u32 where "SIGN = 2"
definition PLUS :: u32 where "PLUS = 4"
definition SPACE :: u32 where "SPACE = 8"
definition F_LEFT :: u32 where "F_LEFT = 16"
definition SPECIAL :: u32 where "SPECIAL = 32"
definition LARGE :: u32 where "LARGE = 64"

lemmas flag_defs = ZEROPAD_def SIGN_def PLUS_def SPACE_def F_LEFT_def SPECIAL_def LARGE_def

definition has :: "u32 \<Rightarrow> u32 \<Rightarrow> bool" where
  "has flags f \<longleftrightarrow> flags AND f \<noteq> 0"

definition small_digits :: "u8 list" where
  "small_digits = map word_of_nat ([48..<58] @ [97..<123])"

definition large_digits :: "u8 list" where
  "large_digits = map word_of_nat ([48..<58] @ [65..<91])"

text \<open>\<open>while (num != 0) tmp[i++] = digits[do_div(&num, base)];\<close> yields the filled part of
  \<open>tmp\<close>, least significant digit first. The caller has rejected bases below 2.\<close>

function num_digits :: "u8 list \<Rightarrow> u64 \<Rightarrow> u32 \<Rightarrow> u8 list" where
  "num_digits digits num base =
     (if num = 0 \<or> base < 2 then []
      else digits ! unat (fst (do_div num base)) # num_digits digits (snd (do_div num base)) base)"
  by pat_completeness auto
termination
proof (relation "measure (\<lambda>(digits, num, base). unat num)")
  fix digits :: "u8 list" and num :: u64 and base :: u32
  assume a: "\<not> (num = 0 \<or> base < 2)"
  then have b: "2 \<le> unat base" by (simp add: word_less_nat_alt)
  have "unat (ucast base :: u64) = unat base" by simp
  then have "unat (num div ucast base) = unat num div unat base" by (simp add: unat_div)
  also have "\<dots> < unat num" using a b by (simp add: unat_eq_0 flip: neq0_conv)
  finally show "((digits, snd (do_div num base), base), digits, num, base)
      \<in> measure (\<lambda>(digits, num, base). unat num)"
    by (simp add: do_div_def)
qed simp

declare num_digits.simps [simp del]

subsection \<open>Emitting characters\<close>

type_synonym out = "mem \<times> nat"

definition put :: "int \<Rightarrow> u8 \<Rightarrow> out \<Rightarrow> out" where
  "put lim c st = ((if int (snd st) \<le> lim then (fst st)(snd st := c) else fst st), snd st + 1)"

text \<open>\<open>while (size-- > 0) put c\<close> yields the final \<open>size\<close> and the emitter state.\<close>

function pad :: "int \<Rightarrow> u8 \<Rightarrow> int \<Rightarrow> out \<Rightarrow> int \<times> out" where
  "pad lim c sz st = (if sz > 0 then pad lim c (sz - 1) (put lim c st) else (sz - 1, st))"
  by pat_completeness auto
termination
  by (relation "measure (\<lambda>(lim, c, sz, st). nat sz)") auto

text \<open>\<open>while (--field_width > 0) put ' '\<close>.\<close>

function pad_pre :: "int \<Rightarrow> int \<Rightarrow> out \<Rightarrow> int \<times> out" where
  "pad_pre lim fw st = (if fw - 1 > 0 then pad_pre lim (fw - 1) (put lim 32 st) else (fw - 1, st))"
  by pat_completeness auto
termination
  by (relation "measure (\<lambda>(lim, fw, st). nat fw)") auto

text \<open>\<open>while (len < field_width--) put ' '\<close>.\<close>

function pad_to :: "int \<Rightarrow> int \<Rightarrow> int \<Rightarrow> out \<Rightarrow> int \<times> out" where
  "pad_to lim len fw st = (if len < fw then pad_to lim len (fw - 1) (put lim 32 st) else (fw - 1, st))"
  by pat_completeness auto
termination
  by (relation "measure (\<lambda>(lim, len, fw, st). nat (fw - len))") auto

declare pad.simps [simp del] pad_pre.simps [simp del] pad_to.simps [simp del]

text \<open>Emitting a list of characters in order.\<close>

primrec puts :: "int \<Rightarrow> u8 list \<Rightarrow> out \<Rightarrow> out" where
  "puts lim [] st = st"
| "puts lim (c # cs) st = puts lim cs (put lim c st)"

text \<open>The sign character (0 for none), the magnitude and the remaining field size.\<close>

definition number_sign :: "u32 \<Rightarrow> u64 \<Rightarrow> int \<Rightarrow> u8 \<times> u64 \<times> int" where
  "number_sign type num sz =
     (if has type SIGN
      then if sint num < 0 then (45, - num, sz - 1)
           else if has type PLUS then (43, num, sz - 1)
           else if has type SPACE then (32, num, sz - 1)
           else (0, num, sz)
      else (0, num, sz))"

text \<open>\<open>number\<close>; \<open>None\<close> is the NULL returned for a base outside 2 to 36, or that \<open>size\<close>, which only
  decreases, falls below the least \<open>int\<close>. The loop
  \<open>while (i < precision--)\<close> emits \<open>precision - i\<close> zeros and \<open>while (i-- > 0)\<close> the
  digits of \<open>tmp\<close> from the last one down.\<close>

definition number :: "int \<Rightarrow> u64 \<Rightarrow> int \<Rightarrow> int \<Rightarrow> int \<Rightarrow> u32 \<Rightarrow> out \<Rightarrow> out option" where
  "number lim num base sz precision type st =
     (let digits = (if has type LARGE then large_digits else small_digits);
          type = (if has type F_LEFT then type AND NOT ZEROPAD else type)
      in if base < 2 \<or> base > 36 then None
      else
        let c = (if has type ZEROPAD then 48 else 32);
            (sign, num, sz) = number_sign type num sz;
            sz = (if has type SPECIAL
                    then if base = 16 then sz - 2 else if base = 8 then sz - 1 else sz
                    else sz);
            tmp = (if num = 0 then [48] else num_digits digits num (word_of_int base));
            i = int (length tmp);
            precision = (if i > precision then i else precision);
            sz = sz - precision;
            (sz, st) = (if \<not> has type (ZEROPAD + F_LEFT) then pad lim 32 sz st else (sz, st));
            st = (if sign \<noteq> 0 then put lim sign st else st);
            st = (if has type SPECIAL
                  then if base = 8 then put lim 48 st
                       else if base = 16 then put lim (digits ! 33) (put lim 48 st)
                       else st
                  else st);
            (sz, st) = (if \<not> has type F_LEFT then pad lim c sz st else (sz, st));
            (_, st) = pad lim 48 (precision - i) st;
            st = puts lim (rev tmp) st;
            (sz, st) = pad lim 32 sz st
        in if in_int sz then Some st else None)"

subsection \<open>Format directives\<close>

definition cur :: "u8 list \<Rightarrow> u8" where
  "cur fmt = (case fmt of [] \<Rightarrow> 0 | c # _ \<Rightarrow> c)"

definition is_digit :: "u8 \<Rightarrow> bool" where
  "is_digit c \<longleftrightarrow> 48 \<le> c \<and> c \<le> 57"

text \<open>The flag characters after the percent sign: minus, plus, space, hash, zero.\<close>

fun parse_flags :: "u32 \<Rightarrow> u8 list \<Rightarrow> u32 \<times> u8 list" where
  "parse_flags flags [] = (flags, [])"
| "parse_flags flags (c # fmt) =
     (if c = 45 then parse_flags (flags OR F_LEFT) fmt
      else if c = 43 then parse_flags (flags OR PLUS) fmt
      else if c = 32 then parse_flags (flags OR SPACE) fmt
      else if c = 35 then parse_flags (flags OR SPECIAL) fmt
      else if c = 48 then parse_flags (flags OR ZEROPAD) fmt
      else (flags, c # fmt))"

definition arg_int :: "u64 \<Rightarrow> int" where
  "arg_int a = sint (ucast a :: u32)"

text \<open>Field width: digits, or a star that takes the next argument (a negative one sets LEFT, and the
  least \<open>int\<close> has no negative).\<close>

definition parse_width :: "u32 \<Rightarrow> u8 list \<Rightarrow> u64 list \<Rightarrow> (int \<times> u32 \<times> u8 list \<times> u64 list) option" where
  "parse_width flags fmt args =
     (if is_digit (cur fmt) then map_option (\<lambda>(w, fmt). (w, flags, fmt, args)) (skip_atoi fmt)
      else if cur fmt = 42
      then (case args of [] \<Rightarrow> None
            | a # args \<Rightarrow>
                if arg_int a = - (2 ^ 31) then None
                else if arg_int a < 0 then Some (- arg_int a, flags OR F_LEFT, tl fmt, args)
                else Some (arg_int a, flags, tl fmt, args))
      else Some (-1, flags, fmt, args))"

definition parse_precision :: "u8 list \<Rightarrow> u64 list \<Rightarrow> (int \<times> u8 list \<times> u64 list) option" where
  "parse_precision fmt args =
     (if cur fmt = 46
      then let fmt = tl fmt in
           if is_digit (cur fmt)
           then map_option (\<lambda>(p, fmt). (if p < 0 then 0 else p, fmt, args)) (skip_atoi fmt)
           else if cur fmt = 42
           then (case args of [] \<Rightarrow> None
                 | a # args \<Rightarrow> Some (if arg_int a < 0 then 0 else arg_int a, tl fmt, args))
           else Some (0, fmt, args)
      else Some (-1, fmt, args))"

text \<open>Qualifier: the characters h, l, L, Z, z; two l's are an L. 0 stands for the source's -1.\<close>

definition parse_qualifier :: "u8 list \<Rightarrow> u8 \<times> u8 list" where
  "parse_qualifier fmt =
     (if cur fmt \<in> {104, 108, 76, 90, 122}
      then if cur fmt = 108 \<and> cur (tl fmt) = 108 then (76, tl (tl fmt)) else (cur fmt, tl fmt)
      else (0, fmt))"

text \<open>The integer argument, widened as its qualifier and the SIGN flag say.\<close>

definition int_arg :: "u8 \<Rightarrow> u32 \<Rightarrow> u64 \<Rightarrow> u64" where
  "int_arg qualifier flags a =
     (if qualifier = 76 then a
      else if qualifier = 108 then a
      else if qualifier = 90 \<or> qualifier = 122 then a
      else if qualifier = 104
      then (if has flags SIGN then scast (ucast a :: u16) else ucast (ucast a :: u16))
      else (if has flags SIGN then scast (ucast a :: u32) else ucast (ucast a :: u32)))"

definition null_text :: "u8 list" where
  "null_text = [60, 78, 85, 76, 76, 62]"

text \<open>A byte of the string argument: of memory, or of the literal used for pointers into the
  first page (terminated like every literal).\<close>

definition str_byte :: "mem \<Rightarrow> u64 \<Rightarrow> nat \<Rightarrow> u8" where
  "str_byte m s i = (if s < 4096 then (null_text @ [0]) ! i else m (unat s + i))"

definition str_len :: "mem \<Rightarrow> u64 \<Rightarrow> int \<Rightarrow> int" where
  "str_len m s precision =
     (let maxlen = unat (word_of_int precision :: u64) in
      if s < 4096 then int (min maxlen (length null_text))
      else sint (word_of_nat (strnlen m (unat s) maxlen) :: u32))"

primrec put_str :: "int \<Rightarrow> u64 \<Rightarrow> nat \<Rightarrow> nat \<Rightarrow> out \<Rightarrow> out" where
  "put_str lim s i 0 st = st"
| "put_str lim s i (Suc n) st = put_str lim s (i + 1) n (put lim (str_byte (fst st) s i) st)"

text \<open>A little-endian store of the \<open>n\<close> low bytes of \<open>v\<close>.\<close>

primrec store_le :: "mem \<Rightarrow> nat \<Rightarrow> nat \<Rightarrow> int \<Rightarrow> mem" where
  "store_le m p 0 v = m"
| "store_le m p (Suc n) v = store_le (m(p := word_of_int v)) (p + 1) n (v div 256)"

text \<open>One directive; \<open>fmt\<close> is what follows the percent sign. The result is the rest of the format
  after the loop's \<open>++fmt\<close>, the remaining arguments and the emitter state.\<close>

definition convert :: "int \<Rightarrow> nat \<Rightarrow> u8 list \<Rightarrow> u64 list \<Rightarrow> out \<Rightarrow> (u8 list \<times> u64 list \<times> out) option" where
  "convert lim buf fmt args st =
     (let (flags, fmt) = parse_flags 0 fmt in
      case parse_width flags fmt args of None \<Rightarrow> None
      | Some (fw, flags, fmt, args) \<Rightarrow>
      (case parse_precision fmt args of None \<Rightarrow> None
      | Some (precision, fmt, args) \<Rightarrow>
       (let (qualifier, fmt) = parse_qualifier fmt;
            c = cur fmt;
            integer = (\<lambda>base flags.
              case args of [] \<Rightarrow> None
              | a # args \<Rightarrow>
                  map_option (\<lambda>st. (tl fmt, args, st))
                    (number lim (int_arg qualifier flags a) base fw precision flags st))
        in if c = 99
           then (case args of [] \<Rightarrow> None
                 | a # args \<Rightarrow>
                   let (fw, st) = (if \<not> has flags F_LEFT then pad_pre lim fw st else (fw, st));
                       st = put lim (ucast a) st;
                       (_, st) = pad_pre lim fw st
                   in Some (tl fmt, args, st))
           else if c = 115
           then (case args of [] \<Rightarrow> None
                 | s # args \<Rightarrow>
                   let len = str_len (fst st) s precision;
                       (fw, st) = (if \<not> has flags F_LEFT then pad_to lim len fw st else (fw, st));
                       st = put_str lim s 0 (nat len) st;
                       (fw, st) = pad_to lim len fw st
                   in if in_int fw then Some (tl fmt, args, st) else None)
           else if c = 112
           then (case args of [] \<Rightarrow> None
                 | a # args \<Rightarrow>
                   let (fw, flags) = (if fw = -1 then (16, flags OR ZEROPAD) else (fw, flags))
                   in map_option (\<lambda>st. (tl fmt, args, st)) (number lim a 16 fw precision flags st))
           else if c = 110
           then (case args of [] \<Rightarrow> None
                 | ip # args \<Rightarrow>
                   let width = (if qualifier = 108 \<or> qualifier = 90 \<or> qualifier = 122 then 8 else 4);
                       n = int (snd st) - int buf
                   in Some (tl fmt, args, (store_le (fst st) (unat ip) width n, snd st)))
           else if c = 37 then Some (tl fmt, args, put lim 37 st)
           else if c = 111 then integer 8 flags
           else if c = 88 then integer 16 (flags OR LARGE)
           else if c = 120 then integer 16 flags
           else if c = 100 \<or> c = 105 then integer 10 (flags OR SIGN)
           else if c = 117 then integer 10 flags
           else let st = put lim 37 st
                in if c \<noteq> 0 then Some (tl fmt, args, put lim c st) else Some (fmt, args, st))))"

subsection \<open>Every directive consumes format\<close>

lemma parse_flags_suffix: "suffix (snd (parse_flags flags fmt)) fmt"
  by (induction flags fmt rule: parse_flags.induct) (auto simp: suffix_Cons)

lemma skip_atoi_suffix: "skip_atoi fmt = Some (v, fmt') \<Longrightarrow> suffix fmt' fmt"
proof -
  have "skip_atoi_loop i fmt = Some (v, fmt') \<Longrightarrow> suffix fmt' fmt" for i
    by (induction i fmt rule: skip_atoi_loop.induct) (auto simp: suffix_Cons split: if_splits)
  then show "skip_atoi fmt = Some (v, fmt') \<Longrightarrow> suffix fmt' fmt" by (simp add: skip_atoi_def)
qed

lemma suffix_tl_trans: "suffix (tl ys) xs" if "suffix ys xs"
  using suffix_order.trans [OF suffix_tl that] .

lemma parse_width_suffix:
  "parse_width flags fmt args = Some (w, flags', fmt', args') \<Longrightarrow> suffix fmt' fmt"
  by (auto simp: parse_width_def suffix_tl split: if_splits prod.splits list.splits dest: skip_atoi_suffix)

lemma parse_precision_suffix:
  "parse_precision fmt args = Some (p, fmt', args') \<Longrightarrow> suffix fmt' fmt"
  by (auto simp: parse_precision_def Let_def suffix_tl suffix_tl_trans
      split: if_splits prod.splits list.splits intro: suffix_order.trans dest!: skip_atoi_suffix)

lemma parse_qualifier_suffix: "suffix (snd (parse_qualifier fmt)) fmt"
  by (auto simp: parse_qualifier_def suffix_tl suffix_tl_trans)

text \<open>A directive is parsed into the conversion character and what precedes it.\<close>

lemma convert_parsed:
  assumes "convert lim buf fmt args st = Some r"
  obtains flags f1 w flags2 f2 args2 p f3 args3 q f4 where
    "parse_flags 0 fmt = (flags, f1)" "parse_width flags f1 args = Some (w, flags2, f2, args2)"
    "parse_precision f2 args2 = Some (p, f3, args3)" "parse_qualifier f3 = (q, f4)" "suffix f4 fmt"
proof -
  obtain flags f1 where f1: "parse_flags 0 fmt = (flags, f1)" by force
  obtain w flags2 f2 args2 where f2: "parse_width flags f1 args = Some (w, flags2, f2, args2)"
    using assms f1 by (auto simp: convert_def split: option.splits)
  obtain p f3 args3 where f3: "parse_precision f2 args2 = Some (p, f3, args3)"
    using assms f1 f2 by (auto simp: convert_def split: option.splits)
  obtain q f4 where f4: "parse_qualifier f3 = (q, f4)" by force
  have "suffix f4 fmt"
    using parse_flags_suffix [of 0 fmt] parse_width_suffix [OF f2] parse_precision_suffix [OF f3]
      parse_qualifier_suffix [of f3] f1 f4 by (auto intro: suffix_order.trans)
  with f1 f2 f3 f4 show thesis by (rule that)
qed

lemma convert_suffix:
  assumes "convert lim buf fmt args st = Some (fmt', args', st')"
  shows "suffix fmt' fmt"
proof -
  from assms obtain flags f1 w flags2 f2 args2 p f3 args3 q f4 where
    f: "parse_flags 0 fmt = (flags, f1)" "parse_width flags f1 args = Some (w, flags2, f2, args2)"
    "parse_precision f2 args2 = Some (p, f3, args3)" "parse_qualifier f3 = (q, f4)" "suffix f4 fmt"
    by (rule convert_parsed)
  have "suffix fmt' f4"
    using assms f(1-4)
    by (auto simp: convert_def Let_def suffix_tl split: if_splits list.splits prod.splits)
  with f(5) show ?thesis by (rule suffix_order.trans [rotated])
qed

function vsnprintf_loop :: "int \<Rightarrow> nat \<Rightarrow> u8 list \<Rightarrow> u64 list \<Rightarrow> out \<Rightarrow> out option" where
  "vsnprintf_loop lim buf [] args st = Some st"
| "vsnprintf_loop lim buf (c # fmt) args st =
     (if c \<noteq> 37 then vsnprintf_loop lim buf fmt args (put lim c st)
      else case convert lim buf fmt args st of
             None \<Rightarrow> None
           | Some (fmt', args', st') \<Rightarrow> vsnprintf_loop lim buf fmt' args' st')"
  by pat_completeness auto
termination
  by (relation "measure (\<lambda>(lim, buf, fmt, args, st). length fmt)")
    (auto dest!: convert_suffix suffix_length_le simp: less_Suc_eq_le)

text \<open>\<open>vsnprintf\<close> returns the length of the whole output as an \<open>int\<close>, and the memory. The limit pointer
  wraps to the top of the address space when \<open>buf + size - 1\<close> overflows.  The cursor only moves
  forwards, so that it stays in the address space if it ends there.\<close>

definition to_int :: "int \<Rightarrow> int" where
  "to_int i = sint (word_of_int i :: u32)"

definition vsnprintf :: "mem \<Rightarrow> nat \<Rightarrow> nat \<Rightarrow> u8 list \<Rightarrow> u64 list \<Rightarrow> (int \<times> mem) option" where
  "vsnprintf m buf sz fmt args =
     (let lim = (int buf + int sz - 1) mod 2 ^ 64;
          (lim, sz) = (if lim < int buf - 1 then (2 ^ 64 - 1, 2 ^ 64 - 1 - int buf + 1) else (lim, int sz))
      in case vsnprintf_loop lim buf fmt args (m, buf) of
           None \<Rightarrow> None
         | Some (m, str) \<Rightarrow>
             if str < 2 ^ 64
             then Some (to_int (int str - int buf),
                        if int str \<le> lim then m(str := 0) else if sz > 0 then m(nat lim := 0) else m)
             else None)"

definition vsprintf :: "mem \<Rightarrow> nat \<Rightarrow> u8 list \<Rightarrow> u64 list \<Rightarrow> (int \<times> mem) option" where
  "vsprintf m buf fmt args = vsnprintf m buf (2 ^ 31 - 1) fmt args"

subsection \<open>Loops in closed form\<close>

lemma puts_append: "puts lim (xs @ ys) st = puts lim ys (puts lim xs st)"
  by (induction xs arbitrary: st) simp_all

lemma pad_eq: "pad lim c sz st = (if sz > 0 then -1 else sz - 1, puts lim (replicate (nat sz) c) st)"
proof (induction lim c sz st rule: pad.induct)
  case (1 lim c sz st)
  show ?case
  proof (cases "sz > 0")
    case True
    then have "nat sz = Suc (nat (sz - 1))" by simp
    then show ?thesis
      using "1.IH" [OF True] True by (subst pad.simps) (auto simp del: nat_diff_distrib')
  next
    case False
    then show ?thesis by (subst pad.simps) simp
  qed
qed

lemma pad_pre_eq:
  "pad_pre lim fw st = (if fw > 1 then 0 else fw - 1, puts lim (replicate (nat (fw - 1)) 32) st)"
proof (induction lim fw st rule: pad_pre.induct)
  case (1 lim fw st)
  show ?case
  proof (cases "fw - 1 > 0")
    case True
    then have "nat (fw - 1) = Suc (nat (fw - 1 - 1))" by simp
    then show ?thesis
      using "1.IH" [OF True] True by (subst pad_pre.simps) (auto simp del: nat_diff_distrib')
  next
    case False
    then show ?thesis by (subst pad_pre.simps) simp
  qed
qed

lemma pad_to_eq:
  "pad_to lim len fw st =
     (if len < fw then len - 1 else fw - 1, puts lim (replicate (nat (fw - len)) 32) st)"
proof (induction lim len fw st rule: pad_to.induct)
  case (1 lim len fw st)
  show ?case
  proof (cases "len < fw")
    case True
    then have "nat (fw - len) = Suc (nat (fw - 1 - len))" by simp
    then show ?thesis
      using "1.IH" [OF True] True by (subst pad_to.simps) (auto simp del: nat_diff_distrib')
  next
    case False
    then show ?thesis by (subst pad_to.simps) simp
  qed
qed

lemmas pad_eqs = pad_eq pad_pre_eq pad_to_eq

subsection \<open>The text a number is formatted to\<close>

text \<open>The abstract counterpart of \<open>number\<close>: blanks, sign, prefix, zeros, digits, blanks.\<close>

definition sign_of :: "u64 \<Rightarrow> u32 \<Rightarrow> u8 list" where
  "sign_of num type =
     (if \<not> has type SIGN then []
      else if sint num < 0 then [45] else if has type PLUS then [43]
      else if has type SPACE then [32] else [])"

definition prefix_of :: "int \<Rightarrow> u32 \<Rightarrow> u8 list" where
  "prefix_of base type =
     (if \<not> has type SPECIAL then [] else if base = 8 then [48]
      else if base = 16 then [48, if has type LARGE then 88 else 120] else [])"

definition digits_of :: "u64 \<Rightarrow> int \<Rightarrow> u32 \<Rightarrow> u8 list" where
  "digits_of num base type =
     (let digits = (if has type LARGE then large_digits else small_digits);
          num = (if has type SIGN \<and> sint num < 0 then - num else num)
      in if num = 0 then [48] else rev (num_digits digits num (word_of_int base)))"

definition number_text :: "u64 \<Rightarrow> int \<Rightarrow> int \<Rightarrow> int \<Rightarrow> u32 \<Rightarrow> u8 list" where
  "number_text num base sz precision type =
     (let body = replicate (nat precision - length (digits_of num base type)) 48 @ digits_of num base type;
          fixed = sign_of num type @ prefix_of base type;
          fill = nat sz - length (fixed @ body)
      in if has type F_LEFT then fixed @ body @ replicate fill 32
         else if has type ZEROPAD then fixed @ replicate fill 48 @ body
         else replicate fill 32 @ fixed @ body)"

lemma has_clear_zeropad [simp]:
  "has (type AND NOT ZEROPAD) SIGN = has type SIGN"
  "has (type AND NOT ZEROPAD) PLUS = has type PLUS"
  "has (type AND NOT ZEROPAD) SPACE = has type SPACE"
  "has (type AND NOT ZEROPAD) F_LEFT = has type F_LEFT"
  "has (type AND NOT ZEROPAD) SPECIAL = has type SPECIAL"
  "has (type AND NOT ZEROPAD) LARGE = has type LARGE"
  "\<not> has (type AND NOT ZEROPAD) ZEROPAD"
  by (simp_all add: has_def flag_defs and.assoc)

lemma has_zeropad_left: "has type (ZEROPAD + F_LEFT) \<longleftrightarrow> has type ZEROPAD \<or> has type F_LEFT"
proof -
  have "ZEROPAD + F_LEFT = ZEROPAD OR F_LEFT" by (simp add: flag_defs)
  then show ?thesis by (auto simp: has_def word_ao_dist2 or_eq_0_iff)
qed

lemma number_sign_eq:
  "number_sign type num sz =
     (if sign_of num type = [] then 0 else hd (sign_of num type),
      if has type SIGN \<and> sint num < 0 then - num else num, sz - int (length (sign_of num type)))"
  by (simp add: number_sign_def sign_of_def)

lemma put_sign:
  "(if (if sign_of num type = [] then 0 else hd (sign_of num type)) \<noteq> 0
    then put lim (if sign_of num type = [] then 0 else hd (sign_of num type)) st else st)
   = puts lim (sign_of num type) st"
  by (simp add: sign_of_def)

lemma digits_33: "(if has type LARGE then large_digits else small_digits) ! 33 = (if has type LARGE then 88 else 120)"
  by (simp add: large_digits_def small_digits_def nth_append)

lemma put_prefix:
  "(if has type SPECIAL
    then if base = 8 then put lim 48 st
         else if base = 16 then put lim (if has type LARGE then 88 else 120) (put lim 48 st) else st
    else st) = puts lim (prefix_of base type) st"
  by (simp add: prefix_of_def)

lemma sub_prefix:
  "(if has type SPECIAL then if base = 16 then z - 2 else if base = 8 then z - 1 else z else z)
   = z - int (length (prefix_of base type))"
  by (simp add: prefix_of_def)

lemma digits_of_rev:
  "(if num' = 0 then [48] else num_digits digits num' b) = rev (digits_of num base type)"
  if "num' = (if has type SIGN \<and> sint num < 0 then - num else num)"
    and "digits = (if has type LARGE then large_digits else small_digits)" and "b = word_of_int base"
  using that by (simp add: digits_of_def)

text \<open>Flags without the ZEROPAD that a LEFT flag cancels.\<close>

definition norm_flags :: "u32 \<Rightarrow> u32" where
  "norm_flags type = (if has type F_LEFT then type AND NOT ZEROPAD else type)"

lemma norm_flags_has:
  "has (norm_flags type) SIGN = has type SIGN" "has (norm_flags type) PLUS = has type PLUS"
  "has (norm_flags type) SPACE = has type SPACE" "has (norm_flags type) F_LEFT = has type F_LEFT"
  "has (norm_flags type) SPECIAL = has type SPECIAL" "has (norm_flags type) LARGE = has type LARGE"
  "has (norm_flags type) ZEROPAD = (has type ZEROPAD \<and> \<not> has type F_LEFT)"
  by (simp_all add: norm_flags_def)

lemma norm_flags_texts:
  "sign_of num (norm_flags type) = sign_of num type"
  "prefix_of base (norm_flags type) = prefix_of base type"
  "digits_of num base (norm_flags type) = digits_of num base type"
  by (simp_all add: sign_of_def prefix_of_def digits_of_def norm_flags_has)

text \<open>The last value of \<open>size\<close>: each of the loops that fill the field leaves it one below 0, or one lower than it was.\<close>

definition number_low :: "u64 \<Rightarrow> int \<Rightarrow> int \<Rightarrow> int \<Rightarrow> u32 \<Rightarrow> int" where
  "number_low num base sz precision type =
     min 0 (sz - int (length (sign_of num type)) - int (length (prefix_of base type))
       - max precision (int (length (digits_of num base type))))
     - (if has type F_LEFT then 1 else if has type ZEROPAD then 2 else 3)"

lemma number_emits:
  assumes "2 \<le> base" and "base \<le> 36"
  shows "number lim num base sz precision type st =
    (if in_int (number_low num base sz precision type)
     then Some (puts lim (number_text num base sz precision type) st) else None)"
proof -
  let ?t = "norm_flags type"
  let ?d = "digits_of num base type"
  define i where "i = int (length ?d)"
  define p where "p = (if i > precision then i else precision)"
  define z where "z = sz - int (length (sign_of num type)) - int (length (prefix_of base type)) - p"
  have fill: "nat sz - length ((sign_of num type @ prefix_of base type)
       @ replicate (nat precision - length ?d) 48 @ ?d) = nat z"
    by (auto simp: z_def p_def i_def)
  have zeros: "nat precision - length ?d = nat (p - i)" by (auto simp: p_def i_def)
  have "number lim num base sz precision type st =
    (let (z, st) = (if \<not> has ?t (ZEROPAD + F_LEFT) then pad lim 32 z st else (z, st));
         st = puts lim (sign_of num type) st;
         st = puts lim (prefix_of base type) st;
         (z, st) = (if \<not> has ?t F_LEFT then pad lim (if has ?t ZEROPAD then 48 else 32) z st else (z, st));
         (_, st) = pad lim 48 (p - i) st;
         st = puts lim ?d st;
         (z, st) = pad lim 32 z st
     in if in_int z then Some st else None)"
    unfolding number_def norm_flags_def [symmetric] Let_def number_sign_eq norm_flags_texts
      prod.case digits_33 put_sign norm_flags_has sub_prefix put_prefix z_def p_def i_def
    using assms by (simp add: digits_of_rev [OF refl refl refl] put_prefix)
  also have "\<dots> = (if in_int (number_low num base sz precision type)
      then Some (puts lim (number_text num base sz precision type) st) else None)"
  proof -
    have "number_low num base sz precision type
        = (if z > 0 then 0 else z) - (if has type F_LEFT then 1 else if has type ZEROPAD then 2 else 3)"
      by (auto simp: number_low_def z_def p_def i_def)
    then show ?thesis
      unfolding number_text_def Let_def fill unfolding zeros has_zeropad_left norm_flags_has pad_eqs
      by (simp add: puts_append)
  qed
  finally show ?thesis .
qed

subsection \<open>Digits denote the number\<close>

text \<open>The value of a digit character, in either case, and of a digit string read left to right.\<close>

definition digit_value :: "u8 \<Rightarrow> nat" where
  "digit_value c = (if c < 58 then unat c - 48 else if c < 91 then unat c - 55 else unat c - 87)"

definition text_value :: "nat \<Rightarrow> u8 list \<Rightarrow> nat" where
  "text_value base cs = foldl (\<lambda>v c. v * base + digit_value c) 0 cs"

lemma digit_value_table:
  assumes "k < 36"
  shows "digit_value (small_digits ! k) = k" and "digit_value (large_digits ! k) = k"
proof -
  have "list_all (\<lambda>k. digit_value (small_digits ! k) = k \<and> digit_value (large_digits ! k) = k) [0..<36]"
    by code_simp
  with assms show "digit_value (small_digits ! k) = k" and "digit_value (large_digits ! k) = k"
    by (simp_all add: list_all_iff)
qed

lemma text_value_snoc: "text_value b (cs @ [c]) = text_value b cs * b + digit_value c"
  by (simp add: text_value_def)

lemma unat_word_of_int_base:
  "2 \<le> base \<Longrightarrow> base \<le> 36 \<Longrightarrow> unat (word_of_int base :: u32) = nat base"
  by (simp add: unat_eq_nat_uint uint_word_of_int_eq take_bit_int_eq_self)

lemma num_digits_value:
  assumes "digits \<in> {small_digits, large_digits}" and "2 \<le> unat base" and "unat base \<le> 36"
  shows "text_value (unat base) (rev (num_digits digits num base)) = unat num
     \<and> (\<forall>c \<in> set (num_digits digits num base). digit_value c < unat base)"
  using assms
proof (induction digits num base rule: num_digits.induct)
  case (1 digits num base)
  show ?case
  proof (cases "num = 0")
    case True
    then show ?thesis by (simp add: num_digits.simps text_value_def)
  next
    case False
    have b: "\<not> (num = 0 \<or> base < 2)" using False "1.prems"(2) by (simp add: word_less_nat_alt)
    have r: "unat (fst (do_div num base)) = unat num mod unat base"
    proof -
      have "unat (num mod ucast base) = unat num mod unat base" by (simp add: unat_mod)
      moreover have "unat num mod unat base < 2 ^ 32" using "1.prems"(2,3)
        by (intro less_le_trans [OF mod_less_divisor]) auto
      ultimately show ?thesis
        by (simp add: do_div_def unsigned_ucast_eq take_bit_nat_eq_self)
    qed
    have q: "unat (snd (do_div num base)) = unat num div unat base"
      by (simp add: do_div_def unat_div)
    have d: "digit_value (digits ! (unat num mod unat base)) = unat num mod unat base"
    proof -
      have "unat num mod unat base < 36"
        using "1.prems"(2,3) by (intro less_le_trans [OF mod_less_divisor]) auto
      then show ?thesis using "1.prems"(1) digit_value_table by auto
    qed
    have u: "num_digits digits num base =
        digits ! (unat num mod unat base) # num_digits digits (snd (do_div num base)) base"
      using b r by (subst num_digits.simps) simp
    show ?thesis
      using "1.IH" [OF b "1.prems"] "1.prems"(2) by (auto simp: u text_value_snoc d q)
  qed
qed

lemma num_digits_length:
  assumes "2 \<le> unat base" and "unat num < 2 ^ k"
  shows "length (num_digits digits num base) \<le> k"
  using assms(2)
proof (induction k arbitrary: num)
  case 0
  then show ?case by (simp add: num_digits.simps unat_eq_zero)
next
  case (Suc k)
  show ?case
  proof (cases "num = 0")
    case True
    then show ?thesis by (simp add: num_digits.simps)
  next
    case False
    have "unat (snd (do_div num base)) = unat num div unat base"
      by (simp add: do_div_def unat_div)
    also have "\<dots> \<le> unat num div 2" using assms(1) by (simp add: div_le_mono2)
    also have "\<dots> < 2 ^ k" using Suc.prems by simp
    finally have "length (num_digits digits (snd (do_div num base)) base) \<le> k" by (rule Suc.IH)
    then show ?thesis using False assms(1) by (subst num_digits.simps) (simp add: word_less_nat_alt)
  qed
qed

lemma num_digits_nonempty: "num \<noteq> 0 \<Longrightarrow> 2 \<le> unat base \<Longrightarrow> num_digits digits num base \<noteq> []"
  by (subst num_digits.simps) (simp add: word_less_nat_alt)

lemma magnitude_of_sint:
  "unat (if neg \<and> sint (num :: u64) < 0 then - num else num) = (if neg then nat \<bar>sint num\<bar> else unat num)"
proof -
  have u: "uint num = sint num mod 2 ^ 64" by (simp add: uint_sint [of num] take_bit_eq_mod)
  have lo: "- 9223372036854775808 \<le> sint num" and hi: "sint num < 9223372036854775808"
    using sint_ge [of num] sint_lt [of num] by simp_all
  have m: "uint (- num) = - sint num" if "sint num < 0"
  proof -
    have "uint (- num) = (- sint num) mod 2 ^ 64"
      by (simp add: uint_word_ariths u mod_minus_eq)
    also have "\<dots> = - sint num" using that lo by (intro mod_pos_pos_trivial) auto
    finally show ?thesis .
  qed
  have p: "uint num = sint num" if "0 \<le> sint num"
    unfolding u using that hi by (intro mod_pos_pos_trivial) auto
  have "unat (- num) = nat (- sint num)" if "sint num < 0"
    using m [OF that] nat_uint_eq [of "- num"] by metis
  moreover have "unat num = nat (sint num)" if "0 \<le> sint num"
    using p [OF that] nat_uint_eq [of num] by metis
  ultimately show ?thesis by auto
qed

lemma digits_of_value:
  assumes "2 \<le> base" and "base \<le> 36"
  shows "text_value (nat base) (digits_of num base type) =
       (if has type SIGN then nat \<bar>sint num\<bar> else unat num)
     \<and> (\<forall>c \<in> set (digits_of num base type). digit_value c < nat base)
     \<and> length (digits_of num base type) \<in> {1..64}"
proof -
  let ?b = "word_of_int base :: u32"
  let ?n = "if has type SIGN \<and> sint num < 0 then - num else num"
  let ?dg = "if has type LARGE then large_digits else small_digits"
  have b: "unat ?b = nat base" using assms by (rule unat_word_of_int_base)
  have n: "unat ?n = (if has type SIGN then nat \<bar>sint num\<bar> else unat num)"
    by (simp add: magnitude_of_sint)
  show ?thesis
  proof (cases "?n = 0")
    case True
    then show ?thesis
      using n assms by (auto simp: digits_of_def text_value_def digit_value_def)
  next
    case False
    have v: "text_value (nat base) (rev (num_digits ?dg ?n ?b)) = unat ?n
        \<and> (\<forall>c \<in> set (num_digits ?dg ?n ?b). digit_value c < nat base)"
      using num_digits_value [of ?dg ?b ?n] assms by (simp add: b)
    have l: "length (num_digits ?dg ?n ?b) \<le> 64"
      by (rule num_digits_length) (use assms b unsigned_less [of ?n, where ?'a = nat] in auto)
    have ne: "num_digits ?dg ?n ?b \<noteq> []"
      using False assms b by (intro num_digits_nonempty) auto
    have d: "digits_of num base type = rev (num_digits ?dg ?n ?b)"
      using False unfolding digits_of_def Let_def by (simp split: if_splits)
    show ?thesis unfolding d using v n l ne by (auto simp: Suc_le_eq)
  qed
qed

subsection \<open>Writes stay inside the buffer\<close>

text \<open>The emitter invariant: the cursor is at or after the buffer's start and no byte outside
  the buffer and the set \<open>W\<close> has changed.\<close>

definition inside :: "nat \<Rightarrow> int \<Rightarrow> nat set \<Rightarrow> mem \<Rightarrow> out \<Rightarrow> bool" where
  "inside buf lim W m0 st \<longleftrightarrow>
     buf \<le> snd st \<and> (\<forall>a. (a < buf \<or> lim < int a) \<and> a \<notin> W \<longrightarrow> fst st a = m0 a)"

lemma inside_put: "inside buf lim W m0 st \<Longrightarrow> inside buf lim W m0 (put lim c st)"
  by (auto simp: inside_def put_def)

lemma inside_puts: "inside buf lim W m0 st \<Longrightarrow> inside buf lim W m0 (puts lim cs st)"
  by (induction cs arbitrary: st) (simp_all add: inside_put)

lemma inside_put_str: "inside buf lim W m0 st \<Longrightarrow> inside buf lim W m0 (put_str lim s i n st)"
  by (induction n arbitrary: i st) (simp_all add: inside_put)

lemma inside_number:
  "inside buf lim W m0 st \<Longrightarrow> number lim num base sz precision type st = Some st' \<Longrightarrow> inside buf lim W m0 st'"
  by (cases "2 \<le> base \<and> base \<le> 36")
    (auto simp: number_emits inside_puts split: if_splits, auto simp: number_def Let_def)

lemma store_le_outside: "a < p \<or> p + n \<le> a \<Longrightarrow> store_le m p n v a = m a"
  by (induction n arbitrary: m p v) auto

lemma inside_store:
  assumes "inside buf lim W m0 st" "{p..<p + n} \<subseteq> W"
  shows "inside buf lim W m0 (store_le (fst st) p n v, snd st)"
proof -
  have "store_le (fst st) p n v a = fst st a" if "a \<notin> W" for a
  proof -
    have "a \<notin> {p..<p + n}" using assms(2) that by blast
    then show ?thesis by (intro store_le_outside) auto
  qed
  then show ?thesis using assms(1) by (simp add: inside_def)
qed

lemmas inside_intros = inside_put inside_puts inside_put_str

lemma parse_args:
  "parse_width flags fmt args = Some (w, flags', fmt', args') \<Longrightarrow> set args' \<subseteq> set args"
  "parse_precision fmt args = Some (p, fmt', args') \<Longrightarrow> set args' \<subseteq> set args"
  by (auto simp: parse_width_def parse_precision_def Let_def split: if_splits list.splits)

text \<open>The cells that the directive \<open>n\<close> may store to.\<close>

definition count_cells :: "u8 list \<Rightarrow> u64 list \<Rightarrow> nat set" where
  "count_cells fmt args = (if 110 \<in> set fmt then \<Union>p \<in> set args. {unat p..<unat p + 8} else {})"

lemma count_cells_mono: "suffix fmt' fmt \<Longrightarrow> set args' \<subseteq> set args \<Longrightarrow> count_cells fmt' args' \<subseteq> count_cells fmt args"
  using set_mono_suffix [of fmt' fmt] by (auto simp: count_cells_def)

lemma convert_args:
  assumes "convert lim buf fmt args st = Some (fmt', args', st')"
  shows "set args' \<subseteq> set args"
proof -
  from assms obtain flags f1 w flags2 f2 args2 p f3 args3 q f4 where
    f: "parse_flags 0 fmt = (flags, f1)" "parse_width flags f1 args = Some (w, flags2, f2, args2)"
    "parse_precision f2 args2 = Some (p, f3, args3)" "parse_qualifier f3 = (q, f4)" "suffix f4 fmt"
    by (rule convert_parsed)
  have "set args' \<subseteq> set args3"
    using assms f(1-4) by (auto simp: convert_def Let_def split: if_splits list.splits prod.splits)
  then show ?thesis using parse_args(1) [OF f(2)] parse_args(2) [OF f(3)] by blast
qed

lemma inside_convert:
  assumes "convert lim buf fmt args st = Some (fmt', args', st')"
    and "count_cells fmt args \<subseteq> W" and "inside buf lim W m0 st"
  shows "inside buf lim W m0 st'"
proof -
  from assms(1) obtain flags f1 w flags2 f2 args2 p f3 args3 q f4 where
    f: "parse_flags 0 fmt = (flags, f1)" "parse_width flags f1 args = Some (w, flags2, f2, args2)"
    "parse_precision f2 args2 = Some (p, f3, args3)" "parse_qualifier f3 = (q, f4)" "suffix f4 fmt"
    by (rule convert_parsed)
  have cells: "{unat ip..<unat ip + n} \<subseteq> W" if "cur f4 = 110" "ip \<in> set args3" "n \<le> 8" for ip n
  proof -
    have "110 \<in> set fmt" using that(1) set_mono_suffix [OF f(5)] by (auto simp: cur_def split: list.splits)
    moreover have "ip \<in> set args" using that(2) parse_args(1) [OF f(2)] parse_args(2) [OF f(3)] by blast
    ultimately show ?thesis using assms(2) that(3) by (fastforce simp: count_cells_def)
  qed
  show ?thesis
  proof (cases "cur f4 = 110")
    case True
    define n :: nat where "n = (if q = 108 \<or> q = 90 \<or> q = 122 then 8 else 4)"
    obtain ip where "ip \<in> set args3" "st' = (store_le (fst st) (unat ip) n (int (snd st) - int buf), snd st)"
      using True assms(1) f(1-4) by (auto simp: convert_def Let_def n_def split: list.splits)
    moreover have "n \<le> 8" by (simp add: n_def)
    ultimately show ?thesis using cells [OF True] inside_store [OF assms(3)] by simp
  next
    case False
    with assms(1,3) f(1-4) show ?thesis
      by (auto simp: convert_def Let_def pad_eqs inside_number inside_intros
          split: if_splits list.splits prod.splits)
  qed
qed

lemma inside_loop:
  assumes "vsnprintf_loop lim buf fmt args st = Some st'"
    and "count_cells fmt args \<subseteq> W" and "inside buf lim W m0 st"
  shows "inside buf lim W m0 st'"
  using assms
proof (induction lim buf fmt args st rule: vsnprintf_loop.induct)
  case (1 lim buf args st)
  then show ?case by simp
next
  case (2 lim buf c fmt args st)
  have sub: "count_cells fmt args \<subseteq> W"
    using "2.prems"(2) count_cells_mono [of fmt "c # fmt" args args] by (auto simp: suffix_Cons)
  show ?case
  proof (cases "c = 37")
    case False
    with 2 sub show ?thesis by (auto intro: inside_put)
  next
    case True
    with "2.prems"(1) obtain f a t where cv: "convert lim buf fmt args st = Some (f, a, t)"
      and rec: "vsnprintf_loop lim buf f a t = Some st'"
      by (auto split: option.splits)
    have "count_cells f a \<subseteq> W"
      using sub count_cells_mono [OF convert_suffix [OF cv] convert_args [OF cv]] by blast
    moreover have "inside buf lim W m0 t"
      using inside_convert [OF cv sub] "2.prems"(3) by simp
    ultimately show ?thesis using "2.IH"(2) [OF _ cv] True rec by simp
  qed
qed

subsection \<open>Directives without width, precision and strings return\<close>

lemma snd_puts: "snd (puts lim cs st) = snd st + length cs"
  by (induction cs arbitrary: st) (simp_all add: put_def)

text \<open>What a plain number may take, with its sign and prefix.\<close>

lemma number_plain:
  assumes "base = 8 \<or> base = 10 \<or> base = 16" "- 1 \<le> sz" "sz \<le> 16" "precision \<le> 0"
  shows "\<exists>st'. number lim num base sz precision type st = Some st' \<and> snd st' \<le> snd st + 67"
proof -
  have b: "2 \<le> base" "base \<le> 36" using assms(1) by auto
  have l: "length (digits_of num base type) \<le> 64" using digits_of_value [OF b] by auto
  have s: "length (sign_of num type) \<le> 1" "length (prefix_of base type) \<le> 2" by (simp_all add: sign_of_def prefix_of_def)
  have "in_int (number_low num base sz precision type)"
    using l s assms(2-4) by (simp add: in_int_def number_low_def min_def)
  moreover have "length (number_text num base sz precision type) \<le> 67"
    using l s assms(2-4) by (simp add: number_text_def Let_def nat_le_iff) arith
  ultimately show ?thesis by (simp add: number_emits [OF b] snd_puts)
qed

definition plain_format :: "u8 list \<Rightarrow> bool" where
  "plain_format fmt \<longleftrightarrow> (\<forall>c \<in> set fmt. \<not> is_digit c \<and> c \<noteq> 42 \<and> c \<noteq> 115)"

lemma plain_format_suffix: "suffix f fmt \<Longrightarrow> plain_format fmt \<Longrightarrow> plain_format f"
  using set_mono_suffix [of f fmt] by (auto simp: plain_format_def)

lemma plain_format_cur: "plain_format f \<Longrightarrow> \<not> is_digit (cur f) \<and> cur f \<noteq> 42 \<and> cur f \<noteq> 115"
  by (cases f) (auto simp: plain_format_def cur_def is_digit_def)

lemma convert_plain:
  assumes "args \<noteq> []" "plain_format fmt"
  shows "\<exists>fmt' args' st'. convert lim buf fmt args st = Some (fmt', args', st')
    \<and> length args - 1 \<le> length args' \<and> snd st' \<le> snd st + 67"
proof -
  obtain flags f1 where f1: "parse_flags 0 fmt = (flags, f1)" by force
  have p1: "plain_format f1" using plain_format_suffix [OF _ assms(2)] parse_flags_suffix [of 0 fmt] f1 by simp
  have f2: "parse_width flags f1 args = Some (- 1, flags, f1, args)"
    using plain_format_cur [OF p1] by (simp add: parse_width_def)
  obtain p f3 where f3: "parse_precision f1 args = Some (p, f3, args)" "p \<le> 0"
    using plain_format_cur [OF plain_format_suffix [OF suffix_tl p1]]
    by (cases "cur f1 = 46") (auto simp: parse_precision_def Let_def)
  have p3: "plain_format f3" using plain_format_suffix [OF parse_precision_suffix [OF f3(1)] p1] .
  obtain q f4 where f4: "parse_qualifier f3 = (q, f4)" by force
  have p4: "plain_format f4" using plain_format_suffix [OF parse_qualifier_suffix p3] f4 by (metis snd_conv)
  obtain a as where a: "args = a # as" using assms(1) by (cases args) auto
  have num: "\<exists>st'. number lim n base (- 1) p fl st = Some st' \<and> snd st' \<le> snd st + 67"
    "\<exists>st'. number lim n 16 16 p fl st = Some st' \<and> snd st' \<le> snd st + 67" if "base \<in> {8, 10, 16}" for n base fl
    using f3(2) that by (intro number_plain; simp)+
  show ?thesis
    using num(1) [of 8] num(1) [of 10] num(1) [of 16] num(2) [of 8] plain_format_cur [OF p4] unfolding convert_def f1 a
    by (simp add: f2 [unfolded a] f3(1) [unfolded a] f4 Let_def pad_eqs put_def snd_puts)
qed

lemma vsnprintf_loop_plain_format:
  assumes "count_list fmt 37 \<le> length args" "plain_format fmt"
  shows "\<exists>st'. vsnprintf_loop lim buf fmt args st = Some st' \<and> snd st' \<le> snd st + 67 * length fmt"
  using assms
proof (induction lim buf fmt args st rule: vsnprintf_loop.induct)
  case (1 lim buf args st)
  then show ?case by simp
next
  case (2 lim buf c fmt args st)
  have p: "plain_format fmt" using "2.prems"(2) by (simp add: plain_format_def)
  show ?case
  proof (cases "c = 37")
    case False
    obtain st' where "vsnprintf_loop lim buf fmt args (put lim c st) = Some st'" "snd st' \<le> snd (put lim c st) + 67 * length fmt"
      using "2.IH"(1) [OF False] "2.prems"(1) False p by auto
    then show ?thesis using False by (simp add: put_def)
  next
    case True
    then have n: "args \<noteq> []" "count_list fmt 37 + 1 \<le> length args" using "2.prems"(1) by auto
    obtain f a t where cv: "convert lim buf fmt args st = Some (f, a, t)" and l: "length args - 1 \<le> length a"
      and s: "snd t \<le> snd st + 67" using convert_plain [OF n(1) p] by blast
    have "count_list f 37 \<le> count_list fmt 37" and len: "length f \<le> length fmt"
      using convert_suffix [OF cv] by (auto simp: suffix_def)
    with n(2) l have "count_list f 37 \<le> length a" by simp
    then obtain st' where "vsnprintf_loop lim buf f a t = Some st'" "snd st' \<le> snd t + 67 * length f"
      using "2.IH"(2) [OF _ cv refl refl] True plain_format_suffix [OF convert_suffix [OF cv] p] by auto
    then show ?thesis using True cv s len by simp
  qed
qed

lemma vsnprintf_plain:
  assumes "count_list fmt 37 \<le> length args" "plain_format fmt" "buf + 67 * length fmt < 2 ^ 64"
  shows "\<exists>r m'. vsnprintf m buf sz fmt args = Some (r, m')"
proof -
  have "\<exists>m' str. vsnprintf_loop lim buf fmt args (m, buf) = Some (m', str) \<and> str < 2 ^ 64" for lim
    using vsnprintf_loop_plain_format [OF assms(1,2), of lim buf "(m, buf)"] assms(3) by force
  moreover obtain lim' sz' where "(if (int buf + int sz - 1) mod 2 ^ 64 < int buf - 1 then (2 ^ 64 - 1, 2 ^ 64 - 1 - int buf + 1)
      else ((int buf + int sz - 1) mod 2 ^ 64, int sz)) = (lim', sz')" by (rule prod.exhaust)
  ultimately obtain m' str where "vsnprintf_loop lim' buf fmt args (m, buf) = Some (m', str)" "str < 2 ^ 64"
    and l: "(if (int buf + int sz - 1) mod 2 ^ 64 < int buf - 1 then (2 ^ 64 - 1, 2 ^ 64 - 1 - int buf + 1)
      else ((int buf + int sz - 1) mod 2 ^ 64, int sz)) = (lim', sz')" by blast
  then show ?thesis unfolding vsnprintf_def Let_def l by simp
qed

subsection \<open>Text without directives\<close>

lemma puts_eq:
  "puts lim cs (m, str) =
     (\<lambda>a. if str \<le> a \<and> a < str + length cs \<and> int a \<le> lim then cs ! (a - str) else m a, str + length cs)"
proof (induction cs arbitrary: m str)
  case Nil
  then show ?case by (auto simp: fun_eq_iff)
next
  case (Cons c cs)
  show ?case
    unfolding puts.simps put_def fst_conv snd_conv Cons.IH
    by (auto simp: fun_eq_iff nth_Cons' not_less_eq_eq le_antisym)
qed

lemma to_int_nat: "len < 2 ^ 31 \<Longrightarrow> to_int (int len) = int len"
  unfolding to_int_def sint_sbintrunc' by (intro signed_take_bit_int_eq_self) simp_all

lemma vsnprintf_loop_plain: "37 \<notin> set fmt \<Longrightarrow> vsnprintf_loop lim buf fmt args st = Some (puts lim fmt st)"
  by (induction fmt arbitrary: st) auto

subsection \<open>What the formatter guarantees\<close>

text \<open>C39: in every base from 2 to 36 the characters \<open>number\<close> emits without flags are digits of
  that base whose value, read back, is the number; there are between 1 and 64 of them, so the
  66-byte scratch array \<open>tmp\<close> is never overrun.\<close>

theorem number_roundtrip:
  assumes "2 \<le> base" and "base \<le> 36"
  shows "\<exists>cs. number lim num base (-1) (-1) 0 st = Some (puts lim cs st)
     \<and> text_value (nat base) cs = unat num
     \<and> (\<forall>c \<in> set cs. digit_value c < nat base) \<and> length cs \<in> {1..64}"
proof -
  have "number_text num base (-1) (-1) 0 = digits_of num base 0"
    by (simp add: number_text_def sign_of_def prefix_of_def has_def)
  moreover have "in_int (number_low num base (-1) (-1) 0)"
    using digits_of_value [OF assms, of num 0] by (simp add: in_int_def number_low_def sign_of_def prefix_of_def has_def)
  ultimately have "number lim num base (-1) (-1) 0 st = Some (puts lim (digits_of num base 0) st)"
    using number_emits [OF assms] by simp
  with digits_of_value [OF assms, of num 0] show ?thesis by (auto simp: has_def)
qed

theorem number_roundtrip_witness:
  "\<exists>cs. number 99 255 16 (-1) (-1) 0 (\<lambda>_. 0, 5) = Some (puts 99 cs (\<lambda>_. 0, 5))
     \<and> text_value (nat 16) cs = unat (255 :: u64)
     \<and> (\<forall>c \<in> set cs. digit_value c < nat 16) \<and> length cs \<in> {1..64}"
  by (rule number_roundtrip) simp_all

text \<open>the field \<open>number\<close> emits has the requested width, or the width of sign, prefix,
  precision zeros and digits if that is larger; with the SIGN flag the digits denote the absolute
  value of the signed number and a minus sign is emitted exactly for negative ones.\<close>

theorem number_field:
  assumes "2 \<le> base" and "base \<le> 36" and "in_int (number_low num base sz precision type)"
  shows "\<exists>cs. number lim num base sz precision type st = Some (puts lim cs st)
     \<and> length cs = max (nat sz) (length (sign_of num type) + length (prefix_of base type)
          + max (nat precision) (length (digits_of num base type)))
     \<and> text_value (nat base) (digits_of num base type) = (if has type SIGN then nat \<bar>sint num\<bar> else unat num)
     \<and> (45 \<in> set (sign_of num type) \<longleftrightarrow> has type SIGN \<and> sint num < 0)"
proof -
  have "length (number_text num base sz precision type) =
      max (nat sz) (length (sign_of num type) + length (prefix_of base type)
          + max (nat precision) (length (digits_of num base type)))"
    by (simp add: number_text_def Let_def max_def)
  moreover have "45 \<in> set (sign_of num type) \<longleftrightarrow> has type SIGN \<and> sint num < 0"
    by (auto simp: sign_of_def)
  ultimately show ?thesis
    using number_emits [OF assms(1,2), of lim num sz precision type st] digits_of_value [OF assms(1,2)] assms(3) by auto
qed

theorem number_field_witness:
  "\<exists>cs. number 99 (-7) 10 6 (-1) (SIGN OR ZEROPAD) (\<lambda>_. 0, 5) = Some (puts 99 cs (\<lambda>_. 0, 5))
     \<and> length cs = max (nat 6) (length (sign_of (-7) (SIGN OR ZEROPAD)) + length (prefix_of 10 (SIGN OR ZEROPAD))
          + max (nat (-1)) (length (digits_of (-7) 10 (SIGN OR ZEROPAD))))
     \<and> text_value (nat 10) (digits_of (-7) 10 (SIGN OR ZEROPAD)) =
         (if has (SIGN OR ZEROPAD) SIGN then nat \<bar>sint (-7 :: u64)\<bar> else unat (-7 :: u64))
     \<and> (45 \<in> set (sign_of (-7) (SIGN OR ZEROPAD)) \<longleftrightarrow> has (SIGN OR ZEROPAD) SIGN \<and> sint (-7 :: u64) < 0)"
  by (rule number_field) (simp_all add: in_int_def number_low_def sign_of_def prefix_of_def digits_of_def has_def flag_defs num_digits.simps do_div_def Let_def)



text \<open>\<open>vsnprintf\<close> returns for every format without widths, precisions and strings if the caller passes an argument
  for each percent sign; the output, at most 67 bytes for each character of the format, must fit into the address space.\<close>

theorem vsnprintf_returns:
  assumes "count_list fmt 37 \<le> length args" "plain_format fmt" "buf + 67 * length fmt < 2 ^ 64"
  shows "\<exists>r m'. vsnprintf m buf sz fmt args = Some (r, m')"
  using assms by (rule vsnprintf_plain)

theorem vsnprintf_returns_witness:
  "\<exists>r m'. vsnprintf (\<lambda>_. 0) 64 16 [37, 45, 46, 100] [42] = Some (r, m')"
  by (rule vsnprintf_returns) (simp_all add: plain_format_def is_digit_def)

text \<open>\<open>vsprintf\<close> of a text without directives writes the whole text and its terminator
  however long it is: it passes the largest \<open>int\<close> as the buffer size, so nothing stops it at the
  end of the buffer its caller really has (the 1024 bytes of \<open>printk\<close>).\<close>

theorem vsprintf_unbounded:
  assumes "0 < buf" and "buf + 2 ^ 31 \<le> 2 ^ 64" and "37 \<notin> set fmt" and "length fmt < 2 ^ 31 - 2"
  shows "\<exists>m'. vsprintf m buf fmt args = Some (int (length fmt), m')
     \<and> (\<forall>i \<le> length fmt. m' (buf + i) = (fmt @ [0]) ! i)
     \<and> (\<forall>a. a < buf \<or> buf + length fmt < a \<longrightarrow> m' a = m a)"
proof -
  let ?lim = "int buf + int (2 ^ 31 - 1) - 1"
  have "int (buf + 2 ^ 31) \<le> int (2 ^ 64)" using assms(2) by (simp only: of_nat_le_iff)
  then have lim: "(int buf + int (2 ^ 31 - 1) - 1) mod 2 ^ 64 = ?lim"
    using assms(1) by (intro mod_pos_pos_trivial) auto
  have len: "int (buf + length fmt) \<le> ?lim" using assms(4) by simp
  define m1 where "m1 = fst (puts ?lim fmt (m, buf))"
  have loop: "vsnprintf_loop ?lim buf fmt args (m, buf) = Some (m1, buf + length fmt)"
    by (simp add: vsnprintf_loop_plain [OF assms(3)] m1_def puts_eq)
  have v: "vsprintf m buf fmt args = Some (int (length fmt), m1(buf + length fmt := 0))"
    unfolding vsprintf_def vsnprintf_def Let_def lim using loop len assms(2,4) to_int_nat [of "length fmt"] by simp
  have m1: "m1 a = (if buf \<le> a \<and> a < buf + length fmt then fmt ! (a - buf) else m a)" for a
    using len by (auto simp: m1_def puts_eq)
  show ?thesis
    using v by (auto simp: m1 nth_append intro!: exI [of _ "m1(buf + length fmt := 0)"])
qed

theorem vsprintf_unbounded_witness:
  "\<exists>m'. vsprintf (\<lambda>_. 0) 4096 (replicate 2000 65) [] = Some (2000, m') \<and> m' (4096 + 1999) = 65"
proof -
  have "\<exists>m'. vsprintf (\<lambda>_. 0) 4096 (replicate 2000 65) [] = Some (int (length (replicate 2000 (65 :: u8))), m')
     \<and> (\<forall>i \<le> length (replicate 2000 (65 :: u8)). m' (4096 + i) = (replicate 2000 65 @ [0]) ! i)
     \<and> (\<forall>a. a < 4096 \<or> 4096 + length (replicate 2000 (65 :: u8)) < a \<longrightarrow> m' a = 0)"
    by (rule vsprintf_unbounded) simp_all
  then obtain m' where "vsprintf (\<lambda>_. 0) 4096 (replicate 2000 65) [] = Some (2000, m')"
    and all: "\<forall>i \<le> 2000. m' (4096 + i) = (replicate 2000 65 @ [0]) ! i" by auto
  moreover have "m' (4096 + 1999) = (replicate 2000 65 @ [0 :: u8]) ! 1999"
    by (rule all [rule_format]) simp
  moreover have "(replicate 2000 65 @ [0 :: u8]) ! 1999 = 65"
    by (simp add: nth_append)
  ultimately show ?thesis by auto
qed

end
