(* ===== verification/Mm.thy ===== *)
theory Mm
  imports Kernel_Prelude
begin

text \<open>
  Model of \<open>mm/memory.c\<close> with the macros of \<open>linux/mm.h\<close> and \<open>linux/config.h\<close>: the reference
  counted page allocator over \<open>mem_map\<close>, the Sv39 page tables (mapping a page, sharing and
  freeing a process' tables, the boot tables) and the page fault handlers.

  RAM is \<open>pmem\<close>: the 8-byte word whose address in the kernel's direct map is the argument.  A
  load or store through a pointer outside the direct map is \<open>BadAccess\<close>: address 0 and the
  addresses the macros produce from an empty entry are not mapped, and a supervisor access
  through a user page faults because the trap entry clears \<open>sstatus.SUM\<close> (\<open>kernel/entry.S\<close>) and
  nothing sets it again.  The TLB is not modelled: \<open>sfence.vma\<close> has no effect on this state.
\<close>

subsection \<open>Constants and address macros\<close>

definition RAM_START :: u64 where "RAM_START = 0x80000000"
definition RAM_SIZE :: u64 where "RAM_SIZE = 0x08000000"
definition SBI_SIZE :: u64 where "SBI_SIZE = 0x00200000"
definition VA_KERNEL :: u64 where "VA_KERNEL = 0xFFFFFFC000000000"
definition PA_KERNEL :: u64 where "PA_KERNEL = RAM_START + SBI_SIZE"
definition V_P_DIFF :: u64 where "V_P_DIFF = VA_KERNEL - PA_KERNEL"
definition BUFFER_SIZE :: u64 where "BUFFER_SIZE = 0x400000"
definition BUFFER_END :: u64 where "BUFFER_END = RAM_START + SBI_SIZE + BUFFER_SIZE"
definition HIGH_MEMORY :: u64 where "HIGH_MEMORY = RAM_START + RAM_SIZE"
definition LOW_MEM :: u64 where "LOW_MEM = BUFFER_END"
definition D_V_P_DIFF :: u64 where "D_V_P_DIFF = 0xFFFFFFFF80000000 - 0"

definition V2P :: "u64 \<Rightarrow> u64" where "V2P a = a - V_P_DIFF"
definition P2V :: "u64 \<Rightarrow> u64" where "P2V a = a + V_P_DIFF"
definition D_P2V_WO :: "u64 \<Rightarrow> u64" where "D_P2V_WO x = x + D_V_P_DIFF"

definition PAGING_PAGES :: nat where
  "PAGING_PAGES = unat ((HIGH_MEMORY - LOW_MEM) div 4096)"

definition MAP_NR :: "u64 \<Rightarrow> nat" where
  "MAP_NR addr = unat (drop_bit 12 (addr - P2V LOW_MEM))"

definition PTE_V :: u64 where "PTE_V = 1"
definition PTE_R :: u64 where "PTE_R = 2"
definition PTE_W :: u64 where "PTE_W = 4"
definition PTE_X :: u64 where "PTE_X = 8"
definition PTE_U :: u64 where "PTE_U = 16"

definition PA2PTE :: "u64 \<Rightarrow> u64" where "PA2PTE pa = push_bit 10 (drop_bit 12 pa)"
definition VA2PTE :: "u64 \<Rightarrow> u64" where "VA2PTE va = PA2PTE (V2P va)"
definition PTE2PA :: "u64 \<Rightarrow> u64" where "PTE2PA e = push_bit 12 (drop_bit 10 e)"
definition PTE2VA :: "u64 \<Rightarrow> u64" where "PTE2VA e = P2V (PTE2PA e)"

definition PX :: "nat \<Rightarrow> u64 \<Rightarrow> u64" where
  "PX level va = drop_bit (12 + 9 * level) va AND 0x1FF"

lemmas mm_consts =
  RAM_START_def RAM_SIZE_def SBI_SIZE_def VA_KERNEL_def PA_KERNEL_def V_P_DIFF_def BUFFER_SIZE_def
  BUFFER_END_def HIGH_MEMORY_def LOW_MEM_def V2P_def P2V_def

subsection \<open>State\<close>

record mm =
  mem_map :: "nat \<Rightarrow> u16"        \<comment> \<open>\<open>mem_map[PAGING_PAGES]\<close>\<close>
  pmem :: "u64 \<Rightarrow> u64"           \<comment> \<open>RAM through the direct map\<close>
  satp :: u64                      \<comment> \<open>the CSR\<close>
  current :: u64                   \<comment> \<open>the register \<open>tp\<close>\<close>
  task :: "nat \<Rightarrow> u64"           \<comment> \<open>\<open>task[NR_TASKS]\<close>, 0 is NULL\<close>
  task_pgd :: "u64 \<Rightarrow> u64"       \<comment> \<open>the field \<open>pgd\<close> of the task at an address\<close>
  swapper_pg_dir :: u64            \<comment> \<open>link address of the array\<close>

definition direct :: "u64 \<Rightarrow> bool" where
  "direct va \<longleftrightarrow> VA_KERNEL \<le> va \<and> va < P2V HIGH_MEMORY"

definition kload :: "u64 \<Rightarrow> 'a mm_scheme \<Rightarrow> ('a mm_scheme, u64) kres" where
  "kload va s = (if direct va then Inr (pmem s va, s) else Inl (BadAccess va, s))"

definition kstore :: "u64 \<Rightarrow> u64 \<Rightarrow> 'a mm_scheme \<Rightarrow> ('a mm_scheme, unit) kres" where
  "kstore va w s =
     (if direct va then Inr ((), s\<lparr>pmem := (pmem s)(va := w)\<rparr>) else Inl (BadAccess va, s))"

definition get_count :: "nat \<Rightarrow> 'a mm_scheme \<Rightarrow> ('a mm_scheme, u16) kres" where
  "get_count nr s = (if nr < PAGING_PAGES then Inr (mem_map s nr, s) else Inl (OutOfBounds, s))"

definition set_count :: "nat \<Rightarrow> u16 \<Rightarrow> 'a mm_scheme \<Rightarrow> ('a mm_scheme, unit) kres" where
  "set_count nr c s =
     (if nr < PAGING_PAGES then Inr ((), s\<lparr>mem_map := (mem_map s)(nr := c)\<rparr>)
      else Inl (OutOfBounds, s))"

text \<open>\<open>memset(p, 0, len)\<close> and \<open>memcpy(dst, src, PAGE_SIZE)\<close> on whole pages of the direct map.\<close>

definition zero_range :: "u64 \<Rightarrow> u64 \<Rightarrow> (u64 \<Rightarrow> u64) \<Rightarrow> u64 \<Rightarrow> u64" where
  "zero_range p len m = (\<lambda>a. if a - p < len then 0 else m a)"

definition copied_page :: "u64 \<Rightarrow> u64 \<Rightarrow> (u64 \<Rightarrow> u64) \<Rightarrow> u64 \<Rightarrow> u64" where
  "copied_page dst src m = (\<lambda>a. if a - dst < 4096 then m (src + (a - dst)) else m a)"

definition memcpy_page :: "u64 \<Rightarrow> u64 \<Rightarrow> 'a mm_scheme \<Rightarrow> ('a mm_scheme, unit) kres" where
  "memcpy_page dst src s =
     (if \<not> direct src then Inl (BadAccess src, s)
      else if \<not> direct dst then Inl (BadAccess dst, s)
      else Inr ((), s\<lparr>pmem := copied_page dst src (pmem s)\<rparr>))"

subsection \<open>The page allocator\<close>

text \<open>The scans of \<open>get_free_page\<close> (upwards) and \<open>get_two_free_pages\<close> (downwards).\<close>

function scan_up :: "(nat \<Rightarrow> u16) \<Rightarrow> nat \<Rightarrow> nat option" where
  "scan_up mp i =
     (if i < PAGING_PAGES then if mp i = 0 then Some i else scan_up mp (i + 1) else None)"
  by pat_completeness auto
termination by (relation "measure (\<lambda>(mp, i). PAGING_PAGES - i)") auto

declare scan_up.simps [simp del]

primrec scan_down :: "(nat \<Rightarrow> u16) \<Rightarrow> nat \<Rightarrow> nat option" where
  "scan_down mp 0 = None"
| "scan_down mp (Suc i) = (if mp i = 0 \<and> mp (i + 1) = 0 then Some i else scan_down mp i)"

definition page_addr :: "nat \<Rightarrow> u64" where
  "page_addr i = P2V LOW_MEM + of_nat i * 4096"

definition get_free_page :: "'a mm_scheme \<Rightarrow> ('a mm_scheme, u64) kres" where
  "get_free_page s =
     (case scan_up (mem_map s) 0 of
        Some i \<Rightarrow>
          Inr (page_addr i, s\<lparr>mem_map := (mem_map s)(i := 1),
                              pmem := zero_range (page_addr i) 4096 (pmem s)\<rparr>)
      | None \<Rightarrow> Inr (0, s))"

definition free_page :: "u64 \<Rightarrow> 'a mm_scheme \<Rightarrow> ('a mm_scheme, unit) kres" where
  "free_page addr s =
     (if addr < P2V LOW_MEM then Inr ((), s)
      else if P2V HIGH_MEMORY < addr then panic ''trying to free nonexistent page'' s
      else kbind (get_count (MAP_NR addr)) (\<lambda>c.
             kseq (set_count (MAP_NR addr) (c - 1))
               (if c \<noteq> 0 then kreturn ()
                else kseq (set_count (MAP_NR addr) 0) (panic ''trying to free free page''))) s)"

definition get_two_free_pages :: "'a mm_scheme \<Rightarrow> ('a mm_scheme, u64) kres" where
  "get_two_free_pages s =
     (case scan_down (mem_map s) (PAGING_PAGES - 1) of
        Some i \<Rightarrow>
          Inr (page_addr i, s\<lparr>mem_map := (mem_map s)(i := 1, i + 1 := 1),
                              pmem := zero_range (page_addr i) 8192 (pmem s)\<rparr>)
      | None \<Rightarrow> Inr (0, s))"

definition free_two_pages :: "u64 \<Rightarrow> 'a mm_scheme \<Rightarrow> ('a mm_scheme, unit) kres" where
  "free_two_pages addr s =
     (if addr < P2V LOW_MEM then Inr ((), s)
      else if P2V HIGH_MEMORY < addr then panic ''trying to free nonexistent page'' s
      else kbind (get_count (MAP_NR addr)) (\<lambda>p1.
             kseq (set_count (MAP_NR addr) (p1 - 1))
               (kbind (get_count (MAP_NR addr + 1)) (\<lambda>p2.
                  kseq (set_count (MAP_NR addr + 1) (p2 - 1))
                    (if p1 \<noteq> 0 \<and> p2 \<noteq> 0 then kreturn ()
                     else kseq (set_count (MAP_NR addr) 0)
                            (kseq (set_count (MAP_NR addr + 1) 0)
                               (panic ''trying to free free page'')))))) s)"

subsection \<open>Page table trees\<close>

definition pte_addr :: "u64 \<Rightarrow> nat \<Rightarrow> u64" where
  "pte_addr table i = table + 8 * of_nat i"

definition free_one_table :: "u64 \<Rightarrow> 'a mm_scheme \<Rightarrow> ('a mm_scheme, unit) kres" where
  "free_one_table pte =
     kbind (kload pte) (\<lambda>e2.
       if e2 AND PTE_V \<noteq> 0 then
         kseq (kfor [0..<512] (\<lambda>i.
           kbind (kload (pte_addr (PTE2VA e2) i)) (\<lambda>e1.
             if e1 AND PTE_V \<noteq> 0 then
               kseq (kfor [0..<512] (\<lambda>j.
                 kbind (kload (pte_addr (PTE2VA e1) j)) (\<lambda>e0.
                   if e0 AND PTE_V \<noteq> 0 then free_page (PTE2VA e0) else kreturn ())))
               (kbind (kload (pte_addr (PTE2VA e2) i)) (\<lambda>e. free_page (PTE2VA e)))
             else kreturn ())))
         (kbind (kload pte) (\<lambda>e. free_page (PTE2VA e)))
       else kreturn ())"

definition clear_page_tables :: "u64 \<Rightarrow> 'a mm_scheme \<Rightarrow> ('a mm_scheme, unit) kres" where
  "clear_page_tables tsk s =
     (if tsk = 0 then Inr ((), s)
      else if tsk = task s 0 then panic ''task[0] (swapper) doesn't support exec() yet'' s
      else if task_pgd s tsk = swapper_pg_dir s then Inr ((), s)
      else kfor [0..<256] (\<lambda>i. free_one_table (pte_addr (task_pgd s tsk) i)) s)"

definition load_root_page_table :: "u64 \<Rightarrow> u64 \<Rightarrow> 'a mm_scheme \<Rightarrow> ('a mm_scheme, unit) kres" where
  "load_root_page_table satp_mode root =
     kmodify (\<lambda>s. s\<lparr>satp := satp_mode OR drop_bit 12 (V2P root)\<rparr>)"

definition SATP_MODE_39 :: u64 where "SATP_MODE_39 = 0x8000000000000000"

definition free_page_tables :: "u64 \<Rightarrow> 'a mm_scheme \<Rightarrow> ('a mm_scheme, unit) kres" where
  "free_page_tables tsk s =
     (if tsk = 0 then Inr ((), s)
      else if tsk = task s 0 then panic ''Trying to free up swapper memory space'' s
      else if task_pgd s tsk = swapper_pg_dir s then Inr ((), s)
      else kseq (if tsk = current s then load_root_page_table SATP_MODE_39 (swapper_pg_dir s)
                 else kreturn ())
             (kseq (kfor [0..<256] (\<lambda>i. free_one_table (pte_addr (task_pgd s tsk) i)))
                (free_page (task_pgd s tsk))) s)"

text \<open>\<open>mem_map[nr]++\<close>.\<close>

definition inc_count :: "nat \<Rightarrow> 'a mm_scheme \<Rightarrow> ('a mm_scheme, unit) kres" where
  "inc_count nr = kbind (get_count nr) (\<lambda>c. set_count nr (c + 1))"

definition dec_count :: "nat \<Rightarrow> 'a mm_scheme \<Rightarrow> ('a mm_scheme, unit) kres" where
  "dec_count nr = kbind (get_count nr) (\<lambda>c. set_count nr (c - 1))"

definition reference_count_one_table :: "u64 \<Rightarrow> 'a mm_scheme \<Rightarrow> ('a mm_scheme, unit) kres" where
  "reference_count_one_table pte =
     kbind (kload pte) (\<lambda>e2.
       if e2 AND PTE_V \<noteq> 0 then
         kseq (inc_count (MAP_NR (PTE2VA e2)))
           (kfor [0..<512] (\<lambda>i.
             kbind (kload (pte_addr (PTE2VA e2) i)) (\<lambda>e1.
               if e1 AND PTE_V \<noteq> 0 then
                 kseq (inc_count (MAP_NR (PTE2VA e1)))
                   (kfor [0..<512] (\<lambda>j.
                     kbind (kload (pte_addr (PTE2VA e1) j)) (\<lambda>e0.
                       if e0 AND PTE_V \<noteq> 0 then
                         kseq (kstore (pte_addr (PTE2VA e1) j)
                                 (e0 AND NOT 0x3FF OR (PTE_U OR PTE_X OR PTE_R OR PTE_V)))
                           (kbind (kload (pte_addr (PTE2VA e1) j)) (\<lambda>e. inc_count (MAP_NR (PTE2VA e))))
                       else kreturn ())))
               else kreturn ())))
       else kreturn ())"

definition ENOMEM :: int where "ENOMEM = 12"

definition copy_page_tables :: "u64 \<Rightarrow> 'a mm_scheme \<Rightarrow> ('a mm_scheme, int) kres" where
  "copy_page_tables tsk s =
     (let old_pg_dir = task_pgd s (current s) in
      kbind get_free_page (\<lambda>new_pg_dir.
        if new_pg_dir = 0 then kreturn (- ENOMEM)
        else kseq (kmodify (\<lambda>t. t\<lparr>task_pgd := (task_pgd t)(tsk := new_pg_dir)\<rparr>))
               (kseq (memcpy_page new_pg_dir old_pg_dir)
                  (kseq (kfor [0..<256] (\<lambda>i. reference_count_one_table (pte_addr old_pg_dir i)))
                     (kreturn 0)))) s)"

subsection \<open>Mapping a page\<close>

text \<open>The rollback loop of \<open>map_page\<close>, entered at \<open>level\<close> when an allocation fails; \<open>rec\<close> is
  \<open>pte_record\<close>.\<close>

definition map_rollback :: "u64 \<Rightarrow> (nat \<Rightarrow> u64) \<Rightarrow> nat \<Rightarrow> nat \<Rightarrow> 'a mm_scheme \<Rightarrow> ('a mm_scheme, unit) kres" where
  "map_rollback va rec level top_level =
     kfor [level..<top_level] (\<lambda>l.
       if 4 \<le> l then kstop OutOfBounds
       else if rec l \<noteq> 0 then
         kbind (kload (pte_addr (rec (l - 1)) (unat (PX l va)))) (\<lambda>e. free_page (PTE2VA e))
       else kreturn ())"

text \<open>The descent: \<open>Inr (table, ..)\<close> with the table of \<open>leaf_level\<close>, or \<open>None\<close> after a
  rollback.\<close>

fun map_descend :: "u64 \<Rightarrow> nat \<Rightarrow> nat \<Rightarrow> nat \<Rightarrow> (nat \<Rightarrow> u64) \<Rightarrow> u64 \<Rightarrow> 'a mm_scheme
    \<Rightarrow> ('a mm_scheme, u64 option) kres" where
  "map_descend va top_level leaf_level level rec table s =
     (if level \<le> leaf_level then Inr (Some table, s)
      else kbind (kload (pte_addr table (unat (PX level va)))) (\<lambda>e.
        if e AND PTE_V = 0 then
          kbind get_free_page (\<lambda>new_page.
            if new_page = 0 then kseq (map_rollback va rec level top_level) (kreturn None)
            else if 4 < level then kstop OutOfBounds
            else
              let rec' = rec(level - 1 := new_page) in
              kseq (kstore (pte_addr table (unat (PX level va))) (VA2PTE new_page OR PTE_V))
                (kbind (kload (pte_addr table (unat (PX level va)))) (\<lambda>e'.
                   map_descend va top_level leaf_level (level - 1) rec' (PTE2VA e'))))
        else map_descend va top_level leaf_level (level - 1) rec (PTE2VA e)) s)"

declare map_descend.simps [simp del]

definition map_page :: "u64 \<Rightarrow> u64 \<Rightarrow> u64 \<Rightarrow> u64 \<Rightarrow> nat \<Rightarrow> nat \<Rightarrow> 'a mm_scheme
    \<Rightarrow> ('a mm_scheme, int) kres" where
  "map_page page_table va pa perm top_level leaf_level =
     kbind (map_descend va top_level leaf_level top_level (\<lambda>_. 0) page_table) (\<lambda>r.
       case r of
         None \<Rightarrow> kreturn (- 1)
       | Some table \<Rightarrow>
           kseq (kstore (pte_addr table (unat (PX (min top_level leaf_level) va))) (PA2PTE pa OR perm))
             (kreturn 0))"

subsection \<open>Boot-time tables\<close>

text \<open>\<open>while (ram_start < ram_end) { body; ram_start += PAGE_SIZE; }\<close>: the addresses visited.\<close>

definition page_range :: "u64 \<Rightarrow> u64 \<Rightarrow> u64 list" where
  "page_range a b = map (\<lambda>i. a + 4096 * of_nat i) [0..<(unat (b - a) + 4095) div 4096]"

definition paging_init :: "'a mm_scheme \<Rightarrow> ('a mm_scheme, unit) kres" where
  "paging_init s =
     (let perm = PTE_X OR PTE_W OR PTE_R OR PTE_V; pg = swapper_pg_dir s in
      kseq (kfor (page_range PA_KERNEL (RAM_START + RAM_SIZE)) (\<lambda>a.
              kseq (map_page pg (P2V a) a perm 2 0)
                (kseq (map_page pg a a (PTE_U OR perm) 2 0) (kreturn ()))))
        (kseq (kfor (page_range 0x10000 (0x10000 + 4096)) (\<lambda>a.
                 kseq (map_page pg (D_P2V_WO a) a perm 2 0) (kreturn ())))
           (kseq (kfor (page_range 0xC000000 (0x10000000 + 4096 * 2)) (\<lambda>a.
                    kseq (map_page pg (D_P2V_WO a) a perm 2 0) (kreturn ())))
              (load_root_page_table SATP_MODE_39 pg))) s)"

text \<open>\<open>setup_vm\<close> runs at physical addresses and fills the two boot tables.\<close>

record boot_vm =
  dtb_va :: u64
  trampoline_pg_dir :: "nat \<Rightarrow> u64"
  trampoline_pg_l2pte :: "nat \<Rightarrow> u64"

fun setup_loop :: "nat list \<Rightarrow> u64 \<Rightarrow> u64 \<Rightarrow> u64 \<Rightarrow> (nat \<Rightarrow> u64) \<Rightarrow> nat \<Rightarrow> u64" where
  "setup_loop [] pa_start pa_end perm tbl = tbl"
| "setup_loop (i # is) pa_start pa_end perm tbl =
     (if pa_start < pa_end then
        setup_loop is (pa_start + 0x200000) pa_end perm (tbl(i := PA2PTE pa_start OR perm))
      else tbl)"

text \<open>\<open>l2_pa\<close> is the (physical) address of the array \<open>trampoline_pg_l2pte\<close>.\<close>

definition setup_vm :: "u64 \<Rightarrow> u64 \<Rightarrow> boot_vm \<Rightarrow> boot_vm" where
  "setup_vm l2_pa dtb_pa s =
     (let PMD_SIZE = 0x200000;
          pa_end = (RAM_START + RAM_SIZE + PMD_SIZE - 1) AND NOT (PMD_SIZE - 1) in
      s\<lparr>dtb_va := P2V dtb_pa,
        trampoline_pg_dir :=
          (trampoline_pg_dir s)(unat (PX 2 VA_KERNEL) := PA2PTE l2_pa OR PTE_V),
        trampoline_pg_l2pte :=
          setup_loop [unat (PX 1 VA_KERNEL)..<512] PA_KERNEL pa_end
            (PTE_X OR PTE_W OR PTE_R OR PTE_V) (trampoline_pg_l2pte s)\<rparr>)"

subsection \<open>Page faults\<close>

text \<open>\<open>current_table[index] & PTE_V == 0\<close> groups as \<open>current_table[index] & (PTE_V == 0)\<close>.\<close>

definition get_pte :: "u64 \<Rightarrow> u64 \<Rightarrow> 'a mm_scheme \<Rightarrow> ('a mm_scheme, u64) kres" where
  "get_pte page_table va =
     kbind (kload (pte_addr page_table (unat (PX 2 va)))) (\<lambda>e2.
       if e2 AND (if PTE_V = 0 then 1 else 0) \<noteq> 0 then kreturn 0
       else kbind (kload (pte_addr (PTE2VA e2) (unat (PX 1 va)))) (\<lambda>e1.
         if e1 AND (if PTE_V = 0 then 1 else 0) \<noteq> 0 then kreturn 0
         else kreturn (pte_addr (PTE2VA e1) (unat (PX 0 va)))))"

definition SIGSEGV :: int where "SIGSEGV = 11"

definition user_rwx :: u64 where
  "user_rwx = PTE_U OR PTE_X OR PTE_W OR PTE_R OR PTE_V"

definition set_writable :: "u64 \<Rightarrow> 'a mm_scheme \<Rightarrow> ('a mm_scheme, unit) kres" where
  "set_writable table_entry = kbind (kload table_entry) (\<lambda>e. kstore table_entry (e OR PTE_W))"

definition wp_copy :: "u64 \<Rightarrow> u64 \<Rightarrow> u64 \<Rightarrow> 'a mm_scheme \<Rightarrow> ('a mm_scheme, unit) kres" where
  "wp_copy address table_entry old_page =
     kbind get_free_page (\<lambda>new_page.
       if new_page = 0 then kstop (DoExit SIGSEGV)
       else kbind (\<lambda>s. map_page (task_pgd s (current s)) new_page address user_rwx 2 0 s) (\<lambda>r.
         if r \<noteq> 0 then kstop (DoExit SIGSEGV)
         else kseq (dec_count (MAP_NR old_page))
                (kseq (set_writable table_entry) (memcpy_page new_page address))))"

definition do_wp_page :: "u64 \<Rightarrow> u64 \<Rightarrow> 'a mm_scheme \<Rightarrow> ('a mm_scheme, unit) kres" where
  "do_wp_page address table_entry =
     kbind (kload table_entry) (\<lambda>e.
       let old_page = PTE2VA e in
       if P2V LOW_MEM \<le> old_page then
         kbind (get_count (MAP_NR old_page)) (\<lambda>c.
           if c = 1 then set_writable table_entry else wp_copy address table_entry old_page)
       else wp_copy address table_entry old_page)"

definition TASK_SIZE :: u64 where "TASK_SIZE = 0x0000003FFFFFFFFF"

definition write_verify :: "u64 \<Rightarrow> 'a mm_scheme \<Rightarrow> ('a mm_scheme, unit) kres" where
  "write_verify addr s =
     (let address = addr AND NOT 0xFFF in
      if address < 4096 \<or> TASK_SIZE \<le> address then Inl (DoExit SIGSEGV, s)
      else kbind (get_pte (task_pgd s (current s)) address) (\<lambda>table_entry.
             if table_entry \<noteq> 0 then
               kbind (kload table_entry) (\<lambda>e.
                 if e OR PTE_W OR PTE_V = PTE_V then do_wp_page address table_entry else kreturn ())
             else kreturn ()) s)"

definition do_no_page :: "u64 \<Rightarrow> u64 \<Rightarrow> 'a mm_scheme \<Rightarrow> ('a mm_scheme, unit) kres" where
  "do_no_page address table_entry =
     kbind get_free_page (\<lambda>tmp.
       if tmp \<noteq> 0 then
         kbind (\<lambda>s. map_page (task_pgd s (current s)) tmp address user_rwx 2 0 s) (\<lambda>r.
           if r = 0 then kreturn () else kstop (DoExit SIGSEGV))
       else kstop (DoExit SIGSEGV))"

text \<open>\<open>badaddr\<close> is a signed \<open>ssize_t\<close>, \<open>PAGE_SIZE\<close> an \<open>int\<close> and \<open>TASK_SIZE\<close> unsigned.\<close>

definition do_page_fault :: "u64 \<Rightarrow> 'a mm_scheme \<Rightarrow> ('a mm_scheme, unit) kres" where
  "do_page_fault regs_badaddr s =
     (let badaddr = regs_badaddr AND NOT 0xFFF in
      if sint badaddr < 4096 \<or> TASK_SIZE \<le> badaddr then Inl (DoExit SIGSEGV, s)
      else kbind (get_pte (task_pgd s (current s)) badaddr) (\<lambda>table_entry.
             if table_entry \<noteq> 0 then
               kbind (kload table_entry) (\<lambda>e.
                 if e OR PTE_V \<noteq> 0 then do_wp_page badaddr table_entry
                 else do_no_page badaddr table_entry)
             else do_no_page badaddr table_entry) s)"

end
