(* ===== verification/Mm_Alloc.thy ===== *)
theory Mm_Alloc
  imports Mm
begin

text \<open>
  The page allocator of \<open>mm/memory.c\<close> as a pool of reference counted pages.  The contract is the
  locale \<open>page_pool\<close>; it is interpreted on \<open>get_free_page\<close> and \<open>free_page\<close>.  The lemmas cover the
  scan, the page addresses, the counts, and runs of allocations and releases.
\<close>

subsection \<open>Arithmetic of page addresses\<close>

lemma PAGING_PAGES_val [simp]: "PAGING_PAGES = 31232"
  by (simp add: PAGING_PAGES_def mm_consts)

lemma low_va: "P2V LOW_MEM = 0xFFFFFFC000400000"
  by (simp add: mm_consts)

lemma high_va: "P2V HIGH_MEMORY = 0xFFFFFFC007E00000"
  by (simp add: mm_consts)

lemma page_offset_unat:
  assumes "i < 31232"
  shows "unat (of_nat i * 4096 :: u64) = i * 4096"
proof -
  have "i * 4096 < 2 ^ 64" using assms by simp
  then show ?thesis
    by (simp add: unat_of_nat unat_word_ariths take_bit_nat_eq_self)
qed

lemma unat_page_addr:
  assumes "i < 31232"
  shows "unat (page_addr i) = 0xFFFFFFC000400000 + i * 4096"
proof -
  have "unat (page_addr i) = (unat (0xFFFFFFC000400000 :: u64) + unat (of_nat i * 4096 :: u64)) mod 2 ^ 64"
    by (simp add: page_addr_def low_va unat_word_ariths)
  then show ?thesis using assms page_offset_unat [OF assms] by simp
qed

lemma page_addr_nonzero [simp]: "i < 31232 \<Longrightarrow> page_addr i \<noteq> 0"
  using unat_page_addr [of i] by auto

lemma MAP_NR_page_addr [simp]:
  assumes "i < 31232"
  shows "MAP_NR (page_addr i) = i"
proof -
  have "page_addr i - P2V LOW_MEM = of_nat i * 4096"
    by (simp add: page_addr_def)
  then show ?thesis
    using page_offset_unat [OF assms]
    by (simp add: MAP_NR_def unat_drop_bit)
qed

lemma page_addr_inj: "i < 31232 \<Longrightarrow> j < 31232 \<Longrightarrow> page_addr i = page_addr j \<longleftrightarrow> i = j"
  by (metis MAP_NR_page_addr)

lemma page_addr_range:
  assumes "i < 31232"
  shows "P2V LOW_MEM \<le> page_addr i" "page_addr i < P2V HIGH_MEMORY" "\<not> P2V HIGH_MEMORY < page_addr i"
    "direct (page_addr i)"
  using assms unat_page_addr [OF assms]
  by (simp_all add: word_le_nat_alt word_less_nat_alt low_va high_va direct_def VA_KERNEL_def)

lemma MAP_NR_bound:
  assumes "P2V LOW_MEM \<le> a" "a < P2V HIGH_MEMORY"
  shows "MAP_NR a < 31232"
proof -
  have "unat (a - P2V LOW_MEM) = unat a - unat (P2V LOW_MEM)"
    using assms(1) by (simp add: unat_sub)
  moreover have "unat a < 0xFFFFFFC007E00000"
    using assms(2) by (simp add: word_less_nat_alt high_va)
  ultimately have "unat (a - P2V LOW_MEM) < 31232 * 4096" by (simp add: low_va)
  then show ?thesis by (simp add: MAP_NR_def unat_drop_bit)
qed

subsection \<open>The scans\<close>

lemma scan_up_find: "scan_up mp i = find (\<lambda>k. mp k = 0) [i..<PAGING_PAGES]"
proof (induction mp i rule: scan_up.induct)
  case (1 mp i)
  then show ?case
    by (subst scan_up.simps) (simp add: upt_rec [of i])
qed

lemma scan_up_Some_iff:
  "scan_up mp 0 = Some i \<longleftrightarrow> i < 31232 \<and> mp i = 0 \<and> (\<forall>k < i. mp k \<noteq> 0)"
  by (simp add: scan_up_find find_upt_Some_iff)

lemma scan_up_None_iff: "scan_up mp 0 = None \<longleftrightarrow> (\<forall>k < 31232. mp k \<noteq> 0)"
  by (simp add: scan_up_find find_upt_None_iff)

lemma scan_down_Some:
  "scan_down mp n = Some i \<Longrightarrow>
     i < n \<and> mp i = 0 \<and> mp (i + 1) = 0 \<and> (\<forall>k. i < k \<and> k < n \<longrightarrow> mp k \<noteq> 0 \<or> mp (k + 1) \<noteq> 0)"
  by (induction n) (auto split: if_splits simp: less_Suc_eq)

lemma scan_down_None: "scan_down mp n = None \<longleftrightarrow> (\<forall>k < n. mp k \<noteq> 0 \<or> mp (k + 1) \<noteq> 0)"
  by (induction n) (auto simp: less_Suc_eq)

subsection \<open>The operations on counts\<close>

named_theorems mm_ops \<open>evaluation of the primitive memory operations\<close>

lemma get_count_ok [mm_ops]: "nr < 31232 \<Longrightarrow> get_count nr s = Inr (mem_map s nr, s)"
  by (simp add: get_count_def)

lemma set_count_ok [mm_ops]:
  "nr < 31232 \<Longrightarrow> set_count nr c s = Inr ((), s\<lparr>mem_map := (mem_map s)(nr := c)\<rparr>)"
  by (simp add: set_count_def)

lemma inc_count_ok [mm_ops]:
  "nr < 31232 \<Longrightarrow> inc_count nr s = Inr ((), s\<lparr>mem_map := (mem_map s)(nr := mem_map s nr + 1)\<rparr>)"
  by (simp add: inc_count_def kbind_def mm_ops)

lemma dec_count_ok [mm_ops]:
  "nr < 31232 \<Longrightarrow> dec_count nr s = Inr ((), s\<lparr>mem_map := (mem_map s)(nr := mem_map s nr - 1)\<rparr>)"
  by (simp add: dec_count_def kbind_def mm_ops)

lemma kload_ok [mm_ops]: "direct a \<Longrightarrow> kload a s = Inr (pmem s a, s)"
  by (simp add: kload_def)

lemma kstore_ok [mm_ops]: "direct a \<Longrightarrow> kstore a w s = Inr ((), s\<lparr>pmem := (pmem s)(a := w)\<rparr>)"
  by (simp add: kstore_def)

lemma get_free_page_Some:
  assumes "scan_up (mem_map s) 0 = Some i"
  shows "get_free_page s = Inr (page_addr i, s\<lparr>mem_map := (mem_map s)(i := 1),
           pmem := zero_range (page_addr i) 4096 (pmem s)\<rparr>)"
  using assms by (simp add: get_free_page_def)

lemma get_free_page_cases:
  obtains (page) i where "i < 31232" "mem_map s i = 0" "\<forall>k < i. mem_map s k \<noteq> 0"
      "get_free_page s = Inr (page_addr i, s\<lparr>mem_map := (mem_map s)(i := 1),
           pmem := zero_range (page_addr i) 4096 (pmem s)\<rparr>)"
    | (full) "\<forall>k < 31232. mem_map s k \<noteq> 0" "get_free_page s = Inr (0, s)"
proof (cases "scan_up (mem_map s) 0")
  case None
  then have "\<forall>k < 31232. mem_map s k \<noteq> 0" by (simp add: scan_up_None_iff)
  moreover have "get_free_page s = Inr (0, s)" using None by (simp add: get_free_page_def)
  ultimately show ?thesis by (rule full)
next
  case (Some i)
  then have "i < 31232" "mem_map s i = 0" "\<forall>k < i. mem_map s k \<noteq> 0"
    by (simp_all add: scan_up_Some_iff)
  then show ?thesis by (rule page [OF _ _ _ get_free_page_Some [OF Some]])
qed

lemma free_page_range:
  assumes "P2V LOW_MEM \<le> a" "a < P2V HIGH_MEMORY"
  shows "free_page a s =
     (let c = mem_map s (MAP_NR a) in
      if c \<noteq> 0 then Inr ((), s\<lparr>mem_map := (mem_map s)(MAP_NR a := c - 1)\<rparr>)
      else Inl (Panic ''trying to free free page'', s\<lparr>mem_map := (mem_map s)(MAP_NR a := 0)\<rparr>))"
proof -
  have n: "MAP_NR a < 31232" using assms by (rule MAP_NR_bound)
  have r: "\<not> a < P2V LOW_MEM" "\<not> P2V HIGH_MEMORY < a" using assms by auto
  show ?thesis
    by (simp add: free_page_def r kbind_def kseq_def mm_ops n Let_def kreturn_def panic_def)
qed

subsection \<open>The contract of a page pool\<close>

locale page_pool =
  fixes alloc :: "'s \<Rightarrow> ('s, 'p) kres" and release :: "'p \<Rightarrow> 's \<Rightarrow> ('s, unit) kres"
    and null :: 'p and pages :: "'p set" and refs :: "'s \<Rightarrow> 'p \<Rightarrow> nat"
  assumes null_not_page: "null \<notin> pages"
    and alloc_returns: "\<exists>p t. alloc s = Inr (p, t)"
    and alloc_page: "alloc s = Inr (p, t) \<Longrightarrow> p \<noteq> null \<Longrightarrow>
        p \<in> pages \<and> refs s p = 0 \<and> refs t = (refs s)(p := 1)"
    and alloc_null: "alloc s = Inr (null, t) \<Longrightarrow> t = s \<and> (\<forall>p \<in> pages. 0 < refs s p)"
    and release_held: "p \<in> pages \<Longrightarrow> 0 < refs s p \<Longrightarrow>
        \<exists>t. release p s = Inr ((), t) \<and> refs t = (refs s)(p := refs s p - 1)"
    and release_free: "p \<in> pages \<Longrightarrow> refs s p = 0 \<Longrightarrow>
        \<exists>msg t. release p s = Inl (Panic msg, t) \<and> refs t = refs s"
begin

lemma alloc_succeeds_iff:
  "(\<exists>p t. alloc s = Inr (p, t) \<and> p \<noteq> null) \<longleftrightarrow> (\<exists>p \<in> pages. refs s p = 0)"
proof
  assume "\<exists>p t. alloc s = Inr (p, t) \<and> p \<noteq> null"
  then show "\<exists>p \<in> pages. refs s p = 0" using alloc_page by blast
next
  assume "\<exists>p \<in> pages. refs s p = 0"
  then show "\<exists>p t. alloc s = Inr (p, t) \<and> p \<noteq> null"
    using alloc_returns [of s] alloc_null [of s] by (metis less_irrefl)
qed

lemma alloc_release:
  assumes "alloc s = Inr (p, t)" "p \<noteq> null"
  shows "\<exists>u. release p t = Inr ((), u) \<and> refs u = refs s"
proof -
  have a: "p \<in> pages" "refs s p = 0" "refs t = (refs s)(p := 1)"
    using alloc_page [OF assms] by auto
  then obtain u where "release p t = Inr ((), u)" "refs u = (refs t)(p := refs t p - 1)"
    using release_held [of p t] by auto
  then show ?thesis using a by (intro exI [of _ u]) auto
qed

lemma alloc_release_twice:
  assumes "alloc s = Inr (p, t)" "p \<noteq> null" "release p t = Inr ((), u)"
  shows "\<exists>msg v. release p u = Inl (Panic msg, v)"
proof -
  have "p \<in> pages" "refs u p = 0"
    using alloc_page [OF assms(1,2)] alloc_release [OF assms(1,2)] assms(3) by auto
  then show ?thesis using release_free by blast
qed

lemma alloc_distinct:
  assumes "alloc s = Inr (p, t)" "p \<noteq> null" "alloc t = Inr (q, u)" "q \<noteq> null"
  shows "p \<noteq> q"
  using alloc_page [OF assms(1,2)] alloc_page [OF assms(3,4)] by auto

end

definition pool_pages :: "u64 set" where
  "pool_pages = page_addr ` {..<31232}"

definition page_refs :: "'a mm_scheme \<Rightarrow> u64 \<Rightarrow> nat" where
  "page_refs s p = (if p \<in> pool_pages then unat (mem_map s (MAP_NR p)) else 0)"

lemma page_refs_upd:
  "i < 31232 \<Longrightarrow> page_refs (s\<lparr>mem_map := (mem_map s)(i := c)\<rparr>) = (page_refs s)(page_addr i := unat c)"
  by (auto simp: page_refs_def fun_eq_iff pool_pages_def page_addr_inj)

lemma page_refs_pmem [simp]: "page_refs (s\<lparr>mem_map := mp, pmem := m\<rparr>) = page_refs (s\<lparr>mem_map := mp\<rparr>)"
  by (simp add: page_refs_def fun_eq_iff)

interpretation mm_pool: page_pool get_free_page free_page 0 pool_pages page_refs
proof
  fix s t :: "'a mm_scheme" and p :: u64
  show "0 \<notin> pool_pages" using page_addr_nonzero by (fastforce simp: pool_pages_def)
  show "\<exists>p t. get_free_page s = Inr (p, t)" by (cases s rule: get_free_page_cases) auto
  show "p \<in> pool_pages \<and> page_refs s p = 0 \<and> page_refs t = (page_refs s)(p := 1)"
    if "get_free_page s = Inr (p, t)" "p \<noteq> 0"
  proof (cases s rule: get_free_page_cases)
    case (page i)
    then have "p = page_addr i" "page_refs t = (page_refs s)(p := 1)" "page_refs s p = 0"
      using that by (auto simp: page_refs_upd) (auto simp: page_refs_def)
    then show ?thesis using page(1) by (simp add: pool_pages_def)
  qed (use that in simp)
  show "t = s \<and> (\<forall>p \<in> pool_pages. 0 < page_refs s p)" if "get_free_page s = Inr (0, t)"
  proof (cases s rule: get_free_page_cases)
    case full
    then show ?thesis using that by (auto simp: page_refs_def pool_pages_def unat_gt_0)
  next
    case (page i)
    then show ?thesis using that page_addr_nonzero [of i] by auto
  qed
  assume "p \<in> pool_pages"
  then obtain i where i: "i < 31232" "p = page_addr i" by (auto simp: pool_pages_def)
  note fp = free_page_range [OF page_addr_range(1,2) [OF i(1)], of s]
  have r: "page_refs s p = unat (mem_map s i)" using i by (auto simp: page_refs_def pool_pages_def)
  show "\<exists>t. free_page p s = Inr ((), t) \<and> page_refs t = (page_refs s)(p := page_refs s p - 1)"
    if "0 < page_refs s p"
    using that i fp r by (auto simp: page_refs_upd unat_gt_0 unat_minus_one)
  show "\<exists>msg t. free_page p s = Inl (Panic msg, t) \<and> page_refs t = page_refs s" if "page_refs s p = 0"
    using that i fp r by (auto simp: page_refs_upd unat_eq_0)
qed

subsection \<open>Runs of allocations and releases\<close>

datatype page_event = Got u64 | Released u64

inductive alloc_run :: "'a mm_scheme \<Rightarrow> page_event list \<Rightarrow> 'a mm_scheme \<Rightarrow> bool" where
  run_nil: "alloc_run s [] s"
| run_got: "get_free_page s = Inr (p, t) \<Longrightarrow> p \<noteq> 0 \<Longrightarrow> alloc_run t es u \<Longrightarrow> alloc_run s (Got p # es) u"
| run_released: "free_page p s = Inr ((), t) \<Longrightarrow> alloc_run t es u \<Longrightarrow> alloc_run s (Released p # es) u"

inductive_cases alloc_run_nilE: "alloc_run s [] t"
inductive_cases alloc_run_gotE: "alloc_run s (Got p # es) t"
inductive_cases alloc_run_releasedE: "alloc_run s (Released p # es) t"

lemma alloc_run_append:
  "alloc_run s (es @ fs) u \<longleftrightarrow> (\<exists>t. alloc_run s es t \<and> alloc_run t fs u)"
proof
  show "alloc_run s (es @ fs) u \<Longrightarrow> \<exists>t. alloc_run s es t \<and> alloc_run t fs u"
  proof (induction es arbitrary: s)
    case (Cons e es)
    show ?case
    proof (cases e)
      case (Got p)
      then show ?thesis
        using Cons by (auto elim!: alloc_run_gotE) (metis run_got)
    next
      case (Released p)
      then show ?thesis
        using Cons by (auto elim!: alloc_run_releasedE) (metis run_released)
    qed
  qed (auto intro: run_nil)
next
  have "alloc_run s es t \<Longrightarrow> alloc_run t fs u \<Longrightarrow> alloc_run s (es @ fs) u" for t
    by (induction rule: alloc_run.induct) (auto intro: alloc_run.intros)
  then show "\<exists>t. alloc_run s es t \<and> alloc_run t fs u \<Longrightarrow> alloc_run s (es @ fs) u" by blast
qed

lemma free_page_other:
  assumes "free_page q s = Inr ((), t)" "nr < 31232" "MAP_NR q \<noteq> nr"
  shows "mem_map t nr = mem_map s nr"
  using assms
  by (auto simp: free_page_def kbind_def kseq_def get_count_def set_count_def kreturn_def panic_def
      split: if_splits)

lemma held_kept:
  assumes "alloc_run s es t" "nr < 31232" "mem_map s nr \<noteq> 0"
    and "\<And>q. Released q \<in> set es \<Longrightarrow> MAP_NR q \<noteq> nr"
  shows "mem_map t nr \<noteq> 0 \<and> (\<forall>p. Got p \<in> set es \<longrightarrow> MAP_NR p \<noteq> nr)"
  using assms
proof (induction rule: alloc_run.induct)
  case (run_got s p t es u)
  show ?case
  proof (cases s rule: get_free_page_cases)
    case (page i)
    then have "p = page_addr i" "mem_map t = (mem_map s)(i := 1)" using run_got.hyps(1) by auto
    moreover have "i \<noteq> nr" using page(2) run_got.prems(2) by auto
    ultimately show ?thesis using run_got page(1) by auto
  qed (use run_got.hyps in simp)
next
  case (run_released p s t es u)
  then have "mem_map t nr = mem_map s nr" using free_page_other by fastforce
  then show ?case using run_released by auto
qed auto

subsection \<open>Properties\<close>

text \<open>C4: \<open>get_free_page\<close> returns the lowest page whose reference count is 0, with its 4096 bytes
  cleared and its count set to 1, and changes no other count and no other memory; it returns 0,
  changing nothing, exactly when every page of the pool is in use.\<close>

theorem get_free_page_spec:
  "(\<exists>i < PAGING_PAGES. mem_map s i = 0 \<and> (\<forall>k < i. mem_map s k \<noteq> 0) \<and>
      (\<exists>t. get_free_page s = Inr (P2V LOW_MEM + of_nat i * 4096, t) \<and>
         mem_map t = (mem_map s)(i := 1) \<and>
         (\<forall>a. pmem t a = (if a - (P2V LOW_MEM + of_nat i * 4096) < 4096 then 0 else pmem s a)) \<and>
         P2V LOW_MEM + of_nat i * 4096 \<noteq> (0 :: u64)))
   \<or> (\<forall>i < PAGING_PAGES. mem_map s i \<noteq> 0) \<and> get_free_page s = Inr (0, s)"
proof (cases s rule: get_free_page_cases)
  case (page i)
  then show ?thesis
    using page_addr_nonzero [of i]
    by (intro disjI1 exI [of _ i]) (auto simp: page_addr_def zero_range_def)
qed auto

theorem get_free_page_spec_witness:
  "get_free_page (\<lparr>mem_map = \<lambda>_. 1, pmem = \<lambda>_. 0, satp = 0, current = 0, task = \<lambda>_. 0,
      task_pgd = \<lambda>_. 0, swapper_pg_dir = 0\<rparr> :: mm)
   = Inr (0, \<lparr>mem_map = \<lambda>_. 1, pmem = \<lambda>_. 0, satp = 0, current = 0, task = \<lambda>_. 0,
      task_pgd = \<lambda>_. 0, swapper_pg_dir = 0\<rparr>)"
  using get_free_page_spec [of "\<lparr>mem_map = \<lambda>_. 1, pmem = \<lambda>_. 0, satp = 0, current = 0,
      task = \<lambda>_. 0, task_pgd = \<lambda>_. 0, swapper_pg_dir = 0\<rparr> :: mm"] by simp

text \<open>C5: in any run of the allocator, between two moments at which \<open>get_free_page\<close> hands out the
  same page there is a \<open>free_page\<close> of that page: a page in use is never handed out again.\<close>

theorem no_double_handout:
  assumes "alloc_run s (es @ Got p # fs @ Got p # gs) u"
  shows "\<exists>q. Released q \<in> set fs \<and> MAP_NR q = MAP_NR p"
proof (rule ccontr)
  assume no: "\<not> ?thesis"
  from assms obtain t where "alloc_run t (Got p # fs @ Got p # gs) u"
    unfolding alloc_run_append by blast
  then obtain v where g1: "get_free_page t = Inr (p, v)" "p \<noteq> 0" and "alloc_run v (fs @ Got p # gs) u"
    by (rule alloc_run_gotE)
  then obtain w where r: "alloc_run v fs w" and "alloc_run w (Got p # gs) u"
    unfolding alloc_run_append by blast
  then have g2: "\<exists>x. get_free_page w = Inr (p, x)" by (blast elim: alloc_run_gotE)
  have "MAP_NR p < 31232 \<and> mem_map v (MAP_NR p) \<noteq> 0"
    using g1 by (cases t rule: get_free_page_cases) auto
  then have "mem_map w (MAP_NR p) \<noteq> 0" using held_kept [OF r] no by blast
  moreover have "mem_map w (MAP_NR p) = 0"
    using g2 g1(2) by (cases w rule: get_free_page_cases) auto
  ultimately show False by simp
qed

theorem no_double_handout_witness:
  "\<exists>(s :: mm) u. alloc_run s [Got 0xFFFFFFC000400000, Released 0xFFFFFFC000400000, Got 0xFFFFFFC000400000] u
     \<and> (\<exists>q. Released q \<in> set [Released 0xFFFFFFC000400000] \<and> MAP_NR q = MAP_NR 0xFFFFFFC000400000)"
proof -
  define s :: mm where "s = \<lparr>mem_map = \<lambda>_. 0, pmem = \<lambda>_. 0, satp = 0, current = 0, task = \<lambda>_. 0,
    task_pgd = \<lambda>_. 0, swapper_pg_dir = 0\<rparr>"
  have p0: "page_addr 0 = 0xFFFFFFC000400000" by (simp add: page_addr_def low_va)
  have g: "get_free_page t = Inr (0xFFFFFFC000400000, t\<lparr>mem_map := (mem_map t)(0 := 1),
       pmem := zero_range (page_addr 0) 4096 (pmem t)\<rparr>)" if "mem_map t 0 = 0" for t :: mm
    using get_free_page_Some [of t 0] that by (simp add: scan_up_Some_iff p0)
  have f: "free_page 0xFFFFFFC000400000 t = Inr ((), t\<lparr>mem_map := (mem_map t)(0 := 0)\<rparr>)"
    if "mem_map t 0 = 1" for t :: mm
    using that free_page_range [OF page_addr_range(1,2), of 0 t] MAP_NR_page_addr [of 0]
    by (simp add: p0)
  define t where "t = s\<lparr>mem_map := (mem_map s)(0 := 1), pmem := zero_range (page_addr 0) 4096 (pmem s)\<rparr>"
  define v where "v = t\<lparr>mem_map := (mem_map t)(0 := 0)\<rparr>"
  define w where "w = v\<lparr>mem_map := (mem_map v)(0 := 1), pmem := zero_range (page_addr 0) 4096 (pmem v)\<rparr>"
  have m: "mem_map s 0 = 0" "mem_map t 0 = 1" "mem_map v 0 = 0" by (simp_all add: s_def t_def v_def)
  have u: "alloc_run s ([] @ Got 0xFFFFFFC000400000 # [Released 0xFFFFFFC000400000]
      @ Got 0xFFFFFFC000400000 # []) w"
    unfolding append.simps
    by (rule run_got [OF g [OF m(1), folded t_def]], simp,
        rule run_released [OF f [OF m(2), folded v_def]],
        rule run_got [OF g [OF m(3), folded w_def]], simp, rule run_nil)
  from no_double_handout [OF u] u show ?thesis by auto
qed

text \<open>releasing the page just obtained succeeds and restores every reference count, and
  releasing it once more panics.\<close>

theorem alloc_then_free:
  assumes "get_free_page s = Inr (p, t)" "p \<noteq> 0"
  shows "\<exists>u. free_page p t = Inr ((), u) \<and> (\<forall>q. page_refs u q = page_refs s q)
     \<and> (\<exists>msg v. free_page p u = Inl (Panic msg, v))"
  using mm_pool.alloc_release [OF assms] mm_pool.alloc_release_twice [OF assms] by fastforce

theorem alloc_then_free_witness:
  "\<exists>s p t u. get_free_page (s :: mm) = Inr (p, t) \<and> free_page p t = Inr ((), u)
     \<and> (\<forall>q. page_refs u q = page_refs s q)"
proof -
  define s :: mm where "s = \<lparr>mem_map = (\<lambda>_. 0)(0 := 1), pmem = \<lambda>_. 0, satp = 0, current = 0,
    task = \<lambda>_. 0, task_pgd = \<lambda>_. 0, swapper_pg_dir = 0\<rparr>"
  have "mem_map s 1 = 0" by (simp add: s_def)
  then obtain p t where "get_free_page s = Inr (p, t)" "p \<noteq> 0"
    by (cases s rule: get_free_page_cases) auto
  then show ?thesis using alloc_then_free by blast
qed

text \<open>\<open>free_page\<close> rejects addresses beyond the end of RAM with a strict comparison, so the
  first address after RAM passes the check and the routine indexes \<open>mem_map\<close> with its length, one
  element past its end; every lower pool address is in bounds.\<close>

theorem free_page_end_out_of_bounds:
  "free_page (P2V HIGH_MEMORY) s = Inl (OutOfBounds, s) \<and> MAP_NR (P2V HIGH_MEMORY) = PAGING_PAGES
   \<and> (\<forall>a. a < P2V HIGH_MEMORY \<longrightarrow> (\<forall>t. free_page a s \<noteq> Inl (OutOfBounds, t)))"
proof -
  have nr: "MAP_NR (P2V HIGH_MEMORY) = PAGING_PAGES"
    by (simp add: MAP_NR_def low_va high_va)
  have "free_page a s \<noteq> Inl (OutOfBounds, t)" if "a < P2V HIGH_MEMORY" for a t
  proof (cases "P2V LOW_MEM \<le> a")
    case True
    then show ?thesis using free_page_range [OF True that, of s] by (auto simp: Let_def)
  next
    case False
    then have "a < P2V LOW_MEM" by simp
    then show ?thesis by (simp add: free_page_def)
  qed
  moreover have "free_page (P2V HIGH_MEMORY) s = Inl (OutOfBounds, s)"
    using nr by (simp add: free_page_def kbind_def get_count_def low_va high_va)
  ultimately show ?thesis using nr by blast
qed

theorem free_page_end_out_of_bounds_witness:
  "\<forall>t. free_page 0xFFFFFFC000400000 (\<lparr>mem_map = \<lambda>_. 2, pmem = \<lambda>_. 0, satp = 0, current = 0,
      task = \<lambda>_. 0, task_pgd = \<lambda>_. 0, swapper_pg_dir = 0\<rparr> :: mm) \<noteq> Inl (OutOfBounds, t)"
  using free_page_end_out_of_bounds [of "\<lparr>mem_map = \<lambda>_. 2, pmem = \<lambda>_. 0, satp = 0, current = 0,
      task = \<lambda>_. 0, task_pgd = \<lambda>_. 0, swapper_pg_dir = 0\<rparr> :: mm"] by (simp add: high_va)

end
