(* ===== verification/Mm_Tables.thy ===== *)
theory Mm_Tables
  imports Mm_Alloc
begin

text \<open>
  The Sv39 page tables of \<open>mm/memory.c\<close> as a tree.  \<open>node\<close> finds the table a path of indices
  leads to (the index used last comes first), \<open>pt_lookup\<close> reads a leaf entry; the invariant
  \<open>wf_tables\<close> says that the tables below the root are pages in use and that no table is reached
  on two paths.  \<open>map_page\<close> is shown to refine the update of the finite map \<open>pt_lookup\<close>.
\<close>

subsection \<open>Entries and addresses\<close>

definition al :: "u64 \<Rightarrow> bool" where
  "al p \<longleftrightarrow> unat p mod 4096 = 0"

lemma al_multiple: "al p \<Longrightarrow> \<exists>k. unat p = 4096 * k"
  by (auto simp: al_def elim: dvdE)

lemma al_unat_add:
  assumes "al p" "i < 512"
  shows "unat (pte_addr p i) = unat p + 8 * i"
proof -
  obtain k where k: "unat p = 4096 * k" using assms(1) al_multiple by blast
  have "unat p < 2 ^ 64" using unsigned_less [of p, where ?'a = nat] by simp
  then have "k < 2 ^ 52" using k by simp
  then have "unat p + 8 * i < 2 ^ 64" using k assms(2) by simp
  moreover have "unat (8 * of_nat i :: u64) = 8 * i"
    using assms(2) by (simp add: unat_word_ariths unat_of_nat take_bit_nat_eq_self)
  ultimately show ?thesis by (simp add: pte_addr_def unat_word_ariths)
qed

lemma pte_addr_eq_iff:
  assumes "al p" "al q" "i < 512" "j < 512"
  shows "pte_addr p i = pte_addr q j \<longleftrightarrow> p = q \<and> i = j"
proof
  assume "pte_addr p i = pte_addr q j"
  then have e: "unat p + 8 * i = unat q + 8 * j"
    using al_unat_add [OF assms(1,3)] al_unat_add [OF assms(2,4)] by metis
  obtain k l where kl: "unat p = 4096 * k" "unat q = 4096 * l"
    using assms(1,2) al_multiple by blast
  have "k = l" using e kl assms(3,4) by linarith
  then show "p = q \<and> i = j" using e kl by (simp add: word_unat_eq_iff)
qed simp

lemma in_page_iff:
  assumes "al p" "al q" "j < 512"
  shows "pte_addr q j - p < 4096 \<longleftrightarrow> p = q"
proof
  assume "pte_addr q j - p < 4096"
  then have less: "unat (pte_addr q j - p) < 4096" by (simp add: word_less_nat_alt)
  obtain k l where kl: "unat p = 4096 * k" "unat q = 4096 * l"
    using assms(1,2) al_multiple by blast
  have a: "unat (pte_addr q j) = 4096 * l + 8 * j" using al_unat_add [OF assms(2,3)] kl by simp
  have "unat p < 2 ^ 64" "unat q < 2 ^ 64"
    using unsigned_less [of p, where ?'a = nat] unsigned_less [of q, where ?'a = nat] by simp_all
  then have b: "k < 4503599627370496" using kl by simp
  show "p = q"
  proof (cases "p \<le> pte_addr q j")
    case True
    then have "unat (pte_addr q j - p) = 4096 * l + 8 * j - 4096 * k" "4096 * k \<le> 4096 * l + 8 * j"
      using a kl by (simp_all add: unat_sub word_le_nat_alt)
    then have "k = l" using less assms(3) by linarith
    then show ?thesis using kl by (simp add: word_unat_eq_iff)
  next
    case False
    then have "4096 * l + 8 * j < 4096 * k" using a kl by (simp add: word_le_nat_alt)
    moreover have "unat (pte_addr q j - p) = 18446744073709551616 + (4096 * l + 8 * j) - 4096 * k"
      using False a kl by (simp add: unat_sub_if_size word_size word_le_nat_alt)
    ultimately have False using less b by linarith
    then show ?thesis ..
  qed
next
  assume "p = q"
  then have "pte_addr q j - p = 8 * of_nat j" by (simp add: pte_addr_def)
  moreover have "unat (8 * of_nat j :: u64) = 8 * j"
    using assms(3) by (simp add: unat_word_ariths unat_of_nat take_bit_nat_eq_self)
  ultimately show "pte_addr q j - p < 4096" using assms(3) by (simp add: word_less_nat_alt)
qed

lemma direct_pte_addr:
  assumes "al p" "direct p" "i < 512"
  shows "direct (pte_addr p i)"
proof -
  obtain k where k: "unat p = 4096 * k" using assms(1) al_multiple by blast
  have "0xFFFFFFC000000000 \<le> unat p" "unat p < 0xFFFFFFC007E00000"
    using assms(2) by (simp_all add: direct_def VA_KERNEL_def high_va word_le_nat_alt word_less_nat_alt)
  then have "0xFFFFFFC000000000 \<le> unat p + 8 * i" "unat p + 8 * i < 0xFFFFFFC007E00000"
    using k assms(3) by simp_all
  then show ?thesis
    using al_unat_add [OF assms(1,3)]
    by (simp add: direct_def VA_KERNEL_def high_va word_le_nat_alt word_less_nat_alt)
qed

lemma pool_page_al: "p \<in> pool_pages \<Longrightarrow> al p" and pool_page_direct: "p \<in> pool_pages \<Longrightarrow> direct p"
  by (auto simp: pool_pages_def al_def unat_page_addr page_addr_range)

lemma PX_bound: "unat (PX l va) < 512"
proof -
  have "PX l va = take_bit 9 (drop_bit (12 + 9 * l) va)"
    by (simp add: PX_def take_bit_eq_mask mask_eq_exp_minus_1)
  then show ?thesis
    by (simp add: unsigned_take_bit_eq take_bit_nat_less_exp [of 9, simplified])
qed

lemma unat_PX: "unat (PX l va) = (unat va div 2 ^ (12 + 9 * l)) mod 512"
proof -
  have "PX l va = take_bit 9 (drop_bit (12 + 9 * l) va)"
    by (simp add: PX_def take_bit_eq_mask mask_eq_exp_minus_1)
  then show ?thesis by (simp add: take_bit_eq_mod unat_mod unat_drop_bit)
qed

lemma PTE2PA_PA2PTE:
  assumes "unat pa mod 4096 = 0" "perm < 1024"
  shows "PTE2PA (PA2PTE pa OR perm) = pa"
proof -
  have "unat (pa mod 4096) = 0" using assms(1) by (simp add: unat_mod)
  then have p: "take_bit 12 pa = 0" by (simp add: take_bit_eq_mod unat_eq_0)
  have q: "drop_bit 10 perm = 0"
    using assms(2) by (simp add: drop_bit_eq_div word_less_nat_alt unat_eq_0 [symmetric] unat_div)
  have "drop_bit 10 (PA2PTE pa) = drop_bit 12 pa"
    by (rule bit_word_eqI) (auto simp: PA2PTE_def bit_simps dest: bit_imp_le_length)
  then have "PTE2PA (PA2PTE pa OR perm) = push_bit 12 (drop_bit 12 pa)"
    by (simp add: PTE2PA_def q)
  also have "\<dots> = pa"
    using p by (metis bits_ident add.right_neutral)
  finally show ?thesis .
qed

subsection \<open>Trees of tables\<close>

definition pte_valid :: "u64 \<Rightarrow> bool" where
  "pte_valid e \<longleftrightarrow> e AND PTE_V \<noteq> 0"

lemma pte_valid_zero [simp]: "\<not> pte_valid 0"
  by (simp add: pte_valid_def)

text \<open>The table reached from \<open>root\<close> over valid entries; \<open>ent T i\<close> is entry \<open>i\<close> of table \<open>T\<close>.\<close>

primrec node :: "(u64 \<Rightarrow> nat \<Rightarrow> u64) \<Rightarrow> u64 \<Rightarrow> nat list \<Rightarrow> u64 option" where
  "node ent root [] = Some root"
| "node ent root (i # path) =
     (case node ent root path of
        None \<Rightarrow> None
      | Some T \<Rightarrow> if i < 512 \<and> pte_valid (ent T i) then Some (PTE2VA (ent T i)) else None)"

definition wf_tree :: "(u64 \<Rightarrow> nat \<Rightarrow> u64) \<Rightarrow> (u64 \<Rightarrow> bool) \<Rightarrow> u64 \<Rightarrow> bool" where
  "wf_tree ent used root \<longleftrightarrow>
     (\<forall>p T. p \<noteq> [] \<and> length p \<le> 2 \<and> node ent root p = Some T \<longrightarrow> used T) \<and>
     (\<forall>p q T. length p \<le> 2 \<and> length q \<le> 2 \<and> node ent root p = Some T \<and> node ent root q = Some T
        \<longrightarrow> p = q)"

lemma wf_tree_inj:
  "wf_tree ent used root \<Longrightarrow> length p \<le> 2 \<Longrightarrow> length q \<le> 2 \<Longrightarrow>
   node ent root p = Some T \<Longrightarrow> node ent root q = Some T \<Longrightarrow> p = q"
  unfolding wf_tree_def by blast

lemma wf_tree_used:
  "wf_tree ent used root \<Longrightarrow> node ent root p = Some T \<Longrightarrow> length p \<le> 2 \<Longrightarrow> T = root \<or> used T"
  unfolding wf_tree_def by (cases "p = []") auto

lemma node_install:
  assumes wf: "wf_tree ent used root" and fresh: "\<not> used P" "P \<noteq> root"
    and at: "node ent root path = Some T" "length path \<le> 1" "i < 512" "\<not> pte_valid (ent T i)"
    and e: "pte_valid e" "PTE2VA e = P"
    and ent': "\<And>U k. U = root \<or> used U \<or> U = P \<Longrightarrow> k < 512 \<Longrightarrow>
        ent' U k = (if U = T \<and> k = i then e else if U = P then 0 else ent U k)"
    and len: "length q \<le> 2"
  shows "node ent' root q = (if q = i # path then Some P else node ent root q)"
  using len
proof (induction q)
  case (Cons j q)
  have TP: "T \<noteq> P" using wf_tree_used [OF wf at(1)] at(2) fresh by auto
  show ?case
  proof (cases "q = i # path")
    case True
    then have "node ent' root q = Some P" using Cons by simp
    moreover have "node ent root q = None" using True at by simp
    moreover have "j < 512 \<Longrightarrow> ent' P j = 0" using ent' [of P j] TP by auto
    ultimately show ?thesis using True by auto
  next
    case False
    then have q: "node ent' root q = node ent root q" using Cons by simp
    show ?thesis
    proof (cases "node ent root q")
      case None
      then show ?thesis using q at by auto
    next
      case (Some U)
      have U: "U = root \<or> used U" "U \<noteq> P"
        using wf_tree_used [OF wf Some] Cons.prems fresh by auto
      have "U = T \<longleftrightarrow> q = path"
        using wf_tree_inj [OF wf, of q path U] Some at Cons.prems by auto
      then show ?thesis using q Some U e ent' [of U j] at(3,4) by auto
    qed
  qed
qed auto

lemma wf_tree_install:
  assumes wf: "wf_tree ent used root" and fresh: "\<not> used P" "P \<noteq> root"
    and at: "node ent root path = Some T" "length path \<le> 1" "i < 512" "\<not> pte_valid (ent T i)"
    and e: "pte_valid e" "PTE2VA e = P"
    and ent': "\<And>U k. U = root \<or> used U \<or> U = P \<Longrightarrow> k < 512 \<Longrightarrow>
        ent' U k = (if U = T \<and> k = i then e else if U = P then 0 else ent U k)"
    and used': "used' P" "\<And>U. used U \<Longrightarrow> used' U"
  shows "wf_tree ent' used' root"
proof -
  note n = node_install [OF wf fresh at e ent']
  have notP: "node ent root q \<noteq> Some P" if "length q \<le> 2" for q
    using wf_tree_used [OF wf, of q P] that fresh by auto
  show ?thesis
    unfolding wf_tree_def
  proof (intro conjI allI impI)
    fix p U assume "p \<noteq> [] \<and> length p \<le> 2 \<and> node ent' root p = Some U"
    then show "used' U"
      using n [of p] used' wf unfolding wf_tree_def by (auto split: if_splits)
  next
    fix p q U
    assume a: "length p \<le> 2 \<and> length q \<le> 2 \<and> node ent' root p = Some U \<and> node ent' root q = Some U"
    then show "p = q"
      using n [of p] n [of q] notP [of p] notP [of q] wf_tree_inj [OF wf, of p q U]
      by (auto split: if_splits)
  qed
qed

text \<open>Writing an entry of a table at the end of a path of length 2 changes no table of the tree.\<close>

lemma node_leaf:
  assumes wf: "wf_tree ent used root" and at: "node ent root [j, i] = Some T"
    and ent': "\<And>U l. U = root \<or> used U \<Longrightarrow> l < 512 \<Longrightarrow> \<not> (U = T \<and> l = k) \<Longrightarrow> ent' U l = ent U l"
    and len: "length q \<le> 2"
  shows "node ent' root q = node ent root q"
  using len
proof (induction q)
  case (Cons l q)
  then have IH: "node ent' root q = node ent root q" by simp
  show ?case
  proof (cases "node ent root q")
    case (Some U)
    have "U = root \<or> used U" using wf_tree_used [OF wf Some] Cons.prems by simp
    moreover have "U \<noteq> T" using wf_tree_inj [OF wf, of q "[j, i]" T] at Some Cons.prems by auto
    ultimately show ?thesis using IH Some ent' [of U l] by auto
  qed (use IH in simp)
qed simp

subsection \<open>The tables in memory\<close>

definition ent_of :: "'a mm_scheme \<Rightarrow> u64 \<Rightarrow> nat \<Rightarrow> u64" where
  "ent_of s T i = pmem s (pte_addr T i)"

definition in_use :: "'a mm_scheme \<Rightarrow> u64 \<Rightarrow> bool" where
  "in_use s p \<longleftrightarrow> p \<in> pool_pages \<and> mem_map s (MAP_NR p) \<noteq> 0"

definition wf_tables :: "'a mm_scheme \<Rightarrow> u64 \<Rightarrow> bool" where
  "wf_tables s root \<longleftrightarrow>
     al root \<and> direct root \<and> (root \<in> pool_pages \<longrightarrow> in_use s root) \<and>
     wf_tree (ent_of s) (in_use s) root"

text \<open>The address space as a finite map from index triples (levels 2, 1, 0) to leaf entries.\<close>

definition pt_lookup :: "'a mm_scheme \<Rightarrow> u64 \<Rightarrow> nat \<times> nat \<times> nat \<Rightarrow> u64 option" where
  "pt_lookup s root = (\<lambda>(i, j, k).
     case node (ent_of s) root [j, i] of
       None \<Rightarrow> None
     | Some T \<Rightarrow> if k < 512 \<and> pte_valid (ent_of s T k) then Some (ent_of s T k) else None)"

definition vidx :: "u64 \<Rightarrow> nat \<times> nat \<times> nat" where
  "vidx va = (unat (PX 2 va), unat (PX 1 va), unat (PX 0 va))"

subsection \<open>Adding a table\<close>

definition new_table :: "'a mm_scheme \<Rightarrow> nat \<Rightarrow> u64 \<Rightarrow> 'a mm_scheme" where
  "new_table s n a = s\<lparr>mem_map := (mem_map s)(n := 1),
     pmem := (zero_range (page_addr n) 4096 (pmem s))(a := VA2PTE (page_addr n) OR PTE_V)\<rparr>"

lemma P2V_V2P [simp]: "P2V (V2P a) = a" and V2P_P2V [simp]: "V2P (P2V a) = a"
  by (simp_all add: P2V_def V2P_def)

lemma unat_V2P_page_addr:
  assumes "n < 31232"
  shows "unat (V2P (page_addr n)) = 0x80600000 + n * 4096"
proof -
  have "V2P (page_addr n) = 0x80600000 + of_nat n * 4096"
    by (simp add: page_addr_def mm_consts)
  then show ?thesis
    using assms page_offset_unat [OF assms] by (simp add: unat_word_ariths)
qed

lemma table_entry_pte:
  assumes "n < 31232"
  shows "PTE2VA (VA2PTE (page_addr n) OR PTE_V) = page_addr n" "pte_valid (VA2PTE (page_addr n) OR PTE_V)"
proof -
  have "unat (V2P (page_addr n)) mod 4096 = 0"
    by (simp add: unat_V2P_page_addr [OF assms])
  then show "PTE2VA (VA2PTE (page_addr n) OR PTE_V) = page_addr n"
    by (simp add: PTE2VA_def VA2PTE_def PTE2PA_PA2PTE PTE_V_def)
  show "pte_valid (VA2PTE (page_addr n) OR PTE_V)"
    by (simp add: pte_valid_def PTE_V_def bit.conj_disj_distrib2 word_ao_dist)
qed

lemma wf_tables_nodes:
  assumes "wf_tables s root" "node (ent_of s) root p = Some T" "length p \<le> 2"
  shows "al T" "direct T"
  using assms wf_tree_used [of "ent_of s" "in_use s" root p T] pool_page_al pool_page_direct
  by (auto simp: wf_tables_def in_use_def)

lemma ent_of_new_table:
  assumes "al T" "i < 512" "n < 31232" "al U" "k < 512"
  shows "ent_of (new_table s n (pte_addr T i)) U k =
    (if U = T \<and> k = i then VA2PTE (page_addr n) OR PTE_V
     else if U = page_addr n then 0 else ent_of s U k)"
proof -
  have P: "al (page_addr n)" using assms(3) by (intro pool_page_al) (simp add: pool_pages_def)
  show ?thesis
    using pte_addr_eq_iff [OF assms(4,1,5,2)] in_page_iff [OF P assms(4,5)]
    by (auto simp: ent_of_def new_table_def zero_range_def)
qed

lemma in_use_new_table:
  assumes "n < 31232" "mem_map s n = 0"
  shows "in_use (new_table s n a) U \<longleftrightarrow> U = page_addr n \<or> in_use s U" "\<not> in_use s (page_addr n)"
  using assms by (auto simp: in_use_def new_table_def pool_pages_def page_addr_inj)

lemma new_table_step:
  assumes wf: "wf_tables s root"
    and at: "node (ent_of s) root path = Some T" "length path \<le> 1" "i < 512" "\<not> pte_valid (ent_of s T i)"
    and n: "n < 31232" "mem_map s n = 0"
  defines "t \<equiv> new_table s n (pte_addr T i)"
  shows "wf_tables t root" "node (ent_of t) root (i # path) = Some (page_addr n)"
    "pt_lookup t root = pt_lookup s root"
    "\<And>q. length q \<le> 2 \<Longrightarrow> node (ent_of t) root q = (if q = i # path then Some (page_addr n) else node (ent_of s) root q)"
proof -
  let ?P = "page_addr n"
  have wft: "wf_tree (ent_of s) (in_use s) root" and root: "al root" "direct root"
    "root \<in> pool_pages \<Longrightarrow> in_use s root"
    using wf by (auto simp: wf_tables_def)
  have fresh: "\<not> in_use s ?P" "?P \<noteq> root"
    using in_use_new_table(2) [OF n] root(3) n(1) by (auto simp: pool_pages_def)
  have alT: "al T" using wf_tables_nodes [OF wf at(1)] at(2) by simp
  have ent': "ent_of t U k = (if U = T \<and> k = i then VA2PTE ?P OR PTE_V else if U = ?P then 0 else ent_of s U k)"
    if "U = root \<or> in_use s U \<or> U = ?P" "k < 512" for U k
  proof -
    have "al U" using that(1) root(1) pool_page_al n(1) by (auto simp: in_use_def pool_pages_def)
    then show ?thesis unfolding t_def by (rule ent_of_new_table [OF alT at(3) n(1) _ that(2)])
  qed
  note node' = node_install [OF wft fresh at table_entry_pte(2,1) [OF n(1)] ent']
  show "node (ent_of t) root (i # path) = Some ?P" using node' [of "i # path"] at(2) by simp
  show "node (ent_of t) root q = (if q = i # path then Some ?P else node (ent_of s) root q)" if "length q \<le> 2" for q
    using node' [OF _ _ that] .
  have "wf_tree (ent_of t) (in_use t) root"
    by (rule wf_tree_install [OF wft fresh at table_entry_pte(2,1) [OF n(1)] ent'])
      (simp_all add: t_def in_use_new_table [OF n])
  then show "wf_tables t root"
    using root by (simp add: wf_tables_def t_def in_use_new_table [OF n])
  show "pt_lookup t root = pt_lookup s root"
  proof (rule ext, clarify)
    fix a b c
    show "pt_lookup t root (a, b, c) = pt_lookup s root (a, b, c)"
    proof (cases "node (ent_of s) root [b, a]")
      case None
      then show ?thesis
        using node' [of "[b, a]"] ent' [of ?P c] fresh wf_tree_used [OF wft at(1)] at(2)
        by (auto simp: pt_lookup_def simp del: node.simps split: if_splits)
    next
      case (Some U)
      then have "[b, a] \<noteq> i # path" using at by auto
      moreover have "U \<noteq> T" using wf_tree_inj [OF wft, of "[b, a]" path U] Some at by auto
      moreover have u: "U = root \<or> in_use s U" using wf_tree_used [OF wft Some] by simp
      moreover have "U \<noteq> ?P" using u fresh by auto
      ultimately have "node (ent_of t) root [b, a] = Some U" "c < 512 \<Longrightarrow> ent_of t U c = ent_of s U c"
        using node' [of "[b, a]"] ent' [of U c] Some by simp_all
      then show ?thesis using Some by (cases "c < 512") (simp_all add: pt_lookup_def del: node.simps)
    qed
  qed
qed

subsection \<open>Writing a leaf entry\<close>

lemma leaf_step:
  assumes wf: "wf_tables s root" and at: "node (ent_of s) root [j, i] = Some T" "k < 512"
    and e: "pte_valid e"
  defines "t \<equiv> s\<lparr>pmem := (pmem s)(pte_addr T k := e)\<rparr>"
  shows "wf_tables t root" "pt_lookup t root = (pt_lookup s root)((i, j, k) \<mapsto> e)"
    "\<And>q. length q \<le> 2 \<Longrightarrow> node (ent_of t) root q = node (ent_of s) root q"
proof -
  have wft: "wf_tree (ent_of s) (in_use s) root" and root: "al root" "direct root"
    "root \<in> pool_pages \<Longrightarrow> in_use s root"
    using wf by (auto simp: wf_tables_def)
  have alT: "al T" using wf_tables_nodes [OF wf at(1)] by simp
  have ent': "ent_of t U l = (if U = T \<and> l = k then e else ent_of s U l)"
    if "U = root \<or> in_use s U" "l < 512" for U l
  proof -
    have "al U" using that(1) root(1) pool_page_al by (auto simp: in_use_def)
    then show ?thesis
      using pte_addr_eq_iff [OF _ alT that(2) at(2), of U] by (auto simp: ent_of_def t_def)
  qed
  show node': "node (ent_of t) root q = node (ent_of s) root q" if "length q \<le> 2" for q
    by (rule node_leaf [OF wft at(1) _ that, where k = k]) (use ent' in auto)
  have use: "in_use t = in_use s" by (simp add: in_use_def t_def fun_eq_iff)
  have "wf_tree (ent_of t) (in_use s) root"
    using wft node' unfolding wf_tree_def by metis
  then show "wf_tables t root" using root by (simp add: wf_tables_def use)
  show "pt_lookup t root = (pt_lookup s root)((i, j, k) \<mapsto> e)"
  proof (rule ext, clarify)
    fix a b c
    show "pt_lookup t root (a, b, c) = ((pt_lookup s root)((i, j, k) \<mapsto> e)) (a, b, c)"
    proof (cases "node (ent_of s) root [b, a]")
      case None
      then have "(a, b, c) \<noteq> (i, j, k)" using at(1) by auto
      then show ?thesis using node' [of "[b, a]"] None by (simp add: pt_lookup_def del: node.simps)
    next
      case (Some U)
      have "U = T \<longleftrightarrow> (a, b) = (i, j)"
        using wf_tree_inj [OF wft, of "[b, a]" "[j, i]" T] Some at(1) by auto
      moreover have "U = root \<or> in_use s U" using wf_tree_used [OF wft Some] by simp
      ultimately show ?thesis
        using node' [of "[b, a]"] ent' [of U c] Some e at(2)
        by (auto simp: pt_lookup_def simp del: node.simps)
    qed
  qed
qed

subsection \<open>The descent of \<open>map_page\<close>\<close>

text \<open>Pages in use stay as they are, and only memory changes.\<close>

definition keeps :: "'a mm_scheme \<Rightarrow> 'a mm_scheme \<Rightarrow> bool" where
  "keeps s t \<longleftrightarrow> (\<forall>n. mem_map s n \<noteq> 0 \<longrightarrow> mem_map t n = mem_map s n)
     \<and> (\<exists>mp pm. t = s\<lparr>mem_map := mp, pmem := pm\<rparr>)"

lemma keeps_refl [simp]: "keeps s s"
  unfolding keeps_def by (simp, rule exI [of _ "mem_map s"], rule exI [of _ "pmem s"]) simp

lemma keeps_trans: "keeps s t \<Longrightarrow> keeps t u \<Longrightarrow> keeps s u"
  by (auto simp: keeps_def) blast

lemma keeps_new_table: "mem_map s n = 0 \<Longrightarrow> keeps s (new_table s n a)"
  by (auto simp: keeps_def new_table_def)

lemma keeps_pmem: "keeps s t \<Longrightarrow> keeps s (t\<lparr>pmem := m\<rparr>)"
  by (auto simp: keeps_def) blast

definition free_pages :: "'a mm_scheme \<Rightarrow> nat" where
  "free_pages s = card {n. n < 31232 \<and> mem_map s n = 0}"

lemma free_pages_new_table:
  assumes "n < 31232" "mem_map s n = 0"
  shows "free_pages (new_table s n a) = free_pages s - 1"
proof -
  have "{k. k < 31232 \<and> mem_map (new_table s n a) k = 0} = {k. k < 31232 \<and> mem_map s k = 0} - {n}"
    by (auto simp: new_table_def)
  then show ?thesis using assms by (simp add: free_pages_def)
qed

text \<open>The tables below the root, by their paths.  Each takes one page of the pool, so that the free pages
  and the tables together stay the same.\<close>

definition tabs :: "'a mm_scheme \<Rightarrow> u64 \<Rightarrow> nat list set" where
  "tabs s root = {p. p \<noteq> [] \<and> length p \<le> 2 \<and> node (ent_of s) root p \<noteq> None}"

definition budget :: "'a mm_scheme \<Rightarrow> u64 \<Rightarrow> nat" where
  "budget s root = free_pages s + card (tabs s root)"

lemma node_indices: "node ent root p = Some T \<Longrightarrow> set p \<subseteq> {..<512}"
  by (induction p arbitrary: T) (auto split: option.splits if_splits)

lemma finite_tabs: "finite (tabs s root)"
  by (rule finite_subset [OF _ finite_lists_length_le [of "{..<512}" 2]]) (auto simp: tabs_def dest: node_indices)

lemma tabs_new_table:
  assumes "wf_tables s root" "node (ent_of s) root path = Some T" "length path \<le> 1" "i < 512"
    "\<not> pte_valid (ent_of s T i)" "n < 31232" "mem_map s n = 0"
  shows "tabs (new_table s n (pte_addr T i)) root = insert (i # path) (tabs s root)"
    "budget (new_table s n (pte_addr T i)) root = budget s root"
proof -
  have "i # path \<notin> tabs s root" using assms(2,5) by (simp add: tabs_def)
  moreover show tabs: "tabs (new_table s n (pte_addr T i)) root = insert (i # path) (tabs s root)"
    using new_table_step(4) [OF assms] assms(3) by (auto simp: tabs_def simp del: node.simps)
  moreover have "0 < free_pages s" using assms(6,7) by (auto simp: free_pages_def card_gt_0_iff)
  ultimately show "budget (new_table s n (pte_addr T i)) root = budget s root"
    by (simp add: budget_def finite_tabs free_pages_new_table [OF assms(6,7)])
qed

lemma tabs_leaf:
  assumes "wf_tables s root" "node (ent_of s) root [j, i] = Some T" "k < 512" "pte_valid e"
  shows "tabs (s\<lparr>pmem := (pmem s)(pte_addr T k := e)\<rparr>) root = tabs s root"
    "budget (s\<lparr>pmem := (pmem s)(pte_addr T k := e)\<rparr>) root = budget s root"
proof -
  show t: "tabs (s\<lparr>pmem := (pmem s)(pte_addr T k := e)\<rparr>) root = tabs s root"
    using leaf_step(3) [OF assms] by (auto simp: tabs_def simp del: node.simps)
  show "budget (s\<lparr>pmem := (pmem s)(pte_addr T k := e)\<rparr>) root = budget s root"
    by (simp add: budget_def t) (simp add: free_pages_def)
qed

lemma descend_level:
  assumes wf: "wf_tables s root" and at: "node (ent_of s) root path = Some T" "length path \<le> 1"
    and lv: "leaf < level" "level \<le> 4"
  obtains (present) "pte_valid (ent_of s T (unat (PX level va)))"
      "node (ent_of s) root (unat (PX level va) # path) = Some (PTE2VA (ent_of s T (unat (PX level va))))"
      "map_descend va tp leaf level rec T s
        = map_descend va tp leaf (level - 1) rec (PTE2VA (ent_of s T (unat (PX level va)))) s"
    | (added) n where "n < 31232" "mem_map s n = 0" "\<not> pte_valid (ent_of s T (unat (PX level va)))"
      "map_descend va tp leaf level rec T s
        = map_descend va tp leaf (level - 1) (rec(level - 1 := page_addr n)) (page_addr n)
            (new_table s n (pte_addr T (unat (PX level va))))"
    | (full) "\<forall>n < 31232. mem_map s n \<noteq> 0"
      "map_descend va tp leaf level rec T s = kseq (map_rollback va rec level tp) (kreturn None) s"
proof -
  let ?i = "unat (PX level va)"
  have T: "al T" "direct T" using wf_tables_nodes [OF wf at(1)] at(2) by auto
  have d: "direct (pte_addr T ?i)" using direct_pte_addr [OF T PX_bound] .
  have ld: "kload (pte_addr T ?i) u = Inr (pmem u (pte_addr T ?i), u)" for u :: "'a mm_scheme"
    using d by (rule kload_ok)
  have st: "kstore (pte_addr T ?i) w u = Inr ((), u\<lparr>pmem := (pmem u)(pte_addr T ?i := w)\<rparr>)"
    for u :: "'a mm_scheme" and w using d by (rule kstore_ok)
  have lvl: "\<not> level \<le> leaf" "\<not> 4 < level" using lv by auto
  show thesis
  proof (cases "pte_valid (ent_of s T ?i)")
    case True
    have "node (ent_of s) root (?i # path) = Some (PTE2VA (ent_of s T ?i))"
      using at(1) True PX_bound by simp
    moreover have "map_descend va tp leaf level rec T s
        = map_descend va tp leaf (level - 1) rec (PTE2VA (ent_of s T ?i)) s"
      using True lvl by (subst map_descend.simps) (simp add: kbind_def ld ent_of_def pte_valid_def)
    ultimately show ?thesis using True by (rule present [rotated])
  next
    case False
    then have e0: "pmem s (pte_addr T ?i) AND PTE_V = 0" by (simp add: ent_of_def pte_valid_def)
    show ?thesis
    proof (cases s rule: get_free_page_cases)
      case (page n)
      have "map_descend va tp leaf level rec T s
        = map_descend va tp leaf (level - 1) (rec(level - 1 := page_addr n)) (page_addr n)
            (new_table s n (pte_addr T ?i))"
        using lvl page(1)
        by (subst map_descend.simps)
          (simp add: kbind_def kseq_def ld st e0 page(4) Let_def new_table_def table_entry_pte)
      then show ?thesis by (rule added [OF page(1,2) False])
    next
      case full
      have "map_descend va tp leaf level rec T s = kseq (map_rollback va rec level tp) (kreturn None) s"
        using lvl by (subst map_descend.simps) (simp add: kbind_def ld e0 full(2))
      then show ?thesis using full(1) that(3) by blast
    qed
  qed
qed

text \<open>One level down, successfully: the tree is well formed, shows the same address space, and
  contains the next table.\<close>

lemma descend_success:
  assumes wf: "wf_tables s root" and at: "node (ent_of s) root path = Some T" "length path \<le> 1"
    and lv: "leaf < level" "level \<le> 4"
    and r: "map_descend va tp leaf level rec T s = Inr (Some R, u)"
  obtains s' T' rec' where "wf_tables s' root" "node (ent_of s') root (unat (PX level va) # path) = Some T'"
    "pt_lookup s' root = pt_lookup s root" "keeps s s'" "budget s' root = budget s root"
    "tabs s' root \<subseteq> insert (unat (PX level va) # path) (tabs s root)"
    "map_descend va tp leaf (level - 1) rec' T' s' = Inr (Some R, u)"
  using wf at lv
proof (cases rule: descend_level [where va = va and tp = tp and rec = rec])
  case present
  then show ?thesis using that [of s] wf r by (simp add: subset_insertI)
next
  case (added n)
  note st = new_table_step [OF wf at PX_bound added(3,1,2)]
  show ?thesis
    by (rule that [OF st(1,2,3) keeps_new_table [OF added(2)]])
      (use r added(4) tabs_new_table [OF wf at PX_bound added(3,1,2)] in simp_all)
next
  case full
  then show ?thesis using r by (auto simp: kseq_def kbind_def kreturn_def split: sum.splits)
qed

lemma map_descend_done: "map_descend va tp l l rec T s = Inr (Some T, s)"
  by (subst map_descend.simps) simp

lemma descend_two:
  assumes wf: "wf_tables s root" and d: "map_descend va 2 0 2 rec root s = Inr (Some T, u)"
  shows "wf_tables u root" "node (ent_of u) root [unat (PX 1 va), unat (PX 2 va)] = Some T"
    "pt_lookup u root = pt_lookup s root" "keeps s u" "budget u root = budget s root"
    "tabs u root \<subseteq> tabs s root \<union> {[unat (PX 2 va)], [unat (PX 1 va), unat (PX 2 va)]}"
proof -
  have n0: "node (ent_of s) root [] = Some root" by simp
  from descend_success [OF wf n0 _ _ _ d] obtain s1 T1 rec1 where
    s1: "wf_tables s1 root" "node (ent_of s1) root [unat (PX 2 va)] = Some T1"
      "pt_lookup s1 root = pt_lookup s root" "keeps s s1" "budget s1 root = budget s root"
      "tabs s1 root \<subseteq> insert [unat (PX 2 va)] (tabs s root)"
    and d1: "map_descend va 2 0 1 rec1 T1 s1 = Inr (Some T, u)" by auto
  from descend_success [OF s1(1,2) _ _ _ d1] obtain s2 T2 rec2 where
    s2: "wf_tables s2 root" "node (ent_of s2) root [unat (PX 1 va), unat (PX 2 va)] = Some T2"
      "pt_lookup s2 root = pt_lookup s1 root" "keeps s1 s2" "budget s2 root = budget s1 root"
      "tabs s2 root \<subseteq> insert [unat (PX 1 va), unat (PX 2 va)] (tabs s1 root)"
    and d2: "map_descend va 2 0 0 rec2 T2 s2 = Inr (Some T, u)"
    by (auto simp del: node.simps)
  have eq: "T = T2" "u = s2" using d2 by (simp_all add: map_descend_done)
  show "wf_tables u root" "node (ent_of u) root [unat (PX 1 va), unat (PX 2 va)] = Some T"
    "pt_lookup u root = pt_lookup s root" "keeps s u"
    "budget u root = budget s root"
    "tabs u root \<subseteq> tabs s root \<union> {[unat (PX 2 va)], [unat (PX 1 va), unat (PX 2 va)]}"
    using s1(3,5,6) s2 keeps_trans [OF s1(4) s2(4)] eq by (auto simp del: node.simps)
qed

lemma map_page_success:
  assumes wf: "wf_tables s root" and perm: "perm AND PTE_V \<noteq> 0"
    and r: "map_page root va pa perm 2 0 s = Inr (0, t)"
  shows "wf_tables t root" "pt_lookup t root = (pt_lookup s root)(vidx va \<mapsto> PA2PTE pa OR perm)" "keeps s t"
    "budget t root = budget s root"
    "tabs t root \<subseteq> tabs s root \<union> {[unat (PX 2 va)], [unat (PX 1 va), unat (PX 2 va)]}"
proof -
  obtain T u where d: "map_descend va 2 0 2 (\<lambda>_. 0) root s = Inr (Some T, u)"
    and k: "kstore (pte_addr T (unat (PX 0 va))) (PA2PTE pa OR perm) u = Inr ((), t)"
    using r by (auto simp: map_page_def kbind_def kseq_def kreturn_def split: sum.splits option.splits)
  note u = descend_two [OF wf d]
  have dir: "direct (pte_addr T (unat (PX 0 va)))"
    using wf_tables_nodes [OF u(1,2)] PX_bound direct_pte_addr by simp
  have t: "t = u\<lparr>pmem := (pmem u)(pte_addr T (unat (PX 0 va)) := PA2PTE pa OR perm)\<rparr>"
    using k dir by (simp add: kstore_ok)
  have v: "pte_valid (PA2PTE pa OR perm)"
    using perm by (simp add: pte_valid_def word_ao_dist or_eq_0_iff)
  note l = leaf_step [OF u(1,2) PX_bound v]
  show "wf_tables t root" unfolding t by (rule l(1))
  show "pt_lookup t root = (pt_lookup s root)(vidx va \<mapsto> PA2PTE pa OR perm)"
    unfolding t l(2) vidx_def by (simp add: u(3))
  show "keeps s t" using u(4) by (simp add: t keeps_pmem)
  show "budget t root = budget s root" unfolding t tabs_leaf(2) [OF u(1,2) PX_bound v] by (rule u(5))
  show "tabs t root \<subseteq> tabs s root \<union> {[unat (PX 2 va)], [unat (PX 1 va), unat (PX 2 va)]}"
    unfolding t tabs_leaf(1) [OF u(1,2) PX_bound v] by (rule u(6))
qed

lemma free_pages_pos: "0 < free_pages s \<Longrightarrow> \<not> (\<forall>n < 31232. mem_map s n \<noteq> 0)"
  by (auto simp: free_pages_def card_gt_0_iff)

lemma descend_total:
  assumes "wf_tables s root" "node (ent_of s) root path = Some T" "length path \<le> 1"
    and "level + length path = 2" "level \<le> free_pages s"
  shows "\<exists>R u. map_descend va tp 0 level rec T s = Inr (Some R, u)
     \<and> free_pages s \<le> free_pages u + level \<and> keeps s u"
  using assms
proof (induction level arbitrary: s path T rec)
  case 0
  then show ?case by (simp add: map_descend_done)
next
  case (Suc l)
  have lv: "0 < Suc l" "Suc l \<le> 4" using Suc.prems by auto
  from Suc.prems(1-3) lv show ?case
  proof (cases rule: descend_level [where va = va and tp = tp and rec = rec])
    case present
    show ?thesis
    proof (cases l)
      case 0
      then show ?thesis using present by (auto simp: map_descend_done)
    next
      case (Suc m)
      then show ?thesis
        using Suc.IH [OF Suc.prems(1) present(2), of rec] present(3) Suc.prems(3-5) by auto
    qed
  next
    case (added n)
    let ?t = "new_table s n (pte_addr T (unat (PX (Suc l) va)))"
    note st = new_table_step [OF Suc.prems(1-3) PX_bound added(3,1,2)]
    note fr = free_pages_new_table [OF added(1,2), of "pte_addr T (unat (PX (Suc l) va))"]
    note kp = keeps_new_table [OF added(2), of "pte_addr T (unat (PX (Suc l) va))"]
    show ?thesis
    proof (cases l)
      case 0
      then show ?thesis using added(4) fr kp by (auto simp: map_descend_done)
    next
      case (Suc m)
      then have "length (unat (PX (Suc l) va) # path) \<le> 1" "l + length (unat (PX (Suc l) va) # path) = 2"
        "l \<le> free_pages ?t"
        using Suc.prems(4,5) fr by auto
      from Suc.IH [OF st(1,2) this, of "rec(Suc l - 1 := page_addr n)"] obtain R u where
        "map_descend va tp 0 l (rec(Suc l - 1 := page_addr n)) (page_addr n) ?t = Inr (Some R, u)"
        "free_pages ?t \<le> free_pages u + l" "keeps ?t u" by blast
      then have "map_descend va tp 0 (Suc l) rec T s = Inr (Some R, u)" "keeps s u"
        "free_pages s \<le> free_pages u + Suc l"
        using added(4) fr keeps_trans [OF kp, of u] by simp_all
      then show ?thesis by blast
    qed
  next
    case full
    then show ?thesis using free_pages_pos [of s] Suc.prems(5) by auto
  qed
qed

lemma map_page_total:
  assumes "wf_tables s root" "2 \<le> free_pages s"
  shows "\<exists>t. map_page root va pa perm 2 0 s = Inr (0, t) \<and> free_pages s \<le> free_pages t + 2"
proof -
  have n0: "node (ent_of s) root [] = Some root" by simp
  obtain R u where d: "map_descend va 2 0 2 (\<lambda>_. 0) root s = Inr (Some R, u)"
    and f: "free_pages s \<le> free_pages u + 2"
    using descend_total [OF assms(1) n0, where level = 2 and va = va and tp = 2 and rec = "\<lambda>_. 0"] assms(2)
    by auto
  have "direct (pte_addr R (unat (PX 0 va)))"
    using wf_tables_nodes [OF descend_two(1,2) [OF assms(1) d]] PX_bound direct_pte_addr by simp
  then have "map_page root va pa perm 2 0 s =
      Inr (0, u\<lparr>pmem := (pmem u)(pte_addr R (unat (PX 0 va)) := PA2PTE pa OR perm)\<rparr>)"
    by (simp add: map_page_def kbind_def kseq_def d kreturn_def kstore_ok)
  moreover have "free_pages (u\<lparr>pmem := m\<rparr>) = free_pages u" for m by (simp add: free_pages_def)
  ultimately show ?thesis using f by simp
qed

subsection \<open>Properties\<close>

text \<open>C1: \<open>map_page\<close> on a well-formed tree with two free pages left returns 0, keeps the tree well
  formed, and changes the address space exactly at the page of \<open>va\<close>, which gets the entry for
  \<open>pa\<close> with the permissions; the reference counts of pages in use stay the same.\<close>

theorem map_page_refines:
  assumes "wf_tables s root" "perm AND PTE_V \<noteq> 0" "2 \<le> free_pages s"
  shows "\<exists>t. map_page root va pa perm 2 0 s = Inr (0, t) \<and> wf_tables t root
     \<and> pt_lookup t root = (pt_lookup s root)(vidx va \<mapsto> PA2PTE pa OR perm)
     \<and> (\<forall>n. mem_map s n \<noteq> 0 \<longrightarrow> mem_map t n = mem_map s n)"
proof -
  obtain t where t: "map_page root va pa perm 2 0 s = Inr (0, t)"
    using map_page_total [OF assms(1,3)] by blast
  show ?thesis
    using t map_page_success [OF assms(1,2) t] by (auto simp: keeps_def)
qed

definition blank_mm :: mm where
  "blank_mm = \<lparr>mem_map = \<lambda>_. 0, pmem = \<lambda>_. 0, satp = 0, current = 0, task = \<lambda>_. 0,
     task_pgd = \<lambda>_. 0, swapper_pg_dir = 0xFFFFFFC000010000\<rparr>"

lemma blank_node: "node (ent_of blank_mm) root p = (if p = [] then Some root else None)"
  by (induction p) (auto simp: ent_of_def blank_mm_def)

lemma blank_wf: "wf_tables blank_mm 0xFFFFFFC000010000"
proof -
  have "(0xFFFFFFC000010000 :: u64) \<notin> pool_pages"
  proof
    assume "(0xFFFFFFC000010000 :: u64) \<in> pool_pages"
    then obtain i where "i < 31232" "page_addr i = 0xFFFFFFC000010000" by (auto simp: pool_pages_def)
    then show False using page_addr_range(1) [of i] by (simp add: low_va)
  qed
  moreover have "wf_tree (ent_of blank_mm) (in_use blank_mm) 0xFFFFFFC000010000"
    by (auto simp: wf_tree_def blank_node split: if_splits)
  ultimately show ?thesis
    by (simp add: wf_tables_def al_def direct_def VA_KERNEL_def high_va)
qed

lemma blank_free: "free_pages blank_mm = 31232"
  by (simp add: free_pages_def blank_mm_def)

theorem map_page_refines_witness:
  "\<exists>t. map_page 0xFFFFFFC000010000 0x80200000 0x80200000 0x1F 2 0 blank_mm = Inr (0, t)
     \<and> wf_tables t 0xFFFFFFC000010000
     \<and> pt_lookup t 0xFFFFFFC000010000 =
         (pt_lookup blank_mm 0xFFFFFFC000010000)(vidx 0x80200000 \<mapsto> PA2PTE 0x80200000 OR 0x1F)
     \<and> (\<forall>n. mem_map blank_mm n \<noteq> 0 \<longrightarrow> mem_map t n = mem_map blank_mm n)"
  by (rule map_page_refines [OF blank_wf]) (simp_all add: PTE_V_def blank_free)

end
