(* ===== verification/Mm_Share.thy ===== *)
theory Mm_Share
  imports Mm_Tables
begin

text \<open>
  Sharing and freeing the page tables of a process (\<open>copy_page_tables\<close>, \<open>free_page_tables\<close>,
  \<open>clear_page_tables\<close> of \<open>mm/memory.c\<close>).  The loops visit the pages of a tree of tables; what
  matters for the visit is the skeleton of memory, which says of every word whether it is a valid
  entry and which page it names.  Lowering the permissions of an entry keeps the skeleton, so the
  increments of \<open>copy_page_tables\<close> and the decrements of \<open>free_page_tables\<close> are counted over the
  same list of pages.
\<close>

subsection \<open>The skeleton of memory and the pages of a tree\<close>

definition skel :: "'a mm_scheme \<Rightarrow> u64 \<Rightarrow> u64 option" where
  "skel s a = (if pte_valid (pmem s a) then Some (PTE2VA (pmem s a)) else None)"

text \<open>The pages below a table with \<open>l\<close> levels of entries, tables before their contents (\<open>pre\<close>) or
  after them (\<open>post\<close>).\<close>

primrec pre :: "nat \<Rightarrow> (u64 \<Rightarrow> u64 option) \<Rightarrow> u64 \<Rightarrow> u64 list" where
  "pre 0 sk T = []"
| "pre (Suc l) sk T = concat (map (\<lambda>i. case sk (pte_addr T i) of None \<Rightarrow> [] | Some P \<Rightarrow> P # pre l sk P) [0..<512])"

primrec post :: "nat \<Rightarrow> (u64 \<Rightarrow> u64 option) \<Rightarrow> u64 \<Rightarrow> u64 list" where
  "post 0 sk T = []"
| "post (Suc l) sk T = concat (map (\<lambda>i. case sk (pte_addr T i) of None \<Rightarrow> [] | Some P \<Rightarrow> post l sk P @ [P]) [0..<512])"

definition pre_at :: "nat \<Rightarrow> (u64 \<Rightarrow> u64 option) \<Rightarrow> u64 \<Rightarrow> u64 list" where
  "pre_at l sk a = (case sk a of None \<Rightarrow> [] | Some P \<Rightarrow> P # pre l sk P)"

definition post_at :: "nat \<Rightarrow> (u64 \<Rightarrow> u64 option) \<Rightarrow> u64 \<Rightarrow> u64 list" where
  "post_at l sk a = (case sk a of None \<Rightarrow> [] | Some P \<Rightarrow> post l sk P @ [P])"

lemma pre_Suc: "pre (Suc l) sk T = concat (map (\<lambda>i. pre_at l sk (pte_addr T i)) [0..<512])"
  by (simp add: pre_at_def)

lemma post_Suc: "post (Suc l) sk T = concat (map (\<lambda>i. post_at l sk (pte_addr T i)) [0..<512])"
  by (simp add: post_at_def)

definition refs_in :: "u64 list \<Rightarrow> nat \<Rightarrow> nat" where
  "refs_in ps n = count_list (map MAP_NR ps) n"

lemma refs_in_simps [simp]:
  "refs_in [] n = 0"
  "refs_in (p # ps) n = (if MAP_NR p = n then 1 else 0) + refs_in ps n"
  "refs_in (ps @ qs) n = refs_in ps n + refs_in qs n"
  by (simp_all add: refs_in_def)

lemma refs_in_zero: "(\<And>p. p \<in> set ps \<Longrightarrow> MAP_NR p \<noteq> n) \<Longrightarrow> refs_in ps n = 0"
  by (induction ps) auto

lemma refs_in_concat_cong:
  "(\<And>i. i \<in> set is \<Longrightarrow> refs_in (f i) n = refs_in (g i) n) \<Longrightarrow>
   refs_in (concat (map f is)) n = refs_in (concat (map g is)) n"
  by (induction "is") auto

lemma refs_in_post: "refs_in (post l sk T) n = refs_in (pre l sk T) n"
proof (induction l arbitrary: T)
  case (Suc l)
  show ?case
    unfolding pre_Suc post_Suc
    by (rule refs_in_concat_cong) (auto simp: pre_at_def post_at_def Suc split: option.splits)
qed simp

lemma refs_in_post_at: "refs_in (post_at l sk a) n = refs_in (pre_at l sk a) n"
  by (auto simp: pre_at_def post_at_def refs_in_post split: option.splits)

subsection \<open>Counting increments and decrements\<close>

definition adds :: "'a mm_scheme \<Rightarrow> 'a mm_scheme \<Rightarrow> u64 list \<Rightarrow> bool" where
  "adds s t ps \<longleftrightarrow> skel t = skel s \<and> (\<forall>n. mem_map t n = mem_map s n + of_nat (refs_in ps n))
     \<and> (\<exists>m mp. t = s\<lparr>mem_map := mp, pmem := m\<rparr>)"

lemma addsI:
  "skel t = skel s \<Longrightarrow> (\<And>n. mem_map t n = mem_map s n + of_nat (refs_in ps n)) \<Longrightarrow>
   t = s\<lparr>mem_map := mp, pmem := m\<rparr> \<Longrightarrow> adds s t ps"
  unfolding adds_def by blast

lemma adds_refl [simp]: "adds s s []"
  by (rule addsI [where mp = "mem_map s" and m = "pmem s"]) simp_all

lemma adds_trans: "adds s t ps \<Longrightarrow> adds t u qs \<Longrightarrow> adds s u (ps @ qs)"
  by (auto simp: adds_def) blast

definition subs :: "'a mm_scheme \<Rightarrow> 'a mm_scheme \<Rightarrow> u64 list \<Rightarrow> bool" where
  "subs s t ps \<longleftrightarrow> (\<forall>n. unat (mem_map t n) + refs_in ps n = unat (mem_map s n))
     \<and> (\<exists>mp. t = s\<lparr>mem_map := mp\<rparr>)"

lemma subs_refl [simp]: "subs s s []"
  unfolding subs_def by (auto intro!: exI [of _ "mem_map s"])

lemma subs_trans: "subs s t ps \<Longrightarrow> subs t u qs \<Longrightarrow> subs s u (ps @ qs)"
  unfolding subs_def
proof (intro conjI allI)
  fix n
  assume a: "(\<forall>n. unat (mem_map t n) + refs_in ps n = unat (mem_map s n)) \<and> (\<exists>mp. t = s\<lparr>mem_map := mp\<rparr>)"
    "(\<forall>n. unat (mem_map u n) + refs_in qs n = unat (mem_map t n)) \<and> (\<exists>mp. u = t\<lparr>mem_map := mp\<rparr>)"
  then show "\<exists>mp. u = s\<lparr>mem_map := mp\<rparr>" by auto
  from a have "unat (mem_map t n) + refs_in ps n = unat (mem_map s n)"
    "unat (mem_map u n) + refs_in qs n = unat (mem_map t n)" by blast+
  then show "unat (mem_map u n) + refs_in (ps @ qs) n = unat (mem_map s n)" by simp
qed

definition enough :: "'a mm_scheme \<Rightarrow> u64 list \<Rightarrow> bool" where
  "enough s ps \<longleftrightarrow> (\<forall>n. refs_in ps n \<le> unat (mem_map s n))"

lemma enough_append: "enough s (ps @ qs) \<Longrightarrow> enough s ps"
  by (auto simp: enough_def) (metis add_leD1)

lemma enough_after: "enough s (ps @ qs) \<Longrightarrow> subs s t ps \<Longrightarrow> enough t qs"
  unfolding enough_def subs_def
  by (metis (no_types, lifting) add.commute add_le_cancel_left refs_in_simps(3))

lemma kfor_adds:
  assumes "\<And>i t. i \<in> set is \<Longrightarrow> skel t = sk \<Longrightarrow> \<exists>u. body i t = Inr ((), u) \<and> adds t u (f i)"
    and "skel s = sk"
  shows "\<exists>u. kfor is body s = Inr ((), u) \<and> adds s u (concat (map f is))"
  using assms
proof (induction "is" arbitrary: s)
  case (Cons i "is")
  obtain t where t: "body i s = Inr ((), t)" "adds s t (f i)" using Cons.prems by fastforce
  then have "skel t = sk" using Cons.prems(2) by (simp add: adds_def)
  then obtain u where "kfor is body t = Inr ((), u)" "adds t u (concat (map f is))"
    using Cons.IH [of t] Cons.prems(1) by auto
  then show ?case using t adds_trans by fastforce
qed simp

lemma kfor_subs:
  assumes "\<And>i t. i \<in> set is \<Longrightarrow> pmem t = m \<Longrightarrow> enough t (f i) \<Longrightarrow>
      \<exists>u. body i t = Inr ((), u) \<and> subs t u (f i)"
    and "pmem s = m" "enough s (concat (map f is))"
  shows "\<exists>u. kfor is body s = Inr ((), u) \<and> subs s u (concat (map f is))"
  using assms
proof (induction "is" arbitrary: s)
  case (Cons i "is")
  have "enough s (f i)" using Cons.prems(3) enough_append by fastforce
  then obtain t where t: "body i s = Inr ((), t)" "subs s t (f i)" using Cons.prems by fastforce
  then have "pmem t = m" "enough t (concat (map f is))"
    using Cons.prems(2,3) enough_after [of s "f i"] by (auto simp: subs_def)
  then obtain u where "kfor is body t = Inr ((), u)" "subs t u (concat (map f is))"
    using Cons.IH [of t] Cons.prems(1) by auto
  then show ?case using t subs_trans by fastforce
qed simp

subsection \<open>Raising the counts\<close>

lemma pool_page_nr: "p \<in> pool_pages \<Longrightarrow> MAP_NR p < 31232"
  by (auto simp: pool_pages_def)

lemma inc_count_adds:
  assumes "p \<in> pool_pages"
  shows "\<exists>u. inc_count (MAP_NR p) s = Inr ((), u) \<and> adds s u [p]"
proof -
  let ?u = "s\<lparr>mem_map := (mem_map s)(MAP_NR p := mem_map s (MAP_NR p) + 1)\<rparr>"
  have "adds s ?u [p]"
    by (rule addsI [where mp = "mem_map ?u" and m = "pmem s"]) (simp_all add: skel_def fun_eq_iff)
  then show ?thesis using inc_count_ok [OF pool_page_nr [OF assms], of s] by blast
qed

definition read_only :: "u64 \<Rightarrow> u64" where
  "read_only e = (e AND NOT 0x3FF OR (PTE_U OR PTE_X OR PTE_R OR PTE_V))"

lemma read_only_page: "PTE2VA (read_only e) = PTE2VA e" "pte_valid (read_only e)"
proof -
  have r: "read_only e = e AND NOT (mask 10) OR 27"
    by (simp add: read_only_def mask_eq_exp_minus_1 PTE_U_def PTE_X_def PTE_R_def PTE_V_def)
  have "drop_bit 10 (27 :: u64) = 0" by (simp add: drop_bit_eq_div)
  moreover have "drop_bit 10 (e AND NOT (mask 10)) = drop_bit 10 e"
    by (intro bit_word_eqI) (auto simp: bit_simps dest: bit_imp_le_length)
  ultimately have "drop_bit 10 (read_only e) = drop_bit 10 e" by (simp only: r drop_bit_or) simp
  then show "PTE2VA (read_only e) = PTE2VA e" by (simp add: PTE2VA_def PTE2PA_def)
  have "bit (read_only e AND PTE_V) 0"
    by (simp add: read_only_def bit_simps PTE_U_def PTE_X_def PTE_R_def PTE_V_def)
  then show "pte_valid (read_only e)" by (auto simp: pte_valid_def)
qed

lemma lower_entry_adds:
  assumes "pte_valid (pmem s a)"
  shows "adds s (s\<lparr>pmem := (pmem s)(a := read_only (pmem s a))\<rparr>) []"
proof -
  have "skel (s\<lparr>pmem := (pmem s)(a := read_only (pmem s a))\<rparr>) = skel s"
    using assms by (auto simp: skel_def fun_eq_iff read_only_page)
  then show ?thesis
    by (rule addsI [where mp = "mem_map s" and m = "(pmem s)(a := read_only (pmem s a))"]) simp_all
qed

definition ref_leaf :: "u64 \<Rightarrow> 'a mm_scheme \<Rightarrow> ('a mm_scheme, unit) kres" where
  "ref_leaf a = kbind (kload a) (\<lambda>e0.
     if e0 AND PTE_V \<noteq> 0 then
       kseq (kstore a (read_only e0)) (kbind (kload a) (\<lambda>e. inc_count (MAP_NR (PTE2VA e))))
     else kreturn ())"

definition ref_mid :: "u64 \<Rightarrow> 'a mm_scheme \<Rightarrow> ('a mm_scheme, unit) kres" where
  "ref_mid a = kbind (kload a) (\<lambda>e1.
     if e1 AND PTE_V \<noteq> 0 then
       kseq (inc_count (MAP_NR (PTE2VA e1))) (kfor [0..<512] (\<lambda>j. ref_leaf (pte_addr (PTE2VA e1) j)))
     else kreturn ())"

lemma reference_count_one_table_levels:
  "reference_count_one_table a = kbind (kload a) (\<lambda>e2.
     if e2 AND PTE_V \<noteq> 0 then
       kseq (inc_count (MAP_NR (PTE2VA e2))) (kfor [0..<512] (\<lambda>i. ref_mid (pte_addr (PTE2VA e2) i)))
     else kreturn ())"
  unfolding reference_count_one_table_def ref_mid_def ref_leaf_def read_only_def ..

lemma ref_leaf_adds:
  assumes "direct a" "set (pre_at 0 (skel s) a) \<subseteq> pool_pages"
  shows "\<exists>u. ref_leaf a s = Inr ((), u) \<and> adds s u (pre_at 0 (skel s) a)"
proof (cases "pte_valid (pmem s a)")
  case True
  let ?t = "s\<lparr>pmem := (pmem s)(a := read_only (pmem s a))\<rparr>"
  have p: "pre_at 0 (skel s) a = [PTE2VA (pmem s a)]" using True by (simp add: pre_at_def skel_def)
  obtain u where "inc_count (MAP_NR (PTE2VA (pmem s a))) ?t = Inr ((), u)" "adds ?t u [PTE2VA (pmem s a)]"
    using inc_count_adds [of "PTE2VA (pmem s a)" ?t] assms(2) p by auto
  then have "ref_leaf a s = Inr ((), u)" "adds s u [PTE2VA (pmem s a)]"
    using True assms(1) adds_trans [OF lower_entry_adds [OF True]]
    by (auto simp: ref_leaf_def kbind_def kseq_def kload_ok kstore_ok pte_valid_def read_only_page)
  then show ?thesis using p by auto
next
  case False
  then show ?thesis
    using assms(1) by (auto simp: ref_leaf_def kbind_def kload_ok pte_valid_def kreturn_def pre_at_def skel_def)
qed

text \<open>One more level: the entry's table is counted, then its entries are visited.\<close>

lemma ref_level_adds:
  assumes d: "direct a" and pool: "set (pre_at (Suc l) (skel s) a) \<subseteq> pool_pages"
    and step: "\<And>b t. direct b \<Longrightarrow> skel t = skel s \<Longrightarrow> set (pre_at l (skel s) b) \<subseteq> pool_pages \<Longrightarrow>
        \<exists>u. body b t = Inr ((), u) \<and> adds t u (pre_at l (skel s) b)"
    and f: "f s = kbind (kload a) (\<lambda>e. if e AND PTE_V \<noteq> 0 then
        kseq (inc_count (MAP_NR (PTE2VA e))) (kfor [0..<512] (\<lambda>i. body (pte_addr (PTE2VA e) i)))
      else kreturn ()) s"
  shows "\<exists>u. f s = Inr ((), u) \<and> adds s u (pre_at (Suc l) (skel s) a)"
proof (cases "pte_valid (pmem s a)")
  case True
  let ?P = "PTE2VA (pmem s a)"
  have p: "pre_at (Suc l) (skel s) a = ?P # concat (map (\<lambda>i. pre_at l (skel s) (pte_addr ?P i)) [0..<512])"
    using True by (simp add: pre_at_def skel_def)
  have P: "?P \<in> pool_pages" using pool p by simp
  obtain t where t: "inc_count (MAP_NR ?P) s = Inr ((), t)" "adds s t [?P]"
    using inc_count_adds [OF P] by blast
  have "\<exists>u. kfor [0..<512] (\<lambda>i. body (pte_addr ?P i)) t = Inr ((), u)
      \<and> adds t u (concat (map (\<lambda>i. pre_at l (skel s) (pte_addr ?P i)) [0..<512]))"
  proof (rule kfor_adds [where sk = "skel s"])
    fix i and v :: "'a mm_scheme"
    assume "i \<in> set [0..<512]" "skel v = skel s"
    moreover have "set (pre_at l (skel s) (pte_addr ?P i)) \<subseteq> set (pre_at (Suc l) (skel s) a)"
      using p calculation(1) by auto
    ultimately show "\<exists>u. body (pte_addr ?P i) v = Inr ((), u) \<and> adds v u (pre_at l (skel s) (pte_addr ?P i))"
      using pool step direct_pte_addr [OF pool_page_al [OF P] pool_page_direct [OF P]] by simp
  qed (use t in \<open>simp add: adds_def\<close>)
  then obtain u where u: "kfor [0..<512] (\<lambda>i. body (pte_addr ?P i)) t = Inr ((), u)"
    "adds t u (concat (map (\<lambda>i. pre_at l (skel s) (pte_addr ?P i)) [0..<512]))" by blast
  have "f s = Inr ((), u)"
    using True d t(1) u(1) f by (simp add: kbind_def kseq_def kload_ok pte_valid_def)
  then show ?thesis using adds_trans [OF t(2) u(2)] p by simp
next
  case False
  then show ?thesis
    using d f by (auto simp: kbind_def kload_ok pte_valid_def kreturn_def pre_at_def skel_def)
qed

lemma ref_mid_adds:
  assumes "direct a" "set (pre_at 1 (skel s) a) \<subseteq> pool_pages"
  shows "\<exists>u. ref_mid a s = Inr ((), u) \<and> adds s u (pre_at 1 (skel s) a)"
  unfolding One_nat_def
proof (rule ref_level_adds [where body = ref_leaf])
  fix b and t :: "'a mm_scheme"
  assume "direct b" "skel t = skel s" "set (pre_at 0 (skel s) b) \<subseteq> pool_pages"
  then show "\<exists>u. ref_leaf b t = Inr ((), u) \<and> adds t u (pre_at 0 (skel s) b)"
    using ref_leaf_adds [of b t] by simp
qed (use assms in \<open>simp_all add: ref_mid_def\<close>)

lemma reference_count_adds:
  assumes "direct a" "set (pre_at 2 (skel s) a) \<subseteq> pool_pages"
  shows "\<exists>u. reference_count_one_table a s = Inr ((), u) \<and> adds s u (pre_at 2 (skel s) a)"
  unfolding numeral_2_eq_2 One_nat_def [symmetric]
proof (rule ref_level_adds [where body = ref_mid])
  fix b and t :: "'a mm_scheme"
  assume "direct b" "skel t = skel s" "set (pre_at 1 (skel s) b) \<subseteq> pool_pages"
  then show "\<exists>u. ref_mid b t = Inr ((), u) \<and> adds t u (pre_at 1 (skel s) b)"
    using ref_mid_adds [of b t] by simp
qed (use assms in \<open>simp_all add: reference_count_one_table_levels numeral_2_eq_2\<close>)

subsection \<open>Lowering the counts\<close>

lemma free_page_subs:
  assumes "p \<in> pool_pages" "enough s [p]"
  shows "\<exists>u. free_page p s = Inr ((), u) \<and> subs s u [p]"
proof -
  obtain i where i: "i < 31232" "p = page_addr i" using assms(1) by (auto simp: pool_pages_def)
  have "refs_in [p] i \<le> unat (mem_map s i)" using assms(2) unfolding enough_def by blast
  then have c: "mem_map s i \<noteq> 0" using i by auto
  let ?u = "s\<lparr>mem_map := (mem_map s)(i := mem_map s i - 1)\<rparr>"
  have "free_page p s = Inr ((), ?u)"
    using free_page_range [OF page_addr_range(1,2) [OF i(1)], of s] c i by simp
  moreover have "unat (mem_map s i - 1) + 1 = unat (mem_map s i)"
    using c by (simp add: unat_minus_one unat_gt_0 [symmetric])
  then have "subs s ?u [p]" using i unfolding subs_def by auto
  ultimately show ?thesis by blast
qed

definition free_leaf :: "u64 \<Rightarrow> 'a mm_scheme \<Rightarrow> ('a mm_scheme, unit) kres" where
  "free_leaf a = kbind (kload a) (\<lambda>e0. if e0 AND PTE_V \<noteq> 0 then free_page (PTE2VA e0) else kreturn ())"

definition free_mid :: "u64 \<Rightarrow> 'a mm_scheme \<Rightarrow> ('a mm_scheme, unit) kres" where
  "free_mid a = kbind (kload a) (\<lambda>e1.
     if e1 AND PTE_V \<noteq> 0 then
       kseq (kfor [0..<512] (\<lambda>j. free_leaf (pte_addr (PTE2VA e1) j)))
         (kbind (kload a) (\<lambda>e. free_page (PTE2VA e)))
     else kreturn ())"

lemma free_one_table_levels:
  "free_one_table a = kbind (kload a) (\<lambda>e2.
     if e2 AND PTE_V \<noteq> 0 then
       kseq (kfor [0..<512] (\<lambda>i. free_mid (pte_addr (PTE2VA e2) i)))
         (kbind (kload a) (\<lambda>e. free_page (PTE2VA e)))
     else kreturn ())"
  unfolding free_one_table_def free_mid_def free_leaf_def ..

lemma skel_pmem: "pmem t = pmem s \<Longrightarrow> skel t = skel s"
  by (simp add: skel_def fun_eq_iff)

lemma free_leaf_subs:
  assumes "direct a" "set (post_at 0 (skel s) a) \<subseteq> pool_pages" "enough s (post_at 0 (skel s) a)"
  shows "\<exists>u. free_leaf a s = Inr ((), u) \<and> subs s u (post_at 0 (skel s) a)"
  using assms free_page_subs [of "PTE2VA (pmem s a)" s]
  by (auto simp: free_leaf_def kbind_def kload_ok pte_valid_def kreturn_def post_at_def skel_def)

lemma free_level_subs:
  assumes d: "direct a" and pool: "set (post_at (Suc l) (skel s) a) \<subseteq> pool_pages"
    and en: "enough s (post_at (Suc l) (skel s) a)"
    and step: "\<And>b t. direct b \<Longrightarrow> pmem t = pmem s \<Longrightarrow> set (post_at l (skel s) b) \<subseteq> pool_pages \<Longrightarrow>
        enough t (post_at l (skel s) b) \<Longrightarrow> \<exists>u. body b t = Inr ((), u) \<and> subs t u (post_at l (skel s) b)"
    and f: "f s = kbind (kload a) (\<lambda>e. if e AND PTE_V \<noteq> 0 then
        kseq (kfor [0..<512] (\<lambda>i. body (pte_addr (PTE2VA e) i))) (kbind (kload a) (\<lambda>e. free_page (PTE2VA e)))
      else kreturn ()) s"
  shows "\<exists>u. f s = Inr ((), u) \<and> subs s u (post_at (Suc l) (skel s) a)"
proof (cases "pte_valid (pmem s a)")
  case True
  let ?P = "PTE2VA (pmem s a)" and ?ps = "\<lambda>i. post_at l (skel s) (pte_addr (PTE2VA (pmem s a)) i)"
  have p: "post_at (Suc l) (skel s) a = concat (map ?ps [0..<512]) @ [?P]"
    using True by (simp add: post_at_def skel_def)
  have P: "?P \<in> pool_pages" using pool p by simp
  have "\<exists>t. kfor [0..<512] (\<lambda>i. body (pte_addr ?P i)) s = Inr ((), t) \<and> subs s t (concat (map ?ps [0..<512]))"
  proof (rule kfor_subs [where m = "pmem s"])
    fix i and v :: "'a mm_scheme"
    assume "i \<in> set [0..<512]" "pmem v = pmem s" "enough v (?ps i)"
    moreover have "set (?ps i) \<subseteq> set (post_at (Suc l) (skel s) a)" using p calculation(1) by auto
    ultimately show "\<exists>u. body (pte_addr ?P i) v = Inr ((), u) \<and> subs v u (?ps i)"
      using pool step direct_pte_addr [OF pool_page_al [OF P] pool_page_direct [OF P]] by simp
  qed (use en p enough_append in auto)
  then obtain t where t: "kfor [0..<512] (\<lambda>i. body (pte_addr ?P i)) s = Inr ((), t)"
    "subs s t (concat (map ?ps [0..<512]))" by blast
  have "enough t [?P]" using enough_after [OF _ t(2)] en p by simp
  then obtain u where u: "free_page ?P t = Inr ((), u)" "subs t u [?P]" using free_page_subs [OF P] by blast
  have "pmem t = pmem s" using t(2) by (auto simp: subs_def)
  then have "f s = Inr ((), u)"
    using True d t(1) u(1) f by (simp add: kbind_def kseq_def kload_ok pte_valid_def)
  then show ?thesis using subs_trans [OF t(2) u(2)] p by simp
next
  case False
  then show ?thesis
    using d f by (auto simp: kbind_def kload_ok pte_valid_def kreturn_def post_at_def skel_def)
qed

lemma free_mid_subs:
  assumes "direct a" "set (post_at 1 (skel s) a) \<subseteq> pool_pages" "enough s (post_at 1 (skel s) a)"
  shows "\<exists>u. free_mid a s = Inr ((), u) \<and> subs s u (post_at 1 (skel s) a)"
  unfolding One_nat_def
proof (rule free_level_subs [where body = free_leaf])
  fix b and t :: "'a mm_scheme"
  assume "direct b" "pmem t = pmem s" "set (post_at 0 (skel s) b) \<subseteq> pool_pages" "enough t (post_at 0 (skel s) b)"
  then show "\<exists>u. free_leaf b t = Inr ((), u) \<and> subs t u (post_at 0 (skel s) b)"
    using free_leaf_subs [of b t] skel_pmem [of t s] by simp
qed (use assms in \<open>simp_all add: free_mid_def\<close>)

lemma free_one_table_subs:
  assumes "direct a" "set (post_at 2 (skel s) a) \<subseteq> pool_pages" "enough s (post_at 2 (skel s) a)"
  shows "\<exists>u. free_one_table a s = Inr ((), u) \<and> subs s u (post_at 2 (skel s) a)"
  unfolding numeral_2_eq_2 One_nat_def [symmetric]
proof (rule free_level_subs [where body = free_mid])
  fix b and t :: "'a mm_scheme"
  assume "direct b" "pmem t = pmem s" "set (post_at 1 (skel s) b) \<subseteq> pool_pages" "enough t (post_at 1 (skel s) b)"
  then show "\<exists>u. free_mid b t = Inr ((), u) \<and> subs t u (post_at 1 (skel s) b)"
    using free_mid_subs [of b t] skel_pmem [of t s] by simp
qed (use assms in \<open>simp_all add: free_one_table_levels numeral_2_eq_2\<close>)

subsection \<open>The user half of a root table\<close>

text \<open>The pages below the 256 user entries of a root table.\<close>

definition user_pages :: "(u64 \<Rightarrow> u64 option) \<Rightarrow> u64 \<Rightarrow> u64 list" where
  "user_pages sk root = concat (map (\<lambda>i. pre_at 2 sk (pte_addr root i)) [0..<256])"

lemma user_post:
  "refs_in (concat (map (\<lambda>i. post_at 2 sk (pte_addr root i)) [0..<256])) n = refs_in (user_pages sk root) n"
  unfolding user_pages_def by (rule refs_in_concat_cong) (rule refs_in_post_at)

lemma set_post: "set (post l sk T) = set (pre l sk T)"
  by (induction l arbitrary: T) (auto split: option.splits)

lemma set_post_at: "set (post_at l sk a) = set (pre_at l sk a)"
  by (auto simp: post_at_def pre_at_def set_post split: option.splits)

lemma share_tables:
  assumes "al root" "direct root" "set (user_pages (skel s) root) \<subseteq> pool_pages"
  shows "\<exists>u. kfor [0..<256] (\<lambda>i. reference_count_one_table (pte_addr root i)) s = Inr ((), u)
    \<and> adds s u (user_pages (skel s) root)"
  unfolding user_pages_def
proof (rule kfor_adds [where sk = "skel s"])
  fix i and t :: "'a mm_scheme"
  assume i: "i \<in> set [0..<256]" and t: "skel t = skel s"
  have "direct (pte_addr root i)" using i direct_pte_addr [OF assms(1,2)] by simp
  moreover have "set (pre_at 2 (skel t) (pte_addr root i)) \<subseteq> set (user_pages (skel s) root)"
    using i t by (auto simp: user_pages_def)
  ultimately show "\<exists>u. reference_count_one_table (pte_addr root i) t = Inr ((), u)
      \<and> adds t u (pre_at 2 (skel s) (pte_addr root i))"
    using reference_count_adds [of "pte_addr root i" t] assms(3) t by simp
qed simp

lemma drop_tables:
  assumes "al root" "direct root" "set (user_pages (skel s) root) \<subseteq> pool_pages"
    "enough s (user_pages (skel s) root)"
  shows "\<exists>u. kfor [0..<256] (\<lambda>i. free_one_table (pte_addr root i)) s = Inr ((), u)
    \<and> subs s u (user_pages (skel s) root)"
proof -
  let ?f = "\<lambda>i. post_at 2 (skel s) (pte_addr root i)"
  have "enough s (concat (map ?f [0..<256]))" using assms(4) unfolding enough_def user_post .
  then have "\<exists>u. kfor [0..<256] (\<lambda>i. free_one_table (pte_addr root i)) s = Inr ((), u)
      \<and> subs s u (concat (map ?f [0..<256]))"
  proof (intro kfor_subs [where m = "pmem s"])
    fix i and t :: "'a mm_scheme"
    assume i: "i \<in> set [0..<256]" and t: "pmem t = pmem s" and e: "enough t (?f i)"
    have "direct (pte_addr root i)" using i direct_pte_addr [OF assms(1,2)] by simp
    moreover have "set (?f i) \<subseteq> set (user_pages (skel s) root)"
      using i by (auto simp: user_pages_def set_post_at)
    ultimately show "\<exists>u. free_one_table (pte_addr root i) t = Inr ((), u) \<and> subs t u (?f i)"
      using free_one_table_subs [of "pte_addr root i" t] assms(3) e skel_pmem [OF t] by simp
  qed simp_all
  then show ?thesis unfolding subs_def user_post .
qed

subsection \<open>\<open>copy_page_tables\<close> and \<open>free_page_tables\<close>\<close>

lemma pre_cong:
  assumes "\<And>U i. U = T \<or> U \<in> set (pre l sk T) \<Longrightarrow> i < 512 \<Longrightarrow> sk' (pte_addr U i) = sk (pte_addr U i)"
  shows "pre l sk' T = pre l sk T"
  using assms
proof (induction l arbitrary: T)
  case (Suc l)
  have "pre_at l sk' (pte_addr T i) = pre_at l sk (pte_addr T i)" if i: "i \<in> set [0..<512]" for i
  proof (cases "sk (pte_addr T i)")
    case None
    then show ?thesis using Suc.prems [of T i] i by (simp add: pre_at_def)
  next
    case (Some P)
    have "P # pre l sk P = pre_at l sk (pte_addr T i)" using Some by (simp add: pre_at_def)
    then have "set (P # pre l sk P) \<subseteq> set (pre (Suc l) sk T)" using i unfolding pre_Suc by auto
    then have "pre l sk' P = pre l sk P"
      by (intro Suc.IH Suc.prems) (auto simp del: pre.simps)
    then show ?thesis using Suc.prems [of T i] Some i by (simp add: pre_at_def)
  qed
  then show ?case unfolding pre_Suc by (intro arg_cong [where f = concat] map_cong [OF refl])
qed simp

lemma user_pages_cong:
  assumes root: "\<And>i. i < 512 \<Longrightarrow> sk' (pte_addr root' i) = sk (pte_addr root i)"
    and tables: "\<And>U i. U \<in> set (user_pages sk root) \<Longrightarrow> i < 512 \<Longrightarrow> sk' (pte_addr U i) = sk (pte_addr U i)"
  shows "user_pages sk' root' = user_pages sk root"
proof -
  have "pre_at 2 sk' (pte_addr root' i) = pre_at 2 sk (pte_addr root i)" if i: "i \<in> set [0..<256]" for i
  proof (cases "sk (pte_addr root i)")
    case None
    then show ?thesis using root [of i] i by (simp add: pre_at_def)
  next
    case (Some P)
    have "P # pre 2 sk P = pre_at 2 sk (pte_addr root i)" using Some by (simp add: pre_at_def)
    then have "set (P # pre 2 sk P) \<subseteq> set (user_pages sk root)"
      using i unfolding user_pages_def by auto
    then have "pre 2 sk' P = pre 2 sk P" by (intro pre_cong) (use tables in auto)
    then show ?thesis using root [of i] Some i by (simp add: pre_at_def)
  qed
  then show ?thesis unfolding user_pages_def by (intro arg_cong [where f = concat] map_cong [OF refl])
qed

text \<open>The state in which the new root table has been filled and the counts are about to rise.\<close>

definition new_root :: "'a mm_scheme \<Rightarrow> u64 \<Rightarrow> nat \<Rightarrow> 'a mm_scheme" where
  "new_root s tsk n =
     s\<lparr>mem_map := (mem_map s)(n := 1),
       task_pgd := (task_pgd s)(tsk := page_addr n),
       pmem := copied_page (page_addr n) (task_pgd s (current s)) (zero_range (page_addr n) 4096 (pmem s))\<rparr>"

lemma new_root_pmem:
  assumes "al root" "n < 31232" "root = task_pgd s (current s)" "page_addr n \<noteq> root" "i < 512"
  shows "pmem (new_root s tsk n) (pte_addr (page_addr n) i) = pmem s (pte_addr root i)"
    and "al U \<Longrightarrow> U \<noteq> page_addr n \<Longrightarrow> pmem (new_root s tsk n) (pte_addr U i) = pmem s (pte_addr U i)"
proof -
  let ?P = "page_addr n"
  have P: "al ?P" using assms(2) by (intro pool_page_al) (simp add: pool_pages_def)
  have "pte_addr ?P i - ?P < 4096" using in_page_iff [OF P P assms(5)] by simp
  moreover have "root + (pte_addr ?P i - ?P) = pte_addr root i" by (simp add: pte_addr_def)
  moreover have "\<not> pte_addr root i - ?P < 4096" using in_page_iff [OF P assms(1,5)] assms(4) by simp
  ultimately show "pmem (new_root s tsk n) (pte_addr ?P i) = pmem s (pte_addr root i)"
    using assms(3) by (simp add: new_root_def copied_page_def zero_range_def)
  show "pmem (new_root s tsk n) (pte_addr U i) = pmem s (pte_addr U i)" if "al U" "U \<noteq> ?P"
    using in_page_iff [OF P that(1) assms(5)] that(2) by (simp add: new_root_def copied_page_def zero_range_def)
qed

text \<open>What \<open>copy_page_tables\<close> needs of the process: its tables and user pages are pages of the pool
  in use, the root is not a free page, and no count overflows.\<close>

definition shareable :: "'a mm_scheme \<Rightarrow> bool" where
  "shareable s \<longleftrightarrow> (let root = task_pgd s (current s); ps = user_pages (skel s) root in
     al root \<and> direct root \<and> (root \<in> pool_pages \<longrightarrow> in_use s root) \<and>
     (\<forall>p \<in> set ps. in_use s p) \<and>
     (\<forall>n < 31232. unat (mem_map s n) + refs_in ps n < 65536))"

lemma copy_page_tables_ok:
  assumes sh: "shareable s" and free: "0 < free_pages s"
  defines "root \<equiv> task_pgd s (current s)"
  obtains n t where "n < 31232" "mem_map s n = 0" "page_addr n \<noteq> root"
    "copy_page_tables tsk s = Inr (0, t)" "adds (new_root s tsk n) t (user_pages (skel s) root)"
    "\<And>i. i < 512 \<Longrightarrow> skel (new_root s tsk n) (pte_addr (page_addr n) i) = skel s (pte_addr root i)"
    "\<And>U i. al U \<Longrightarrow> U \<noteq> page_addr n \<Longrightarrow> i < 512 \<Longrightarrow> skel (new_root s tsk n) (pte_addr U i) = skel s (pte_addr U i)"
proof -
  let ?ps = "user_pages (skel s) root"
  have r: "al root" "direct root" "root \<in> pool_pages \<Longrightarrow> in_use s root" "\<And>p. p \<in> set ?ps \<Longrightarrow> in_use s p"
    using sh by (auto simp: shareable_def root_def Let_def)
  obtain n where n: "n < 31232" "mem_map s n = 0" and g: "get_free_page s = Inr (page_addr n,
      s\<lparr>mem_map := (mem_map s)(n := 1), pmem := zero_range (page_addr n) 4096 (pmem s)\<rparr>)"
    by (cases s rule: get_free_page_cases) (use free free_pages_pos in auto)
  have ne: "page_addr n \<noteq> U" if "in_use s U" for U using that n by (auto simp: in_use_def)
  have nr: "page_addr n \<noteq> root" using r(3) ne n(1) by (auto simp: pool_pages_def)
  have al_ps: "al p" if "p \<in> set ?ps" for p using r(4) [OF that] pool_page_al by (simp add: in_use_def)
  let ?t = "new_root s tsk n"
  note m = new_root_pmem [OF r(1) n(1) root_def [THEN meta_eq_to_obj_eq] nr]
  have sk1: "skel ?t (pte_addr (page_addr n) i) = skel s (pte_addr root i)" if "i < 512" for i
    using m(1) [OF that] by (simp add: skel_def)
  have sk2: "skel ?t (pte_addr U i) = skel s (pte_addr U i)" if "al U" "U \<noteq> page_addr n" "i < 512" for U i
    using m(2) [OF that(3,1,2)] by (simp add: skel_def)
  have ps: "user_pages (skel ?t) root = ?ps"
    by (rule user_pages_cong) (use sk2 r(1) nr al_ps ne r(4) in metis)+
  have "set (user_pages (skel ?t) root) \<subseteq> pool_pages" using ps r(4) by (auto simp: in_use_def)
  then obtain t where t: "kfor [0..<256] (\<lambda>i. reference_count_one_table (pte_addr root i)) ?t = Inr ((), t)"
    "adds ?t t ?ps" using share_tables [OF r(1,2), of ?t] ps by auto
  have "copy_page_tables tsk s = Inr (0, t)"
    using t(1) n(1) r(2) page_addr_range(4) [OF n(1)]
    by (simp add: copy_page_tables_def kbind_def kseq_def g kmodify_def memcpy_page_def kreturn_def
        root_def [symmetric] new_root_def)
  then show ?thesis using that n nr t(2) sk1 sk2 by blast
qed

lemma unat_add_u16:
  "unat (c :: u16) + k < 65536 \<Longrightarrow> unat (c + of_nat k) = unat c + k"
  by (simp add: unat_word_ariths unat_of_nat take_bit_nat_eq_self)

lemma node_skel:
  "node (ent_of s) root (i # p) = (case node (ent_of s) root p of None \<Rightarrow> None
     | Some T \<Rightarrow> if i < 512 then skel s (pte_addr T i) else None)"
  by (auto simp: skel_def ent_of_def split: option.splits)

lemma pt_lookup_root_cong:
  assumes "\<And>i. i < 512 \<Longrightarrow> skel s (pte_addr root' i) = skel s (pte_addr root i)"
  shows "pt_lookup s root' = pt_lookup s root"
proof -
  have "node (ent_of s) root' [i] = node (ent_of s) root [i]" for i
    unfolding node_skel node.simps(1) using assms [of i] by simp
  then have "node (ent_of s) root' [j, i] = node (ent_of s) root [j, i]" for i j
    unfolding node_skel [of _ _ j "[i]"] by simp
  then show ?thesis by (simp add: pt_lookup_def fun_eq_iff del: node.simps)
qed

lemma free_new_root:
  assumes sh: "shareable s" and n: "n < 31232" "mem_map s n = 0" "page_addr n \<noteq> task_pgd s (current s)"
    and t: "adds (new_root s tsk n) t (user_pages (skel s) (task_pgd s (current s)))"
    and tsk: "tsk \<noteq> 0" "tsk \<noteq> task s 0" "tsk \<noteq> current s"
    and sw: "swapper_pg_dir s \<in> pool_pages \<longrightarrow> in_use s (swapper_pg_dir s)"
    and sk: "\<And>i. i < 512 \<Longrightarrow> skel (new_root s tsk n) (pte_addr (page_addr n) i) = skel s (pte_addr (task_pgd s (current s)) i)"
      "\<And>U i. al U \<Longrightarrow> U \<noteq> page_addr n \<Longrightarrow> i < 512 \<Longrightarrow> skel (new_root s tsk n) (pte_addr U i) = skel s (pte_addr U i)"
  shows "\<exists>u. free_page_tables tsk t = Inr ((), u) \<and> mem_map u = mem_map s"
proof -
  let ?P = "page_addr n" and ?ps = "user_pages (skel s) (task_pgd s (current s))"
  have P: "?P \<in> pool_pages" using n(1) by (simp add: pool_pages_def)
  have ps: "in_use s p" if "p \<in> set ?ps" for p using sh that by (auto simp: shareable_def Let_def)
  have out: "refs_in ?ps k = 0" if "k < 31232" "mem_map s k = 0" for k
    using ps that by (intro refs_in_zero) (auto simp: in_use_def)
  have out2: "refs_in ?ps k = 0" if "\<not> k < 31232" for k
    using ps that pool_page_nr by (intro refs_in_zero) (auto simp: in_use_def)
  have psP: "al p \<and> p \<noteq> ?P" if "p \<in> set ?ps" for p
    using ps [OF that] n pool_page_al by (auto simp: in_use_def)
  have "skel t = skel (new_root s tsk n)" using t by (simp add: adds_def)
  then have eq: "user_pages (skel t) ?P = ?ps"
    using sk psP by (intro user_pages_cong) simp_all
  obtain m mp where t': "t = (new_root s tsk n)\<lparr>mem_map := mp, pmem := m\<rparr>" using t by (auto simp: adds_def)
  have c: "mem_map t k = ((mem_map s)(n := 1)) k + of_nat (refs_in ?ps k)" for k
    using t by (simp add: adds_def new_root_def)
  have cu: "unat (mem_map t k) = (if k = n then 1 else unat (mem_map s k) + refs_in ?ps k)" for k
  proof (cases "k < 31232")
    case True
    then have "unat (mem_map s k) + refs_in ?ps k < 65536" using sh by (simp add: shareable_def Let_def)
    then show ?thesis using c [of k] out n unat_add_u16 by (auto split: if_splits)
  next
    case False
    then show ?thesis using c [of k] out2 n by auto
  qed
  have "enough t ?ps" unfolding enough_def using cu out n by (auto split: if_splits)
  moreover have "set ?ps \<subseteq> pool_pages" using ps by (auto simp: in_use_def)
  ultimately obtain v where v: "kfor [0..<256] (\<lambda>i. free_one_table (pte_addr ?P i)) t = Inr ((), v)" "subs t v ?ps"
    using drop_tables [OF pool_page_al [OF P] pool_page_direct [OF P], of t] eq by auto
  have vu: "unat (mem_map v k) = (if k = n then 1 else unat (mem_map s k))" for k
  proof -
    have "unat (mem_map v k) + refs_in ?ps k = unat (mem_map t k)" using v(2) unfolding subs_def by blast
    then show ?thesis using cu [of k] out n by (auto split: if_splits)
  qed
  have "enough v [?P]" using vu n(1) by (auto simp: enough_def)
  then obtain u where u: "free_page ?P v = Inr ((), u)" "subs v u [?P]" using free_page_subs [OF P] by blast
  have "unat (mem_map u k) = unat (mem_map s k)" for k
  proof -
    have "unat (mem_map u k) + refs_in [?P] k = unat (mem_map v k)" using u(2) unfolding subs_def by blast
    then show ?thesis using vu [of k] n by (auto split: if_splits)
  qed
  then have "mem_map u = mem_map s" by (auto simp: fun_eq_iff word_unat_eq_iff)
  moreover have "?P \<noteq> swapper_pg_dir s"
  proof
    assume "?P = swapper_pg_dir s"
    then show False using sw P n(2) MAP_NR_page_addr [OF n(1)] by (simp add: in_use_def)
  qed
  then have "free_page_tables tsk t = Inr ((), u)"
    using tsk u(1) v(1) t' by (simp add: free_page_tables_def new_root_def kseq_def kbind_def kreturn_def)
  ultimately show ?thesis by blast
qed

subsection \<open>An example process\<close>

text \<open>A process at address 4096 whose root table is the pool page 5 and which has one user page,
  page 4, mapped at 0x80000000 through the tables 2 and 3.\<close>

definition one_page_mm :: mm where
  "one_page_mm = \<lparr>mem_map = \<lambda>n. if n < 6 then 1 else 0,
     pmem = (\<lambda>_. 0)(pte_addr (page_addr 5) 2 := VA2PTE (page_addr 2) OR PTE_V,
                     pte_addr (page_addr 2) 0 := VA2PTE (page_addr 3) OR PTE_V,
                     pte_addr (page_addr 3) 0 := VA2PTE (page_addr 4) OR PTE_V),
     satp = 0, current = 4096, task = \<lambda>_. 8192, task_pgd = \<lambda>_. page_addr 5,
     swapper_pg_dir = 0xFFFFFFC000010000\<rparr>"

lemma concat_single:
  "k < n \<Longrightarrow> (\<And>i. i \<noteq> k \<Longrightarrow> i < n \<Longrightarrow> f i = []) \<Longrightarrow> concat (map f [0..<n]) = f k"
proof (induction n)
  case (Suc n)
  show ?case
  proof (cases "k = n")
    case True
    then have "concat (map f [0..<n]) = []" using Suc.prems(2) by auto
    then show ?thesis using True by simp
  next
    case False
    then show ?thesis using Suc by simp
  qed
qed simp

lemma one_page_skel:
  assumes "k < 31232" "i < 512"
  shows "skel one_page_mm (pte_addr (page_addr k) i) =
    (if k = 3 \<and> i = 0 then Some (page_addr 4) else if k = 2 \<and> i = 0 then Some (page_addr 3)
     else if k = 5 \<and> i = 2 then Some (page_addr 2) else None)"
proof -
  have a: "al (page_addr n)" if "n < 31232" for n using that by (intro pool_page_al) (simp add: pool_pages_def)
  have e: "pte_addr (page_addr k) i = pte_addr (page_addr n) j \<longleftrightarrow> k = n \<and> i = j"
    if "n < 31232" "j < 512" for n j
    using pte_addr_eq_iff [OF a a assms(2), of k n j] that assms(1) page_addr_inj [of k n] by simp
  have m: "pmem one_page_mm (pte_addr (page_addr k) i) =
    (if k = 3 \<and> i = 0 then VA2PTE (page_addr 4) OR PTE_V else if k = 2 \<and> i = 0 then VA2PTE (page_addr 3) OR PTE_V
     else if k = 5 \<and> i = 2 then VA2PTE (page_addr 2) OR PTE_V else 0)"
    using e [of 3 0] e [of 2 0] e [of 5 2] by (simp only: one_page_mm_def mm.simps fun_upd_apply)
  show ?thesis
    using table_entry_pte [of 4] table_entry_pte [of 3] table_entry_pte [of 2]
    unfolding skel_def m by simp
qed

lemma one_page_user_pages: "user_pages (skel one_page_mm) (page_addr 5) = [page_addr 2, page_addr 3, page_addr 4]"
proof -
  have l1: "pre (Suc 0) (skel one_page_mm) (page_addr 3) = [page_addr 4]"
    unfolding pre_Suc by (subst concat_single [of 0]) (simp_all add: pre_at_def one_page_skel)
  have l0: "pre (Suc (Suc 0)) (skel one_page_mm) (page_addr 2) = [page_addr 3, page_addr 4]"
    unfolding pre_Suc [of "Suc 0"]
    by (subst concat_single [of 0]) (simp_all add: pre_at_def one_page_skel l1 del: pre.simps)
  show ?thesis
    unfolding user_pages_def
    by (subst concat_single [of 2]) (simp_all add: pre_at_def one_page_skel l0 [folded numeral_2_eq_2])
qed

lemma one_page_shareable: "shareable one_page_mm"
proof -
  let ?s = one_page_mm
  have r: "task_pgd ?s (current ?s) = page_addr 5" by (simp add: one_page_mm_def)
  have p: "page_addr k \<in> pool_pages" if "k < 31232" for k using that by (simp add: pool_pages_def)
  have u: "in_use ?s (page_addr k)" if "k < 6" for k
    using that p [of k] by (simp add: in_use_def one_page_mm_def)
  show ?thesis
    unfolding shareable_def r one_page_user_pages Let_def
    using u pool_page_al [OF p] pool_page_direct [OF p] by (auto simp: one_page_mm_def)
qed

lemma one_page_free: "0 < free_pages one_page_mm"
proof -
  have "6 \<in> {n. n < 31232 \<and> mem_map one_page_mm n = 0}" by (simp add: one_page_mm_def)
  then show ?thesis unfolding free_pages_def by (metis (no_types, lifting) card_gt_0_iff empty_iff
      finite_nat_set_iff_bounded mem_Collect_eq)
qed

subsection \<open>Properties\<close>

text \<open>C3: \<open>copy_page_tables\<close> for a process whose tables and user pages are pool pages in use succeeds
  if a page is free: the new process gets a root table with which every address is translated as
  with the parent's, and the count of every page rises by the number of entries that name it
  (the fresh root has count 1).\<close>

theorem copy_page_tables_shares:
  assumes "shareable s" "0 < free_pages s"
  shows "\<exists>n t. copy_page_tables tsk s = Inr (0, t) \<and> n < 31232 \<and> mem_map s n = 0
     \<and> task_pgd t tsk = page_addr n
     \<and> pt_lookup t (task_pgd t tsk) = pt_lookup t (task_pgd s (current s))
     \<and> mem_map t = (\<lambda>k. if k = n then 1
          else mem_map s k + of_nat (refs_in (user_pages (skel s) (task_pgd s (current s))) k))"
proof (rule copy_page_tables_ok [OF assms, of tsk])
  fix n t
  let ?root = "task_pgd s (current s)" and ?ps = "user_pages (skel s) (task_pgd s (current s))"
  assume n: "n < 31232" "mem_map s n = 0" "page_addr n \<noteq> ?root"
    and r: "copy_page_tables tsk s = Inr (0, t)" and t: "adds (new_root s tsk n) t ?ps"
    and sk: "\<And>i. i < 512 \<Longrightarrow> skel (new_root s tsk n) (pte_addr (page_addr n) i) = skel s (pte_addr ?root i)"
      "\<And>U i. al U \<Longrightarrow> U \<noteq> page_addr n \<Longrightarrow> i < 512 \<Longrightarrow> skel (new_root s tsk n) (pte_addr U i) = skel s (pte_addr U i)"
  have sh: "al ?root" "\<And>p. p \<in> set ?ps \<Longrightarrow> in_use s p" using assms(1) by (auto simp: shareable_def Let_def)
  have pgd: "task_pgd t tsk = page_addr n" using t by (auto simp: adds_def new_root_def)
  have "pt_lookup t (page_addr n) = pt_lookup t ?root"
    by (rule pt_lookup_root_cong) (use t sk sh(1) n(3) in \<open>auto simp: adds_def\<close>)
  moreover have "refs_in ?ps n = 0"
    using sh(2) n(1,2) by (intro refs_in_zero) (auto simp: in_use_def)
  then have "mem_map t = (\<lambda>k. if k = n then 1 else mem_map s k + of_nat (refs_in ?ps k))"
    using t by (auto simp: adds_def new_root_def fun_eq_iff)
  ultimately show ?thesis using n r pgd by auto
qed

theorem copy_page_tables_shares_witness:
  "\<exists>n t. copy_page_tables 12288 one_page_mm = Inr (0, t) \<and> n < 31232 \<and> mem_map one_page_mm n = 0
     \<and> task_pgd t 12288 = page_addr n
     \<and> pt_lookup t (task_pgd t 12288) = pt_lookup t (task_pgd one_page_mm (current one_page_mm))
     \<and> mem_map t = (\<lambda>k. if k = n then 1 else mem_map one_page_mm k
          + of_nat (refs_in (user_pages (skel one_page_mm) (task_pgd one_page_mm (current one_page_mm))) k))"
  by (rule copy_page_tables_shares [OF one_page_shareable one_page_free])

text \<open>C2: freeing the tables of a new process undoes \<open>copy_page_tables\<close>: after
  \<open>free_page_tables\<close> every reference count has the value it had before the fork.\<close>

theorem fork_then_free_restores:
  assumes "shareable s" "0 < free_pages s" "tsk \<noteq> 0" "tsk \<noteq> task s 0" "tsk \<noteq> current s"
    "swapper_pg_dir s \<in> pool_pages \<longrightarrow> in_use s (swapper_pg_dir s)"
  shows "\<exists>t u. copy_page_tables tsk s = Inr (0, t) \<and> free_page_tables tsk t = Inr ((), u)
     \<and> mem_map u = mem_map s"
proof (rule copy_page_tables_ok [OF assms(1,2), of tsk])
  fix n t
  assume a: "n < 31232" "mem_map s n = 0" "page_addr n \<noteq> task_pgd s (current s)"
    "copy_page_tables tsk s = Inr (0, t)"
    "adds (new_root s tsk n) t (user_pages (skel s) (task_pgd s (current s)))"
    "\<And>i. i < 512 \<Longrightarrow> skel (new_root s tsk n) (pte_addr (page_addr n) i) = skel s (pte_addr (task_pgd s (current s)) i)"
    "\<And>U i. al U \<Longrightarrow> U \<noteq> page_addr n \<Longrightarrow> i < 512 \<Longrightarrow> skel (new_root s tsk n) (pte_addr U i) = skel s (pte_addr U i)"
  then show ?thesis using free_new_root [OF assms(1) a(1-3,5) assms(3-6) a(6,7)] by auto
qed

theorem fork_then_free_restores_witness:
  "\<exists>t u. copy_page_tables 12288 one_page_mm = Inr (0, t) \<and> free_page_tables 12288 t = Inr ((), u)
     \<and> mem_map u = mem_map one_page_mm"
proof -
  have "page_addr i \<noteq> 0xFFFFFFC000010000" if "i < 31232" for i
    using page_addr_range(1) [OF that] by (auto simp: low_va)
  then have "swapper_pg_dir one_page_mm \<notin> pool_pages"
    by (auto simp: one_page_mm_def pool_pages_def)
  then show ?thesis
    by (intro fork_then_free_restores [OF one_page_shareable one_page_free])
      (simp_all add: one_page_mm_def)
qed

end
