(* ===== verification/Mm_Fault.thy ===== *)
theory Mm_Fault
  imports Mm_Share
begin

text \<open>
  The boot tables of \<open>setup_vm\<close>, the failure path of \<open>map_page\<close>, what \<open>clear_page_tables\<close> leaves
  behind, and the page fault handlers \<open>do_page_fault\<close>, \<open>do_wp_page\<close> and \<open>write_verify\<close> of
  \<open>mm/memory.c\<close>.
\<close>

subsection \<open>Walking the tables in the fault handlers\<close>

text \<open>The addresses of the three entries for \<open>va\<close>.\<close>

definition e2_addr :: "'a mm_scheme \<Rightarrow> u64 \<Rightarrow> u64 \<Rightarrow> u64" where
  "e2_addr s root va = pte_addr root (unat (PX 2 va))"

definition e1_addr :: "'a mm_scheme \<Rightarrow> u64 \<Rightarrow> u64 \<Rightarrow> u64" where
  "e1_addr s root va = pte_addr (PTE2VA (pmem s (e2_addr s root va))) (unat (PX 1 va))"

definition e0_addr :: "'a mm_scheme \<Rightarrow> u64 \<Rightarrow> u64 \<Rightarrow> u64" where
  "e0_addr s root va = pte_addr (PTE2VA (pmem s (e1_addr s root va))) (unat (PX 0 va))"

lemma get_pte_eval:
  "get_pte root va s =
     (if \<not> direct (e2_addr s root va) then Inl (BadAccess (e2_addr s root va), s)
      else if \<not> direct (e1_addr s root va) then Inl (BadAccess (e1_addr s root va), s)
      else Inr (e0_addr s root va, s))"
  by (simp add: get_pte_def kbind_def kload_def e2_addr_def e1_addr_def e0_addr_def PTE_V_def kreturn_def)

lemma direct_nonzero: "direct a \<Longrightarrow> a \<noteq> 0"
  by (auto simp: direct_def VA_KERNEL_def)

lemma user_not_direct: "a < TASK_SIZE \<Longrightarrow> \<not> direct a"
  by (simp add: direct_def VA_KERNEL_def TASK_SIZE_def word_less_nat_alt word_le_nat_alt)

lemma wp_copy_never:
  assumes "\<not> direct address"
  shows "wp_copy address te old s \<noteq> Inr r"
proof
  assume "wp_copy address te old s = Inr r"
  then obtain p t where "kseq (dec_count (MAP_NR old)) (kseq (set_writable te) (memcpy_page p address)) t = Inr r"
    by (auto simp: wp_copy_def kbind_def kstop_def split: sum.splits if_splits)
  then show False using assms by (auto simp: kres_iff memcpy_page_def split: if_splits)
qed

lemma do_wp_page_user:
  assumes "\<not> direct address"
  shows "do_wp_page address te s = Inr ((), t) \<longleftrightarrow>
     direct te \<and> P2V LOW_MEM \<le> PTE2VA (pmem s te) \<and> MAP_NR (PTE2VA (pmem s te)) < PAGING_PAGES \<and>
     mem_map s (MAP_NR (PTE2VA (pmem s te))) = 1 \<and> t = s\<lparr>pmem := (pmem s)(te := pmem s te OR PTE_W)\<rparr>"
  using wp_copy_never [OF assms]
  by (auto simp: do_wp_page_def kbind_def kload_def get_count_def set_writable_def kstore_def Let_def)

lemma wv_condition: "e OR PTE_W OR PTE_V \<noteq> PTE_V"
proof
  assume "e OR PTE_W OR PTE_V = PTE_V"
  then have "bit (e OR PTE_W OR PTE_V) 2 = bit PTE_V 2" by simp
  then show False by (simp add: bit_or_iff PTE_W_def PTE_V_def)
qed

text \<open>The walk for address 0x80000000 in the example process.\<close>

lemma one_page_root: "task_pgd one_page_mm (current one_page_mm) = page_addr 5"
  by (simp add: one_page_mm_def)

lemma one_page_direct: "k < 31232 \<Longrightarrow> i < 512 \<Longrightarrow> direct (pte_addr (page_addr k) i)"
  by (intro direct_pte_addr pool_page_al pool_page_direct) (simp_all add: pool_pages_def)

lemma one_page_walk:
  "e2_addr one_page_mm (page_addr 5) 0x80000000 = pte_addr (page_addr 5) 2"
  "e1_addr one_page_mm (page_addr 5) 0x80000000 = pte_addr (page_addr 2) 0"
  "e0_addr one_page_mm (page_addr 5) 0x80000000 = pte_addr (page_addr 3) 0"
  "PTE2VA (pmem one_page_mm (pte_addr (page_addr 3) 0)) = page_addr 4"
proof -
  have px: "PX 2 0x80000000 = 2" "PX (Suc 0) 0x80000000 = 0" "PX 0 0x80000000 = 0"
    by (simp_all add: PX_def drop_bit_eq_div)
  have p: "PTE2VA (pmem one_page_mm (pte_addr (page_addr 5) 2)) = page_addr 2"
    "PTE2VA (pmem one_page_mm (pte_addr (page_addr 2) 0)) = page_addr 3"
    "PTE2VA (pmem one_page_mm (pte_addr (page_addr 3) 0)) = page_addr 4"
    using one_page_skel [of 5 2] one_page_skel [of 2 0] one_page_skel [of 3 0]
    by (simp_all add: skel_def split: if_splits)
  show e2: "e2_addr one_page_mm (page_addr 5) 0x80000000 = pte_addr (page_addr 5) 2"
    by (simp add: e2_addr_def px)
  show e1: "e1_addr one_page_mm (page_addr 5) 0x80000000 = pte_addr (page_addr 2) 0"
    by (simp add: e1_addr_def e2 px p)
  show "e0_addr one_page_mm (page_addr 5) 0x80000000 = pte_addr (page_addr 3) 0"
    by (simp add: e0_addr_def e1 px p)
  show "PTE2VA (pmem one_page_mm (pte_addr (page_addr 3) 0)) = page_addr 4" by (rule p(3))
qed

lemma one_page_get_pte:
  "get_pte (page_addr 5) 0x80000000 one_page_mm = Inr (pte_addr (page_addr 3) 0, one_page_mm)"
  using one_page_direct [of 5 2] one_page_direct [of 2 0] by (simp add: get_pte_eval one_page_walk)

subsection \<open>Loops that keep memory\<close>

lemma free_page_pmem: "free_page a s = Inr ((), t) \<Longrightarrow> pmem t = pmem s"
  by (auto simp: free_page_def kbind_def kseq_def get_count_def set_count_def kreturn_def panic_def
      split: if_splits)

lemma kfor_pmem:
  assumes "\<And>i a b. body i a = Inr ((), b) \<Longrightarrow> pmem b = pmem a" "kfor is body s = Inr ((), t)"
  shows "pmem t = pmem s"
proof -
  have "(\<lambda>u. pmem u = pmem s) t"
    by (rule kfor_invariant [OF assms(2)]) (use assms(1) in auto)
  then show ?thesis .
qed

lemma free_leaf_pmem: "free_leaf a s = Inr ((), t) \<Longrightarrow> pmem t = pmem s"
  by (auto simp: free_leaf_def kbind_def kload_def kreturn_def free_page_pmem split: if_splits)

lemma free_mid_pmem: "free_mid a s = Inr ((), t) \<Longrightarrow> pmem t = pmem s"
  by (auto simp: free_mid_def kbind_def kseq_def kload_def kreturn_def
      dest!: free_page_pmem kfor_pmem [rotated] intro: free_leaf_pmem split: if_splits sum.splits)

lemma free_one_table_pmem: "free_one_table a s = Inr ((), t) \<Longrightarrow> pmem t = pmem s"
  by (auto simp: free_one_table_levels kbind_def kseq_def kload_def kreturn_def
      dest!: free_page_pmem kfor_pmem [rotated] intro: free_mid_pmem split: if_splits sum.splits)

subsection \<open>The boot tables\<close>

definition boot_pa :: "nat \<Rightarrow> u64" where
  "boot_pa i = 0x80200000 + of_nat i * 0x200000"

lemma unat_boot_pa: "i \<le> 512 \<Longrightarrow> unat (boot_pa i) = 0x80200000 + i * 0x200000"
proof -
  assume "i \<le> 512"
  then have "unat (of_nat i * 0x200000 :: u64) = i * 0x200000"
    by (simp add: unat_word_ariths unat_of_nat take_bit_nat_eq_self)
  then show ?thesis using \<open>i \<le> 512\<close> by (simp add: boot_pa_def unat_word_ariths)
qed

lemma boot_pa_less: "i \<le> 512 \<Longrightarrow> boot_pa i < 0x88000000 \<longleftrightarrow> i < 63"
  by (simp add: word_less_nat_alt unat_boot_pa)

lemma setup_loop_table:
  "k \<le> 63 \<Longrightarrow> setup_loop [k..<512] (boot_pa k) 0x88000000 perm tbl =
     (\<lambda>i. if k \<le> i \<and> i < 63 then PA2PTE (boot_pa i) OR perm else tbl i)"
proof (induction "63 - k" arbitrary: k tbl)
  case 0
  then show ?case using boot_pa_less [of 63] by (auto simp: upt_conv_Cons [of 63 512] fun_eq_iff)
next
  case (Suc d)
  then have k: "k < 63" by simp
  have "boot_pa k + 0x200000 = boot_pa (Suc k)" by (simp add: boot_pa_def algebra_simps)
  moreover have "setup_loop [Suc k..<512] (boot_pa (Suc k)) 0x88000000 perm (tbl(k := PA2PTE (boot_pa k) OR perm))
      = (\<lambda>i. if Suc k \<le> i \<and> i < 63 then PA2PTE (boot_pa i) OR perm else (tbl(k := PA2PTE (boot_pa k) OR perm)) i)"
    using Suc k by (intro Suc.hyps(1)) simp_all
  ultimately show ?case
    using k boot_pa_less [of k] by (auto simp: upt_conv_Cons [of k 512] fun_eq_iff)
qed

lemma setup_vm_eval:
  "setup_vm l2 dtb s = s\<lparr>dtb_va := P2V dtb, trampoline_pg_dir := (trampoline_pg_dir s)(256 := PA2PTE l2 OR PTE_V),
     trampoline_pg_l2pte := (\<lambda>i. if i < 63 then PA2PTE (boot_pa i) OR 0xF else trampoline_pg_l2pte s i)\<rparr>"
proof -
  have "PX 2 VA_KERNEL = 256" "PX 1 VA_KERNEL = 0"
    by (simp_all add: PX_def VA_KERNEL_def drop_bit_eq_div)
  moreover have "(RAM_START + RAM_SIZE + 0x200000 - 1) AND NOT (0x200000 - 1) = 0x88000000"
    by (simp add: RAM_START_def RAM_SIZE_def)
  moreover have "PA_KERNEL = boot_pa 0" by (simp add: boot_pa_def PA_KERNEL_def RAM_START_def SBI_SIZE_def)
  moreover have "PTE_X OR PTE_W OR PTE_R OR PTE_V = 0xF"
    by (simp add: PTE_X_def PTE_W_def PTE_R_def PTE_V_def)
  ultimately show ?thesis
    using setup_loop_table [of 0] by (simp add: setup_vm_def Let_def)
qed

lemma kernel_va_indices:
  assumes "off < 0x7E00000"
  shows "unat (PX 2 (VA_KERNEL + off)) = 256" "unat (PX 1 (VA_KERNEL + off)) = unat off div 0x200000"
    "unat off div 0x200000 < 63"
proof -
  have o: "unat off < 0x7E00000" using assms by (simp add: word_less_nat_alt)
  then have u: "unat (VA_KERNEL + off) = 0xFFFFFFC000000000 + unat off"
    by (simp add: VA_KERNEL_def unat_word_ariths)
  have "(0xFFFFFFC000000000 + unat off) div 0x40000000 = 0x3FFFFFF00"
    by (rule div_nat_eqI) (use o in simp_all)
  then show "unat (PX 2 (VA_KERNEL + off)) = 256" unfolding unat_PX u by simp
  show "unat off div 0x200000 < 63" using o by (simp add: less_mult_imp_div_less)
  moreover have "(unat off + 0x200000 * 0x7FFFFFE0000) div 0x200000 = 0x7FFFFFE0000 + unat off div 0x200000"
    by (rule div_mult_self2) simp
  moreover have "(unat off div 0x200000 + 512 * 0x3FFFFFF00) mod 512 = unat off div 0x200000 mod 512"
    by (rule mod_mult_self2)
  ultimately show "unat (PX 1 (VA_KERNEL + off)) = unat off div 0x200000"
    unfolding unat_PX u by (simp add: add.commute)
qed

subsection \<open>Properties\<close>

text \<open>C7: with the boot tables of \<open>setup_vm\<close> every kernel address of the first 126 MiB from
  \<open>VA_KERNEL\<close> is translated, by a 2 MiB entry with all permissions, to the same offset from
  \<open>PA_KERNEL\<close>; the entries after the last one that is needed are left alone.\<close>

theorem setup_vm_maps_kernel:
  assumes "off < 0x7E00000" "t = setup_vm l2 dtb s"
  shows "trampoline_pg_dir t (unat (PX 2 (VA_KERNEL + off))) = PA2PTE l2 OR PTE_V
    \<and> trampoline_pg_l2pte t (unat (PX 1 (VA_KERNEL + off))) AND 0xF = 0xF
    \<and> PTE2PA (trampoline_pg_l2pte t (unat (PX 1 (VA_KERNEL + off)))) + off mod 0x200000 = PA_KERNEL + off
    \<and> (\<forall>i \<ge> 63. trampoline_pg_l2pte t i = trampoline_pg_l2pte s i)"
proof -
  let ?i = "unat off div 0x200000"
  note k = kernel_va_indices [OF assms(1)]
  have e: "trampoline_pg_l2pte t (unat (PX 1 (VA_KERNEL + off))) = PA2PTE (boot_pa ?i) OR 0xF"
    using k by (simp add: assms(2) setup_vm_eval)
  have u: "unat (boot_pa ?i) = 0x80200000 + ?i * 0x200000" using k(3) by (intro unat_boot_pa) simp
  moreover have "4096 dvd 0x80200000 + ?i * 0x200000" by (intro dvd_add dvd_mult) simp_all
  ultimately have "unat (boot_pa ?i) mod 4096 = 0" by simp
  then have p: "PTE2PA (PA2PTE (boot_pa ?i) OR 0xF) = boot_pa ?i" by (intro PTE2PA_PA2PTE) simp_all
  have "unat (boot_pa ?i + off mod 0x200000) = unat (PA_KERNEL + off)"
  proof -
    have o: "unat off < 0x7E00000" using assms(1) by (simp add: word_less_nat_alt)
    have "unat (off mod 0x200000) = unat off mod 0x200000" by (simp add: unat_mod)
    moreover have "?i * 0x200000 + unat off mod 0x200000 = unat off" by simp
    ultimately have "unat (boot_pa ?i) + unat (off mod 0x200000) = 0x80200000 + unat off" using u by linarith
    then show ?thesis
      using o by (simp add: unat_word_ariths PA_KERNEL_def RAM_START_def SBI_SIZE_def)
  qed
  then have "boot_pa ?i + off mod 0x200000 = PA_KERNEL + off" by (simp add: word_unat_eq_iff)
  moreover have "(PA2PTE (boot_pa ?i) OR 0xF) AND 0xF = 0xF"
    by (rule bit_word_eqI) (auto simp only: bit_and_iff bit_or_iff)
  ultimately show ?thesis
    unfolding e p using k(1) by (simp add: assms(2) setup_vm_eval)
qed

theorem setup_vm_maps_kernel_witness:
  "PTE2PA (trampoline_pg_l2pte (setup_vm 0x80301000 0x87000000 \<lparr>dtb_va = 0, trampoline_pg_dir = \<lambda>_. 0,
       trampoline_pg_l2pte = \<lambda>_. 0\<rparr>) (unat (PX 1 (VA_KERNEL + 0x123456)))) + 0x123456 mod 0x200000
     = PA_KERNEL + 0x123456"
  using setup_vm_maps_kernel [of "0x123456" _ "0x80301000" "0x87000000" "\<lparr>dtb_va = 0,
      trampoline_pg_dir = \<lambda>_. 0, trampoline_pg_l2pte = \<lambda>_. 0\<rparr>", OF _ refl] by simp

text \<open>when \<open>map_page\<close> has added the level-1 table and no page is left for the level-0 table,
  its rollback reads through the record of level 0, which is still NULL: the routine faults
  instead of returning -1.\<close>

theorem map_page_rollback_faults:
  assumes "wf_tables s root" "free_pages s = 1" "\<not> pte_valid (ent_of s root (unat (PX 2 va)))"
  shows "\<exists>t. map_page root va pa perm 2 0 s = Inl (BadAccess (8 * of_nat (unat (PX 1 va))), t)"
proof -
  have n0: "node (ent_of s) root [] = Some root" by simp
  obtain n where n: "n < 31232" "mem_map s n = 0"
    and d: "map_descend va 2 0 2 (\<lambda>_. 0) root s = map_descend va 2 0 1 ((\<lambda>_. 0)(1 := page_addr n)) (page_addr n)
      (new_table s n (pte_addr root (unat (PX 2 va))))"
    using assms(1) n0
    by (rule descend_level [where level = 2 and leaf = 0 and va = va and tp = 2 and rec = "\<lambda>_. 0"])
      (use assms free_pages_pos [of s] in auto)
  let ?t = "new_table s n (pte_addr root (unat (PX 2 va)))"
  have "length ([] :: nat list) \<le> 1" by simp
  note st = new_table_step [OF assms(1) n0 this PX_bound assms(3) n]
  have f: "\<forall>k < 31232. mem_map ?t k \<noteq> 0"
  proof -
    have "free_pages ?t = 0" using free_pages_new_table [OF n] assms(2) by simp
    then show ?thesis by (auto simp: free_pages_def)
  qed
  have z: "ent_of ?t (page_addr n) (unat (PX 1 va)) = 0"
  proof -
    have "al root" "al (page_addr n)" using assms(1) pool_page_al n(1)
      by (auto simp: wf_tables_def pool_pages_def)
    moreover have "page_addr n \<noteq> root" using assms(1) n by (auto simp: wf_tables_def in_use_def pool_pages_def)
    ultimately show ?thesis 
      using ent_of_new_table [of root "unat (PX 2 va)" n "page_addr n" "unat (PX 1 va)" s] PX_bound n(1)
      by simp
  qed
  have "map_descend va 2 0 1 ((\<lambda>_. 0)(1 := page_addr n)) (page_addr n) ?t
      = kseq (map_rollback va ((\<lambda>_. 0)(1 := page_addr n)) 1 2) (kreturn None) ?t"
    using st(1,2)
    by (rule descend_level [where level = 1 and leaf = 0 and va = va and tp = 2
          and rec = "(\<lambda>_. 0)(1 := page_addr n)" and path = "[unat (PX 2 va)]"])
      (use z f in auto)
  also have "\<dots> = Inl (BadAccess (8 * of_nat (unat (PX 1 va))), ?t)"
  proof -
    have "[1..<2] = [1 :: nat]" by (simp add: upt_rec)
    moreover have "\<not> direct (pte_addr 0 (unat (PX 1 va)))"
      using al_unat_add [of 0 "unat (PX 1 va)"] PX_bound [of 1 va]
      by (simp add: direct_def VA_KERNEL_def word_le_nat_alt al_def)
    ultimately show ?thesis
      using n(1) by (simp add: map_rollback_def kseq_def kbind_def kload_def pte_addr_def)
  qed
  finally show ?thesis using d by (auto simp: map_page_def kbind_def)
qed

text \<open>An address space with one free page left.\<close>

definition last_page_mm :: mm where
  "last_page_mm = blank_mm\<lparr>mem_map := \<lambda>n. if n = 7 then 0 else 1\<rparr>"

lemma last_page_wf: "wf_tables last_page_mm 0xFFFFFFC000010000" "free_pages last_page_mm = 1"
proof -
  have "ent_of last_page_mm = ent_of blank_mm" by (simp add: ent_of_def last_page_mm_def fun_eq_iff)
  moreover have "(0xFFFFFFC000010000 :: u64) \<notin> pool_pages"
    using blank_wf unfolding wf_tables_def in_use_def blank_mm_def by simp
  moreover have "wf_tree (ent_of blank_mm) (in_use last_page_mm) 0xFFFFFFC000010000"
    unfolding wf_tree_def blank_node by simp
  ultimately show "wf_tables last_page_mm 0xFFFFFFC000010000"
    using blank_wf unfolding wf_tables_def by simp
  have "{n. n < 31232 \<and> mem_map last_page_mm n = 0} = {7}" by (auto simp: last_page_mm_def)
  then show "free_pages last_page_mm = 1" by (simp add: free_pages_def)
qed

theorem map_page_rollback_faults_witness:
  "\<exists>t. map_page 0xFFFFFFC000010000 0x400000 0x80200000 0x1F 2 0 last_page_mm
     = Inl (BadAccess (8 * of_nat (unat (PX 1 0x400000))), t)"
  by (rule map_page_rollback_faults [OF last_page_wf]) (simp add: ent_of_def last_page_mm_def blank_mm_def)

text \<open>\<open>clear_page_tables\<close> returns a process' pages to the pool but changes no word of memory: the
  entries of the root table still name the tables and pages it has released.\<close>

theorem clear_page_tables_keeps_entries:
  assumes "clear_page_tables tsk s = Inr ((), t)"
  shows "pmem t = pmem s \<and> pt_lookup t root = pt_lookup s root"
proof -
  have "pmem t = pmem s"
    using assms by (auto simp: clear_page_tables_def panic_def intro: free_one_table_pmem
        dest!: kfor_pmem [rotated] split: if_splits)
  moreover from this have "ent_of t = ent_of s" by (intro ext) (simp add: ent_of_def)
  ultimately show ?thesis unfolding pt_lookup_def by (simp only: simp_thms)
qed

theorem clear_page_tables_keeps_entries_witness:
  "\<exists>t. clear_page_tables 4096 one_page_mm = Inr ((), t)
     \<and> pmem t = pmem one_page_mm \<and> pt_lookup t (page_addr 5) = pt_lookup one_page_mm (page_addr 5)"
proof -
  let ?s = one_page_mm
  have P: "page_addr k \<in> pool_pages" if "k < 31232" for k using that by (simp add: pool_pages_def)
  have "set (user_pages (skel ?s) (page_addr 5)) \<subseteq> pool_pages" unfolding one_page_user_pages using P by simp
  moreover have "enough ?s (user_pages (skel ?s) (page_addr 5))"
    unfolding one_page_user_pages by (auto simp: enough_def one_page_mm_def)
  ultimately obtain t where "kfor [0..<256] (\<lambda>i. free_one_table (pte_addr (page_addr 5) i)) ?s = Inr ((), t)"
    using drop_tables [OF pool_page_al [OF P] pool_page_direct [OF P], of 5 ?s] by auto
  moreover have "page_addr 5 \<noteq> 0xFFFFFFC000010000"
    using page_addr_range(1) [of 5] by (auto simp: low_va)
  ultimately have "clear_page_tables 4096 ?s = Inr ((), t)"
    by (simp add: clear_page_tables_def) (simp add: one_page_mm_def)
  then show ?thesis using clear_page_tables_keeps_entries by blast
qed

text \<open>The addresses of the entries are direct and the page has one reference: what \<open>do_page_fault\<close> needs to return.\<close>

lemma do_page_fault_eval:
  fixes s :: "'a mm_scheme"
  assumes "root = task_pgd s (current s)" and "e0_addr s root (bad AND NOT 0xFFF) \<noteq> 0"
  shows "do_page_fault bad s = Inr ((), t) \<longleftrightarrow>
    (let a = bad AND NOT 0xFFF; te = e0_addr s root a; page = PTE2VA (pmem s te) in
     4096 \<le> sint a \<and> a < TASK_SIZE \<and> direct (e2_addr s root a) \<and> direct (e1_addr s root a) \<and> direct te \<and>
     P2V LOW_MEM \<le> page \<and> MAP_NR page < PAGING_PAGES \<and> mem_map s (MAP_NR page) = 1 \<and>
     t = s\<lparr>pmem := (pmem s)(te := pmem s te OR PTE_W)\<rparr>)"
proof -
  define a where "a = bad AND NOT 0xFFF"
  have v: "e OR PTE_V \<noteq> 0" for e by (simp add: PTE_V_def or_eq_0_iff)
  have f: "do_page_fault bad s = (if sint a < 4096 \<or> TASK_SIZE \<le> a then Inl (DoExit SIGSEGV, s)
      else kbind (get_pte root a) (\<lambda>te. if te \<noteq> 0 then kbind (kload te) (\<lambda>e. do_wp_page a te)
        else do_no_page a te) s)"
    unfolding do_page_fault_def Let_def assms(1) [symmetric] a_def [symmetric] by (simp add: v cong: if_cong)
  show ?thesis
  proof (cases "4096 \<le> sint a \<and> a < TASK_SIZE")
    case True
    then have nd: "\<not> direct a" using user_not_direct by blast
    from True have "\<not> (sint a < 4096 \<or> TASK_SIZE \<le> a)" by auto
    then show ?thesis
      unfolding f Let_def a_def [symmetric] using True do_wp_page_user [OF nd]
        assms(2) [folded a_def]
      by (auto simp: kbind_def get_pte_eval kload_def)
  next
    case False
    then show ?thesis unfolding f Let_def a_def [symmetric] by auto
  qed
qed

text \<open>Clearing the valid bit of a table entry does not change where the walk goes, which ignores it.\<close>

definition invalidate :: "u64 \<Rightarrow> 'a mm_scheme \<Rightarrow> 'a mm_scheme" where
  "invalidate te s = s\<lparr>pmem := (pmem s)(te := pmem s te AND NOT PTE_V)\<rparr>"

lemma PTE2VA_invalid: "PTE2VA (e AND NOT PTE_V) = PTE2VA e"
proof -
  have "\<not> bit PTE_V (10 + n)" for n by (simp add: PTE_V_def bit_1_iff)
  then have "drop_bit 10 (e AND NOT PTE_V) = drop_bit 10 e"
    by (intro bit_word_eqI) (auto simp: bit_drop_bit_eq bit_and_iff bit_not_iff dest: bit_imp_le_length)
  then show ?thesis by (simp add: PTE2VA_def PTE2PA_def)
qed

lemma invalidate_walk:
  "PTE2VA (pmem (invalidate te s) a) = PTE2VA (pmem s a)" "mem_map (invalidate te s) = mem_map s"
  "task_pgd (invalidate te s) = task_pgd s" "current (invalidate te s) = current s"
  by (simp_all add: invalidate_def PTE2VA_invalid)

text \<open>C6: the only page faults \<open>do_page_fault\<close> returns from are those on a user page for which the walk through
  the tables stays in RAM at all three levels and whose page frame has exactly one reference; it then sets the write permission
  in the entry and changes nothing else.  The valid bits play no part in this: the routine returns in the same
  cases if the entry is not valid, so that the page is not supplied, and the fault recurs.  A page that is shared is never
  copied: such faults end in \<open>do_exit\<close> or in another fault.  (The entry must not lie at address 0, which it does only if a
  table entry names the physical page at 0x4080200000, where there is no memory.)\<close>

theorem do_page_fault_returns_iff:
  fixes s :: "'a mm_scheme"
  assumes "root = task_pgd s (current s)" and "e0_addr s root (bad AND NOT 0xFFF) \<noteq> 0"
  shows "(do_page_fault bad s = Inr ((), t) \<longleftrightarrow>
    (let a = bad AND NOT 0xFFF; te = e0_addr s root a; page = PTE2VA (pmem s te) in
     4096 \<le> sint a \<and> a < TASK_SIZE \<and> direct (e2_addr s root a) \<and> direct (e1_addr s root a) \<and> direct te \<and>
     P2V LOW_MEM \<le> page \<and> MAP_NR page < PAGING_PAGES \<and> mem_map s (MAP_NR page) = 1 \<and>
     t = s\<lparr>pmem := (pmem s)(te := pmem s te OR PTE_W)\<rparr>))
    \<and> ((\<exists>t. do_page_fault bad (invalidate (e0_addr s root (bad AND NOT 0xFFF)) s) = Inr ((), t))
       \<longleftrightarrow> (\<exists>t. do_page_fault bad s = Inr ((), t)))"
proof -
  let ?i = "invalidate (e0_addr s root (bad AND NOT 0xFFF)) s"
  have w: "e2_addr ?i root a = e2_addr s root a" "e1_addr ?i root a = e1_addr s root a" "e0_addr ?i root a = e0_addr s root a" for a
    by (simp_all add: e2_addr_def e1_addr_def e0_addr_def invalidate_walk)
  have "root = task_pgd ?i (current ?i)" "e0_addr ?i root (bad AND NOT 0xFFF) \<noteq> 0"
    using assms unfolding w invalidate_walk by auto
  note i = do_page_fault_eval [OF this]
  show ?thesis unfolding i do_page_fault_eval [OF assms] Let_def w invalidate_walk by blast
qed

theorem do_page_fault_returns_iff_witness:
  "do_page_fault 0x80000008 one_page_mm = Inr ((), one_page_mm\<lparr>pmem :=
     (pmem one_page_mm)(pte_addr (page_addr 3) 0 := pmem one_page_mm (pte_addr (page_addr 3) 0) OR PTE_W)\<rparr>)
   \<and> (\<exists>t. do_page_fault 0x80000008 (invalidate (pte_addr (page_addr 3) 0) one_page_mm) = Inr ((), t))"
proof -
  have a: "0x80000008 AND NOT 0xFFF = (0x80000000 :: u64)" by simp
  have d: "direct (pte_addr (page_addr 5) 2)" "direct (pte_addr (page_addr 2) 0)" "direct (pte_addr (page_addr 3) 0)"
    by (simp_all add: one_page_direct)
  have c: "mem_map one_page_mm 4 = 1" by (simp add: one_page_mm_def)
  have "e0_addr one_page_mm (page_addr 5) (0x80000008 AND NOT 0xFFF) \<noteq> 0"
    using direct_nonzero [OF d(3)] unfolding a one_page_walk .
  note f = do_page_fault_returns_iff [OF one_page_root [symmetric] this, unfolded a one_page_walk Let_def]
  then have "do_page_fault 0x80000008 one_page_mm = Inr ((), one_page_mm\<lparr>pmem :=
     (pmem one_page_mm)(pte_addr (page_addr 3) 0 := pmem one_page_mm (pte_addr (page_addr 3) 0) OR PTE_W)\<rparr>)"
    using d c page_addr_range(1) [of 4] by (simp add: TASK_SIZE_def)
  then show ?thesis using f by blast
qed

text \<open>\<open>write_verify\<close> never makes a page writable: for a user address it returns without
  changing anything, whatever the entry says.\<close>

theorem write_verify_no_effect:
  assumes "write_verify a s = Inr ((), t)"
  shows "t = s"
  using assms wv_condition unfolding write_verify_def Let_def
  by (auto simp: kbind_def get_pte_eval kload_def kreturn_def split: if_splits)

theorem write_verify_no_effect_witness:
  "write_verify 0x80000000 one_page_mm = Inr ((), one_page_mm)"
proof -
  have "direct (pte_addr (page_addr 3) 0)" by (simp add: one_page_direct)
  then have "\<exists>t. write_verify 0x80000000 one_page_mm = Inr ((), t)"
    using one_page_get_pte wv_condition
    by (simp add: write_verify_def kbind_def kload_ok TASK_SIZE_def kreturn_def one_page_root)
  then show ?thesis using write_verify_no_effect by blast
qed

end
