(* ===== verification/Sched.thy ===== *)
theory Sched
  imports Mm
begin

text \<open>
  Model of \<open>kernel/sched.c\<close>, \<open>kernel/signal.c\<close> and the process-table parts of \<open>kernel/exit.c\<close> and
  \<open>kernel/fork.c\<close>: the scheduler, the wait queues, the clock tick, sending and delivering
  signals, releasing a task and choosing a process number.

  The state extends that of memory management by the heap of task structures (the field \<open>pgd\<close> is
  \<open>task_pgd\<close> of \<open>Mm\<close>).  The entries of \<open>task[]\<close> are NULL or point to task structures.  The
  fields of type \<open>long\<close> that only count are integers.
\<close>

subsection \<open>State\<close>

record task_struct =
  t_state :: int
  t_stack :: u64
  t_counter :: int
  t_priority :: int
  t_signal :: u64
  t_sig_fn :: "nat \<Rightarrow> u64"
  t_exit_code :: int
  t_pid :: int
  t_father :: int
  t_pgrp :: int
  t_session :: int
  t_leader :: int
  t_uid :: u16
  t_euid :: u16
  t_gid :: u16
  t_egid :: u16
  t_alarm :: int
  t_utime :: int
  t_stime :: int
  t_cutime :: int
  t_cstime :: int
  t_start_time :: int
  t_tty :: int
  t_umask :: u16
  t_pwd :: u64
  t_root :: u64
  t_close_on_exec :: u64
  t_filp :: "nat \<Rightarrow> u64"

record sched = mm +
  tasks :: "u64 \<Rightarrow> task_struct"   \<comment> \<open>the task structure at an address\<close>
  jiffies :: int
  last_pid :: int
  last_task_used_math :: u64
  waitq :: "u64 \<Rightarrow> u64"           \<comment> \<open>the pointer variable at an address: head of a wait queue\<close>

definition NR_TASKS :: nat where "NR_TASKS = 64"
definition TASK_RUNNING :: int where "TASK_RUNNING = 0"
definition TASK_INTERRUPTIBLE :: int where "TASK_INTERRUPTIBLE = 1"
definition TASK_UNINTERRUPTIBLE :: int where "TASK_UNINTERRUPTIBLE = 2"
definition TASK_ZOMBIE :: int where "TASK_ZOMBIE = 3"
definition TASK_STOPPED :: int where "TASK_STOPPED = 4"
definition TASK_DEAD :: int where "TASK_DEAD = 5"
definition SIGALRM :: nat where "SIGALRM = 14"
definition SIGCHLD :: nat where "SIGCHLD = 17"

lemmas task_states = TASK_RUNNING_def TASK_INTERRUPTIBLE_def TASK_UNINTERRUPTIBLE_def
  TASK_ZOMBIE_def TASK_STOPPED_def TASK_DEAD_def

definition upd_task :: "u64 \<Rightarrow> (task_struct \<Rightarrow> task_struct) \<Rightarrow> 'a sched_scheme \<Rightarrow> 'a sched_scheme" where
  "upd_task p f s = s\<lparr>tasks := (tasks s)(p := f (tasks s p))\<rparr>"

text \<open>\<open>1 << (sig-1)\<close> is an \<open>int\<close>; it is widened with its sign when it meets the \<open>long\<close> mask.\<close>

definition sig_bit :: "nat \<Rightarrow> u64" where
  "sig_bit sig = scast (push_bit (sig - 1) (1 :: u32))"

text \<open>The loops \<open>for (p = &LAST_TASK; p > &FIRST_TASK; --p)\<close>.\<close>

definition slots :: "nat list" where
  "slots = rev [1..<NR_TASKS]"

subsection \<open>The scheduler\<close>

definition sched_alarm :: "nat \<Rightarrow> 'a sched_scheme \<Rightarrow> 'a sched_scheme" where
  "sched_alarm i s =
     (let p = task s i in
      if p = 0 then s
      else
        let s1 = (if t_alarm (tasks s p) \<noteq> 0 \<and> t_alarm (tasks s p) < jiffies s
                  then upd_task p (\<lambda>t. t\<lparr>t_signal := t_signal t OR sig_bit SIGALRM, t_alarm := 0\<rparr>) s
                  else s) in
        if t_signal (tasks s1 p) \<noteq> 0 \<and> t_state (tasks s1 p) = TASK_INTERRUPTIBLE
        then upd_task p (\<lambda>t. t\<lparr>t_state := TASK_RUNNING\<rparr>) s1 else s1)"

text \<open>Conversion of a \<open>long\<close> to the \<open>int\<close> variable \<open>c\<close>.\<close>

definition to_int32 :: "int \<Rightarrow> int" where
  "to_int32 x = (x + 2 ^ 31) mod 2 ^ 32 - 2 ^ 31"

definition pick_step :: "'a sched_scheme \<Rightarrow> nat \<Rightarrow> int \<times> nat \<Rightarrow> int \<times> nat" where
  "pick_step s i cn =
     (let p = task s i in
      if p \<noteq> 0 \<and> t_state (tasks s p) = TASK_RUNNING \<and> fst cn < t_counter (tasks s p)
      then (to_int32 (t_counter (tasks s p)), i) else cn)"

definition pick :: "'a sched_scheme \<Rightarrow> int \<times> nat" where
  "pick s = fold (pick_step s) slots (- 1, 0)"

definition recalc_step :: "nat \<Rightarrow> 'a sched_scheme \<Rightarrow> 'a sched_scheme" where
  "recalc_step i s =
     (if task s i = 0 then s
      else upd_task (task s i) (\<lambda>t. t\<lparr>t_counter := t_counter t div 2 + t_priority t\<rparr>) s)"

definition recalc :: "'a sched_scheme \<Rightarrow> 'a sched_scheme" where
  "recalc s = fold recalc_step slots s"

partial_function (option) sched_loop :: "'a sched_scheme \<Rightarrow> (nat \<times> 'a sched_scheme) option" where
  "sched_loop s = (if fst (pick s) \<noteq> 0 then Some (snd (pick s), s) else sched_loop (recalc s))"

text \<open>\<open>__switch_to\<close> saves the registers of \<open>prev\<close> and continues \<open>next\<close>: for the caller the routine
  returns only if it is switched to itself.\<close>

definition context_switch :: "u64 \<Rightarrow> u64 \<Rightarrow> 'a sched_scheme \<Rightarrow> ('a sched_scheme, unit) kres" where
  "context_switch prev next s =
     (if \<not> direct next then Inl (BadAccess next, s)
      else kbind (load_root_page_table SATP_MODE_39 (task_pgd s next)) (\<lambda>_ t.
             if next = prev then Inr ((), t) else Inl (Sleeps, t\<lparr>current := next\<rparr>)) s)"

definition schedule :: "'a sched_scheme \<Rightarrow> ('a sched_scheme, unit) kres" where
  "schedule s =
     (let s1 = fold sched_alarm slots s in
      case sched_loop s1 of
        None \<Rightarrow> Inl (Loops, s1)
      | Some (next, s2) \<Rightarrow> context_switch (current s2) (of_nat next) s2)"

definition do_pause :: "'a sched_scheme \<Rightarrow> ('a sched_scheme, int) kres" where
  "do_pause s =
     kseq schedule (kreturn 0) (upd_task (current s) (\<lambda>t. t\<lparr>t_state := TASK_INTERRUPTIBLE\<rparr>) s)"

definition sys_pause :: "'a sched_scheme \<Rightarrow> ('a sched_scheme, int) kres" where
  "sys_pause s = do_pause s"

subsection \<open>Wait queues\<close>

text \<open>\<open>p\<close> is the address of the queue head.  \<open>sleep_enter\<close> and \<open>sleep_resume\<close> are the parts of
  \<open>sleep_on\<close> before and after its call of \<open>schedule\<close>; the first returns the local \<open>tmp\<close>.\<close>

definition sleep_enter :: "u64 \<Rightarrow> int \<Rightarrow> 'a sched_scheme \<Rightarrow> u64 \<times> 'a sched_scheme" where
  "sleep_enter p st s =
     (waitq s p, upd_task (current s) (\<lambda>t. t\<lparr>t_state := st\<rparr>) (s\<lparr>waitq := (waitq s)(p := current s)\<rparr>))"

definition wake_tmp :: "u64 \<Rightarrow> 'a sched_scheme \<Rightarrow> 'a sched_scheme" where
  "wake_tmp tmp s = (if tmp \<noteq> 0 then upd_task tmp (\<lambda>t. t\<lparr>t_state := TASK_RUNNING\<rparr>) s else s)"

definition sleep_on :: "u64 \<Rightarrow> 'a sched_scheme \<Rightarrow> ('a sched_scheme, unit) kres" where
  "sleep_on p s =
     (if p = 0 then Inr ((), s)
      else if current s = task s 0 then panic ''task[0] trying to sleep'' s
      else let (tmp, s1) = sleep_enter p TASK_UNINTERRUPTIBLE s in
           kseq schedule (kmodify (wake_tmp tmp)) s1)"

text \<open>The part of \<open>interruptible_sleep_on\<close> after \<open>schedule\<close>: \<open>Inl\<close> when it sleeps again.\<close>

definition intr_resume :: "u64 \<Rightarrow> u64 \<Rightarrow> 'a sched_scheme \<Rightarrow> 'a sched_scheme + 'a sched_scheme" where
  "intr_resume p tmp s =
     (if waitq s p \<noteq> 0 \<and> waitq s p \<noteq> current s
      then Inl (upd_task (current s) (\<lambda>t. t\<lparr>t_state := TASK_INTERRUPTIBLE\<rparr>)
                  (upd_task (waitq s p) (\<lambda>t. t\<lparr>t_state := TASK_RUNNING\<rparr>) s))
      else Inr (wake_tmp tmp (s\<lparr>waitq := (waitq s)(p := 0)\<rparr>)))"

partial_function (option) intr_loop :: "u64 \<Rightarrow> u64 \<Rightarrow> 'a sched_scheme \<Rightarrow> ('a sched_scheme, unit) kres option" where
  "intr_loop p tmp s =
     (case schedule s of
        Inl e \<Rightarrow> Some (Inl e)
      | Inr (_, t) \<Rightarrow> (case intr_resume p tmp t of Inl u \<Rightarrow> intr_loop p tmp u | Inr u \<Rightarrow> Some (Inr ((), u))))"

definition interruptible_sleep_on :: "u64 \<Rightarrow> 'a sched_scheme \<Rightarrow> ('a sched_scheme, unit) kres" where
  "interruptible_sleep_on p s =
     (if p = 0 then Inr ((), s)
      else if current s = task s 0 then panic ''task[0] trying to sleep'' s
      else let (tmp, s1) = sleep_enter p TASK_INTERRUPTIBLE s in
           case intr_loop p tmp s1 of None \<Rightarrow> Inl (Loops, s1) | Some r \<Rightarrow> r)"

definition wake_up :: "u64 \<Rightarrow> 'a sched_scheme \<Rightarrow> 'a sched_scheme" where
  "wake_up p s =
     (if p \<noteq> 0 \<and> waitq s p \<noteq> 0
      then (upd_task (waitq s p) (\<lambda>t. t\<lparr>t_state := TASK_RUNNING\<rparr>) s)\<lparr>waitq := (waitq s)(p := 0)\<rparr>
      else s)"

subsection \<open>Releasing a task\<close>

fun release_loop :: "nat list \<Rightarrow> u64 \<Rightarrow> 'a sched_scheme \<Rightarrow> ('a sched_scheme, unit) kres" where
  "release_loop [] p s = panic ''trying to release non-existent task'' s"
| "release_loop (i # is) p s =
     (if task s i = p then free_two_pages p (s\<lparr>task := (task s)(i := 0)\<rparr>) else release_loop is p s)"

definition release :: "u64 \<Rightarrow> 'a sched_scheme \<Rightarrow> ('a sched_scheme, unit) kres" where
  "release p s = (if p = 0 then Inr ((), s) else release_loop [1..<NR_TASKS] p s)"

definition finish_task_switch :: "u64 \<Rightarrow> 'a sched_scheme \<Rightarrow> ('a sched_scheme, unit) kres" where
  "finish_task_switch prev s =
     (if t_state (tasks s prev) = TASK_DEAD then release prev s else Inr ((), s))"

definition schedule_tail :: "u64 \<Rightarrow> 'a sched_scheme \<Rightarrow> ('a sched_scheme, unit) kres" where
  "schedule_tail prev = finish_task_switch prev"

subsection \<open>Signals\<close>

definition send_sig :: "int \<Rightarrow> u64 \<Rightarrow> bool \<Rightarrow> 'a sched_scheme \<Rightarrow> 'a sched_scheme" where
  "send_sig sig p priv s =
     (if p = 0 \<or> sig < 1 \<or> 32 < sig then s
      else
        let c = tasks s (current s); t = tasks s p in
        if priv \<or> t_uid c = t_uid t \<or> t_euid c = t_uid t \<or> t_uid c = t_euid t \<or> t_euid c = t_euid t
        then upd_task p (\<lambda>t. t\<lparr>t_signal := t_signal t OR sig_bit (nat sig)\<rparr>) s else s)"

definition kill_selects :: "int \<Rightarrow> 'a sched_scheme \<Rightarrow> u64 \<Rightarrow> bool" where
  "kill_selects pid s p =
     (if pid = 0 then p \<noteq> 0 \<and> t_pgrp (tasks s p) = t_pid (tasks s (current s))
      else if 0 < pid then p \<noteq> 0 \<and> t_pid (tasks s p) = pid
      else if pid = - 1 then True
      else p \<noteq> 0 \<and> t_pgrp (tasks s p) = - pid)"

definition do_kill :: "int \<Rightarrow> int \<Rightarrow> bool \<Rightarrow> 'a sched_scheme \<Rightarrow> 'a sched_scheme" where
  "do_kill pid sig priv s =
     fold (\<lambda>i t. if kill_selects pid t (task t i) then send_sig sig (task t i) priv t else t) slots s"

definition sys_kill :: "int \<Rightarrow> int \<Rightarrow> 'a sched_scheme \<Rightarrow> ('a sched_scheme, int) kres" where
  "sys_kill pid sig s =
     (let c = tasks s (current s) in
      Inr (0, do_kill pid sig (\<not> (t_uid c \<noteq> 0 \<or> t_euid c \<noteq> 0)) s))"

text \<open>One round of the loop of \<open>do_signal\<close> for signal number \<open>nr + 1\<close>.\<close>

definition signal_step :: "nat \<Rightarrow> 'a sched_scheme \<Rightarrow> ('a sched_scheme, unit) kres" where
  "signal_step nr s =
     (if t_signal (tasks s (current s)) AND push_bit nr 1 \<noteq> 0 then
        let s1 = upd_task (current s) (\<lambda>t. t\<lparr>t_signal := t_signal t AND NOT (push_bit nr 1)\<rparr>) s;
            fn = t_sig_fn (tasks s1 (current s1)) nr in
        if fn = 0 then if nr + 1 = SIGCHLD then Inr ((), s1) else Inl (DoExit (int nr + 1), s1)
        else if fn = 1 then Inr ((), s1)
        else panic ''No implement of customized signal.'' s1
      else Inr ((), s))"

definition do_signal :: "bool \<Rightarrow> 'a sched_scheme \<Rightarrow> ('a sched_scheme, unit) kres" where
  "do_signal user_mode s =
     (if current s = task s 0 \<or> \<not> user_mode \<or> t_signal (tasks s (current s)) = 0 then Inr ((), s)
      else kfor [0..<32] signal_step s)"

definition do_timer :: "bool \<Rightarrow> 'a sched_scheme \<Rightarrow> ('a sched_scheme, unit) kres" where
  "do_timer user_mode s =
     (let s1 = upd_task (current s) (\<lambda>t. if user_mode then t\<lparr>t_utime := t_utime t + 1\<rparr>
                                         else t\<lparr>t_stime := t_stime t + 1\<rparr>) s;
          s2 = upd_task (current s1) (\<lambda>t. t\<lparr>t_counter := t_counter t - 1\<rparr>) s1 in
      if 0 < t_counter (tasks s2 (current s2)) then Inr ((), s2)
      else
        let s3 = upd_task (current s2) (\<lambda>t. t\<lparr>t_counter := 0\<rparr>) s2 in
        if \<not> user_mode then Inr ((), s3) else kseq schedule (do_signal user_mode) s3)"

definition sched_init :: "'a sched_scheme \<Rightarrow> 'a sched_scheme" where
  "sched_init s = s\<lparr>task := \<lambda>i. if 1 \<le> i \<and> i < NR_TASKS then 0 else task s i\<rparr>"

subsection \<open>Choosing a process number\<close>

text \<open>\<open>++last_pid\<close> on a 64-bit \<open>long\<close>, restarted at 1 when it becomes negative.\<close>

definition next_pid :: "int \<Rightarrow> int" where
  "next_pid l = (let l' = (if l = 2 ^ 63 - 1 then - (2 ^ 63) else l + 1) in if l' < 0 then 1 else l')"

definition pid_used :: "'a sched_scheme \<Rightarrow> int \<Rightarrow> bool" where
  "pid_used s pid = (\<exists>i \<in> set [0..<NR_TASKS]. task s i \<noteq> 0 \<and> t_pid (tasks s (task s i)) = pid)"

partial_function (option) find_pid :: "(int \<Rightarrow> bool) \<Rightarrow> int \<Rightarrow> int option" where
  "find_pid used l = (if used (next_pid l) then find_pid used (next_pid l) else Some (next_pid l))"

definition EAGAIN :: int where "EAGAIN = 11"

definition find_empty_process :: "'a sched_scheme \<Rightarrow> ('a sched_scheme, int) kres" where
  "find_empty_process s =
     (case find_pid (pid_used s) (last_pid s) of
        None \<Rightarrow> Inl (Loops, s)
      | Some pid \<Rightarrow>
          Inr (case find (\<lambda>i. task s i = 0) [1..<NR_TASKS] of Some i \<Rightarrow> int i | None \<Rightarrow> - EAGAIN,
               s\<lparr>last_pid := pid\<rparr>))"

end
