(* ===== verification/Sched_Props.thy ===== *)
theory Sched_Props
  imports Sched
begin

text \<open>
  The scheduler's choice, the freshness of process numbers, the delivery of signals and the
  wait queues of \<open>kernel/sched.c\<close>, \<open>kernel/fork.c\<close> and \<open>kernel/exit.c\<close>.
\<close>

subsection \<open>Task slots\<close>

definition present :: "'a sched_scheme \<Rightarrow> nat \<Rightarrow> bool" where
  "present s i \<longleftrightarrow> 1 \<le> i \<and> i < NR_TASKS \<and> task s i \<noteq> 0"

definition runnable :: "'a sched_scheme \<Rightarrow> nat \<Rightarrow> bool" where
  "runnable s i \<longleftrightarrow> present s i \<and> t_state (tasks s (task s i)) = TASK_RUNNING"

abbreviation slot_counter :: "'a sched_scheme \<Rightarrow> nat \<Rightarrow> int" where
  "slot_counter s i \<equiv> t_counter (tasks s (task s i))"

text \<open>No task is in two slots; counters are not negative and priorities positive, and both are
  far from the limits of an \<open>int\<close>.\<close>

definition sched_ok :: "'a sched_scheme \<Rightarrow> bool" where
  "sched_ok s \<longleftrightarrow>
     (\<forall>i j. present s i \<and> present s j \<and> task s i = task s j \<longrightarrow> i = j) \<and>
     (\<forall>i. present s i \<longrightarrow> 0 \<le> slot_counter s i \<and> slot_counter s i < 2 ^ 30 \<and>
        0 < t_priority (tasks s (task s i)) \<and> t_priority (tasks s (task s i)) < 2 ^ 29)"

lemma set_slots: "set slots = {i. 1 \<le> i \<and> i < NR_TASKS}"
  by (auto simp: slots_def)

lemma distinct_slots: "distinct slots"
  by (simp add: slots_def)

lemma tasks_upd_task [simp]: "tasks (upd_task p f s) = (tasks s)(p := f (tasks s p))"
  and upd_task_frame [simp]: "task (upd_task p f s) = task s" "current (upd_task p f s) = current s"
    "jiffies (upd_task p f s) = jiffies s" "waitq (upd_task p f s) = waitq s"
    "last_pid (upd_task p f s) = last_pid s" "task_pgd (upd_task p f s) = task_pgd s"
    "mem_map (upd_task p f s) = mem_map s" "pmem (upd_task p f s) = pmem s"
  by (simp_all add: upd_task_def)

lemma to_int32_id: "- (2 ^ 31) \<le> x \<Longrightarrow> x < 2 ^ 31 \<Longrightarrow> to_int32 x = x"
  by (simp add: to_int32_def)

subsection \<open>Loops over the slots\<close>

text \<open>A loop that updates the task of each slot in turn.\<close>

definition map_slots :: "('a sched_scheme \<Rightarrow> task_struct \<Rightarrow> task_struct) \<Rightarrow> nat \<Rightarrow> 'a sched_scheme \<Rightarrow> 'a sched_scheme" where
  "map_slots f i s = (if task s i = 0 then s else upd_task (task s i) (f s) s)"

lemma fold_map_slots:
  assumes inj: "\<And>i j. i \<in> set xs \<Longrightarrow> j \<in> set xs \<Longrightarrow> task s i = task s j \<Longrightarrow> task s i \<noteq> 0 \<Longrightarrow> i = j"
    and "distinct xs"
    and f: "\<And>t. task t = task s \<Longrightarrow> current t = current s \<Longrightarrow> jiffies t = jiffies s \<Longrightarrow>
      (\<And>p. ids (tasks t p) = ids (tasks s p)) \<Longrightarrow> f t = f s"
    and ids: "\<And>x. ids (f s x) = ids x"
  shows "fold (map_slots f) xs s = s\<lparr>tasks := \<lambda>p. if p \<noteq> 0 \<and> p \<in> task s ` set xs then f s (tasks s p) else tasks s p\<rparr>"
  using assms
proof (induction xs arbitrary: s)
  case Nil
  show ?case by simp
next
  case (Cons i xs)
  let ?t = "map_slots f i s"
  have t: "task ?t = task s" "current ?t = current s" "jiffies ?t = jiffies s"
    by (simp_all add: map_slots_def)
  have it: "ids (tasks ?t p) = ids (tasks s p)" for p
    unfolding map_slots_def using Cons.prems(4) by (auto simp only: tasks_upd_task fun_upd_apply split: if_splits)
  have ft: "f ?t = f s" by (rule Cons.prems(3) [OF t it])
  have "fold (map_slots f) xs ?t = ?t\<lparr>tasks := \<lambda>p. if p \<noteq> 0 \<and> p \<in> task ?t ` set xs then f ?t (tasks ?t p) else tasks ?t p\<rparr>"
  proof (rule Cons.IH)
    show "distinct xs" using Cons.prems(2) by simp
    fix i j assume "i \<in> set xs" "j \<in> set xs" "task ?t i = task ?t j" "task ?t i \<noteq> 0"
    then show "i = j" using Cons.prems(1) [of i j] t by simp
  next
    fix u :: "'a sched_scheme"
    assume "task u = task ?t" "current u = current ?t" "jiffies u = jiffies ?t"
      "\<And>p. ids (tasks u p) = ids (tasks ?t p)"
    then show "f u = f ?t" unfolding ft t it by (rule Cons.prems(3))
  next
    show "ids (f ?t x) = ids x" for x unfolding ft by (rule Cons.prems(4))
  qed
  also have "\<dots> = s\<lparr>tasks := \<lambda>p. if p \<noteq> 0 \<and> p \<in> task s ` set (i # xs) then f s (tasks s p) else tasks s p\<rparr>"
  proof (cases "task s i = 0")
    case True
    then have t0: "?t = s" by (simp add: map_slots_def)
    have e: "(p \<noteq> 0 \<and> p \<in> task s ` set xs) = (p \<noteq> 0 \<and> p \<in> task s ` set (i # xs))" for p
      using True by auto
    show ?thesis unfolding t0 e ..
  next
    case False
    have ni: "task s i \<notin> task s ` set xs"
    proof
      assume "task s i \<in> task s ` set xs"
      then obtain j where "j \<in> set xs" "task s i = task s j" by auto
      then show False using Cons.prems(1) [of i j] Cons.prems(2) False by auto
    qed
    have tk: "tasks ?t = (tasks s)(task s i := f s (tasks s (task s i)))" using False by (simp add: map_slots_def)
    have "?t\<lparr>tasks := g\<rparr> = s\<lparr>tasks := g\<rparr>" for g using False by (simp add: map_slots_def upd_task_def)
    then show ?thesis unfolding t(1) ft tk using ni False by (auto simp: fun_eq_iff)
  qed
  finally show ?case by simp
qed

lemma slots_inj: "sched_ok s \<Longrightarrow> i \<in> set slots \<Longrightarrow> j \<in> set slots \<Longrightarrow> task s i = task s j \<Longrightarrow> task s i \<noteq> 0 \<Longrightarrow> i = j"
  unfolding sched_ok_def present_def set_slots by (metis (no_types, lifting) mem_Collect_eq)

lemma recalc_step_map: "recalc_step = map_slots (\<lambda>_ t. t\<lparr>t_counter := t_counter t div 2 + t_priority t\<rparr>)"
  by (simp add: fun_eq_iff recalc_step_def map_slots_def)

lemma recalc_eq:
  assumes "sched_ok s"
  shows "recalc s = s\<lparr>tasks := \<lambda>p. if p \<noteq> 0 \<and> p \<in> task s ` set slots
      then (tasks s p)\<lparr>t_counter := t_counter (tasks s p) div 2 + t_priority (tasks s p)\<rparr> else tasks s p\<rparr>"
  unfolding recalc_def recalc_step_map
  by (rule fold_map_slots [where ids = "\<lambda>_. ()"]) (use slots_inj [OF assms] distinct_slots in auto)

lemma recalc_frame:
  assumes "sched_ok s"
  shows "task (recalc s) = task s" "current (recalc s) = current s"
  by (simp_all add: recalc_eq [OF assms])

lemma recalc_tasks:
  assumes "sched_ok s" "present s i"
  shows "tasks (recalc s) (task s i) = (tasks s (task s i))\<lparr>t_counter := slot_counter s i div 2 + t_priority (tasks s (task s i))\<rparr>"
  using assms(2) by (simp add: recalc_eq [OF assms(1)] present_def set_slots)

definition alarm_due :: "'a sched_scheme \<Rightarrow> task_struct \<Rightarrow> bool" where
  "alarm_due s t \<longleftrightarrow> t_alarm t \<noteq> 0 \<and> t_alarm t < jiffies s"

definition after_alarm :: "'a sched_scheme \<Rightarrow> task_struct \<Rightarrow> task_struct" where
  "after_alarm s t =
     (let t1 = (if alarm_due s t then t\<lparr>t_signal := t_signal t OR sig_bit SIGALRM, t_alarm := 0\<rparr> else t) in
      if t_signal t1 \<noteq> 0 \<and> t_state t1 = TASK_INTERRUPTIBLE then t1\<lparr>t_state := TASK_RUNNING\<rparr> else t1)"

lemma sched_alarm_map: "sched_alarm = map_slots after_alarm"
  by (intro ext) (auto simp: sched_alarm_def map_slots_def after_alarm_def alarm_due_def Let_def upd_task_def)

lemma alarm_tasks:
  assumes "sched_ok s"
  shows "fold sched_alarm slots s = s\<lparr>tasks := \<lambda>p. if p \<noteq> 0 \<and> p \<in> task s ` set slots then after_alarm s (tasks s p) else tasks s p\<rparr>"
  unfolding sched_alarm_map
  by (rule fold_map_slots [where ids = "\<lambda>_. ()"])
    (use slots_inj [OF assms] distinct_slots in \<open>auto simp: after_alarm_def alarm_due_def fun_eq_iff\<close>)

lemma after_alarm_fields [simp]:
  "t_counter (after_alarm s t) = t_counter t" "t_priority (after_alarm s t) = t_priority t"
  by (simp_all add: after_alarm_def Let_def)

lemma sched_ok_alarm:
  assumes "sched_ok s"
  shows "sched_ok (fold sched_alarm slots s)" "task (fold sched_alarm slots s) = task s"
    "current (fold sched_alarm slots s) = current s"
    "present s i \<Longrightarrow> tasks (fold sched_alarm slots s) (task s i) = after_alarm s (tasks s (task s i))"
  using assms unfolding alarm_tasks [OF assms] by (auto simp: sched_ok_def present_def set_slots)

subsection \<open>The choice of the next task\<close>

lemma pick_invariant:
  assumes ok: "\<And>i. i \<in> set xs \<Longrightarrow> runnable s i \<Longrightarrow> 0 \<le> slot_counter s i \<and> slot_counter s i < 2 ^ 31"
    and sl: "set xs \<subseteq> set slots"
  shows "(fold (pick_step s) xs (- 1, 0) = (- 1, 0) \<and> (\<forall>i \<in> set xs. \<not> runnable s i)) \<or>
    (\<exists>n \<in> set xs. runnable s n \<and> fold (pick_step s) xs (- 1, 0) = (slot_counter s n, n) \<and>
       (\<forall>i \<in> set xs. runnable s i \<longrightarrow> slot_counter s i \<le> slot_counter s n))"
  using assms
proof (induction xs rule: rev_induct)
  case Nil
  then show ?case by simp
next
  case (snoc j xs)
  let ?r = "fold (pick_step s) xs (- 1, 0)"
  have IH: "(?r = (- 1, 0) \<and> (\<forall>i \<in> set xs. \<not> runnable s i)) \<or>
    (\<exists>n \<in> set xs. runnable s n \<and> ?r = (slot_counter s n, n) \<and>
       (\<forall>i \<in> set xs. runnable s i \<longrightarrow> slot_counter s i \<le> slot_counter s n))"
    using snoc by simp
  have j: "runnable s j \<longleftrightarrow> task s j \<noteq> 0 \<and> t_state (tasks s (task s j)) = TASK_RUNNING"
    using snoc.prems(2) by (auto simp: runnable_def present_def set_slots)
  have step: "fold (pick_step s) (xs @ [j]) (- 1, 0) =
      (if runnable s j \<and> fst ?r < slot_counter s j then (slot_counter s j, j) else ?r)"
  proof (cases "runnable s j")
    case True
    then have "to_int32 (slot_counter s j) = slot_counter s j"
      using snoc.prems(1) [of j] by (intro to_int32_id) auto
    then show ?thesis using True j by (simp add: pick_step_def Let_def)
  next
    case False
    then show ?thesis using j by (auto simp: pick_step_def Let_def)
  qed
  from IH show ?case
  proof (elim disjE bexE conjE)
    assume r: "?r = (- 1, 0)" and none: "\<forall>i \<in> set xs. \<not> runnable s i"
    show ?thesis
    proof (cases "runnable s j")
      case True
      then have "fst ?r < slot_counter s j" using r snoc.prems(1) [of j] by simp
      then show ?thesis using True step none by auto
    qed (use step r none in auto)
  next
    fix n assume n: "n \<in> set xs" "runnable s n" and r: "?r = (slot_counter s n, n)"
      and m: "\<forall>i \<in> set xs. runnable s i \<longrightarrow> slot_counter s i \<le> slot_counter s n"
    show ?thesis
    proof (cases "runnable s j \<and> slot_counter s n < slot_counter s j")
      case True
      then have "fold (pick_step s) (xs @ [j]) (- 1, 0) = (slot_counter s j, j)" using step r by simp
      moreover have "\<forall>i \<in> set (xs @ [j]). runnable s i \<longrightarrow> slot_counter s i \<le> slot_counter s j"
        using m True by auto
      ultimately show ?thesis using True by (intro disjI2 bexI [of _ j]) auto
    next
      case False
      then have "fold (pick_step s) (xs @ [j]) (- 1, 0) = (slot_counter s n, n)" using step r by auto
      moreover have "\<forall>i \<in> set (xs @ [j]). runnable s i \<longrightarrow> slot_counter s i \<le> slot_counter s n"
        using m False by auto
      ultimately show ?thesis using n by (intro disjI2 bexI [of _ n]) auto
    qed
  qed
qed

text \<open>What the selection should return: no runnable task, or one with the largest counter.\<close>

definition best_slot :: "'a sched_scheme \<Rightarrow> nat \<Rightarrow> bool" where
  "best_slot s n \<longleftrightarrow> (if \<exists>i. runnable s i
     then runnable s n \<and> (\<forall>i. runnable s i \<longrightarrow> slot_counter s i \<le> slot_counter s n) else n = 0)"

lemma pick_best:
  assumes "\<And>i. runnable s i \<Longrightarrow> 0 \<le> slot_counter s i \<and> slot_counter s i < 2 ^ 31"
  shows "best_slot s (snd (pick s)) \<and> fst (pick s) = (if \<exists>i. runnable s i then slot_counter s (snd (pick s)) else - 1)"
proof -
  have r: "runnable s i \<Longrightarrow> i \<in> set slots" for i by (simp add: runnable_def present_def set_slots)
  show ?thesis
    using pick_invariant [of slots s] assms
    unfolding pick_def [symmetric] best_slot_def by (auto dest: r)
qed

lemma sched_loop_spec:
  assumes ok: "sched_ok s"
  shows "\<exists>n t. sched_loop s = Some (n, t) \<and> (t = s \<or> t = recalc s) \<and> best_slot t n
     \<and> ((\<exists>i. runnable t i) \<longrightarrow> 0 < slot_counter t n)"
proof -
  have c: "0 \<le> slot_counter s i \<and> slot_counter s i < 2 ^ 31" if "runnable s i" for i
    using ok that unfolding sched_ok_def runnable_def by fastforce
  note p = pick_best [OF c]
  show ?thesis
  proof (cases "fst (pick s) = 0")
    case False
    have "sched_loop s = Some (snd (pick s), s)" using False by (subst sched_loop.simps) simp
    moreover have "0 < slot_counter s (snd (pick s))" if "\<exists>i. runnable s i"
    proof -
      have "runnable s (snd (pick s))" "fst (pick s) = slot_counter s (snd (pick s))"
        using p that unfolding best_slot_def by auto
      then show ?thesis using c [of "snd (pick s)"] False by simp
    qed
    ultimately show ?thesis using p by blast
  next
    case True
    then have ex: "\<exists>i. runnable s i" and b: "best_slot s (snd (pick s))" "slot_counter s (snd (pick s)) = 0"
      using p by (auto split: if_splits)
    let ?t = "recalc s"
    have pr: "present ?t i \<longleftrightarrow> present s i" for i by (simp add: present_def recalc_frame [OF ok])
    have tk: "tasks ?t (task ?t i) = (tasks s (task s i))\<lparr>t_counter := slot_counter s i div 2 + t_priority (tasks s (task s i))\<rparr>"
      if "present s i" for i using recalc_tasks [OF ok that] recalc_frame(1) [OF ok] by simp
    have rn: "runnable ?t i \<longleftrightarrow> runnable s i" for i using tk [of i] pr [of i] by (auto simp: runnable_def)
    have z: "slot_counter ?t i = t_priority (tasks s (task s i))" if "runnable s i" for i
    proof -
      have "slot_counter s i = 0" using b ex c [OF that] that unfolding best_slot_def by (metis order_antisym)
      then show ?thesis using tk [of i] that by (simp add: runnable_def)
    qed
    have bounds: "0 < slot_counter ?t i \<and> slot_counter ?t i < 2 ^ 31" if "runnable ?t i" for i
      using z [of i] that ok unfolding rn unfolding sched_ok_def runnable_def by fastforce
    then have p': "best_slot ?t (snd (pick ?t))" "fst (pick ?t) = slot_counter ?t (snd (pick ?t))"
      using pick_best [of ?t] ex rn by (auto simp: less_imp_le)
    then have "0 < slot_counter ?t (snd (pick ?t))"
      using bounds ex rn unfolding best_slot_def by (metis (full_types))
    moreover from this have "sched_loop s = Some (snd (pick ?t), ?t)"
      using True p'(2) by (subst sched_loop.simps, simp, subst sched_loop.simps, simp)
    ultimately show ?thesis using p'(1) by blast
  qed
qed

lemma runnable_recalc:
  assumes "sched_ok s"
  shows "runnable (recalc s) i \<longleftrightarrow> runnable s i"
  using recalc_tasks [OF assms, of i] recalc_frame(1) [OF assms]
  by (auto simp: runnable_def present_def)

lemma sig_bit_low:
  assumes "1 \<le> sig" "sig \<le> 31"
  shows "sig_bit sig = push_bit (sig - 1) 1"
proof (rule bit_word_eqI)
  fix n assume "n < LENGTH(64)"
  then show "bit (sig_bit sig) n = bit (push_bit (sig - 1) 1 :: u64) n"
    using assms unfolding sig_bit_def by (auto simp: bit_simps)
qed

lemma sig_bit_nonzero:
  assumes "1 \<le> sig" "sig \<le> 31"
  shows "sig_bit sig \<noteq> 0"
proof
  assume "sig_bit sig = 0"
  then have "push_bit (sig - 1) 1 = (0 :: u64)" unfolding sig_bit_low [OF assms] .
  moreover have "bit (push_bit (sig - 1) 1 :: u64) (sig - 1)"
    unfolding bit_push_bit_iff using assms by simp
  ultimately show False by (metis bit_0_eq bot_apply bot_bool_def)
qed

lemma after_alarm_running:
  "t_state (after_alarm s t) = TASK_RUNNING \<longleftrightarrow>
     t_state t = TASK_RUNNING \<or> t_state t = TASK_INTERRUPTIBLE \<and> (t_signal t \<noteq> 0 \<or> alarm_due s t)"
  using sig_bit_nonzero [of SIGALRM]
  by (auto simp: after_alarm_def Let_def task_states SIGALRM_def or_eq_0_iff)

subsection \<open>Sleepers on a wait queue\<close>

text \<open>A configuration of the wait queue with head at address \<open>q\<close>: the state and the tasks between
  the two halves of \<open>sleep_on(q)\<close>, newest first, each with its local variable \<open>tmp\<close>.  The other
  activities of the system leave the queue and the states of these tasks alone.\<close>

inductive wq_step :: "u64 \<Rightarrow> 'a sched_scheme \<times> (u64 \<times> u64) list \<Rightarrow> 'a sched_scheme \<times> (u64 \<times> u64) list \<Rightarrow> bool"
  for q :: u64 where
  wq_sleep: "t \<noteq> 0 \<Longrightarrow> t \<notin> fst ` set L \<Longrightarrow> sleep_enter q TASK_UNINTERRUPTIBLE (s\<lparr>current := t\<rparr>) = (tmp, s')
     \<Longrightarrow> wq_step q (s, L) (s', (t, tmp) # L)"
| wq_wake: "wq_step q (s, L) (wake_up q s, L)"
| wq_resume: "(t, tmp) \<in> set L \<Longrightarrow> t_state (tasks s t) = TASK_RUNNING
     \<Longrightarrow> wq_step q (s, L) (wake_tmp tmp s, filter (\<lambda>x. fst x \<noteq> t) L)"
| wq_other: "waitq s' q = waitq s q \<Longrightarrow> (\<And>t. t \<in> fst ` set L \<Longrightarrow> t_state (tasks s' t) = t_state (tasks s t))
     \<Longrightarrow> wq_step q (s, L) (s', L)"

fun older :: "(u64 \<times> u64) list \<Rightarrow> bool" where
  "older [] = True"
| "older ((t, v) # L) = ((v \<noteq> 0 \<longrightarrow> v \<in> fst ` set L) \<and> older L)"

text \<open>The sleepers hang in chains: \<open>h\<close> is the head of the queue, \<open>run\<close> tells which tasks have been
  woken.  The first task of a chain is the head of the queue or a woken task.\<close>

definition chains :: "u64 \<Rightarrow> (u64 \<Rightarrow> bool) \<Rightarrow> (u64 \<times> u64) list \<Rightarrow> bool" where
  "chains h run L \<longleftrightarrow>
     distinct (map fst L) \<and> 0 \<notin> fst ` set L \<and> older L \<and>
     (h \<noteq> 0 \<longrightarrow> h \<in> fst ` set L \<and> \<not> run h \<and> h \<notin> snd ` set L) \<and>
     (\<forall>u v. (u, v) \<in> set L \<and> v \<noteq> 0 \<longrightarrow> v \<in> fst ` set L \<and> \<not> run v \<and> (\<forall>w. (w, v) \<in> set L \<longrightarrow> w = u)) \<and>
     (\<forall>t. t \<in> fst ` set L \<and> \<not> run t \<longrightarrow> t = h \<or> t \<in> snd ` set L)"

lemma chainsI:
  assumes "distinct (map fst L)" "0 \<notin> fst ` set L" "older L"
    and "h \<noteq> 0 \<Longrightarrow> h \<in> fst ` set L \<and> \<not> run h \<and> h \<notin> snd ` set L"
    and "\<And>u v. (u, v) \<in> set L \<Longrightarrow> v \<noteq> 0 \<Longrightarrow> v \<in> fst ` set L \<and> \<not> run v \<and> (\<forall>w. (w, v) \<in> set L \<longrightarrow> w = u)"
    and "\<And>t. t \<in> fst ` set L \<Longrightarrow> \<not> run t \<Longrightarrow> t = h \<or> t \<in> snd ` set L"
  shows "chains h run L"
  unfolding chains_def using assms by blast

lemma older_filter:
  "older L \<Longrightarrow> t \<notin> snd ` set L \<Longrightarrow> older (filter (\<lambda>x. fst x \<noteq> t) L)"
  by (induction L rule: older.induct) (auto simp: image_iff)

lemma chains_sleep:
  assumes c: "chains h run L" and t: "t \<noteq> 0" "t \<notin> fst ` set L"
  shows "chains t (run(t := False)) ((t, h) # L)"
proof -
  have h: "h \<noteq> 0 \<Longrightarrow> h \<in> fst ` set L \<and> \<not> run h \<and> h \<notin> snd ` set L"
    and p: "\<And>u v. (u, v) \<in> set L \<Longrightarrow> v \<noteq> 0 \<Longrightarrow> v \<in> fst ` set L \<and> \<not> run v \<and> (\<forall>w. (w, v) \<in> set L \<longrightarrow> w = u)"
    and r: "\<And>x. x \<in> fst ` set L \<Longrightarrow> \<not> run x \<Longrightarrow> x = h \<or> x \<in> snd ` set L"
    and b: "distinct (map fst L)" "0 \<notin> fst ` set L" "older L"
    using c unfolding chains_def by blast+
  have ht: "h \<noteq> t" using h t by blast
  have tv: "t \<notin> snd ` set L"
  proof
    assume "t \<in> snd ` set L"
    then obtain u where "(u, t) \<in> set L" by auto
    then show False using p t by blast
  qed
  have g1: "distinct (map fst ((t, h) # L))" "0 \<notin> fst ` set ((t, h) # L)" using b(1,2) t by simp_all
  have g2: "older ((t, h) # L)" using b(3) h by simp
  have g3: "t \<in> fst ` set ((t, h) # L)" "t \<notin> snd ` set ((t, h) # L)" using ht tv by simp_all
  have g4: "v \<in> fst ` set ((t, h) # L) \<and> \<not> (run(t := False)) v \<and> (\<forall>w. (w, v) \<in> set ((t, h) # L) \<longrightarrow> w = u)"
    if uv: "(u, v) \<in> set ((t, h) # L)" "v \<noteq> 0" for u v
  proof (cases "(u, v) = (t, h)")
    case True
    then have "h \<in> fst ` set L" "\<not> run h" "h \<notin> snd ` set L" using h uv(2) by blast+
    moreover from this(3) have "(w, h) \<notin> set L" for w by force
    ultimately show ?thesis using True by simp
  next
    case False
    then have m: "(u, v) \<in> set L" using uv by auto
    have "h \<notin> snd ` set L" if "h \<noteq> 0" using h that by blast
    then have "v \<noteq> h" using m uv(2) by force
    then show ?thesis using p [OF m uv(2)] by simp
  qed
  have g5: "x = t \<or> x \<in> snd ` set ((t, h) # L)"
    if "x \<in> fst ` set ((t, h) # L)" "\<not> (run(t := False)) x" for x
  proof (cases "x = t")
    case False
    then have "x = h \<or> x \<in> snd ` set L" using that r [of x] by simp
    then show ?thesis by auto
  qed simp
  show ?thesis
    by (rule chainsI [OF g1 g2 _ g4 g5]) (use g3 in simp_all)
qed

lemma chains_wake:
  assumes c: "chains h run L" and h: "h \<noteq> 0"
  shows "chains 0 (run(h := True)) L"
proof -
  have hs: "h \<notin> snd ` set L"
    and p: "\<And>u v. (u, v) \<in> set L \<Longrightarrow> v \<noteq> 0 \<Longrightarrow> v \<in> fst ` set L \<and> \<not> run v \<and> (\<forall>w. (w, v) \<in> set L \<longrightarrow> w = u)"
    and r: "\<And>x. x \<in> fst ` set L \<Longrightarrow> \<not> run x \<Longrightarrow> x = h \<or> x \<in> snd ` set L"
    and b: "distinct (map fst L)" "0 \<notin> fst ` set L" "older L"
    using c h unfolding chains_def by blast+
  have vh: "v \<noteq> h" if "(u, v) \<in> set L" for u v using that hs by force
  have "v \<in> fst ` set L \<and> \<not> (run(h := True)) v \<and> (\<forall>w. (w, v) \<in> set L \<longrightarrow> w = u)"
    if "(u, v) \<in> set L" "v \<noteq> 0" for u v
    using p [OF that] vh [OF that(1)] by simp
  moreover have "x \<in> snd ` set L" if "x \<in> fst ` set L" "\<not> (run(h := True)) x" for x
    using r [OF that(1)] that(2) by (auto split: if_splits)
  ultimately show ?thesis unfolding chains_def using b by blast
qed

lemma chains_resume:
  assumes c: "chains h run L" and t: "(t, tmp) \<in> set L" "run t"
  shows "chains h (\<lambda>u. u = tmp \<and> tmp \<noteq> 0 \<or> run u) (filter (\<lambda>x. fst x \<noteq> t) L)"
proof -
  let ?L = "filter (\<lambda>x. fst x \<noteq> t) L"
  have h: "h \<noteq> 0 \<Longrightarrow> h \<in> fst ` set L \<and> \<not> run h \<and> h \<notin> snd ` set L"
    and p: "\<And>u v. (u, v) \<in> set L \<Longrightarrow> v \<noteq> 0 \<Longrightarrow> v \<in> fst ` set L \<and> \<not> run v \<and> (\<forall>w. (w, v) \<in> set L \<longrightarrow> w = u)"
    and r: "\<And>x. x \<in> fst ` set L \<Longrightarrow> \<not> run x \<Longrightarrow> x = h \<or> x \<in> snd ` set L"
    and b: "distinct (map fst L)" "0 \<notin> fst ` set L" "older L"
    using c unfolding chains_def by blast+
  have t0: "t \<noteq> 0" using b(2) t by force
  have nt: "t \<notin> snd ` set L"
  proof
    assume "t \<in> snd ` set L"
    then obtain u where "(u, t) \<in> set L" by auto
    then show False using p t t0 by blast
  qed
  have key: "x = tmp" if "(t, x) \<in> set L" for x using b(1) that t(1) by (metis eq_key_imp_eq_value)
  have in': "x \<in> fst ` set ?L \<longleftrightarrow> x \<in> fst ` set L \<and> x \<noteq> t" for x by auto
  have "distinct (map fst ?L)" "0 \<notin> fst ` set ?L" "older ?L"
    using b older_filter [OF b(3) nt] by (auto simp: distinct_map_filter)
  moreover have "h \<in> fst ` set ?L \<and> \<not> (h = tmp \<and> tmp \<noteq> 0 \<or> run h) \<and> h \<notin> snd ` set ?L" if "h \<noteq> 0"
  proof -
    have "tmp \<in> snd ` set L" using t(1) by force
    then show ?thesis using h [OF that] t(2) in' by auto
  qed
  moreover have "v \<in> fst ` set ?L \<and> \<not> (v = tmp \<and> tmp \<noteq> 0 \<or> run v) \<and> (\<forall>w. (w, v) \<in> set ?L \<longrightarrow> w = u)"
    if "(u, v) \<in> set ?L" "v \<noteq> 0" for u v
  proof -
    have uv: "(u, v) \<in> set L" "u \<noteq> t" using that(1) by auto
    have "v \<noteq> t" using nt uv(1) by force
    moreover have "v \<noteq> tmp" using p [OF uv(1) that(2)] t(1) uv(2) by blast
    ultimately show ?thesis using p [OF uv(1) that(2)] in' by auto
  qed
  moreover have "x = h \<or> x \<in> snd ` set ?L"
    if "x \<in> fst ` set ?L" "\<not> (x = tmp \<and> tmp \<noteq> 0 \<or> run x)" for x
  proof -
    have x: "x \<in> fst ` set L" "x \<noteq> 0" "\<not> run x" using that in' b(2) by auto
    from r [OF x(1,3)] show ?thesis
    proof
      assume "x \<in> snd ` set L"
      then obtain u where u: "(u, x) \<in> set L" by auto
      then have "u \<noteq> t" using key that(2) x(2) by auto
      then show ?thesis using u by force
    qed simp
  qed
  ultimately show ?thesis by (intro chainsI)
qed

definition wq_inv :: "u64 \<Rightarrow> 'a sched_scheme \<times> (u64 \<times> u64) list \<Rightarrow> bool" where
  "wq_inv q c \<longleftrightarrow> chains (waitq (fst c) q) (\<lambda>t. t_state (tasks (fst c) t) = TASK_RUNNING) (snd c)"

lemma chains_cong:
  assumes "chains h run L" "\<And>t. t \<in> fst ` set L \<Longrightarrow> run' t = run t"
  shows "chains h run' L"
  by (rule chainsI) (use assms in \<open>unfold chains_def, blast+\<close>)

lemma wq_inv_step:
  assumes "wq_step q c c'" "wq_inv q c"
  shows "wq_inv q c'"
  using assms(1)
proof cases
  case (wq_sleep t L s tmp s')
  then have e: "tmp = waitq s q" "waitq s' q = t"
    "(\<lambda>u. t_state (tasks s' u) = TASK_RUNNING) = (\<lambda>u. t_state (tasks s u) = TASK_RUNNING)(t := False)"
    by (auto simp: sleep_enter_def upd_task_def fun_eq_iff task_states)
  have c: "chains (waitq s q) (\<lambda>u. t_state (tasks s u) = TASK_RUNNING) L"
    using assms(2) wq_sleep(1) by (simp add: wq_inv_def)
  show ?thesis
    unfolding wq_sleep(2) wq_inv_def fst_conv snd_conv e(2,3) e(1)
    by (rule chains_sleep [OF c wq_sleep(3,4)])
next
  case (wq_wake s L)
  show ?thesis
  proof (cases "q \<noteq> 0 \<and> waitq s q \<noteq> 0")
    case True
    then have e: "waitq (wake_up q s) q = 0"
      "(\<lambda>u. t_state (tasks (wake_up q s) u) = TASK_RUNNING) = (\<lambda>u. t_state (tasks s u) = TASK_RUNNING)(waitq s q := True)"
      by (auto simp: wake_up_def fun_eq_iff)
    have c: "chains (waitq s q) (\<lambda>u. t_state (tasks s u) = TASK_RUNNING) L"
      using assms(2) wq_wake(1) by (simp add: wq_inv_def)
    show ?thesis
      unfolding wq_wake(2) wq_inv_def fst_conv snd_conv e
      by (rule chains_wake [OF c conjunct2 [OF True]])
  next
    case False
    then have "wake_up q s = s" by (auto simp: wake_up_def)
    then show ?thesis using assms(2) wq_wake by simp
  qed
next
  case (wq_resume t tmp L s)
  have e: "waitq (wake_tmp tmp s) q = waitq s q"
    "(\<lambda>u. t_state (tasks (wake_tmp tmp s) u) = TASK_RUNNING) =
      (\<lambda>u. u = tmp \<and> tmp \<noteq> 0 \<or> t_state (tasks s u) = TASK_RUNNING)"
    by (auto simp: wake_tmp_def fun_eq_iff)
  have c: "chains (waitq s q) (\<lambda>u. t_state (tasks s u) = TASK_RUNNING) L"
    using assms(2) wq_resume(1) by (simp add: wq_inv_def)
  show ?thesis
    unfolding wq_resume(2) wq_inv_def fst_conv snd_conv e
    by (rule chains_resume [OF c wq_resume(3,4)])
next
  case (wq_other s' s L)
  have "chains (waitq s q) (\<lambda>u. t_state (tasks s u) = TASK_RUNNING) L"
    using assms(2) wq_other(1) by (simp add: wq_inv_def)
  then show ?thesis
    unfolding wq_other(2) wq_inv_def fst_conv snd_conv wq_other(3)
    by (rule chains_cong) (simp add: wq_other(4))
qed

inductive wq_reach :: "u64 \<Rightarrow> 'a sched_scheme \<times> (u64 \<times> u64) list \<Rightarrow> bool" for q :: u64 where
  wq_init: "waitq s q = 0 \<Longrightarrow> wq_reach q (s, [])"
| wq_next: "wq_reach q c \<Longrightarrow> wq_step q c c' \<Longrightarrow> wq_reach q c'"

lemma wq_reach_inv: "wq_reach q c \<Longrightarrow> wq_inv q c"
proof (induction rule: wq_reach.induct)
  case (wq_init s)
  then show ?case by (simp add: wq_inv_def chains_def)
next
  case (wq_next c c')
  then show ?case using wq_inv_step by blast
qed

lemma older_member: "older M \<Longrightarrow> (u, t) \<in> set M \<Longrightarrow> t \<noteq> 0 \<Longrightarrow> t \<in> fst ` set M"
  by (induction M rule: older.induct) auto

lemma woken_pending:
  assumes "chains 0 run L" "\<And>t. t \<in> fst ` set L \<Longrightarrow> \<not> run t"
  shows "L = []"
proof (rule ccontr)
  assume "L \<noteq> []"
  then obtain t v M where L: "L = (t, v) # M" by (cases L) auto
  have z: "0 \<notin> fst ` set L" and r: "\<And>t. t \<in> fst ` set L \<Longrightarrow> \<not> run t \<Longrightarrow> t = 0 \<or> t \<in> snd ` set L"
    and o: "older L" "distinct (map fst L)"
    using assms(1) unfolding chains_def by blast+
  have in_L: "t \<in> fst ` set L" by (simp add: L)
  then have t0: "t \<noteq> 0" and s: "t \<in> snd ` set L" using r [OF in_L] z assms(2) by auto
  from s obtain u where u: "(u, t) \<in> set L" by auto
  have "t \<in> fst ` set M"
  proof (cases "(u, t) = (t, v)")
    case True
    then show ?thesis using o(1) t0 unfolding L older.simps by simp
  next
    case False
    then have "(u, t) \<in> set M" using u unfolding L by auto
    then show ?thesis using o(1) older_member t0 unfolding L older.simps by blast
  qed
  then show False using o(2) unfolding L by simp
qed

subsection \<open>Process numbers\<close>

lemma find_pid_None:
  assumes "find_pid used l = None" "0 \<le> l" "l \<le> v" "v \<le> 2 ^ 63 - 1"
  shows "find_pid used v = None \<and> (l < v \<longrightarrow> used v)"
  using assms(3,4,1,2)
proof (induction v rule: int_ge_induct)
  case base
  then show ?case by simp
next
  case (step v)
  then have "find_pid used v = None" by simp
  moreover have "next_pid v = v + 1" using step by (simp add: next_pid_def)
  ultimately have "used (v + 1)" "find_pid used (v + 1) = None"
    by (subst (asm) find_pid.simps, simp split: if_splits)+
  then show ?case by simp
qed

lemma find_pid_returns:
  assumes "finite {p. used p}" "card {p. used p} \<le> 64" "0 \<le> l" "l < 2 ^ 63"
  shows "\<exists>p. find_pid used l = Some p"
proof (rule ccontr)
  assume "\<not> ?thesis"
  then have n: "find_pid used l = None" by simp
  have "find_pid used (2 ^ 63 - 1) = None" using find_pid_None [OF n assms(3), of "2 ^ 63 - 1"] assms(4) by simp
  moreover have "next_pid (2 ^ 63 - 1) = 1" by (simp add: next_pid_def)
  ultimately have one: "used 1" "find_pid used 1 = None"
    by (subst (asm) find_pid.simps, simp split: if_splits)+
  have "used v" if "v \<in> {1..65}" for v
  proof (cases "v = 1")
    case False
    then show ?thesis using find_pid_None [OF one(2), of v] that by simp
  qed (use one(1) in simp)
  then have "{1..65} \<subseteq> {p. used p}" by blast
  then have "card {1..65 :: int} \<le> card {p. used p}" using card_mono [OF assms(1)] by blast
  then show False using assms(2) by simp
qed

lemma find_pid_Some:
  assumes "find_pid used l = Some p"
  shows "\<not> used p \<and> (0 \<le> l \<longrightarrow> 0 < p)"
proof (rule find_pid.raw_induct [OF _ assms])
  fix f :: "(int \<Rightarrow> bool) \<Rightarrow> int \<Rightarrow> int option" and used l p
  assume IH: "\<And>used l p. f used l = Some p \<Longrightarrow> \<not> used p \<and> (0 \<le> l \<longrightarrow> 0 < p)"
    and r: "(if used (next_pid l) then f used (next_pid l) else Some (next_pid l)) = Some p"
  have pos: "0 \<le> l \<Longrightarrow> 0 < next_pid l" by (auto simp: next_pid_def Let_def)
  show "\<not> used p \<and> (0 \<le> l \<longrightarrow> 0 < p)"
  proof (cases "used (next_pid l)")
    case True
    then have "f used (next_pid l) = Some p" using r by simp
    then have "\<not> used p \<and> (0 \<le> next_pid l \<longrightarrow> 0 < p)" by (rule IH)
    then show ?thesis using pos by auto
  qed (use r pos in auto)
qed

lemma pid_used_finite: "finite {p. pid_used s p}" "card {p. pid_used s p} \<le> 64"
proof -
  have sub: "{p. pid_used s p} \<subseteq> (\<lambda>i. t_pid (tasks s (task s i))) ` {..<64}"
    by (auto simp: pid_used_def NR_TASKS_def)
  then show "finite {p. pid_used s p}" using finite_subset by blast
  have "card {p. pid_used s p} \<le> card ((\<lambda>i. t_pid (tasks s (task s i))) ` {..<64 :: nat})"
    using sub by (intro card_mono) auto
  also have "\<dots> \<le> card {..<64 :: nat}" by (rule card_image_le) simp
  finally show "card {p. pid_used s p} \<le> 64" by simp
qed

subsection \<open>Sending signals\<close>

definition permitted :: "bool \<Rightarrow> task_struct \<Rightarrow> task_struct \<Rightarrow> bool" where
  "permitted priv c t \<longleftrightarrow> priv \<or> t_uid c = t_uid t \<or> t_euid c = t_uid t \<or> t_uid c = t_euid t \<or> t_euid c = t_euid t"

definition kill_upd :: "int \<Rightarrow> int \<Rightarrow> bool \<Rightarrow> 'a sched_scheme \<Rightarrow> task_struct \<Rightarrow> task_struct" where
  "kill_upd pid sig priv s t =
     (if (if pid = 0 then t_pgrp t = t_pid (tasks s (current s)) else if 0 < pid then t_pid t = pid
          else pid = - 1 \<or> t_pgrp t = - pid)
        \<and> 1 \<le> sig \<and> sig \<le> 32 \<and> permitted priv (tasks s (current s)) t
      then t\<lparr>t_signal := t_signal t OR sig_bit (nat sig)\<rparr> else t)"

lemma kill_step_map:
  "(\<lambda>i t. if kill_selects pid t (task t i) then send_sig sig (task t i) priv t else t) = map_slots (kill_upd pid sig priv)"
  by (intro ext) (auto simp: kill_selects_def send_sig_def map_slots_def kill_upd_def permitted_def Let_def upd_task_def)

lemma do_kill_tasks:
  assumes "\<And>i j. present s i \<Longrightarrow> present s j \<Longrightarrow> task s i = task s j \<Longrightarrow> i = j"
  shows "do_kill pid sig priv s = s\<lparr>tasks := \<lambda>p. if p \<noteq> 0 \<and> p \<in> task s ` set slots then kill_upd pid sig priv s (tasks s p) else tasks s p\<rparr>"
  unfolding do_kill_def kill_step_map
proof (rule fold_map_slots [where ids = "\<lambda>t. (t_pid t, t_pgrp t, t_uid t, t_euid t)"])
  fix i j assume "i \<in> set slots" "j \<in> set slots" "task s i = task s j" "task s i \<noteq> 0"
  then show "i = j" using assms [of i j] by (simp add: present_def set_slots)
next
  fix t assume "current t = current s" "\<And>p. (t_pid (tasks t p), t_pgrp (tasks t p), t_uid (tasks t p), t_euid (tasks t p)) =
    (t_pid (tasks s p), t_pgrp (tasks s p), t_uid (tasks s p), t_euid (tasks s p))"
  then show "kill_upd pid sig priv t = kill_upd pid sig priv s"
    by (intro ext) (simp add: kill_upd_def permitted_def cong: if_cong)
qed (simp_all add: distinct_slots kill_upd_def)

subsection \<open>An example process table\<close>

definition plain_task :: task_struct where
  "plain_task = \<lparr>t_state = 0, t_stack = 0, t_counter = 0, t_priority = 15, t_signal = 0, t_sig_fn = \<lambda>_. 0,
     t_exit_code = 0, t_pid = 0, t_father = 0, t_pgrp = 0, t_session = 0, t_leader = 0, t_uid = 0, t_euid = 0, t_gid = 0, t_egid = 0,
     t_alarm = 0, t_utime = 0, t_stime = 0, t_cutime = 0, t_cstime = 0, t_start_time = 0, t_tty = - 1,
     t_umask = 0, t_pwd = 0, t_root = 0, t_close_on_exec = 0, t_filp = \<lambda>_. 0\<rparr>"

definition two_tasks :: sched where
  "two_tasks = \<lparr>mem_map = \<lambda>_. 0, pmem = \<lambda>_. 0, satp = 0, current = 8192,
     task = (\<lambda>_. 0)(0 := 4096, 1 := 8192, 2 := 12288), task_pgd = \<lambda>_. 0, swapper_pg_dir = 0,
     tasks = (\<lambda>_. plain_task)(8192 := plain_task\<lparr>t_pid := 1\<rparr>, 12288 := plain_task\<lparr>t_pid := 2, t_counter := 3\<rparr>),
     jiffies = 0, last_pid = 1, last_task_used_math = 0, waitq = \<lambda>_. 0\<rparr>"

lemma two_tasks_present: "present two_tasks i \<longleftrightarrow> i = 1 \<or> i = 2"
  by (auto simp: present_def two_tasks_def NR_TASKS_def)

lemma two_tasks_ok: "sched_ok two_tasks"
  unfolding sched_ok_def two_tasks_present by (auto simp: two_tasks_def plain_task_def)

subsection \<open>Properties\<close>

text \<open>C8: \<open>schedule\<close> first makes every interruptible task runnable that has a pending signal or an
  expired alarm, and then hands to \<open>context_switch\<close> the slot of a runnable task with the largest
  counter, which is positive (0, the idle task, when no task of slots 1 to 63 is runnable).  The
  loop that renews the counters ends after at most one round.\<close>

theorem schedule_picks_best:
  assumes "sched_ok s"
  shows "\<exists>n t. schedule s = context_switch (current s) (of_nat n) t \<and> n < NR_TASKS \<and> best_slot t n
     \<and> ((\<exists>i. runnable t i) \<longrightarrow> 0 < slot_counter t n) \<and> task t = task s \<and> current t = current s
     \<and> (\<forall>i. runnable t i \<longleftrightarrow> present s i \<and> (t_state (tasks s (task s i)) = TASK_RUNNING
          \<or> t_state (tasks s (task s i)) = TASK_INTERRUPTIBLE
            \<and> (t_signal (tasks s (task s i)) \<noteq> 0 \<or> alarm_due s (tasks s (task s i)))))"
proof -
  let ?a = "fold sched_alarm slots s"
  note a = sched_ok_alarm [OF assms]
  obtain n t where t: "sched_loop ?a = Some (n, t)" "t = ?a \<or> t = recalc ?a" "best_slot t n"
    "(\<exists>i. runnable t i) \<longrightarrow> 0 < slot_counter t n"
    using sched_loop_spec [OF a(1)] by blast
  have f: "task t = task s" "current t = current s"
    using t(2) a(2,3) recalc_frame [OF a(1)] by auto
  have r: "runnable t i \<longleftrightarrow> runnable ?a i" for i using t(2) runnable_recalc [OF a(1)] by auto
  have "runnable t i \<longleftrightarrow> present s i \<and> t_state (after_alarm s (tasks s (task s i))) = TASK_RUNNING" for i
    unfolding r using a(2) a(4) [of i] by (auto simp: runnable_def present_def)
  moreover have "n < NR_TASKS"
    using t(3) by (auto simp: best_slot_def runnable_def present_def NR_TASKS_def split: if_splits)
  moreover have "schedule s = context_switch (current s) (of_nat n) t"
    using t(1) f(2) by (simp add: schedule_def Let_def)
  ultimately show ?thesis using t(3,4) f unfolding after_alarm_running by blast
qed

theorem schedule_picks_best_witness:
  "\<exists>n t. schedule two_tasks = context_switch (current two_tasks) (of_nat n) t \<and> best_slot t n \<and> n < NR_TASKS"
  using schedule_picks_best [OF two_tasks_ok] by blast

text \<open>C11: \<open>schedule\<close> passes the slot number where \<open>context_switch\<close> expects the address of a task, so
  the processor is never given to another task: the switch reads through an address below 64.\<close>

theorem schedule_never_switches:
  assumes "sched_ok s"
  shows "\<exists>n t. n < NR_TASKS \<and> schedule s = Inl (BadAccess (of_nat n), t) \<and> current t = current s"
proof -
  obtain n t where n: "schedule s = context_switch (current s) (of_nat n) t" "n < NR_TASKS" "current t = current s"
  proof -
    let ?a = "fold sched_alarm slots s"
    note a = sched_ok_alarm [OF assms]
    obtain n t where t: "sched_loop ?a = Some (n, t)" "t = ?a \<or> t = recalc ?a" "best_slot t n"
      using sched_loop_spec [OF a(1)] by blast
    have "current t = current s" using t(2) a(2,3) recalc_frame [OF a(1)] by auto
    moreover have "n < NR_TASKS"
      using t(3) by (auto simp: best_slot_def runnable_def present_def NR_TASKS_def split: if_splits)
    ultimately show ?thesis using that t(1) by (simp add: schedule_def Let_def)
  qed
  have "unat (of_nat n :: u64) = n" using n(2) by (simp add: unat_of_nat NR_TASKS_def take_bit_nat_eq_self)
  then have "\<not> direct (of_nat n)" using n(2) by (simp add: direct_def VA_KERNEL_def word_le_nat_alt NR_TASKS_def)
  then show ?thesis using n by (auto simp: context_switch_def)
qed

theorem schedule_never_switches_witness:
  "\<exists>n t. n < NR_TASKS \<and> schedule two_tasks = Inl (BadAccess (of_nat n), t) \<and> current t = current two_tasks"
  by (rule schedule_never_switches [OF two_tasks_ok])

text \<open>C9: no wake-up is lost on a wait queue: if a task still sleeps in \<open>sleep_on\<close>, the head of the
  queue is set or some task of the queue has been woken and has not yet continued (it will wake
  the next one).\<close>

theorem wait_queue_no_lost_wakeup:
  assumes "wq_reach q (s, L)" "waitq s q = 0" "\<forall>t \<in> fst ` set L. t_state (tasks s t) \<noteq> TASK_RUNNING"
  shows "L = []"
  using wq_reach_inv [OF assms(1)] assms(2,3) woken_pending [of _ L] by (auto simp: wq_inv_def)

theorem wait_queue_no_lost_wakeup_witness:
  "\<exists>(s :: sched) L. wq_reach 64 (s, L) \<and> waitq s 64 = 0
     \<and> (\<forall>t \<in> fst ` set L. t_state (tasks s t) \<noteq> TASK_RUNNING) \<and> L = []"
proof -
  define s1 where "s1 = snd (sleep_enter 64 TASK_UNINTERRUPTIBLE (two_tasks\<lparr>current := 8192\<rparr>))"
  have r0: "wq_reach 64 (two_tasks, [])" by (rule wq_init) (simp add: two_tasks_def)
  have e: "sleep_enter 64 TASK_UNINTERRUPTIBLE (two_tasks\<lparr>current := 8192\<rparr>) = (0, s1)"
    by (simp add: s1_def sleep_enter_def two_tasks_def)
  have "wq_step 64 (two_tasks, []) (s1, [(8192, 0)])" by (rule wq_sleep [OF _ _ e]) simp_all
  then have r1: "wq_reach 64 (s1, [(8192, 0)])" using r0 wq_next by blast
  then have r2: "wq_reach 64 (wake_up 64 s1, [(8192, 0)])" using wq_wake wq_next by blast
  have w: "waitq s1 64 = 8192" by (simp add: s1_def sleep_enter_def)
  have "t_state (tasks (wake_up 64 s1) 8192) = TASK_RUNNING" by (simp add: wake_up_def w)
  then have "wq_step 64 (wake_up 64 s1, [(8192, 0)]) (wake_tmp 0 (wake_up 64 s1), filter (\<lambda>x. fst x \<noteq> 8192) [(8192, 0)])"
    by (intro wq_resume) simp_all
  then have r3: "wq_reach 64 (wake_tmp 0 (wake_up 64 s1), [])" using r2 wq_next by fastforce
  moreover have "waitq (wake_tmp 0 (wake_up 64 s1)) 64 = 0" by (simp add: wake_tmp_def wake_up_def w)
  ultimately show ?thesis using wait_queue_no_lost_wakeup [OF r3] by fastforce
qed

text \<open>\<open>find_empty_process\<close> returns, and the process number it leaves in \<open>last_pid\<close> is positive and
  that of no task; its result is the lowest free slot of the task table, or -EAGAIN exactly when
  the slots 1 to 63 are taken.\<close>

theorem find_empty_process_fresh:
  assumes "0 \<le> last_pid s" "last_pid s < 2 ^ 63"
  shows "\<exists>r pid. find_empty_process s = Inr (r, s\<lparr>last_pid := pid\<rparr>) \<and> 0 < pid
     \<and> (\<forall>i < NR_TASKS. task s i \<noteq> 0 \<longrightarrow> t_pid (tasks s (task s i)) \<noteq> pid)
     \<and> (if \<exists>i. 1 \<le> i \<and> i < NR_TASKS \<and> task s i = 0
         then \<exists>i. r = int i \<and> 1 \<le> i \<and> i < NR_TASKS \<and> task s i = 0 \<and> (\<forall>j. 1 \<le> j \<and> j < i \<longrightarrow> task s j \<noteq> 0)
         else r = - EAGAIN)"
proof -
  obtain pid where p: "find_pid (pid_used s) (last_pid s) = Some pid"
    using find_pid_returns [OF pid_used_finite assms] by blast
  have u: "\<not> pid_used s pid" "0 < pid" using find_pid_Some [OF p] assms(1) by auto
  show ?thesis
  proof (cases "find (\<lambda>i. task s i = 0) [1..<NR_TASKS]")
    case None
    then have "\<not> (\<exists>i. 1 \<le> i \<and> i < NR_TASKS \<and> task s i = 0)" unfolding find_upt_None_iff by blast
    moreover have "find_empty_process s = Inr (- EAGAIN, s\<lparr>last_pid := pid\<rparr>)"
      using p None by (simp add: find_empty_process_def)
    ultimately show ?thesis using u by (intro exI [of _ "- EAGAIN"] exI [of _ pid]) (auto simp: pid_used_def)
  next
    case (Some i)
    then have "1 \<le> i \<and> i < NR_TASKS \<and> task s i = 0 \<and> (\<forall>j. 1 \<le> j \<and> j < i \<longrightarrow> task s j \<noteq> 0)"
      unfolding find_upt_Some_iff by blast
    moreover have "find_empty_process s = Inr (int i, s\<lparr>last_pid := pid\<rparr>)"
      using p Some by (simp add: find_empty_process_def)
    ultimately show ?thesis using u by (intro exI [of _ "int i"] exI [of _ pid]) (auto simp: pid_used_def)
  qed
qed

theorem find_empty_process_fresh_witness:
  "\<exists>r pid. find_empty_process two_tasks = Inr (r, two_tasks\<lparr>last_pid := pid\<rparr>) \<and> 0 < pid"
proof -
  have "0 \<le> last_pid two_tasks" "last_pid two_tasks < 2 ^ 63" by (simp_all add: two_tasks_def)
  from find_empty_process_fresh [OF this] show ?thesis by blast
qed

text \<open>The tasks a signal is for: tasks of the slots 1 to 63 which the process number addresses and which the caller shares
  a user number with, unless it is privileged.\<close>

definition kill_targets :: "int \<Rightarrow> bool \<Rightarrow> 'a sched_scheme \<Rightarrow> u64 set" where
  "kill_targets pid priv s =
     (let c = tasks s (current s);
          group = (\<lambda>g. {p. t_pgrp (tasks s p) = g}) in
      (task s ` {1..63} - {0})
      \<inter> (if pid = - 1 then UNIV else if pid < 0 then group (- pid) else if pid = 0 then group (t_pid c)
         else {p. t_pid (tasks s p) = pid})
      \<inter> {p. priv \<or> {t_uid c, t_euid c} \<inter> {t_uid (tasks s p), t_euid (tasks s p)} \<noteq> {}})"

text \<open>C10: \<open>do_kill\<close> sets the bit of the signal in exactly the tasks that \<open>kill_targets\<close> names: of the slots 1
  to 63, for a positive argument the task with this process number, for -1 all tasks, for other negative arguments the
  process group, for 0 the tasks whose process group is the caller's process number, as far as the caller may signal them.  Nothing
  else changes: not the task in slot 0, no other task and nothing outside the tasks; a signal number outside 1 to 32 changes
  nothing.  No two slots may name the same task, and the signal number 32, whose bit is shifted out of \<open>int\<close>, is left out.\<close>

theorem do_kill_delivers:
  assumes "\<And>i j. present s i \<Longrightarrow> present s j \<Longrightarrow> task s i = task s j \<Longrightarrow> i = j" "sig \<noteq> 32"
  shows "do_kill pid sig priv s =
    s\<lparr>tasks := \<lambda>p. if p \<in> kill_targets pid priv s \<and> 1 \<le> sig \<and> sig < 32
        then (tasks s p)\<lparr>t_signal := t_signal (tasks s p) OR 2 ^ (nat sig - 1)\<rparr> else tasks s p\<rparr>"
proof -
  have bit: "1 \<le> sig \<Longrightarrow> sig < 32 \<Longrightarrow> sig_bit (nat sig) = 2 ^ (nat sig - 1)"
    using sig_bit_low [of "nat sig"] by (simp add: push_bit_of_1)
  have slot: "p \<noteq> 0 \<and> p \<in> task s ` set slots \<longleftrightarrow> p \<in> task s ` {1..63} - {0}" for p
    by (auto simp: set_slots NR_TASKS_def)
  have "(if p \<noteq> 0 \<and> p \<in> task s ` set slots then kill_upd pid sig priv s (tasks s p) else tasks s p)
      = (if p \<in> kill_targets pid priv s \<and> 1 \<le> sig \<and> sig < 32
         then (tasks s p)\<lparr>t_signal := t_signal (tasks s p) OR 2 ^ (nat sig - 1)\<rparr> else tasks s p)" for p
  proof -
    have "p \<in> kill_targets pid priv s \<longleftrightarrow> p \<in> task s ` {1..63} - {0}
        \<and> (if pid = 0 then t_pgrp (tasks s p) = t_pid (tasks s (current s)) else if 0 < pid then t_pid (tasks s p) = pid
           else pid = - 1 \<or> t_pgrp (tasks s p) = - pid) \<and> permitted priv (tasks s (current s)) (tasks s p)"
    proof -
      have "permitted priv c t \<longleftrightarrow> priv \<or> {t_uid c, t_euid c} \<inter> {t_uid t, t_euid t} \<noteq> {}" for c t
        by (auto simp: permitted_def)
      then show ?thesis by (simp add: kill_targets_def Let_def)
    qed
    moreover have "\<not> (1 \<le> sig \<and> sig < 32) \<Longrightarrow> kill_upd pid sig priv s (tasks s p) = tasks s p"
      using assms(2) by (auto simp: kill_upd_def)
    ultimately show ?thesis unfolding slot
      by (cases "1 \<le> sig \<and> sig < 32") (simp add: kill_upd_def bit, meson)
  qed
  then show ?thesis using do_kill_tasks [of s pid sig priv] assms(1) by presburger
qed

theorem do_kill_delivers_witness:
  "t_signal (tasks (do_kill (- 1) 9 True two_tasks) 12288) = 256 \<and> t_signal (tasks (do_kill (- 1) 9 True two_tasks) 4096) = 0"
proof -
  have inj: "\<And>i j. present two_tasks i \<Longrightarrow> present two_tasks j \<Longrightarrow> task two_tasks i = task two_tasks j \<Longrightarrow> i = j"
    using two_tasks_ok unfolding sched_ok_def by blast
  have k: "tasks (do_kill (- 1) 9 True two_tasks) p = (if p \<in> kill_targets (- 1) True two_tasks
      then (tasks two_tasks p)\<lparr>t_signal := t_signal (tasks two_tasks p) OR 2 ^ (nat 9 - 1)\<rparr> else tasks two_tasks p)" for p
    by (subst do_kill_delivers) (use inj in simp_all)
  have "12288 \<in> kill_targets (- 1) True two_tasks" "4096 \<notin> kill_targets (- 1) True two_tasks"
    by (auto simp: kill_targets_def two_tasks_def Let_def intro!: image_eqI [of _ _ 2])
  then show ?thesis by (simp add: k) (simp add: two_tasks_def plain_task_def)
qed

end
