(* ===== verification/Ring.thy ===== *)
theory Ring
  imports Kernel_Prelude
begin

text \<open>
  Ring buffers.  \<open>bounded_fifo\<close> is the contract of a bounded first-in first-out queue; \<open>ring\<close> is
  the contract of an array of \<open>N\<close> elements with a write index and a read index in which one slot
  stays unused, and it provides the first.  The queues of the terminals (\<open>linux/tty.h\<close>) are an
  interpretation; the pipes (\<open>fs/pipe.c\<close>) use the list of the elements between the indices.
\<close>

subsection \<open>Bounded queues\<close>

primrec drain :: "('q \<Rightarrow> 'c \<times> 'q) \<Rightarrow> nat \<Rightarrow> 'q \<Rightarrow> 'c list \<times> 'q" where
  "drain get 0 q = ([], q)"
| "drain get (Suc n) q = (let (c, q') = get q; (cs, r) = drain get n q' in (c # cs, r))"

locale bounded_fifo =
  fixes wf :: "'q \<Rightarrow> bool" and contents :: "'q \<Rightarrow> 'c list" and capacity :: nat
    and put :: "'c \<Rightarrow> 'q \<Rightarrow> 'q" and get :: "'q \<Rightarrow> 'c \<times> 'q"
    and is_empty :: "'q \<Rightarrow> bool" and is_full :: "'q \<Rightarrow> bool"
  assumes wf_put: "wf q \<Longrightarrow> wf (put c q)"
    and wf_get: "wf q \<Longrightarrow> wf (snd (get q))"
    and bounded: "wf q \<Longrightarrow> length (contents q) \<le> capacity"
    and empty_iff: "wf q \<Longrightarrow> is_empty q \<longleftrightarrow> contents q = []"
    and full_iff: "wf q \<Longrightarrow> is_full q \<longleftrightarrow> length (contents q) = capacity"
    and contents_put: "wf q \<Longrightarrow> \<not> is_full q \<Longrightarrow> contents (put c q) = contents q @ [c]"
    and contents_get: "wf q \<Longrightarrow> \<not> is_empty q \<Longrightarrow> contents q = fst (get q) # contents (snd (get q))"
begin

lemma put_all:
  assumes "wf q" "length (contents q) + length cs \<le> capacity"
  shows "wf (fold put cs q) \<and> contents (fold put cs q) = contents q @ cs"
  using assms
proof (induction cs arbitrary: q)
  case (Cons c cs)
  then have "\<not> is_full q" using full_iff [of q] by simp
  then have "contents (put c q) = contents q @ [c]" using Cons.prems(1) contents_put by simp
  then show ?case using Cons wf_put [of q c] by simp
qed simp

lemma drain_all:
  assumes "wf q" "n \<le> length (contents q)"
  shows "fst (drain get n q) = take n (contents q) \<and> wf (snd (drain get n q))
    \<and> contents (snd (drain get n q)) = drop n (contents q)"
  using assms
proof (induction n arbitrary: q)
  case (Suc n)
  then have "\<not> is_empty q" using empty_iff [of q] by auto
  then have c: "contents q = fst (get q) # contents (snd (get q))" using Suc.prems(1) contents_get by simp
  then have "n \<le> length (contents (snd (get q)))" using Suc.prems(2) by (metis Suc_le_mono length_Cons)
  note IH = Suc.IH [OF wf_get [OF Suc.prems(1)] this]
  have "drain get (Suc n) q = (fst (get q) # fst (drain get n (snd (get q))), snd (drain get n (snd (get q))))"
    by (simp add: Let_def split_beta)
  then show ?case using IH by (subst (1 2) c) simp
qed simp

lemma fifo:
  assumes "wf q" "is_empty q" "length cs \<le> capacity"
  shows "fst (drain get (length cs) (fold put cs q)) = cs \<and> is_empty (snd (drain get (length cs) (fold put cs q)))"
proof -
  have e: "contents q = []" using assms empty_iff by simp
  then have p: "wf (fold put cs q)" "contents (fold put cs q) = cs"
    using put_all [OF assms(1), of cs] assms(3) by auto
  then show ?thesis using drain_all [of "fold put cs q" "length cs"] empty_iff by auto
qed

end

subsection \<open>Index arithmetic\<close>

definition ring_len :: "nat \<Rightarrow> nat \<Rightarrow> nat \<Rightarrow> nat" where
  "ring_len N h t = (h + N - t) mod N"

definition ring_list :: "nat \<Rightarrow> (nat \<Rightarrow> 'c) \<Rightarrow> nat \<Rightarrow> nat \<Rightarrow> 'c list" where
  "ring_list N b h t = map (\<lambda>i. b ((t + i) mod N)) [0..<ring_len N h t]"

lemma ring_len_cases:
  "h < N \<Longrightarrow> t < N \<Longrightarrow> ring_len N h t = (if t \<le> h then h - t else h + N - t)"
  by (auto simp: ring_len_def mod_if)

lemma length_ring_list [simp]: "length (ring_list N b h t) = ring_len N h t"
  by (simp add: ring_list_def)

lemma ring_len_less: "0 < N \<Longrightarrow> ring_len N h t < N"
  by (simp add: ring_len_def)

lemma ring_len_put:
  "h < N \<Longrightarrow> t < N \<Longrightarrow> ring_len N h t \<noteq> N - 1 \<Longrightarrow> ring_len N ((h + 1) mod N) t = ring_len N h t + 1"
  by (cases "h + 1 < N") (auto simp: ring_len_cases mod_if split: if_splits)

lemma ring_list_put:
  assumes "h < N" "t < N" "ring_len N h t \<noteq> N - 1"
  shows "ring_list N (b(h := c)) ((h + 1) mod N) t = ring_list N b h t @ [c]"
proof (rule nth_equalityI)
  show "length (ring_list N (b(h := c)) ((h + 1) mod N) t) = length (ring_list N b h t @ [c])"
    using ring_len_put [OF assms] by simp
  fix i assume "i < length (ring_list N (b(h := c)) ((h + 1) mod N) t)"
  then have i: "i < ring_len N h t + 1" using ring_len_put [OF assms] by simp
  have "(t + i) mod N = h \<longleftrightarrow> i = ring_len N h t"
    using i assms ring_len_less [of N h t] by (auto simp: ring_len_cases mod_if split: if_splits)
  then show "ring_list N (b(h := c)) ((h + 1) mod N) t ! i = (ring_list N b h t @ [c]) ! i"
    using i ring_len_put [OF assms] by (auto simp: ring_list_def nth_append)
qed

lemma ring_list_overflow:
  assumes "h < N" "t < N" "ring_len N h t = N - 1"
  shows "(h + 1) mod N = t"
  using assms by (auto simp: ring_len_cases mod_if split: if_splits)

lemma ring_len_get:
  "h < N \<Longrightarrow> t < N \<Longrightarrow> h \<noteq> t \<Longrightarrow> ring_len N h t = Suc (ring_len N h ((t + 1) mod N))"
  by (cases "t + 1 < N") (auto simp: ring_len_cases mod_if split: if_splits)

lemma ring_list_get:
  assumes "h < N" "t < N" "h \<noteq> t"
  shows "ring_list N b h t = b t # ring_list N b h ((t + 1) mod N)"
proof -
  have "ring_list N b h t = map (\<lambda>i. b ((t + i) mod N)) (0 # map Suc [0..<ring_len N h ((t + 1) mod N)])"
    unfolding ring_list_def ring_len_get [OF assms] by (simp only: upt_conv_Cons zero_less_Suc map_Suc_upt)
  also have "\<dots> = b t # map (\<lambda>i. b ((t + Suc i) mod N)) [0..<ring_len N h ((t + 1) mod N)]"
    using assms(2) by simp
  finally show ?thesis by (simp add: ring_list_def mod_simps)
qed

subsection \<open>Rings\<close>

locale ring =
  fixes N :: nat and hix :: "'q \<Rightarrow> nat" and tix :: "'q \<Rightarrow> nat" and arr :: "'q \<Rightarrow> nat \<Rightarrow> 'c"
    and put :: "'c \<Rightarrow> 'q \<Rightarrow> 'q" and get :: "'q \<Rightarrow> 'c \<times> 'q"
    and is_empty :: "'q \<Rightarrow> bool" and is_full :: "'q \<Rightarrow> bool"
  assumes N_pos: "1 < N"
    and put_ix: "hix q < N \<Longrightarrow> tix q < N \<Longrightarrow>
      hix (put c q) = (hix q + 1) mod N \<and> tix (put c q) = tix q \<and> arr (put c q) = (arr q)(hix q := c)"
    and get_ix: "hix q < N \<Longrightarrow> tix q < N \<Longrightarrow> fst (get q) = arr q (tix q) \<and>
      hix (snd (get q)) = hix q \<and> tix (snd (get q)) = (tix q + 1) mod N \<and> arr (snd (get q)) = arr q"
    and empty_ix: "hix q < N \<Longrightarrow> tix q < N \<Longrightarrow> is_empty q \<longleftrightarrow> hix q = tix q"
    and full_ix: "hix q < N \<Longrightarrow> tix q < N \<Longrightarrow> is_full q \<longleftrightarrow> ring_len N (hix q) (tix q) = N - 1"
begin

lemma put_overflow:
  assumes "hix q < N" "tix q < N" "is_full q"
  shows "is_empty (put c q)"
  using assms put_ix [OF assms(1,2), of c] full_ix [OF assms(1,2)] empty_ix [of "put c q"]
    ring_list_overflow [OF assms(1,2)] by simp

end

sublocale ring \<subseteq> fifo: bounded_fifo
  "\<lambda>q. hix q < N \<and> tix q < N" "\<lambda>q. ring_list N (arr q) (hix q) (tix q)" "N - 1" put get is_empty is_full
proof
  fix q c
  assume q: "hix q < N \<and> tix q < N"
  have len: "ring_len N (hix q) (tix q) = 0 \<longleftrightarrow> hix q = tix q"
    using q by (auto simp: ring_len_cases)
  show "hix (put c q) < N \<and> tix (put c q) < N" using q put_ix [of q c] N_pos by simp
  show "hix (snd (get q)) < N \<and> tix (snd (get q)) < N" using q get_ix [of q] N_pos by simp
  show "length (ring_list N (arr q) (hix q) (tix q)) \<le> N - 1"
    using ring_len_less [of N "hix q" "tix q"] N_pos by simp
  show "is_empty q \<longleftrightarrow> ring_list N (arr q) (hix q) (tix q) = []"
    using q len empty_ix by (simp add: ring_list_def)
  show "is_full q \<longleftrightarrow> length (ring_list N (arr q) (hix q) (tix q)) = N - 1"
    using q full_ix by simp
  show "ring_list N (arr (put c q)) (hix (put c q)) (tix (put c q)) = ring_list N (arr q) (hix q) (tix q) @ [c]"
    if "\<not> is_full q"
    using q that put_ix [of q c] full_ix [of q] ring_list_put [of "hix q" N "tix q"] by simp
  show "ring_list N (arr q) (hix q) (tix q) = fst (get q) #
      ring_list N (arr (snd (get q))) (hix (snd (get q))) (tix (snd (get q)))"
    if "\<not> is_empty q"
    using q that get_ix [of q] empty_ix [of q] ring_list_get [of "hix q" N "tix q"] by simp
qed

end
