(* ===== verification/Tty.thy ===== *)
theory Tty
  imports Sched Ring Lib_Ctype
begin

text \<open>
  Model of the terminals: the queue macros of \<open>linux/tty.h\<close>, \<open>kernel/tty_io.c\<close>, the serial line
  driver \<open>kernel/rs_io.c\<close> and \<open>flush\<close> of \<open>fs/tty_ioctl.c\<close>.

  A queue is the record of its C fields; of \<open>proc_list\<close> the record holds the address, the head of
  the wait queue being \<open>waitq\<close> of the scheduler state.  The serial chip is its interrupt enable
  register and the bytes written to its transmit register.  The user buffers of \<open>tty_read\<close> and
  \<open>tty_write\<close> are the bytes delivered and the bytes to send.
\<close>

subsection \<open>Queues\<close>

record tty_queue =
  q_data :: u64
  q_head :: u64
  q_tail :: u64
  q_wait :: u64                 \<comment> \<open>address of \<open>proc_list\<close>\<close>
  q_buf :: "nat \<Rightarrow> u8"        \<comment> \<open>\<open>buf[TTY_BUF_SIZE]\<close>\<close>

definition INC :: "u64 \<Rightarrow> u64" where "INC a = (a + 1) AND (1024 - 1)"
definition DEC :: "u64 \<Rightarrow> u64" where "DEC a = (a - 1) AND (1024 - 1)"

definition EMPTY :: "tty_queue \<Rightarrow> bool" where
  "EMPTY q \<longleftrightarrow> q_head q = q_tail q"

definition LEFT :: "tty_queue \<Rightarrow> u64" where
  "LEFT q = (q_tail q - q_head q - 1) AND (1024 - 1)"

definition LAST :: "tty_queue \<Rightarrow> u8" where
  "LAST q = q_buf q (unat ((1024 - 1) AND (q_head q - 1)))"

definition FULL :: "tty_queue \<Rightarrow> bool" where
  "FULL q \<longleftrightarrow> LEFT q = 0"

definition CHARS :: "tty_queue \<Rightarrow> u64" where
  "CHARS q = (q_head q - q_tail q) AND (1024 - 1)"

definition GETCH :: "tty_queue \<Rightarrow> u8 \<times> tty_queue" where
  "GETCH q = (q_buf q (unat (q_tail q)), q\<lparr>q_tail := INC (q_tail q)\<rparr>)"

definition PUTCH :: "u8 \<Rightarrow> tty_queue \<Rightarrow> tty_queue" where
  "PUTCH c q = q\<lparr>q_buf := (q_buf q)(unat (q_head q) := c), q_head := INC (q_head q)\<rparr>"

definition flush :: "tty_queue \<Rightarrow> tty_queue" where
  "flush q = q\<lparr>q_head := q_tail q\<rparr>"

subsection \<open>Terminals\<close>

record termios =
  c_iflag :: u64
  c_oflag :: u64
  c_cflag :: u64
  c_lflag :: u64
  c_line :: u8
  c_cc :: "nat \<Rightarrow> u8"

datatype tty_writer = NullWrite | RsWrite

record tty_struct =
  termios :: termios
  pgrp :: int
  stopped :: bool
  write_fn :: tty_writer
  read_q :: tty_queue
  write_q :: tty_queue
  secondary :: tty_queue

record ttys = sched +
  tty_table :: "nat \<Rightarrow> tty_struct"
  cr_flag :: bool
  uart_ier :: u8
  uart_sent :: "u8 list"

definition upd_tty :: "nat \<Rightarrow> (tty_struct \<Rightarrow> tty_struct) \<Rightarrow> 'a ttys_scheme \<Rightarrow> 'a ttys_scheme" where
  "upd_tty n f s = s\<lparr>tty_table := (tty_table s)(n := f (tty_table s n))\<rparr>"

definition I_FLAG :: "u64 \<Rightarrow> tty_struct \<Rightarrow> bool" where "I_FLAG f t \<longleftrightarrow> c_iflag (termios t) AND f \<noteq> 0"
definition O_FLAG :: "u64 \<Rightarrow> tty_struct \<Rightarrow> bool" where "O_FLAG f t \<longleftrightarrow> c_oflag (termios t) AND f \<noteq> 0"
definition L_FLAG :: "u64 \<Rightarrow> tty_struct \<Rightarrow> bool" where "L_FLAG f t \<longleftrightarrow> c_lflag (termios t) AND f \<noteq> 0"

definition INLCR :: u64 where "INLCR = 0x40"
definition IGNCR :: u64 where "IGNCR = 0x80"
definition ICRNL :: u64 where "ICRNL = 0x100"
definition IUCLC :: u64 where "IUCLC = 0x200"
definition OPOST :: u64 where "OPOST = 1"
definition OLCUC :: u64 where "OLCUC = 2"
definition ONLCR :: u64 where "ONLCR = 4"
definition OCRNL :: u64 where "OCRNL = 8"
definition ONLRET :: u64 where "ONLRET = 0x20"
definition ISIG :: u64 where "ISIG = 1"
definition ICANON :: u64 where "ICANON = 2"
definition ECHO :: u64 where "ECHO = 8"
definition ECHOCTL :: u64 where "ECHOCTL = 0x200"

definition INTR_CHAR :: "tty_struct \<Rightarrow> int" where "INTR_CHAR t = uint (c_cc (termios t) 0)"
definition ERASE_CHAR :: "tty_struct \<Rightarrow> int" where "ERASE_CHAR t = uint (c_cc (termios t) 2)"
definition EOF_CHAR :: "tty_struct \<Rightarrow> int" where "EOF_CHAR t = uint (c_cc (termios t) 4)"
definition START_CHAR :: "tty_struct \<Rightarrow> int" where "START_CHAR t = uint (c_cc (termios t) 8)"
definition STOP_CHAR :: "tty_struct \<Rightarrow> int" where "STOP_CHAR t = uint (c_cc (termios t) 9)"

definition SIGINT :: nat where "SIGINT = 2"

text \<open>The initial \<open>tty_table\<close>; \<open>w\<close> gives the addresses of the wait queue heads.\<close>

definition init_c_cc :: "nat \<Rightarrow> u8" where
  "init_c_cc i = (let l = [3, 28, 127, 21, 4, 0, 1, 0, 17, 19, 25, 0, 18, 15, 23, 22, 0] in
     if i < length l then l ! i else 0)"

definition empty_queue :: "u64 \<Rightarrow> u64 \<Rightarrow> tty_queue" where
  "empty_queue d w = \<lparr>q_data = d, q_head = 0, q_tail = 0, q_wait = w, q_buf = \<lambda>_. 0\<rparr>"

definition init_tty_table :: "(nat \<Rightarrow> nat \<Rightarrow> u64) \<Rightarrow> nat \<Rightarrow> tty_struct" where
  "init_tty_table w n =
     (if n = 0 then
        \<lparr>termios = \<lparr>c_iflag = 0, c_oflag = OPOST OR ONLCR, c_cflag = 0,
                    c_lflag = ICANON OR ECHO OR ECHOCTL OR 0x800, c_line = 0, c_cc = init_c_cc\<rparr>,
         pgrp = 0, stopped = False, write_fn = NullWrite,
         read_q = empty_queue 0 (w n 0), write_q = empty_queue 0 (w n 1), secondary = empty_queue 0 (w n 2)\<rparr>
      else
        let port = (if n = 1 then 0x3f8 else 0x2f8) in
        \<lparr>termios = \<lparr>c_iflag = 0, c_oflag = OPOST OR ONLRET, c_cflag = 0x3B, c_lflag = 0, c_line = 0,
                    c_cc = init_c_cc\<rparr>,
         pgrp = 0, stopped = False, write_fn = RsWrite,
         read_q = empty_queue port (w n 0), write_q = empty_queue port (w n 1), secondary = empty_queue 0 (w n 2)\<rparr>)"

subsection \<open>The serial line\<close>

definition rs_write :: "nat \<Rightarrow> 'a ttys_scheme \<Rightarrow> 'a ttys_scheme" where
  "rs_write n s = (if \<not> EMPTY (write_q (tty_table s n)) then s\<lparr>uart_ier := uart_ier s OR 2\<rparr> else s)"

text \<open>\<open>tty->write(tty)\<close>.\<close>

definition call_write :: "nat \<Rightarrow> 'a ttys_scheme \<Rightarrow> ('a ttys_scheme, unit) kres" where
  "call_write n s =
     (case write_fn (tty_table s n) of NullWrite \<Rightarrow> Inl (BadAccess 0, s) | RsWrite \<Rightarrow> Inr ((), rs_write n s))"

subsection \<open>Input\<close>

definition tty_intr :: "nat \<Rightarrow> nat \<Rightarrow> 'a ttys_scheme \<Rightarrow> 'a ttys_scheme" where
  "tty_intr n signal s =
     (if pgrp (tty_table s n) \<le> 0 then s
      else fold (\<lambda>i t. if task t i \<noteq> 0 \<and> t_pgrp (tasks t (task t i)) = pgrp (tty_table t n)
                       then upd_task (task t i) (\<lambda>x. x\<lparr>t_signal := t_signal x OR sig_bit signal\<rparr>) t
                       else t) [0..<NR_TASKS] s)"

definition put_write :: "u8 \<Rightarrow> nat \<Rightarrow> 'a ttys_scheme \<Rightarrow> 'a ttys_scheme" where
  "put_write c n = upd_tty n (\<lambda>t. t\<lparr>write_q := PUTCH c (write_q t)\<rparr>)"

text \<open>The body of the loop of \<open>copy_to_cooked\<close> after \<open>GETCH\<close>, in the parts in which the source has
  them: the translation of carriage return and newline (\<open>None\<close> is \<open>continue\<close>), the lower case
  mapping, the erase character, the echo, and the rest.  The variable \<open>c\<close> is a \<open>signed char\<close>.\<close>

definition cook_crnl :: "tty_struct \<Rightarrow> int \<Rightarrow> int option" where
  "cook_crnl t c =
     (if c = 13 then if I_FLAG ICRNL t then Some 10 else if I_FLAG IGNCR t then None else Some c
      else if c = 10 \<and> I_FLAG INLCR t then Some 13 else Some c)"

definition cook_lower :: "tty_struct \<Rightarrow> int \<Rightarrow> int" where
  "cook_lower t c =
     (if I_FLAG IUCLC t then sint (word_of_int (tolower (word_of_int c)) :: u8) else c)"

definition cook_erase :: "nat \<Rightarrow> 'a ttys_scheme \<Rightarrow> ('a ttys_scheme, unit) kres" where
  "cook_erase n s =
     (let t = tty_table s n; c = sint (LAST (secondary t)) in
      if EMPTY (secondary t) \<or> c = 10 \<or> c = EOF_CHAR t then Inr ((), s)
      else
        kseq (\<lambda>s. if L_FLAG ECHO (tty_table s n)
                  then call_write n (put_write 127 n (if c < 32 then put_write 127 n s else s))
                  else Inr ((), s))
          (kmodify (upd_tty n (\<lambda>t. t\<lparr>secondary := (secondary t)\<lparr>q_head := DEC (q_head (secondary t))\<rparr>\<rparr>))) s)"

definition cook_echo :: "nat \<Rightarrow> int \<Rightarrow> 'a ttys_scheme \<Rightarrow> ('a ttys_scheme, unit) kres" where
  "cook_echo n c s =
     (let t = tty_table s n in
      if L_FLAG ECHO t then
        call_write n
          (if c = 10 then put_write 13 n (put_write 10 n s)
           else if c < 32 then
             if L_FLAG ECHOCTL t then put_write (word_of_int (c + 64)) n (put_write 94 n s) else s
           else put_write (word_of_int c) n s)
      else Inr ((), s))"

definition cook_store :: "nat \<Rightarrow> int \<Rightarrow> 'a ttys_scheme \<Rightarrow> ('a ttys_scheme, unit) kres" where
  "cook_store n c s =
     kseq (cook_echo n c)
       (kmodify (upd_tty n (\<lambda>t. t\<lparr>secondary := PUTCH (word_of_int c) (secondary t)\<rparr>)))
       (if c = 10 \<or> c = EOF_CHAR (tty_table s n)
        then upd_tty n (\<lambda>t. t\<lparr>secondary := (secondary t)\<lparr>q_data := q_data (secondary t) + 1\<rparr>\<rparr>) s
        else s)"

definition cook_char :: "nat \<Rightarrow> int \<Rightarrow> 'a ttys_scheme \<Rightarrow> ('a ttys_scheme, unit) kres" where
  "cook_char n c0 s =
     (let t = tty_table s n in
      case cook_crnl t c0 of
        None \<Rightarrow> Inr ((), s)
      | Some c1 \<Rightarrow>
          let c = cook_lower t c1 in
          if L_FLAG ICANON t \<and> c = ERASE_CHAR t then cook_erase n s
          else if L_FLAG ICANON t \<and> c = STOP_CHAR t then Inr ((), upd_tty n (\<lambda>t. t\<lparr>stopped := True\<rparr>) s)
          else if L_FLAG ICANON t \<and> c = START_CHAR t then Inr ((), upd_tty n (\<lambda>t. t\<lparr>stopped := False\<rparr>) s)
          else if \<not> L_FLAG ISIG t \<and> c = INTR_CHAR t then Inr ((), tty_intr n SIGINT s)
          else cook_store n c s)"

definition cook_get :: "nat \<Rightarrow> 'a ttys_scheme \<Rightarrow> int \<times> 'a ttys_scheme" where
  "cook_get n s = (let (c, q) = GETCH (read_q (tty_table s n)) in (sint c, upd_tty n (\<lambda>t. t\<lparr>read_q := q\<rparr>) s))"

partial_function (option) cook_loop :: "nat \<Rightarrow> 'a ttys_scheme \<Rightarrow> ('a ttys_scheme, unit) kres option" where
  "cook_loop n s =
     (if \<not> EMPTY (read_q (tty_table s n)) \<and> \<not> FULL (secondary (tty_table s n)) then
        case cook_char n (fst (cook_get n s)) (snd (cook_get n s)) of
          Inl e \<Rightarrow> Some (Inl e)
        | Inr (_, t) \<Rightarrow> cook_loop n t
      else Some (Inr ((), s)))"

definition copy_to_cooked :: "nat \<Rightarrow> 'a ttys_scheme \<Rightarrow> ('a ttys_scheme, unit) kres" where
  "copy_to_cooked n s =
     (case cook_loop n s of
        None \<Rightarrow> Inl (Loops, s)
      | Some (Inl e) \<Rightarrow> Inl e
      | Some (Inr (_, t)) \<Rightarrow> Inr ((), wake_up (q_wait (secondary (tty_table t n))) t))"

text \<open>\<open>do_tty_interrupt(tty)\<close>: \<open>tty_table\<close> has three elements.\<close>

definition do_tty_interrupt :: "nat \<Rightarrow> 'a ttys_scheme \<Rightarrow> ('a ttys_scheme, unit) kres" where
  "do_tty_interrupt n s = (if n < 3 then copy_to_cooked n s else Inl (OutOfBounds, s))"

subsection \<open>Reading\<close>

definition ALRMMASK :: u64 where "ALRMMASK = 0x2000"
definition EINTR :: int where "EINTR = 4"

definition cur_signal :: "'a ttys_scheme \<Rightarrow> u64" where
  "cur_signal s = t_signal (tasks s (current s))"

partial_function (option) sleep_empty_loop :: "nat \<Rightarrow> 'a ttys_scheme \<Rightarrow> ('a ttys_scheme, unit) kres option" where
  "sleep_empty_loop n s =
     (if cur_signal s = 0 \<and> EMPTY (secondary (tty_table s n)) then
        case interruptible_sleep_on (q_wait (secondary (tty_table s n))) s of
          Inl e \<Rightarrow> Some (Inl e) | Inr (_, t) \<Rightarrow> sleep_empty_loop n t
      else Some (Inr ((), s)))"

definition sleep_if_empty :: "nat \<Rightarrow> 'a ttys_scheme \<Rightarrow> ('a ttys_scheme, unit) kres" where
  "sleep_if_empty n s = (case sleep_empty_loop n s of None \<Rightarrow> Inl (Loops, s) | Some r \<Rightarrow> r)"

partial_function (option) sleep_full_loop :: "nat \<Rightarrow> 'a ttys_scheme \<Rightarrow> ('a ttys_scheme, unit) kres option" where
  "sleep_full_loop n s =
     (if cur_signal s = 0 \<and> LEFT (write_q (tty_table s n)) < 128 then
        case interruptible_sleep_on (q_wait (write_q (tty_table s n))) s of
          Inl e \<Rightarrow> Some (Inl e) | Inr (_, t) \<Rightarrow> sleep_full_loop n t
      else Some (Inr ((), s)))"

definition sleep_if_full :: "nat \<Rightarrow> 'a ttys_scheme \<Rightarrow> ('a ttys_scheme, unit) kres" where
  "sleep_if_full n s =
     (if \<not> FULL (write_q (tty_table s n)) then Inr ((), s)
      else case sleep_full_loop n s of None \<Rightarrow> Inl (Loops, s) | Some r \<Rightarrow> r)"

text \<open>The inner \<open>do ... while\<close> of \<open>tty_read\<close>: \<open>nr\<close> bytes may still be read, \<open>b\<close> are those delivered.
  The flag says that an end-of-file character ended the call.\<close>

fun read_chars :: "nat \<Rightarrow> nat \<Rightarrow> u8 list \<Rightarrow> 'a ttys_scheme \<Rightarrow> bool \<times> nat \<times> u8 list \<times> 'a ttys_scheme" where
  "read_chars n 0 b s = (False, 0, b, s)"
| "read_chars n (Suc nr) b s =
     (let t = tty_table s n;
          (c, q) = GETCH (secondary t);
          q' = (if uint c = EOF_CHAR t \<or> c = 10 then q\<lparr>q_data := q_data q - 1\<rparr> else q);
          s' = upd_tty n (\<lambda>t. t\<lparr>secondary := q'\<rparr>) s in
      if uint c = EOF_CHAR t \<and> L_FLAG ICANON t then (True, Suc nr, b, s')
      else if nr = 0 \<or> EMPTY (secondary (tty_table s' n)) then (False, nr, b @ [c], s')
      else read_chars n nr (b @ [c]) s')"

definition set_alarm :: "int \<Rightarrow> 'a ttys_scheme \<Rightarrow> 'a ttys_scheme" where
  "set_alarm a s = upd_task (current s) (\<lambda>t. t\<lparr>t_alarm := a\<rparr>) s"

text \<open>The end of \<open>tty_read\<close> after its loop.\<close>

definition read_finish :: "int \<Rightarrow> u8 list \<Rightarrow> 'a ttys_scheme \<Rightarrow> ('a ttys_scheme, int \<times> u8 list) kres" where
  "read_finish oldalarm b s =
     (let s' = set_alarm oldalarm s in
      if cur_signal s' \<noteq> 0 \<and> b = [] then Inr ((- EINTR, b), s') else Inr ((int (length b), b), s'))"

text \<open>One round of the loop of \<open>tty_read\<close> with the variables \<open>flag\<close>, \<open>nr\<close>, the bytes delivered and
  the state: \<open>Inl\<close> the result of the call, or \<open>Inr\<close> the variables for the next round.\<close>

definition read_round :: "nat \<Rightarrow> int \<Rightarrow> int \<Rightarrow> int \<Rightarrow> bool \<times> nat \<times> u8 list \<times> 'a ttys_scheme
    \<Rightarrow> ('a ttys_scheme, int \<times> u8 list) kres + bool \<times> nat \<times> u8 list \<times> 'a ttys_scheme" where
  "read_round n minimum time oldalarm v =
     (case v of (flag, nr, b, s) \<Rightarrow>
      if nr = 0 then Inl (read_finish oldalarm b s)
      else if flag \<and> cur_signal s AND ALRMMASK \<noteq> 0 then
        Inl (read_finish oldalarm b
          (upd_task (current s) (\<lambda>t. t\<lparr>t_signal := t_signal t AND NOT ALRMMASK\<rparr>) s))
      else if cur_signal s \<noteq> 0 then Inl (read_finish oldalarm b s)
      else
        let q = secondary (tty_table s n); canon = L_FLAG ICANON (tty_table s n) in
        if EMPTY q \<or> canon \<and> q_data q = 0 \<and> 20 < LEFT q then
          (case sleep_if_empty n s of Inl e \<Rightarrow> Inl (Inl e) | Inr (_, t) \<Rightarrow> Inr (flag, nr, b, t))
        else
          let (eof, nr', b', t) = read_chars n nr b s in
          if eof then Inl (Inr ((int (length b'), b'), t))
          else
            let canon' = L_FLAG ICANON (tty_table t n);
                flag' = (if time \<noteq> 0 \<and> \<not> canon' then oldalarm = 0 \<or> time + jiffies t < oldalarm else flag);
                u = (if time \<noteq> 0 \<and> \<not> canon'
                     then set_alarm (if flag' then time + jiffies t else oldalarm) t else t) in
            if (if canon' then b' \<noteq> [] else minimum \<le> int (length b'))
            then Inl (read_finish oldalarm b' u) else Inr (flag', nr', b', u))"

partial_function (option) read_loop :: "nat \<Rightarrow> int \<Rightarrow> int \<Rightarrow> int \<Rightarrow> bool \<times> nat \<times> u8 list \<times> 'a ttys_scheme
    \<Rightarrow> ('a ttys_scheme, int \<times> u8 list) kres option" where
  "read_loop n minimum time oldalarm v =
     (case read_round n minimum time oldalarm v of Inl r \<Rightarrow> Some r | Inr w \<Rightarrow> read_loop n minimum time oldalarm w)"

definition tty_read :: "nat \<Rightarrow> int \<Rightarrow> 'a ttys_scheme \<Rightarrow> ('a ttys_scheme, int \<times> u8 list) kres" where
  "tty_read channel nr s =
     (if 2 < channel \<or> nr < 0 then Inr ((- 1, []), s)
      else
        let t = tty_table s channel;
            oldalarm = t_alarm (tasks s (current s));
            time = 10 * uint (c_cc (termios t) 5);
            min0 = uint (c_cc (termios t) 6);
            timed = time \<noteq> 0 \<and> min0 = 0;
            flag = timed \<and> (oldalarm = 0 \<or> time + jiffies s < oldalarm);
            s1 = (if flag then set_alarm (time + jiffies s) s else s);
            minimum = min (if timed then 1 else min0) nr in
        case read_loop channel minimum time oldalarm (flag, nat nr, [], s1) of
          None \<Rightarrow> Inl (Loops, s1) | Some r \<Rightarrow> r)"

subsection \<open>Writing\<close>

text \<open>The inner loop of \<open>tty_write\<close>: \<open>bs\<close> are the bytes still to be sent.  A newline that gets a
  carriage return in front is looked at twice.\<close>

definition out_char :: "tty_struct \<Rightarrow> u8 \<Rightarrow> u8" where
  "out_char t c =
     (if \<not> O_FLAG OPOST t then c
      else if c = 13 \<and> O_FLAG OCRNL t then 10
      else if c = 10 \<and> O_FLAG ONLRET t then 13 else c)"

definition out_upper :: "tty_struct \<Rightarrow> u8 \<Rightarrow> u8" where
  "out_upper t c = (if O_FLAG OPOST t \<and> O_FLAG OLCUC t then word_of_int (toupper c) else c)"

function write_chars :: "tty_struct \<Rightarrow> bool \<Rightarrow> u8 list \<Rightarrow> bool \<times> u8 list \<times> tty_struct" where
  "write_chars t cr [] = (cr, [], t)"
| "write_chars t cr (b # bs) =
     (if FULL (write_q t) then (cr, b # bs, t)
      else
        let c = out_char t b in
        if O_FLAG OPOST t \<and> c = 10 \<and> \<not> cr \<and> O_FLAG ONLCR t
        then write_chars (t\<lparr>write_q := PUTCH 13 (write_q t)\<rparr>) True (b # bs)
        else write_chars (t\<lparr>write_q := PUTCH (out_upper t c) (write_q t)\<rparr>) False bs)"
  by pat_completeness auto
termination
  by (relation "measure (\<lambda>(t, cr, bs). 2 * length bs + (if cr then 0 else 1))") auto

declare write_chars.simps [simp del]

text \<open>One round of the outer loop, as for \<open>tty_read\<close>; the result is the bytes not sent.\<close>

definition write_round :: "nat \<Rightarrow> u8 list \<times> 'a ttys_scheme
    \<Rightarrow> ('a ttys_scheme, u8 list) kres + u8 list \<times> 'a ttys_scheme" where
  "write_round n v =
     (case v of (bs, s) \<Rightarrow>
      if bs = [] then Inl (Inr (bs, s))
      else
        case sleep_if_full n s of
          Inl e \<Rightarrow> Inl (Inl e)
        | Inr (_, s1) \<Rightarrow>
            if cur_signal s1 \<noteq> 0 then Inl (Inr (bs, s1))
            else
              let (cr, bs', t) = write_chars (tty_table s1 n) (cr_flag s1) bs in
              case call_write n (upd_tty n (\<lambda>_. t) (s1\<lparr>cr_flag := cr\<rparr>)) of
                Inl e \<Rightarrow> Inl (Inl e)
              | Inr (_, s2) \<Rightarrow>
                  if bs' = [] then Inr (bs', s2)
                  else case schedule s2 of Inl e \<Rightarrow> Inl (Inl e) | Inr (_, s3) \<Rightarrow> Inr (bs', s3))"

partial_function (option) write_loop :: "nat \<Rightarrow> u8 list \<times> 'a ttys_scheme \<Rightarrow> ('a ttys_scheme, u8 list) kres option" where
  "write_loop n v = (case write_round n v of Inl r \<Rightarrow> Some r | Inr w \<Rightarrow> write_loop n w)"

text \<open>\<open>buf\<close> are the bytes at the caller's pointer; \<open>nr\<close> of them are written.\<close>

definition tty_write :: "nat \<Rightarrow> u8 list \<Rightarrow> int \<Rightarrow> 'a ttys_scheme \<Rightarrow> ('a ttys_scheme, int) kres" where
  "tty_write channel buf nr s =
     (if 2 < channel \<or> nr < 0 then Inr (- 1, s)
      else case write_loop channel (take (nat nr) buf, s) of
             None \<Rightarrow> Inl (Loops, s)
           | Some (Inl e) \<Rightarrow> Inl e
           | Some (Inr (rest, t)) \<Rightarrow> Inr (nr - int (length rest), t))"

subsection \<open>Serial interrupts\<close>

text \<open>\<open>table_list\<close>: the index of the terminal and whether the entry is its write queue.\<close>

definition table_list :: "(nat \<times> bool) list" where
  "table_list = [(0, False), (0, True), (1, False), (1, True), (2, False), (2, True)]"

definition list_queue :: "nat \<Rightarrow> 'a ttys_scheme \<Rightarrow> tty_queue" where
  "list_queue i s = (case table_list ! i of (n, w) \<Rightarrow>
     if w then write_q (tty_table s n) else read_q (tty_table s n))"

definition upd_list_queue :: "nat \<Rightarrow> (tty_queue \<Rightarrow> tty_queue) \<Rightarrow> 'a ttys_scheme \<Rightarrow> 'a ttys_scheme" where
  "upd_list_queue i f s = (case table_list ! i of (n, w) \<Rightarrow>
     if w then upd_tty n (\<lambda>t. t\<lparr>write_q := f (write_q t)\<rparr>) s else upd_tty n (\<lambda>t. t\<lparr>read_q := f (read_q t)\<rparr>) s)"

text \<open>\<open>rbr\<close> is the byte read from the receive register.\<close>

definition read_char :: "u8 \<Rightarrow> 'a ttys_scheme \<Rightarrow> ('a ttys_scheme, unit) kres" where
  "read_char rbr s =
     do_tty_interrupt 63
       (upd_list_queue 3 (\<lambda>q. let q' = q\<lparr>q_buf := (q_buf q)(unat (q_head q) := rbr)\<rparr> in
          if (q_head q' + 1) AND 1023 \<noteq> q_tail q' then q'\<lparr>q_head := (q_head q' + 1) AND 1023\<rparr> else q') s)"

text \<open>The writers' task is made runnable; the queue keeps it.\<close>

definition wake_writer :: "tty_queue \<Rightarrow> 'a ttys_scheme \<Rightarrow> 'a ttys_scheme" where
  "wake_writer q s =
     (if waitq s (q_wait q) \<noteq> 0 then upd_task (waitq s (q_wait q)) (\<lambda>t. t\<lparr>t_state := TASK_RUNNING\<rparr>) s else s)"

definition write_char :: "'a ttys_scheme \<Rightarrow> 'a ttys_scheme" where
  "write_char s =
     (let q = list_queue 4 s; nr = CHARS q; off = (\<lambda>s. s\<lparr>uart_ier := uart_ier s OR 0x0d\<rparr>) in
      if nr = 0 then off (wake_writer q s)
      else
        let s1 = (if nr \<le> 256 then wake_writer q s else s);
            s2 = s1\<lparr>uart_sent := uart_sent s1 @ [q_buf q (unat (q_tail q))]\<rparr>;
            s3 = upd_list_queue 4 (\<lambda>q. q\<lparr>q_tail := (q_tail q - 1) AND 1023\<rparr>) s2;
            q3 = list_queue 4 s3 in
        if q_head q3 = q_tail q3 then off (wake_writer q3 s3) else s3)"

text \<open>One round of the loop of \<open>rs_interrupt\<close> for the value \<open>iir\<close> of the interrupt identification
  register: \<open>None\<close> leaves the loop.  \<open>IIR_reg && IIR_TYPE_MASK\<close> is a truth value.\<close>

definition rs_round :: "u8 \<Rightarrow> u8 \<Rightarrow> 'a ttys_scheme \<Rightarrow> ('a ttys_scheme, unit) kres option" where
  "rs_round iir rbr s =
     (if iir AND 1 = 0 \<or> 6 < iir then None
      else
        let sel = (if iir \<noteq> 0 \<and> (6 :: u8) \<noteq> 0 then 1 else 0 :: nat) in
        Some (if sel = 0 then Inr ((), s)
              else if sel = 2 then Inr ((), write_char s)
              else if sel = 4 then read_char rbr s
              else if sel = 6 then Inr ((), s)
              else Inr ((), s)))"

text \<open>\<open>rs_interrupt\<close> for the successive values of the identification and receive registers; the list
  ends where the interrupt is no longer observed.\<close>

fun rs_interrupt :: "(u8 \<times> u8) list \<Rightarrow> 'a ttys_scheme \<Rightarrow> ('a ttys_scheme, unit) kres" where
  "rs_interrupt [] s = Inr ((), s)"
| "rs_interrupt ((iir, rbr) # rs) s =
     (case rs_round iir rbr s of
        None \<Rightarrow> Inr ((), s)
      | Some (Inl e) \<Rightarrow> Inl e
      | Some (Inr (_, t)) \<Rightarrow> rs_interrupt rs t)"

end
