(* ===== verification/Tty_Props.thy ===== *)
theory Tty_Props
  imports Tty Sched_Props Lib_Ctype_Props
begin

text \<open>
  The terminal queues as bounded first-in first-out queues, the input processing of a line in its
  initial mode, the output processing, and the serial interrupt.
\<close>

subsection \<open>Queues as rings\<close>

lemma uint_and_mask10: "uint ((x :: u64) AND 1023) = uint x mod 1024"
proof -
  have "(1023 :: u64) = mask 10" by (simp add: mask_eq_exp_minus_1)
  then have "x AND 1023 = take_bit 10 x" by (simp add: take_bit_eq_mask)
  then show ?thesis by (simp add: take_bit_eq_mod uint_mod)
qed

lemma unat_and_mask10: "unat ((x :: u64) AND 1023) = unat x mod 1024"
  using uint_and_mask10 [of x] by (metis nat_mod_distrib nat_numeral nat_uint_eq uint_ge_0 zero_le_numeral)

lemma unat_INC: "unat a < 1024 \<Longrightarrow> unat (INC a) = (unat a + 1) mod 1024"
  by (simp add: INC_def unat_and_mask10 unat_word_ariths)

lemma uint_wrap: "uint (x - y :: u64) mod 1024 = (uint x - uint y) mod 1024"
  by (simp add: uint_word_ariths mod_mod_cancel)

lemma LEFT_uint: "uint (LEFT q) = (uint (q_tail q) - uint (q_head q) - 1) mod 1024"
proof -
  have "uint (LEFT q) = (uint (q_tail q - q_head q) - 1) mod 1024"
    using uint_wrap [of "q_tail q - q_head q" 1] by (simp add: LEFT_def uint_and_mask10)
  also have "\<dots> = (uint (q_tail q) - uint (q_head q) - 1) mod 1024"
    using uint_wrap [of "q_tail q" "q_head q"] by (metis mod_diff_left_eq)
  finally show ?thesis .
qed

definition hix :: "tty_queue \<Rightarrow> nat" where "hix q = unat (q_head q)"
definition tix :: "tty_queue \<Rightarrow> nat" where "tix q = unat (q_tail q)"

lemma mod1024_0:
  assumes "- 1024 \<le> x" "x < 1024"
  shows "x mod 1024 = 0 \<longleftrightarrow> x = 0 \<or> x = (- 1024 :: int)"
proof
  assume "x mod 1024 = 0"
  then obtain k where k: "x = 1024 * k" by (auto simp: mod_eq_0_iff_dvd)
  then have "k = 0 \<or> k = - 1" using assms by linarith
  then show "x = 0 \<or> x = - 1024" using k by auto
qed auto

lemma full_ring_len:
  assumes "hix q < 1024" "tix q < 1024"
  shows "FULL q \<longleftrightarrow> ring_len 1024 (hix q) (tix q) = 1023"
proof -
  have h: "uint (q_head q) = int (hix q)" "uint (q_tail q) = int (tix q)" by (simp_all add: hix_def tix_def)
  have "FULL q \<longleftrightarrow> uint (LEFT q) = 0" by (simp add: FULL_def uint_0_iff)
  also have "\<dots> \<longleftrightarrow> (int (tix q) - int (hix q) - 1) mod 1024 = 0" unfolding LEFT_uint h by simp
  also have "\<dots> \<longleftrightarrow> ring_len 1024 (hix q) (tix q) = 1023"
    using assms mod1024_0 [of "int (tix q) - int (hix q) - 1"] unfolding ring_len_cases [OF assms] by auto
  finally show ?thesis .
qed

interpretation tq: ring 1024 hix tix q_buf PUTCH GETCH EMPTY FULL
proof
  fix q :: tty_queue and c :: u8
  assume b: "hix q < 1024" "tix q < 1024"
  show "hix (PUTCH c q) = (hix q + 1) mod 1024 \<and> tix (PUTCH c q) = tix q
      \<and> q_buf (PUTCH c q) = (q_buf q)(hix q := c)"
    using b unat_INC [of "q_head q"] by (simp add: PUTCH_def hix_def tix_def)
  show "fst (GETCH q) = q_buf q (tix q) \<and> hix (snd (GETCH q)) = hix q
      \<and> tix (snd (GETCH q)) = (tix q + 1) mod 1024 \<and> q_buf (snd (GETCH q)) = q_buf q"
    using b unat_INC [of "q_tail q"] by (simp add: GETCH_def hix_def tix_def)
  show "EMPTY q \<longleftrightarrow> hix q = tix q" by (simp add: EMPTY_def hix_def tix_def word_unat_eq_iff)
  show "FULL q \<longleftrightarrow> ring_len 1024 (hix q) (tix q) = 1024 - 1" using full_ring_len [OF b] by simp
qed simp

text \<open>The bytes in a queue, oldest first.\<close>

definition wfq :: "tty_queue \<Rightarrow> bool" where
  "wfq q \<longleftrightarrow> hix q < 1024 \<and> tix q < 1024"

definition bytes :: "tty_queue \<Rightarrow> u8 list" where
  "bytes q = ring_list 1024 (q_buf q) (hix q) (tix q)"

lemmas tq_laws = tq.fifo.wf_put [folded wfq_def] tq.fifo.wf_get [folded wfq_def]
  tq.fifo.bounded [folded wfq_def bytes_def] tq.fifo.empty_iff [folded wfq_def bytes_def]
  tq.fifo.full_iff [folded wfq_def bytes_def] tq.fifo.contents_put [folded wfq_def bytes_def]
  tq.fifo.contents_get [folded wfq_def bytes_def]

lemma bytes_PUTCH: "wfq q \<Longrightarrow> length (bytes q) < 1023 \<Longrightarrow> bytes (PUTCH c q) = bytes q @ [c]"
  and wfq_PUTCH: "wfq q \<Longrightarrow> wfq (PUTCH c q)"
  using tq_laws(1,5,6) [of q] by auto

lemma bytes_GETCH: "wfq q \<Longrightarrow> bytes q = b # bs \<Longrightarrow> fst (GETCH q) = b \<and> bytes (snd (GETCH q)) = bs"
  and wfq_GETCH: "wfq q \<Longrightarrow> wfq (snd (GETCH q))"
  using tq_laws(2,4,7) [of q] by auto

lemma EMPTY_bytes: "wfq q \<Longrightarrow> EMPTY q \<longleftrightarrow> bytes q = []"
  and FULL_bytes: "wfq q \<Longrightarrow> FULL q \<longleftrightarrow> length (bytes q) = 1023"
  using tq_laws(4,5) [of q] by auto

lemma wfq_data [simp]: "wfq (q\<lparr>q_data := d\<rparr>) = wfq q" "bytes (q\<lparr>q_data := d\<rparr>) = bytes q"
  by (simp_all add: wfq_def bytes_def hix_def tix_def)


text \<open>A terminal queue that is used through the macros of \<open>linux/tty.h\<close> is a first-in first-out
  queue of 1023 bytes: bytes put into an empty queue come out in the same order and leave it empty.
  One byte more, put into a full queue, makes the queue empty: all its bytes are lost.\<close>

lemma tty_queue_fifo:
  assumes "wfq q"
  shows "(EMPTY q \<and> length cs \<le> 1023 \<longrightarrow>
      fst (drain GETCH (length cs) (fold PUTCH cs q)) = cs \<and> EMPTY (snd (drain GETCH (length cs) (fold PUTCH cs q))))
    \<and> (FULL q \<longrightarrow> EMPTY (PUTCH c q))"
  using assms tq.fifo.fifo [of q cs] tq.put_overflow [of q c] by (simp add: wfq_def)

lemma tty_queue_fifo_witness:
  "fst (drain GETCH (length [7 :: u8, 8, 9]) (fold PUTCH [7, 8, 9] (empty_queue 0 0))) = [7, 8, 9]"
proof -
  have q: "wfq (empty_queue 0 0)" "EMPTY (empty_queue 0 0)"
    by (simp_all add: wfq_def hix_def tix_def EMPTY_def empty_queue_def)
  show ?thesis using tty_queue_fifo [OF q(1), of "[7, 8, 9]" 0] q(2) by (simp del: drain.simps)
qed

subsection \<open>Input\<close>

lemma tty_upd_tty [simp]: "tty_table (upd_tty n f s) = (tty_table s)(n := f (tty_table s n))"
  by (simp add: upd_tty_def)

lemma tty_table_upd_task [simp]: "tty_table (upd_task p f s) = tty_table s"
  by (simp add: upd_task_def)

lemma tty_intr_table [simp]: "tty_table (tty_intr n sig s) = tty_table s"
proof -
  have "tty_table (fold (\<lambda>i t. if task t i \<noteq> 0 \<and> t_pgrp (tasks t (task t i)) = pgrp (tty_table t n)
      then upd_task (task t i) f t else t) is s) = tty_table s" for "is" f
    by (induction "is" arbitrary: s) auto
  then show ?thesis by (simp add: tty_intr_def)
qed

lemma wake_up_table [simp]: "tty_table (wake_up p s) = tty_table s"
  by (simp add: wake_up_def)

lemma put_write_table [simp]:
  "tty_table (put_write c n s) = (tty_table s)(n := (tty_table s n)\<lparr>write_q := PUTCH c (write_q (tty_table s n))\<rparr>)"
  by (simp add: put_write_def)

lemma rs_write_table [simp]: "tty_table (rs_write n s) = tty_table s"
  by (simp add: rs_write_def)

lemma call_write_Inr: "call_write n s = Inr (u, t) \<Longrightarrow> tty_table t = tty_table s"
  by (auto simp: call_write_def split: tty_writer.splits)

text \<open>Processing a character leaves the read queue alone.\<close>

lemma cook_char_read_q: "cook_char n c s = Inr (u, t) \<Longrightarrow> read_q (tty_table t n) = read_q (tty_table s n)"
  by (auto simp: cook_char_def cook_erase_def cook_store_def cook_echo_def kres_iff kres_simps Let_def
      dest!: call_write_Inr split: option.splits if_splits)

lemma cook_char_write_fn: "cook_char n c s = Inr (u, t) \<Longrightarrow> write_fn (tty_table t n) = write_fn (tty_table s n)"
  by (auto simp: cook_char_def cook_erase_def cook_store_def cook_echo_def kres_iff kres_simps Let_def
      dest!: call_write_Inr split: option.splits if_splits)

lemma call_write_Inl: "call_write n s = Inl (e, t) \<longleftrightarrow> e = BadAccess 0 \<and> t = s \<and> write_fn (tty_table s n) = NullWrite"
  by (auto simp: call_write_def split: tty_writer.splits)

lemma cook_char_Inl: "cook_char n c s = Inl (e, t) \<Longrightarrow> e = BadAccess 0 \<and> write_fn (tty_table s n) = NullWrite"
  by (auto simp: cook_char_def cook_erase_def cook_store_def cook_echo_def kseq_def kbind_def kmodify_def Let_def
      call_write_Inl split: option.splits if_splits sum.splits)

definition cooked_result :: "nat \<Rightarrow> tty_writer \<Rightarrow> ('a ttys_scheme, unit) kres \<Rightarrow> bool" where
  "cooked_result n w r \<longleftrightarrow> (case r of
      Inl (e, _) \<Rightarrow> e = BadAccess 0 \<and> w = NullWrite
    | Inr (_, t) \<Rightarrow> EMPTY (read_q (tty_table t n)) \<or> FULL (secondary (tty_table t n)))"

lemma cook_loop_returns:
  assumes "wfq (read_q (tty_table s n))"
  shows "\<exists>r. cook_loop n s = Some r \<and> cooked_result n (write_fn (tty_table s n)) r"
  using assms
proof (induction "length (bytes (read_q (tty_table s n)))" arbitrary: s rule: less_induct)
  case less
  let ?s = "snd (cook_get n s)"
  show ?case
  proof (cases "\<not> EMPTY (read_q (tty_table s n)) \<and> \<not> FULL (secondary (tty_table s n))")
    case True
    then obtain b bs where b: "bytes (read_q (tty_table s n)) = b # bs"
      using EMPTY_bytes [OF less.prems] by (cases "bytes (read_q (tty_table s n))") auto
    have q: "read_q (tty_table ?s n) = snd (GETCH (read_q (tty_table s n)))"
      by (simp add: cook_get_def split_beta)
    show ?thesis
    proof (cases "cook_char n (fst (cook_get n s)) ?s")
      case (Inl e)
      then show ?thesis using True cook_char_Inl [of n _ ?s "fst e" "snd e"]
        by (subst cook_loop.simps) (auto simp: cooked_result_def cook_get_def split_beta)
    next
      case (Inr r)
      obtain u t where r: "r = (u, t)" by (cases r)
      then have "read_q (tty_table t n) = snd (GETCH (read_q (tty_table s n)))"
        using cook_char_read_q Inr q by metis
      moreover have "write_fn (tty_table t n) = write_fn (tty_table s n)"
        using cook_char_write_fn Inr r by (fastforce simp: cook_get_def split_beta)
      ultimately have "\<exists>r. cook_loop n t = Some r \<and> cooked_result n (write_fn (tty_table s n)) r"
        using less.hyps [of t] less.prems b bytes_GETCH [OF less.prems b] wfq_GETCH [OF less.prems] by simp
      then show ?thesis using True Inr r by (subst cook_loop.simps) simp
    qed
  qed (subst cook_loop.simps, auto simp: cooked_result_def)
qed

text \<open>C15: \<open>copy_to_cooked\<close> always leaves its loop, whatever the mode of the terminal and the bytes
  received: when it returns it has taken every byte from the read queue or has filled the secondary
  queue, and it returns unless the terminal has no write routine, in which case echoing may call
  through the null pointer.\<close>

lemma copy_to_cooked_terminates:
  assumes "wfq (read_q (tty_table s n))"
  shows "case copy_to_cooked n s of
      Inl (e, _) \<Rightarrow> e = BadAccess 0 \<and> write_fn (tty_table s n) = NullWrite
    | Inr (_, t) \<Rightarrow> EMPTY (read_q (tty_table t n)) \<or> FULL (secondary (tty_table t n))"
proof -
  obtain r where r: "cook_loop n s = Some r" "cooked_result n (write_fn (tty_table s n)) r"
    using cook_loop_returns [OF assms] by blast
  show ?thesis
  proof (cases r)
    case (Inl e)
    then show ?thesis using r by (auto simp: copy_to_cooked_def cooked_result_def)
  next
    case (Inr x)
    then show ?thesis using r by (auto simp: copy_to_cooked_def cooked_result_def)
  qed
qed

definition boot_ttys :: ttys where
  "boot_ttys = sched.extend two_tasks
     \<lparr>tty_table = init_tty_table (\<lambda>n k. of_nat (n * 3 + k)), cr_flag = False, uart_ier = 0, uart_sent = []\<rparr>"

lemma boot_ttys_table: "tty_table boot_ttys = init_tty_table (\<lambda>n k. of_nat (n * 3 + k))"
  by (simp add: boot_ttys_def sched.extend_def)

lemma wfq_empty_queue [simp]: "wfq (empty_queue d w)" "bytes (empty_queue d w) = []" "EMPTY (empty_queue d w)"
  by (simp_all add: wfq_def bytes_def hix_def tix_def EMPTY_def empty_queue_def ring_list_def ring_len_def)

lemma copy_to_cooked_terminates_witness:
  "case copy_to_cooked 1 boot_ttys of
      Inl (e, _) \<Rightarrow> e = BadAccess 0 \<and> write_fn (tty_table boot_ttys 1) = NullWrite
    | Inr (_, t) \<Rightarrow> EMPTY (read_q (tty_table t 1)) \<or> FULL (secondary (tty_table t 1))"
  by (rule copy_to_cooked_terminates) (simp add: boot_ttys_table init_tty_table_def)

subsection \<open>A serial line in its initial mode\<close>

text \<open>The serial lines start with all input and local flags clear.\<close>

definition raw_mode :: "tty_struct \<Rightarrow> bool" where
  "raw_mode t \<longleftrightarrow> c_iflag (termios t) = 0 \<and> c_lflag (termios t) = 0"

definition is_intr :: "tty_struct \<Rightarrow> u8 \<Rightarrow> bool" where
  "is_intr t b \<longleftrightarrow> sint b = INTR_CHAR t"

lemma L_FLAG_raw: "raw_mode t \<Longrightarrow> \<not> L_FLAG f t"
  and cook_crnl_raw: "raw_mode t \<Longrightarrow> cook_crnl t c = Some c"
  and cook_lower_raw: "raw_mode t \<Longrightarrow> cook_lower t c = c"
  by (simp_all add: raw_mode_def I_FLAG_def L_FLAG_def cook_crnl_def cook_lower_def)

lemma raw_mode_secondary [simp]: "raw_mode (t\<lparr>secondary := q\<rparr>) = raw_mode t"
  by (simp add: raw_mode_def)

lemma cook_char_raw:
  assumes "raw_mode (tty_table s n)"
  shows "\<exists>t d. cook_char n (sint b) s = Inr ((), t) \<and> tty_table t = (tty_table s)(n :=
    if is_intr (tty_table s n) b then tty_table s n
    else (tty_table s n)\<lparr>secondary := PUTCH b ((secondary (tty_table s n))\<lparr>q_data := d\<rparr>)\<rparr>)"
proof (cases "is_intr (tty_table s n) b")
  case True
  then show ?thesis using assms
    by (simp add: Let_def cook_char_def cook_crnl_raw cook_lower_raw L_FLAG_raw is_intr_def)
next
  case False
  define d where "d = q_data (secondary (tty_table s n)) + (if sint b = 10 \<or> sint b = EOF_CHAR (tty_table s n) then 1 else 0)"
  have "tty_table (snd (projr (cook_char n (sint b) s))) = (tty_table s)(n :=
      (tty_table s n)\<lparr>secondary := PUTCH b ((secondary (tty_table s n))\<lparr>q_data := d\<rparr>)\<rparr>)
    \<and> (\<exists>t. cook_char n (sint b) s = Inr ((), t))"
    using assms False unfolding d_def
    by (simp add: Let_def cook_char_def cook_crnl_raw cook_lower_raw L_FLAG_raw is_intr_def
        cook_store_def cook_echo_def kseq_def kbind_def kmodify_def)
  then obtain t where "cook_char n (sint b) s = Inr ((), t)" "tty_table t = (tty_table s)(n :=
      (tty_table s n)\<lparr>secondary := PUTCH b ((secondary (tty_table s n))\<lparr>q_data := d\<rparr>)\<rparr>)" by auto
  then show ?thesis using False by (intro exI [of _ t] exI [of _ d]) simp
qed

lemma cook_loop_raw:
  assumes "raw_mode (tty_table s n)" "wfq (read_q (tty_table s n))" "wfq (secondary (tty_table s n))"
    "length (bytes (secondary (tty_table s n))) + length (bytes (read_q (tty_table s n))) < 1023"
  shows "\<exists>t. cook_loop n s = Some (Inr ((), t))
    \<and> bytes (read_q (tty_table t n)) = []
    \<and> bytes (secondary (tty_table t n)) =
        bytes (secondary (tty_table s n)) @ filter (\<lambda>b. \<not> is_intr (tty_table s n) b) (bytes (read_q (tty_table s n)))
    \<and> write_q (tty_table t n) = write_q (tty_table s n) \<and> termios (tty_table t n) = termios (tty_table s n)
    \<and> (\<forall>m. m \<noteq> n \<longrightarrow> tty_table t m = tty_table s m)"
  using assms
proof (induction "bytes (read_q (tty_table s n))" arbitrary: s)
  case Nil
  then have "EMPTY (read_q (tty_table s n))" by (simp add: EMPTY_bytes)
  then show ?case using Nil.hyps by (subst cook_loop.simps) (auto simp: Nil.hyps [symmetric])
next
  case (Cons b bs)
  let ?T = "tty_table s n" and ?s = "snd (cook_get n s)"
  note g = bytes_GETCH [OF Cons.prems(2) Cons.hyps(2) [symmetric]] wfq_GETCH [OF Cons.prems(2)]
  have c: "\<not> EMPTY (read_q ?T)" "\<not> FULL (secondary ?T)"
    using Cons.prems Cons.hyps(2) [symmetric] by (auto simp: EMPTY_bytes FULL_bytes)
  have s: "tty_table ?s = (tty_table s)(n := ?T\<lparr>read_q := snd (GETCH (read_q ?T))\<rparr>)"
    "fst (cook_get n s) = sint b" using g by (simp_all add: cook_get_def split_beta)
  obtain t d where t: "cook_char n (sint b) ?s = Inr ((), t)"
    and T: "tty_table t = (tty_table ?s)(n := if is_intr (tty_table ?s n) b then tty_table ?s n
      else (tty_table ?s n)\<lparr>secondary := PUTCH b ((secondary (tty_table ?s n))\<lparr>q_data := d\<rparr>)\<rparr>)"
    using cook_char_raw [of ?s n b] Cons.prems(1) s by (auto simp: raw_mode_def)
  have i: "is_intr (tty_table ?s n) = is_intr ?T" using s by (simp add: is_intr_def INTR_CHAR_def fun_eq_iff)
  have r: "cook_loop n s = cook_loop n t" using c s t by (subst cook_loop.simps) simp
  have "raw_mode (tty_table t n) \<and> bs = bytes (read_q (tty_table t n)) \<and> wfq (read_q (tty_table t n))
      \<and> wfq (secondary (tty_table t n)) \<and> is_intr (tty_table t n) = is_intr ?T
      \<and> bytes (secondary (tty_table t n)) = bytes (secondary ?T) @ (if is_intr ?T b then [] else [b])
      \<and> termios (tty_table t n) = termios ?T \<and> write_q (tty_table t n) = write_q ?T
      \<and> (\<forall>m. m \<noteq> n \<longrightarrow> tty_table t m = tty_table s m)"
    using T s i g Cons.prems Cons.hyps(2) [symmetric]
    by (auto simp: raw_mode_def wfq_PUTCH bytes_PUTCH is_intr_def INTR_CHAR_def fun_eq_iff)
  note a = this
  show ?case unfolding r using Cons.hyps(1) [of t] a Cons.prems(4) Cons.hyps(2) [symmetric] by auto
qed

text \<open>On a serial line in its initial mode \<open>copy_to_cooked\<close> moves the bytes of the read queue, in
  order, to the end of the secondary queue, all but the interrupt character, and touches no other
  queue and no other terminal.  (The interrupt character is taken out although \<open>ISIG\<close> is clear:
  the test of the flag is inverted.)\<close>

lemma copy_to_cooked_raw:
  assumes "raw_mode (tty_table s n)" "wfq (read_q (tty_table s n))" "wfq (secondary (tty_table s n))"
    "length (bytes (secondary (tty_table s n))) + length (bytes (read_q (tty_table s n))) < 1023"
  shows "\<exists>t. copy_to_cooked n s = Inr ((), t)
    \<and> bytes (read_q (tty_table t n)) = []
    \<and> bytes (secondary (tty_table t n)) =
        bytes (secondary (tty_table s n)) @ filter (\<lambda>b. \<not> is_intr (tty_table s n) b) (bytes (read_q (tty_table s n)))
    \<and> write_q (tty_table t n) = write_q (tty_table s n)
    \<and> (\<forall>m. m \<noteq> n \<longrightarrow> tty_table t m = tty_table s m)"
  using cook_loop_raw [OF assms] by (auto simp: copy_to_cooked_def)

lemma copy_to_cooked_raw_witness:
  "\<exists>t. copy_to_cooked 1 (upd_tty 1 (\<lambda>t. t\<lparr>read_q := PUTCH 3 (PUTCH 65 (read_q t))\<rparr>) boot_ttys) = Inr ((), t)
    \<and> bytes (secondary (tty_table t 1)) = [65]"
proof -
  let ?s = "upd_tty 1 (\<lambda>t. t\<lparr>read_q := PUTCH 3 (PUTCH 65 (read_q t))\<rparr>) boot_ttys"
  have b: "bytes (read_q (tty_table ?s 1)) = [65, 3]" "wfq (read_q (tty_table ?s 1))"
    by (simp_all add: boot_ttys_table init_tty_table_def bytes_PUTCH wfq_PUTCH)
  have "\<exists>t. copy_to_cooked 1 ?s = Inr ((), t)
      \<and> bytes (read_q (tty_table t 1)) = []
      \<and> bytes (secondary (tty_table t 1)) =
          bytes (secondary (tty_table ?s 1)) @ filter (\<lambda>b. \<not> is_intr (tty_table ?s 1) b) (bytes (read_q (tty_table ?s 1)))
      \<and> write_q (tty_table t 1) = write_q (tty_table ?s 1)
      \<and> (\<forall>m. m \<noteq> 1 \<longrightarrow> tty_table t m = tty_table ?s m)"
    by (rule copy_to_cooked_raw, unfold b) (simp_all add: boot_ttys_table init_tty_table_def raw_mode_def bytes_PUTCH wfq_PUTCH)
  moreover have "filter (\<lambda>b. \<not> is_intr (tty_table ?s 1) b) [65, 3] = [65]" "bytes (secondary (tty_table ?s 1)) = []"
    by (simp_all add: is_intr_def INTR_CHAR_def boot_ttys_table init_tty_table_def init_c_cc_def)
  ultimately show ?thesis unfolding b by auto
qed

subsection \<open>Output\<close>

text \<open>What the bytes become in the write queue: \<open>cr\<close> says that the carriage return of a leading
  newline has been written.\<close>

fun out_bytes :: "tty_struct \<Rightarrow> bool \<Rightarrow> u8 list \<Rightarrow> u8 list" where
  "out_bytes t cr [] = []"
| "out_bytes t cr (b # bs) =
     (if \<not> O_FLAG OPOST t then b # out_bytes t False bs
      else
        let c = (if b = 13 then if O_FLAG OCRNL t then 10 else 13 else if b = 10 then if O_FLAG ONLRET t then 13 else 10 else b);
            front = (if c = 10 \<and> \<not> cr \<and> O_FLAG ONLCR t then [13] else []);
            upper = (if O_FLAG OLCUC t \<and> 97 \<le> c \<and> c \<le> 122 then c - 32 else c) in
        front @ upper # out_bytes t False bs)"

text \<open>The same with the routines of the model.\<close>

lemma out_bytes_code:
  "out_bytes t cr (b # bs) =
     (let c = out_char t b in
      (if O_FLAG OPOST t \<and> c = 10 \<and> \<not> cr \<and> O_FLAG ONLCR t then [13] else []) @ out_upper t c # out_bytes t False bs)"
  by (auto simp: out_char_def out_upper_def toupper_correct Let_def)

declare out_bytes.simps(2) [simp del] out_bytes_code [simp]

lemma out_bytes_write_q [simp]: "out_bytes (t\<lparr>write_q := q\<rparr>) = out_bytes t"
proof (intro ext)
  show "out_bytes (t\<lparr>write_q := q\<rparr>) cr bs = out_bytes t cr bs" for cr bs
    by (induction bs arbitrary: cr) (simp_all add: out_char_def out_upper_def O_FLAG_def)
qed

text \<open>No byte is lost or written twice: what is in the queue and what is still to be written are
  together the same before and after.\<close>

lemma write_chars_inv:
  assumes "write_chars t cr bs = (cr', rest, t')" "wfq (write_q t)"
  shows "bytes (write_q t') @ out_bytes t cr' rest = bytes (write_q t) @ out_bytes t cr bs
    \<and> (rest = [] \<or> FULL (write_q t')) \<and> wfq (write_q t') \<and> t' = t\<lparr>write_q := write_q t'\<rparr>"
  using assms
proof (induction t cr bs rule: write_chars.induct)
  case (1 t cr)
  then show ?case by (simp add: write_chars.simps)
next
  case (2 t cr b bs)
  show ?case
  proof (cases "FULL (write_q t)")
    case True
    then show ?thesis using 2 by (simp add: write_chars.simps)
  next
    case False
    then have l: "length (bytes (write_q t)) < 1023"
      using tq_laws(3) [of "write_q t"] FULL_bytes [OF "2.prems"(2)] "2.prems"(2) by fastforce
    let ?c = "out_char t b"
    show ?thesis
    proof (cases "O_FLAG OPOST t \<and> ?c = 10 \<and> \<not> cr \<and> O_FLAG ONLCR t")
      case True
      then have "write_chars t cr (b # bs) = write_chars (t\<lparr>write_q := PUTCH 13 (write_q t)\<rparr>) True (b # bs)"
        using False by (subst write_chars.simps) simp
      then show ?thesis using True "2.IH"(1) [OF False refl True] "2.prems" l by (simp add: wfq_PUTCH bytes_PUTCH)
    next
      case nl: False
      then have "write_chars t cr (b # bs)
          = write_chars (t\<lparr>write_q := PUTCH (out_upper t ?c) (write_q t)\<rparr>) False bs"
        using False by (subst write_chars.simps) (auto simp: Let_def)
      moreover have "out_bytes t cr (b # bs) = out_upper t ?c # out_bytes t False bs" using nl by (auto simp: Let_def)
      ultimately show ?thesis using "2.IH"(2) [OF False refl nl] "2.prems" l by (simp add: wfq_PUTCH bytes_PUTCH)
    qed
  qed
qed

lemma write_chars_write_fn: "write_fn (snd (snd (write_chars t cr bs))) = write_fn t"
  by (induction t cr bs rule: write_chars.induct) (simp_all add: write_chars.simps Let_def)

lemma write_chars_fits:
  assumes "wfq (write_q t)" "length (bytes (write_q t)) + length (out_bytes t cr bs) < 1023"
  shows "\<exists>cr' t'. write_chars t cr bs = (cr', [], t') \<and> wfq (write_q t') \<and> t' = t\<lparr>write_q := write_q t'\<rparr>
    \<and> bytes (write_q t') = bytes (write_q t) @ out_bytes t cr bs"
proof -
  obtain cr' rest t' where w: "write_chars t cr bs = (cr', rest, t')" by (cases "write_chars t cr bs")
  note i = write_chars_inv [OF w assms(1)]
  have "length (bytes (write_q t')) < 1023"
    using i assms(2) by (metis length_append le_add1 le_less_trans)
  then have "rest = []" using i FULL_bytes by auto
  then show ?thesis using i w by auto
qed

lemma write_loop_Nil: "write_loop n ([], s) = Some (Inr ([], s))"
  by (subst write_loop.simps) (simp add: write_round_def)

text \<open>C12: \<open>tty_write\<close> on a serial line with no signal pending and enough room in the write queue
  returns the number of bytes asked for, appends to the queue the bytes as the output modes
  transform them (carriage return and newline mapping, a carriage return before each newline,
  upper case), and enables the transmitter interrupt.\<close>

lemma tty_write_serial:
  fixes s :: "'a ttys_scheme"
  assumes "n \<le> 2" "write_fn (tty_table s n) = RsWrite" "cur_signal s = 0" "bs \<noteq> []"
    "wfq (write_q (tty_table s n))"
    "length (bytes (write_q (tty_table s n))) + length (out_bytes (tty_table s n) (cr_flag s) bs) < 1023"
  shows "\<exists>t. tty_write n bs (int (length bs)) s = Inr (int (length bs), t)
    \<and> bytes (write_q (tty_table t n)) = bytes (write_q (tty_table s n)) @ out_bytes (tty_table s n) (cr_flag s) bs
    \<and> bit (uart_ier t) 1"
proof -
  let ?T = "tty_table s n"
  obtain cr' t' where w: "write_chars ?T (cr_flag s) bs = (cr', [], t')" "wfq (write_q t')"
    "t' = ?T\<lparr>write_q := write_q t'\<rparr>" "bytes (write_q t') = bytes (write_q ?T) @ out_bytes ?T (cr_flag s) bs"
    using write_chars_fits [OF assms(5,6)] by auto
  let ?u = "upd_tty n (\<lambda>_. t') (s\<lparr>cr_flag := cr'\<rparr>)"
  have f: "\<not> FULL (write_q ?T)" using assms(5,6) FULL_bytes by fastforce
  have c: "call_write n ?u = Inr ((), rs_write n ?u)"
    using assms(2) arg_cong [OF w(3), of write_fn] by (simp add: call_write_def)
  have r: "write_round n (bs, s) = Inr ([], rs_write n ?u)"
    using assms(3,4) f w(1) c by (simp add: write_round_def sleep_if_full_def)
  have l: "write_loop n (bs, s) = Some (Inr ([], rs_write n ?u))"
    by (subst write_loop.simps) (simp add: r write_loop_Nil)
  have ne: "out_bytes ?T (cr_flag s) bs \<noteq> []" using assms(4) by (cases bs) (auto simp: Let_def)
  then have "\<not> EMPTY (write_q t')" using EMPTY_bytes [OF w(2)] w(4) by simp
  then have "bit (uart_ier (rs_write n ?u)) 1" by (simp add: rs_write_def upd_tty_def bit_or_iff)
  then show ?thesis using assms(1) l w(4) by (auto simp: tty_write_def)
qed

lemma boot_serial:
  "write_fn (tty_table boot_ttys 2) = RsWrite" "cur_signal boot_ttys = 0" "cr_flag boot_ttys = False"
  "write_q (tty_table boot_ttys 2) = empty_queue 0x2f8 7"
  by (simp_all add: boot_ttys_table init_tty_table_def cur_signal_def two_tasks_def plain_task_def boot_ttys_def
      sched.extend_def)

lemma tty_write_serial_witness:
  "\<exists>t. tty_write 2 [65, 10] (int (length [65 :: u8, 10])) boot_ttys = Inr (int (length [65 :: u8, 10]), t)
    \<and> bytes (write_q (tty_table t 2)) = [65, 13]"
proof -
  have o: "out_bytes (tty_table boot_ttys 2) False [65, 10] = [65, 13]"
    by (simp add: out_char_def out_upper_def O_FLAG_def boot_ttys_table init_tty_table_def OPOST_def ONLRET_def
        OCRNL_def ONLCR_def OLCUC_def)
  show ?thesis using tty_write_serial [of 2 boot_ttys "[65, 10]"] by (auto simp: boot_serial o simp del: out_bytes_code)
qed

text \<open>The console has no write routine: writing at least one byte to channel 0, as \<open>printk\<close>
  does, ends in a call through the null pointer.\<close>

lemma tty_write_console_faults:
  assumes "write_fn (tty_table s 0) = NullWrite" "cur_signal s = 0" "\<not> FULL (write_q (tty_table s 0))"
    "0 < nr" "bs \<noteq> []"
  shows "\<exists>t. tty_write 0 bs nr s = Inl (BadAccess 0, t)"
proof -
  let ?bs = "take (nat nr) bs"
  obtain cr rest t where w: "write_chars (tty_table s 0) (cr_flag s) ?bs = (cr, rest, t)"
    by (cases "write_chars (tty_table s 0) (cr_flag s) ?bs")
  have "write_fn t = NullWrite" using write_chars_write_fn [of "tty_table s 0" "cr_flag s" ?bs] w assms(1) by simp
  then have c: "call_write 0 (upd_tty 0 (\<lambda>_. t) (s\<lparr>cr_flag := cr\<rparr>))
      = Inl (BadAccess 0, upd_tty 0 (\<lambda>_. t) (s\<lparr>cr_flag := cr\<rparr>))"
    by (simp add: call_write_def)
  have "?bs \<noteq> []" using assms(4,5) by simp
  then have "write_round 0 (?bs, s) = Inl (Inl (BadAccess 0, upd_tty 0 (\<lambda>_. t) (s\<lparr>cr_flag := cr\<rparr>)))"
    using assms(2,3) w c by (simp add: write_round_def sleep_if_full_def)
  then have "write_loop 0 (?bs, s) = Some (Inl (BadAccess 0, upd_tty 0 (\<lambda>_. t) (s\<lparr>cr_flag := cr\<rparr>)))"
    by (subst write_loop.simps) simp
  then show ?thesis using assms(4) by (simp add: tty_write_def)
qed

text \<open>The serial interrupt handler neither takes a received byte nor sends one, whatever the
  interrupt identification register holds: the selector \<open>IIR_reg && IIR_TYPE_MASK\<close> is 0 or 1, and
  both cases do nothing.\<close>

lemma rs_interrupt_idle: "rs_interrupt rs s = Inr ((), s)"
  by (induction rs s rule: rs_interrupt.induct) (auto simp: rs_round_def split: option.splits)

end
