(* ===== verification/Tty_Line.thy ===== *)
theory Tty_Line
  imports Tty_Props
begin

text \<open>
  The line discipline of the terminals in every mode.  The specification \<open>edit\<close> says what one received
  byte does to the line as a list of bytes; \<open>copy_to_cooked\<close> (\<open>kernel/tty_io.c\<close>), which works on the ring
  buffers, is shown to be the fold of \<open>edit\<close> over the received bytes, whatever it echoes.
\<close>

subsection \<open>Taking back the last element of a ring\<close>

lemma ring_list_unput:
  assumes "h < N" "t < N" "h \<noteq> t"
  shows "ring_list N b h t = ring_list N b ((h + N - 1) mod N) t @ [b ((h + N - 1) mod N)]"
proof -
  let ?h = "(h + N - 1) mod N"
  have h: "?h < N" "(?h + 1) mod N = h" using assms by (auto simp: mod_if)
  have "ring_len N ?h t \<noteq> N - 1" using assms by (auto simp: ring_len_cases mod_if split: if_splits)
  from ring_list_put [OF h(1) assms(2) this, of b "b ?h"] h(2) show ?thesis by simp
qed

lemma unat_DEC: "unat a < 1024 \<Longrightarrow> unat (DEC a) = (unat a + 1023) mod 1024"
proof -
  assume "unat a < 1024"
  have "unat (a - 1) mod 1024 = (unat a + 1023) mod 1024"
  proof (cases "a = 0")
    case False
    then have "unat (a - 1) = unat a - 1" "0 < unat a" by (simp_all add: unat_minus_one unat_gt_0)
    then show ?thesis by (cases "unat a") simp_all
  qed (simp add: unsigned_minus_1_eq_mask mask_eq_exp_minus_1)
  then show ?thesis by (simp add: DEC_def unat_and_mask10)
qed

lemma bytes_DEC:
  assumes "wfq q" "bytes q \<noteq> []"
  shows "bytes (q\<lparr>q_head := DEC (q_head q)\<rparr>) = butlast (bytes q)" "LAST q = last (bytes q)"
    "wfq (q\<lparr>q_head := DEC (q_head q)\<rparr>)"
proof -
  have b: "hix q < 1024" "tix q < 1024" using assms(1) by (simp_all add: wfq_def)
  have ne: "hix q \<noteq> tix q" using assms EMPTY_bytes [of q] by (auto simp: EMPTY_def hix_def tix_def word_unat_eq_iff)
  have d: "hix (q\<lparr>q_head := DEC (q_head q)\<rparr>) = (hix q + 1024 - 1) mod 1024"
    using unat_DEC [of "q_head q"] b(1) by (simp add: hix_def add.commute)
  have l: "LAST q = q_buf q ((hix q + 1024 - 1) mod 1024)"
    using unat_DEC [of "q_head q"] b(1) by (simp add: LAST_def DEC_def hix_def and.commute add.commute)
  have u: "bytes q = bytes (q\<lparr>q_head := DEC (q_head q)\<rparr>) @ [LAST q]"
    using ring_list_unput [OF b ne, of "q_buf q"] unfolding bytes_def d l by (simp add: tix_def)
  show "bytes (q\<lparr>q_head := DEC (q_head q)\<rparr>) = butlast (bytes q)" "LAST q = last (bytes q)"
    unfolding u by simp_all
  show "wfq (q\<lparr>q_head := DEC (q_head q)\<rparr>)" using b d by (simp add: wfq_def tix_def)
qed

subsection \<open>The specification\<close>

text \<open>The byte that a received byte stands for: the translation of carriage return and newline, and of upper case (to which the
  macro \<open>tolower\<close> adds the sum of the codes of the two letters a, 162, instead of their difference).\<close>

definition received :: "tty_struct \<Rightarrow> u8 \<Rightarrow> u8 option" where
  "received t b =
     (if b = 13 \<and> \<not> I_FLAG ICRNL t \<and> I_FLAG IGNCR t then None
      else
        let c = (if b = 13 \<and> I_FLAG ICRNL t then 10 else if b = 10 \<and> I_FLAG INLCR t then 13 else b) in
        Some (if I_FLAG IUCLC t \<and> 65 \<le> c \<and> c \<le> 90 then c + 162 else c))"

text \<open>A control character of the terminal, by its index in \<open>c_cc\<close>; the source compares a \<open>signed char\<close> with an \<open>unsigned char\<close>, so that
  none above 127 is recognised.\<close>

definition key :: "tty_struct \<Rightarrow> nat \<Rightarrow> u8 \<Rightarrow> bool" where
  "key t k c \<longleftrightarrow> c = c_cc (termios t) k \<and> c < 128"

text \<open>What the byte \<open>b\<close> does to the line \<open>l\<close> of a terminal with the modes \<open>t\<close>: the characters of \<open>c_cc\<close> are erase (2), end of
  file (4), start (8), stop (9) and interrupt (0).\<close>

definition erasable :: "tty_struct \<Rightarrow> u8 list \<Rightarrow> bool" where
  "erasable t l \<longleftrightarrow> l \<noteq> [] \<and> last l \<noteq> 10 \<and> \<not> key t 4 (last l)"

definition edit :: "tty_struct \<Rightarrow> u8 \<Rightarrow> u8 list \<Rightarrow> u8 list" where
  "edit t b l =
     (case received t b of
        None \<Rightarrow> l
      | Some c \<Rightarrow>
          if L_FLAG ICANON t \<and> key t 2 c then if erasable t l then butlast l else l
          else if L_FLAG ICANON t \<and> (key t 9 c \<or> key t 8 c) then l
          else if \<not> L_FLAG ISIG t \<and> key t 0 c then l
          else l @ [c])"

text \<open>The specification in terms of the routines of the model.\<close>

lemma sint_u8: "sint (c :: u8) = (if c < 128 then uint c else uint c - 256)"
  by (rule u8_cases_below [where c = c]) code_simp

lemma sint_key: "sint c = uint (c_cc (termios t) k) \<longleftrightarrow> key t k c" "sint (c :: u8) = 10 \<longleftrightarrow> c = 10" "sint (c :: u8) = 13 \<longleftrightarrow> c = 13"
proof -
  show "sint c = uint (c_cc (termios t) k) \<longleftrightarrow> key t k c"
  proof (cases "c < 128")
    case True
    then show ?thesis by (auto simp: sint_u8 key_def word_uint_eq_iff)
  next
    case False
    then have "sint c < 0" using unsigned_less [of c, where ?'a = int] by (simp add: sint_u8)
    then have "sint c \<noteq> uint (c_cc (termios t) k)" using uint_ge_0 [of "c_cc (termios t) k"] by linarith
    then show ?thesis using False by (simp add: key_def)
  qed
  show "sint c = 10 \<longleftrightarrow> c = 10" "sint c = 13 \<longleftrightarrow> c = 13" by (rule u8_cases_below [where c = c]; code_simp)+
qed

lemma erasable_code: "erasable t l \<longleftrightarrow> l \<noteq> [] \<and> sint (last l) \<noteq> 10 \<and> sint (last l) \<noteq> EOF_CHAR t"
  by (simp add: erasable_def EOF_CHAR_def sint_key)

lemma received_code: "received t b = map_option (\<lambda>c. word_of_int (cook_lower t c)) (cook_crnl t (sint b))"
proof -
  have low: "word_of_int (sint (word_of_int (tolower c) :: u8)) = (if 65 \<le> c \<and> c \<le> 90 then c + 162 else c)" for c :: u8
    by (simp add: tolower_def isupper_iff)
  have "word_of_int (cook_lower t (sint c)) = (if I_FLAG IUCLC t \<and> 65 \<le> c \<and> c \<le> 90 then c + 162 else c)" for c :: u8
    using low [of c] by (simp add: cook_lower_def)
  from this [of b] this [of 10] this [of 13] show ?thesis
    by (auto simp: received_def cook_crnl_def sint_key Let_def)
qed

lemma cook_range:
  assumes "cook_crnl t (sint (b :: u8)) = Some c"
  shows "sint (word_of_int (cook_lower t c) :: u8) = cook_lower t c"
proof -
  have "c = sint b \<or> c = 10 \<or> c = 13" using assms by (auto simp: cook_crnl_def split: if_splits)
  then have "sint (word_of_int c :: u8) = c" by (auto simp: signed_take_bit_eq_if_positive)
  then show ?thesis by (simp add: cook_lower_def)
qed

lemma edit_code:
  "edit t b l =
     (case cook_crnl t (sint b) of
        None \<Rightarrow> l
      | Some c1 \<Rightarrow>
          let c = cook_lower t c1 in
          if L_FLAG ICANON t \<and> c = ERASE_CHAR t then if erasable t l then butlast l else l
          else if L_FLAG ICANON t \<and> (c = STOP_CHAR t \<or> c = START_CHAR t) then l
          else if \<not> L_FLAG ISIG t \<and> c = INTR_CHAR t then l
          else l @ [word_of_int c])"
proof (cases "cook_crnl t (sint b)")
  case (Some c)
  have "sint (word_of_int (cook_lower t c) :: u8) = cook_lower t c" by (rule cook_range [OF Some])
  then have k: "key t k (word_of_int (cook_lower t c)) \<longleftrightarrow> cook_lower t c = uint (c_cc (termios t) k)" for k
    using sint_key(1) [of "word_of_int (cook_lower t c)" t k] by simp
  show ?thesis
    unfolding edit_def received_code Some option.map option.case Let_def k ERASE_CHAR_def STOP_CHAR_def START_CHAR_def INTR_CHAR_def ..
qed (simp add: edit_def received_code)

lemma length_edit: "length (edit t b l) \<le> Suc (length l)"
  by (auto simp: edit_def split: option.splits)

lemma edit_termios:
  assumes "termios t = termios u"
  shows "edit t = edit u"
proof -
  have f: "L_FLAG f t = L_FLAG f u" "I_FLAG f t = I_FLAG f u" for f by (simp_all add: L_FLAG_def I_FLAG_def assms)
  have k: "key t = key u" by (simp add: key_def fun_eq_iff assms)
  have "received t = received u" by (simp add: received_def fun_eq_iff f)
  then show ?thesis unfolding edit_def erasable_def f k by simp
qed

subsection \<open>One character\<close>

text \<open>The line ends in a queue are counted in its member \<open>data\<close>.\<close>

definition line_end :: "tty_struct \<Rightarrow> u8 \<Rightarrow> bool" where
  "line_end t c \<longleftrightarrow> sint c = 10 \<or> sint c = EOF_CHAR t"

definition data_ok :: "tty_struct \<Rightarrow> bool" where
  "data_ok t \<longleftrightarrow> q_data (secondary t) = of_nat (length (filter (line_end t) (bytes (secondary t))))"

text \<open>What a step changes: the line by \<open>edit\<close>, nothing in the modes, the read queue and the other terminals; it keeps the
  count of line ends, and with \<open>ISIG\<close> set no signal is sent.\<close>

definition line_step :: "nat \<Rightarrow> (u8 list \<Rightarrow> u8 list) \<Rightarrow> 'a ttys_scheme \<Rightarrow> 'a ttys_scheme \<Rightarrow> bool" where
  "line_step n f s t \<longleftrightarrow> wfq (secondary (tty_table t n)) \<and> bytes (secondary (tty_table t n)) = f (bytes (secondary (tty_table s n)))
     \<and> termios (tty_table t n) = termios (tty_table s n) \<and> write_fn (tty_table t n) = write_fn (tty_table s n)
     \<and> read_q (tty_table t n) = read_q (tty_table s n) \<and> (\<forall>m. m \<noteq> n \<longrightarrow> tty_table t m = tty_table s m)
     \<and> (data_ok (tty_table s n) \<longrightarrow> data_ok (tty_table t n)) \<and> (L_FLAG ISIG (tty_table s n) \<longrightarrow> tasks t = tasks s) \<and> current t = current s"

text \<open>A terminal that echoes needs a write routine.\<close>

definition echo_ok :: "tty_struct \<Rightarrow> bool" where
  "echo_ok t \<longleftrightarrow> write_fn t = RsWrite \<or> \<not> L_FLAG ECHO t"

lemma L_FLAG_upd [simp]: "L_FLAG f (t\<lparr>secondary := q\<rparr>) = L_FLAG f t" "L_FLAG f (t\<lparr>read_q := q\<rparr>) = L_FLAG f t"
  "L_FLAG f (t\<lparr>write_q := q\<rparr>) = L_FLAG f t"
  by (simp_all add: L_FLAG_def)

lemma data_ok_upd [simp]: "data_ok (t\<lparr>write_q := q\<rparr>) = data_ok t" "data_ok (t\<lparr>stopped := b\<rparr>) = data_ok t" "data_ok (t\<lparr>read_q := q\<rparr>) = data_ok t"
  by (simp_all add: data_ok_def line_end_def [abs_def] EOF_CHAR_def)

lemma data_ok_erase:
  assumes "wfq (secondary t)" "erasable t (bytes (secondary t))" "data_ok t"
  shows "data_ok (t\<lparr>secondary := (secondary t)\<lparr>q_head := DEC (q_head (secondary t))\<rparr>\<rparr>)"
proof -
  obtain l c where l: "bytes (secondary t) = l @ [c]" using assms(2) by (cases "bytes (secondary t)" rule: rev_cases) (auto simp: erasable_code)
  then have "\<not> line_end t c" using assms(2) by (simp add: erasable_code line_end_def)
  then show ?thesis using assms(3) bytes_DEC(1) [OF assms(1)] l by (simp add: data_ok_def line_end_def [abs_def] EOF_CHAR_def)
qed

lemma data_ok_store:
  assumes "wfq (secondary t)" "length (bytes (secondary t)) < 1023" "data_ok t" "sint (word_of_int c :: u8) = c"
    "q = (if c = 10 \<or> c = EOF_CHAR t then (secondary t)\<lparr>q_data := q_data (secondary t) + 1\<rparr> else secondary t)"
  shows "data_ok (t\<lparr>secondary := PUTCH (word_of_int c) q\<rparr>)"
proof -
  have "bytes (PUTCH (word_of_int c) q) = bytes (secondary t) @ [word_of_int c]" using assms(1,2,5) by (simp add: bytes_PUTCH)
  moreover have "q_data (PUTCH (word_of_int c) q) = q_data q" by (simp add: PUTCH_def)
  ultimately show ?thesis using assms(3-5) by (auto simp: data_ok_def line_end_def [abs_def] EOF_CHAR_def)
qed

lemma rs_write_tasks [simp]: "tasks (rs_write n s) = tasks s" "current (rs_write n s) = current s"
  "tasks (put_write c n s) = tasks s" "current (put_write c n s) = current s"
  by (simp_all add: rs_write_def put_write_def upd_tty_def)

lemma tty_intr_current [simp]: "current (tty_intr n sig s) = current s"
proof -
  have "current (fold (\<lambda>i t. if task t i \<noteq> 0 \<and> t_pgrp (tasks t (task t i)) = pgrp (tty_table t n)
      then upd_task (task t i) (\<lambda>x. x\<lparr>t_signal := t_signal x OR sig_bit sig\<rparr>) t else t) is s) = current s" for "is"
    by (induction "is" arbitrary: s) (auto simp: upd_task_def)
  then show ?thesis by (simp add: tty_intr_def)
qed

lemma call_write_ok: "write_fn (tty_table s n) = RsWrite \<Longrightarrow> call_write n s = Inr ((), rs_write n s)"
  by (simp add: call_write_def)

lemma upd_tty_tasks [simp]: "tasks (upd_tty n f s) = tasks s" "current (upd_tty n f s) = current s"
  by (simp_all add: upd_tty_def)

text \<open>An echo changes the write queue only.\<close>

definition echoes :: "nat \<Rightarrow> 'a ttys_scheme \<Rightarrow> 'a ttys_scheme \<Rightarrow> bool" where
  "echoes n s t \<longleftrightarrow> (\<exists>q. tty_table t = (tty_table s)(n := (tty_table s n)\<lparr>write_q := q\<rparr>)) \<and> tasks t = tasks s \<and> current t = current s"

lemma echoes_same: "echoes n s s"
  by (auto simp: echoes_def intro: exI [of _ "write_q (tty_table s n)"])

lemma echoes_write:
  assumes "write_fn (tty_table s n) = RsWrite"
  shows "\<exists>t. call_write n s = Inr ((), t) \<and> echoes n s t"
    "\<exists>t. call_write n (put_write a n s) = Inr ((), t) \<and> echoes n s t"
    "\<exists>t. call_write n (put_write a n (put_write b n s)) = Inr ((), t) \<and> echoes n s t"
  using assms echoes_same [of n s] by (auto simp: call_write_ok echoes_def)

lemma cook_echo_echoes:
  assumes "echo_ok (tty_table s n)"
  shows "\<exists>t. cook_echo n c s = Inr ((), t) \<and> echoes n s t"
  using assms echoes_write [of s n] echoes_same by (auto simp: cook_echo_def Let_def echo_ok_def)

lemma cook_erase_step:
  assumes "wfq (secondary (tty_table s n))" "echo_ok (tty_table s n)"
  shows "\<exists>t. cook_erase n s = Inr ((), t) \<and> line_step n (\<lambda>l. if erasable (tty_table s n) l then butlast l else l) s t"
proof (cases "erasable (tty_table s n) (bytes (secondary (tty_table s n)))")
  case True
  let ?f = "upd_tty n (\<lambda>t. t\<lparr>secondary := (secondary t)\<lparr>q_head := DEC (q_head (secondary t))\<rparr>\<rparr>)"
  have ne: "bytes (secondary (tty_table s n)) \<noteq> []" using True by (simp add: erasable_code)
  note d = bytes_DEC [OF assms(1) ne]
  let ?c = "sint (LAST (secondary (tty_table s n)))"
  have "\<exists>u. (if L_FLAG ECHO (tty_table s n) then call_write n (put_write 127 n (if ?c < 32 then put_write 127 n s else s)) else Inr ((), s))
      = Inr ((), u) \<and> echoes n s u"
    using assms(2) echoes_write [of s n] echoes_same by (auto simp: echo_ok_def)
  then obtain u where u: "(if L_FLAG ECHO (tty_table s n) then call_write n (put_write 127 n (if ?c < 32 then put_write 127 n s else s)) else Inr ((), s))
      = Inr ((), u)" "echoes n s u" by blast
  have "cook_erase n s = Inr ((), ?f u)"
    using True u(1) d(2) EMPTY_bytes [OF assms(1)] by (simp add: cook_erase_def erasable_code Let_def kseq_def kbind_def kmodify_def)
  moreover have "line_step n (\<lambda>l. if erasable (tty_table s n) l then butlast l else l) s (?f u)"
  proof -
    obtain q where q: "tty_table u = (tty_table s)(n := (tty_table s n)\<lparr>write_q := q\<rparr>)" using u(2) by (auto simp: echoes_def)
    have "data_ok (tty_table s n) \<Longrightarrow> data_ok (tty_table (?f u) n)"
      using data_ok_erase [of "(tty_table s n)\<lparr>write_q := q\<rparr>"] assms(1) True by (simp add: q erasable_code EOF_CHAR_def)
    then show ?thesis using u(2) True d by (auto simp: line_step_def q echoes_def)
  qed
  ultimately show ?thesis by blast
next
  case False
  then show ?thesis
    using assms bytes_DEC(2) [OF assms(1)] EMPTY_bytes [OF assms(1)]
    by (auto simp: cook_erase_def erasable_code Let_def line_step_def)
qed

lemma cook_store_step:
  assumes "wfq (secondary (tty_table s n))" "echo_ok (tty_table s n)" "length (bytes (secondary (tty_table s n))) < 1023"
    "sint (word_of_int c :: u8) = c"
  shows "\<exists>t. cook_store n c s = Inr ((), t) \<and> line_step n (\<lambda>l. l @ [word_of_int c]) s t"
proof -
  let ?T = "tty_table s n"
  let ?q = "if c = 10 \<or> c = EOF_CHAR ?T then (secondary ?T)\<lparr>q_data := q_data (secondary ?T) + 1\<rparr> else secondary ?T"
  let ?s = "if c = 10 \<or> c = EOF_CHAR ?T then upd_tty n (\<lambda>t. t\<lparr>secondary := (secondary t)\<lparr>q_data := q_data (secondary t) + 1\<rparr>\<rparr>) s else s"
  let ?f = "upd_tty n (\<lambda>t. t\<lparr>secondary := PUTCH (word_of_int c) (secondary t)\<rparr>)"
  have S: "tty_table ?s = (tty_table s)(n := ?T\<lparr>secondary := ?q\<rparr>)" "tasks ?s = tasks s" "current ?s = current s" by auto
  have "echo_ok (tty_table ?s n)" using assms(2) by (simp add: S echo_ok_def)
  then obtain u where u: "cook_echo n c ?s = Inr ((), u)" "echoes n ?s u" using cook_echo_echoes by blast
  obtain w where w: "tty_table u = (tty_table s)(n := ?T\<lparr>secondary := ?q, write_q := w\<rparr>)" "tasks u = tasks s" "current u = current s"
    using u(2) unfolding echoes_def S by auto
  have "cook_store n c s = Inr ((), ?f u)" using u(1) by (simp add: cook_store_def kseq_def kbind_def kmodify_def)
  moreover have "data_ok ?T \<Longrightarrow> data_ok (?T\<lparr>write_q := w, secondary := PUTCH (word_of_int c) ?q\<rparr>)"
    using data_ok_store [of "?T\<lparr>write_q := w\<rparr>" c ?q] assms(1,3,4) by (simp add: EOF_CHAR_def)
  then have "line_step n (\<lambda>l. l @ [word_of_int c]) s (?f u)"
    using assms(1,3) w by (simp add: line_step_def wfq_PUTCH bytes_PUTCH)
  ultimately show ?thesis by blast
qed

lemma cook_char_step:
  assumes "wfq (secondary (tty_table s n))" "echo_ok (tty_table s n)" "length (bytes (secondary (tty_table s n))) < 1023"
  shows "\<exists>t. cook_char n (sint b) s = Inr ((), t) \<and> line_step n (edit (tty_table s n) b) s t"
proof -
  have same: "line_step n (\<lambda>l. l) s s" "\<not> L_FLAG ISIG (tty_table s n) \<Longrightarrow> line_step n (\<lambda>l. l) s (tty_intr n SIGINT s)"
    "line_step n (\<lambda>l. l) s (upd_tty n (\<lambda>t. t\<lparr>stopped := x\<rparr>) s)" for x
    using assms(1) by (simp_all add: line_step_def)
  show ?thesis
    using same cook_erase_step [OF assms(1,2)] cook_store_step [OF assms cook_range]
    by (auto simp: cook_char_def edit_code [abs_def] Let_def split: option.splits)
qed

subsection \<open>The loop\<close>

lemma echo_ok_step: "line_step n f s t \<Longrightarrow> echo_ok (tty_table t n) = echo_ok (tty_table s n)"
  by (simp add: line_step_def echo_ok_def L_FLAG_def)

lemma cook_loop_edits:
  assumes "wfq (read_q (tty_table s n))" "wfq (secondary (tty_table s n))" "echo_ok (tty_table s n)"
    "length (bytes (secondary (tty_table s n))) + length (bytes (read_q (tty_table s n))) < 1023"
  shows "\<exists>t. cook_loop n s = Some (Inr ((), t)) \<and> bytes (read_q (tty_table t n)) = []
    \<and> bytes (secondary (tty_table t n)) = fold (edit (tty_table s n)) (bytes (read_q (tty_table s n))) (bytes (secondary (tty_table s n)))
    \<and> (\<forall>m. m \<noteq> n \<longrightarrow> tty_table t m = tty_table s m)
    \<and> wfq (secondary (tty_table t n)) \<and> termios (tty_table t n) = termios (tty_table s n) \<and> (data_ok (tty_table s n) \<longrightarrow> data_ok (tty_table t n))
    \<and> (L_FLAG ISIG (tty_table s n) \<longrightarrow> tasks t = tasks s) \<and> current t = current s"
  using assms
proof (induction "bytes (read_q (tty_table s n))" arbitrary: s)
  case Nil
  then have "EMPTY (read_q (tty_table s n))" by (simp add: EMPTY_bytes)
  then show ?case using Nil by (subst cook_loop.simps) (auto simp: Nil.hyps [symmetric])
next
  case (Cons b bs)
  let ?T = "tty_table s n" and ?s = "snd (cook_get n s)"
  note g = bytes_GETCH [OF Cons.prems(1) Cons.hyps(2) [symmetric]] wfq_GETCH [OF Cons.prems(1)]
  have c: "\<not> EMPTY (read_q ?T)" "\<not> FULL (secondary ?T)"
    using Cons.prems Cons.hyps(2) [symmetric] by (auto simp: EMPTY_bytes FULL_bytes)
  have s: "tty_table ?s = (tty_table s)(n := ?T\<lparr>read_q := snd (GETCH (read_q ?T))\<rparr>)"
    "fst (cook_get n s) = sint b" using g by (simp_all add: cook_get_def split_beta)
  have e: "edit (tty_table ?s n) = edit ?T" by (rule edit_termios) (simp add: s)
  obtain t where t: "cook_char n (sint b) ?s = Inr ((), t)" "line_step n (edit ?T b) ?s t"
    using cook_char_step [of ?s n b] Cons.prems Cons.hyps(2) [symmetric] unfolding e by (auto simp: s echo_ok_def L_FLAG_def)
  have r: "cook_loop n s = cook_loop n t" using c s t(1) by (subst cook_loop.simps) simp
  have a: "bs = bytes (read_q (tty_table t n))" "wfq (read_q (tty_table t n))" "wfq (secondary (tty_table t n))"
    "bytes (secondary (tty_table t n)) = edit ?T b (bytes (secondary ?T))" "\<forall>m. m \<noteq> n \<longrightarrow> tty_table t m = tty_table s m"
    using t(2) g by (auto simp: line_step_def s)
  have u: "termios (tty_table t n) = termios ?T" "data_ok ?T \<longrightarrow> data_ok (tty_table t n)" "L_FLAG ISIG ?T \<longrightarrow> tasks t = tasks s" "current t = current s"
    using t(2) by (simp_all add: line_step_def s cook_get_def split_beta)
  have v: "L_FLAG ISIG (tty_table t n) = L_FLAG ISIG ?T" using u(1) by (simp add: L_FLAG_def)
  have o: "echo_ok (tty_table t n)" using echo_ok_step [OF t(2)] Cons.prems(3) by (simp add: s echo_ok_def L_FLAG_def)
  have "edit (tty_table t n) = edit ?T" by (rule edit_termios) (use t(2) in \<open>simp add: line_step_def s\<close>)
  moreover have "length (bytes (secondary (tty_table t n))) + length (bytes (read_q (tty_table t n))) < 1023"
    using a(1,4) Cons.prems(4) Cons.hyps(2) [symmetric] length_edit [of ?T b "bytes (secondary ?T)"] by simp
  note Cons.hyps(1) [OF a(1-3) o this]
  ultimately obtain w where w: "cook_loop n t = Some (Inr ((), w))" "bytes (read_q (tty_table w n)) = []"
    "bytes (secondary (tty_table w n)) = fold (edit ?T) bs (edit ?T b (bytes (secondary ?T)))"
    "\<forall>m. m \<noteq> n \<longrightarrow> tty_table w m = tty_table t m" "wfq (secondary (tty_table w n))" "termios (tty_table w n) = termios (tty_table t n)"
    "data_ok (tty_table t n) \<longrightarrow> data_ok (tty_table w n)" "L_FLAG ISIG ?T \<longrightarrow> tasks w = tasks t" "current w = current t"
    unfolding a(4) v a(1) [symmetric] by metis
  then show ?case
    unfolding r Cons.hyps(2) [symmetric] using u a(5) by (intro exI [of _ w] conjI) simp_all
qed

subsection \<open>Properties\<close>

text \<open>C13: \<open>copy_to_cooked\<close> implements the line discipline: it returns with the read queue empty, and the line in the
  secondary queue is the result of editing with each received byte in order -- translation of carriage return
  and newline, upper case, erasing back to the last line end, flow control and the interrupt character -- for all
  settings of the modes; no other terminal is touched.  Two conditions: a terminal that echoes has a write
  routine (the console has none, and its echo would be a call through the null pointer), and the line and the received bytes
  together are fewer than 1023, so that the secondary queue does not fill up.\<close>

theorem copy_to_cooked_edits:
  assumes "wfq (read_q (tty_table s n))" "wfq (secondary (tty_table s n))" "echo_ok (tty_table s n)"
    "length (bytes (secondary (tty_table s n))) + length (bytes (read_q (tty_table s n))) < 1023"
  shows "\<exists>t. copy_to_cooked n s = Inr ((), t) \<and> bytes (read_q (tty_table t n)) = []
    \<and> bytes (secondary (tty_table t n)) = fold (edit (tty_table s n)) (bytes (read_q (tty_table s n))) (bytes (secondary (tty_table s n)))
    \<and> (\<forall>m. m \<noteq> n \<longrightarrow> tty_table t m = tty_table s m)"
  using cook_loop_edits [OF assms] by (auto simp: copy_to_cooked_def)

text \<open>A serial line set to canonical mode with echo receives \<open>A\<close>, \<open>B\<close>, erase, \<open>C\<close> and a carriage return.\<close>

definition canonical_line :: ttys where
  "canonical_line = upd_tty 1 (\<lambda>t. t\<lparr>termios := (termios t)\<lparr>c_iflag := ICRNL, c_lflag := ICANON OR ECHO OR ISIG\<rparr>,
     read_q := fold PUTCH [65, 66, 127, 67, 13] (read_q t)\<rparr>) boot_ttys"

theorem copy_to_cooked_edits_witness:
  "\<exists>t. copy_to_cooked 1 canonical_line = Inr ((), t) \<and> bytes (secondary (tty_table t 1)) = [65, 67, 10]"
proof -
  let ?T = "tty_table canonical_line 1"
  have b: "bytes (read_q ?T) = [65, 66, 127, 67, 13]" "wfq (read_q ?T)" "bytes (secondary ?T) = []" "wfq (secondary ?T)"
    by (simp_all add: canonical_line_def boot_ttys_table init_tty_table_def bytes_PUTCH wfq_PUTCH)
  have "echo_ok ?T" by (simp add: canonical_line_def boot_ttys_table init_tty_table_def echo_ok_def)
  moreover have "fold (edit ?T) [65, 66, 127, 67, 13] [] = [65, 67, 10]"
    by (simp add: canonical_line_def boot_ttys_table init_tty_table_def edit_def erasable_def received_def key_def
        L_FLAG_def I_FLAG_def ERASE_CHAR_def EOF_CHAR_def STOP_CHAR_def START_CHAR_def INTR_CHAR_def init_c_cc_def
        ICRNL_def IGNCR_def INLCR_def IUCLC_def ICANON_def ISIG_def ECHO_def Let_def)
  ultimately show ?thesis using copy_to_cooked_edits [OF b(2,4)] b by auto
qed

end
