(* ===== verification/Tty_Read.thy ===== *)
theory Tty_Read
  imports Tty_Line
begin

text \<open>
  Reading from a terminal.  The specification \<open>take_line\<close> says which bytes of a line a read delivers; \<open>tty_read\<close> (\<open>kernel/tty_io.c\<close>)
  delivers these in canonical mode.  Together with the line discipline of \<open>Tty_Line\<close> this follows a line from
  the received bytes to the reading process.
\<close>

subsection \<open>The specification\<close>

text \<open>The bytes that a read of at most \<open>n\<close> bytes delivers from a line, what is left, and whether it ended at a byte
  for which \<open>e\<close> holds, which is taken but not delivered.\<close>

fun take_line :: "(u8 \<Rightarrow> bool) \<Rightarrow> nat \<Rightarrow> u8 list \<Rightarrow> u8 list \<times> u8 list \<times> bool" where
  "take_line e 0 l = ([], l, False)"
| "take_line e (Suc n) [] = ([], [], False)"
| "take_line e (Suc n) (c # l) = (if e c then ([], l, True) else let (d, r, f) = take_line e n l in (c # d, r, f))"

lemma take_line_delivers: "fst (take_line e n l) = take n (takeWhile (\<lambda>c. \<not> e c) l)"
  by (induction e n l rule: take_line.induct) (auto simp: split_beta)

definition is_eof :: "tty_struct \<Rightarrow> u8 \<Rightarrow> bool" where
  "is_eof t c \<longleftrightarrow> L_FLAG ICANON t \<and> uint c = EOF_CHAR t"

lemma is_eof_termios: "termios t = termios u \<Longrightarrow> is_eof t = is_eof u"
  by (simp add: is_eof_def fun_eq_iff L_FLAG_def EOF_CHAR_def)

subsection \<open>The inner loop\<close>

text \<open>What reading changes: the secondary queue of one terminal.\<close>

definition reads :: "nat \<Rightarrow> u8 list \<Rightarrow> 'a ttys_scheme \<Rightarrow> 'a ttys_scheme \<Rightarrow> bool" where
  "reads n r s t \<longleftrightarrow> wfq (secondary (tty_table t n)) \<and> bytes (secondary (tty_table t n)) = r
     \<and> termios (tty_table t n) = termios (tty_table s n) \<and> (\<forall>m. m \<noteq> n \<longrightarrow> tty_table t m = tty_table s m)
     \<and> tasks t = tasks s \<and> current t = current s"

lemma reads_trans: "reads n r s t \<Longrightarrow> reads n r' t u \<Longrightarrow> reads n r' s u"
  by (simp add: reads_def)

lemma read_chars_takes:
  assumes "wfq (secondary (tty_table s n))" "bytes (secondary (tty_table s n)) \<noteq> []" "0 < nr"
    "take_line (is_eof (tty_table s n)) nr (bytes (secondary (tty_table s n))) = (d, r, f)"
  shows "\<exists>t. read_chars n nr b s = (f, nr - length d, b @ d, t) \<and> reads n r s t"
  using assms
proof (induction nr arbitrary: b s d)
  case (Suc nr)
  let ?T = "tty_table s n"
  obtain c l where l: "bytes (secondary ?T) = c # l" using Suc.prems(2) by (cases "bytes (secondary ?T)") auto
  obtain q where g: "GETCH (secondary ?T) = (c, q)" "bytes q = l" "wfq q"
    using bytes_GETCH [OF Suc.prems(1) l] wfq_GETCH [OF Suc.prems(1)] by (cases "GETCH (secondary ?T)") auto
  let ?q = "if uint c = EOF_CHAR ?T \<or> c = 10 then q\<lparr>q_data := q_data q - 1\<rparr> else q"
  let ?s = "upd_tty n (\<lambda>t. t\<lparr>secondary := ?q\<rparr>) s"
  have q: "bytes ?q = l" "wfq ?q" "EMPTY ?q \<longleftrightarrow> l = []" using g by (simp_all add: EMPTY_bytes)
  have s: "tty_table ?s n = ?T\<lparr>secondary := ?q\<rparr>" "reads n l s ?s" using q by (simp_all add: reads_def)
  have e: "is_eof (tty_table ?s n) = is_eof ?T" by (rule is_eof_termios) (simp add: s(1))
  have step: "read_chars n (Suc nr) b s = (if is_eof ?T c then (True, Suc nr, b, ?s)
      else if nr = 0 \<or> l = [] then (False, nr, b @ [c], ?s) else read_chars n nr (b @ [c]) ?s)"
    using g(1) q(3) by (auto simp: is_eof_def Let_def)
  show ?case
  proof (cases "is_eof ?T c \<or> nr = 0 \<or> l = []")
    case True
    then have "(d, r, f) = (if is_eof ?T c then ([], l, True) else ([c], l, False))"
      using Suc.prems(4) unfolding l by (cases nr) (auto split: if_splits)
    then show ?thesis using True s(2) unfolding step by (auto split: if_splits)
  next
    case False
    obtain d' where d: "d = c # d'" "take_line (is_eof ?T) nr l = (d', r, f)"
      using Suc.prems(4) False l by (auto split: prod.splits)
    have "take_line (is_eof (tty_table ?s n)) nr (bytes (secondary (tty_table ?s n))) = (d', r, f)"
      unfolding e using d(2) q(1) by simp
    then have "\<exists>t. read_chars n nr (b @ [c]) ?s = (f, nr - length d', (b @ [c]) @ d', t) \<and> reads n r ?s t"
      using False q by (intro Suc.IH) (simp_all add: s(1))
    then show ?thesis using False d(1) s(2) reads_trans unfolding step by fastforce
  qed
qed simp

subsection \<open>Canonical mode\<close>

lemma tty_read_canonical:
  assumes "n < 3" "0 < nr" "wfq (secondary (tty_table s n))" "L_FLAG ICANON (tty_table s n)" "c_cc (termios (tty_table s n)) 5 = 0"
    "cur_signal s = 0" "bytes (secondary (tty_table s n)) \<noteq> []" "q_data (secondary (tty_table s n)) \<noteq> 0"
    "take_line (is_eof (tty_table s n)) (nat nr) (bytes (secondary (tty_table s n))) = (d, r, f)"
  shows "\<exists>u. tty_read n nr s = Inr ((int (length d), d), u) \<and> wfq (secondary (tty_table u n)) \<and> bytes (secondary (tty_table u n)) = r
    \<and> (\<forall>m. m \<noteq> n \<longrightarrow> tty_table u m = tty_table s m)"
proof -
  obtain t where t: "read_chars n (nat nr) [] s = (f, nat nr - length d, d, t)" "reads n r s t"
    using read_chars_takes [OF assms(3,7) _ assms(9), of "[]"] assms(2) by auto
  have "d \<noteq> []" if "\<not> f"
    using assms(2,7,9) that by (cases "nat nr"; cases "bytes (secondary (tty_table s n))") (auto split: if_splits prod.splits)
  moreover have "L_FLAG ICANON (tty_table t n)" "cur_signal t = 0"
    using t(2) assms(4,6) by (simp_all add: reads_def L_FLAG_def cur_signal_def)
  moreover have "\<not> EMPTY (secondary (tty_table s n))" using assms(3,7) by (simp add: EMPTY_bytes)
  ultimately have "read_round n m 0 a (False, nat nr, [], s)
      = Inl (if f then Inr ((int (length d), d), t) else read_finish a d t)" for m a
    using t(1) assms(2,6,8) by (simp add: read_round_def)
  then have "read_loop n m 0 a (False, nat nr, [], s) = Some (if f then Inr ((int (length d), d), t) else read_finish a d t)" for m a
    by (subst read_loop.simps) simp
  then have "tty_read n nr s = (if f then Inr ((int (length d), d), t) else read_finish (t_alarm (tasks s (current s))) d t)"
    using assms(1,2,5) by (simp add: tty_read_def Let_def)
  moreover have "cur_signal (set_alarm a t) = 0" for a
    using \<open>cur_signal t = 0\<close> by (simp add: cur_signal_def set_alarm_def upd_task_def)
  ultimately show ?thesis using t(2) by (auto simp: read_finish_def Let_def reads_def set_alarm_def)
qed

subsection \<open>From the received bytes to the reader\<close>

lemma wake_up_signal [simp]: "cur_signal (wake_up q s) = cur_signal s" "tty_table (wake_up q s) = tty_table s"
  by (simp_all add: wake_up_def cur_signal_def upd_task_def)

lemma data_counts:
  assumes "data_ok t" "wfq (secondary t)" "\<exists>c\<in>set (bytes (secondary t)). line_end t c"
  shows "q_data (secondary t) \<noteq> 0"
proof -
  let ?n = "length (filter (line_end t) (bytes (secondary t)))"
  have "?n \<noteq> 0" using assms(3) by (auto simp: filter_empty_conv)
  moreover have "?n < 1024" using length_filter_le [of "line_end t" "bytes (secondary t)"] assms(2)
    by (simp add: bytes_def ring_list_def ring_len_def wfq_def order_le_less_trans)
  ultimately have "unat (of_nat ?n :: u64) \<noteq> 0" by (simp add: unat_of_nat take_bit_nat_eq_self)
  then show ?thesis using assms(1) unfolding data_ok_def by auto
qed

text \<open>C14: A line reaches the process that reads it: once the received bytes, edited in order, hold the end of a line,
  the interrupt's \<open>do_tty_interrupt\<close> followed by \<open>tty_read\<close> in canonical mode delivers exactly the bytes that \<open>take_line\<close> takes
  from the edited line -- at most as many as asked, up to an end of file, which is taken and not delivered --
  returns their number without sleeping, leaves the rest for the next read and touches no other terminal.  The
  conditions: \<open>ISIG\<close> is set, so that no received byte raises a signal, and none is pending; no time limit is set (\<open>VTIME\<close> is 0); the queues are well formed, the
  count of line ends is right, and there is room for the received bytes; a terminal that echoes has a write routine.\<close>

theorem typed_line_read:
  assumes "n < 3" "0 < nr" "wfq (read_q (tty_table s n))" "wfq (secondary (tty_table s n))" "data_ok (tty_table s n)"
    "echo_ok (tty_table s n)" "L_FLAG ICANON (tty_table s n)" "L_FLAG ISIG (tty_table s n)" "c_cc (termios (tty_table s n)) 5 = 0"
    "length (bytes (secondary (tty_table s n))) + length (bytes (read_q (tty_table s n))) < 1023" "cur_signal s = 0"
    "l = fold (edit (tty_table s n)) (bytes (read_q (tty_table s n))) (bytes (secondary (tty_table s n)))"
    "\<exists>c\<in>set l. line_end (tty_table s n) c" "take_line (is_eof (tty_table s n)) (nat nr) l = (d, r, f)"
  shows "\<exists>t u. do_tty_interrupt n s = Inr ((), t) \<and> tty_read n nr t = Inr ((int (length d), d), u)
    \<and> bytes (secondary (tty_table u n)) = r \<and> (\<forall>m. m \<noteq> n \<longrightarrow> tty_table u m = tty_table s m)"
proof -
  obtain v where v: "cook_loop n s = Some (Inr ((), v))" "bytes (secondary (tty_table v n)) = l" "wfq (secondary (tty_table v n))"
    "\<forall>m. m \<noteq> n \<longrightarrow> tty_table v m = tty_table s m" "termios (tty_table v n) = termios (tty_table s n)" "data_ok (tty_table v n)"
    "tasks v = tasks s" "current v = current s"
    using cook_loop_edits [OF assms(3,4,6,10)] assms(5,8) unfolding assms(12) [symmetric] by metis
  let ?t = "wake_up (q_wait (secondary (tty_table v n))) v"
  have same: "L_FLAG ICANON (tty_table v n)" "is_eof (tty_table v n) = is_eof (tty_table s n)" "line_end (tty_table v n) = line_end (tty_table s n)"
    "cur_signal v = 0"
    using assms(7,11) v(5,7,8) is_eof_termios [OF v(5)] by (simp_all add: L_FLAG_def line_end_def [abs_def] EOF_CHAR_def cur_signal_def)
  have q: "q_data (secondary (tty_table v n)) \<noteq> 0" using data_counts [OF v(6,3)] assms(13) by (simp add: v(2) same(3))
  have "do_tty_interrupt n s = Inr ((), ?t)" using assms(1) v(1) by (simp add: do_tty_interrupt_def copy_to_cooked_def)
  moreover have "\<exists>u. tty_read n nr ?t = Inr ((int (length d), d), u) \<and> wfq (secondary (tty_table u n)) \<and> bytes (secondary (tty_table u n)) = r
      \<and> (\<forall>m. m \<noteq> n \<longrightarrow> tty_table u m = tty_table ?t m)"
  proof (rule tty_read_canonical [where f = f])
    show "bytes (secondary (tty_table ?t n)) \<noteq> []" using assms(13) by (auto simp: v(2))
  qed (use assms(1,2,9,14) v(2,3,5) same q in simp_all)
  then obtain u where "tty_read n nr ?t = Inr ((int (length d), d), u)" "bytes (secondary (tty_table u n)) = r"
      "\<forall>m. m \<noteq> n \<longrightarrow> tty_table u m = tty_table s m" using v(4) by auto
  ultimately show ?thesis by (intro exI [of _ ?t] exI [of _ u] conjI)
qed

text \<open>The serial line of \<open>canonical_line\<close>: the line \<open>A\<close>, \<open>C\<close>, newline is read by a process that asks for at most ten bytes.\<close>

theorem typed_line_read_witness:
  "\<exists>t u. do_tty_interrupt 1 canonical_line = Inr ((), t) \<and> tty_read 1 10 t = Inr ((3, [65, 67, 10]), u) \<and> bytes (secondary (tty_table u 1)) = []"
proof -
  let ?T = "tty_table canonical_line 1"
  note defs = canonical_line_def boot_ttys_table init_tty_table_def
  have b: "bytes (read_q ?T) = [65, 66, 127, 67, 13]" "wfq (read_q ?T)" "bytes (secondary ?T) = []" "wfq (secondary ?T)"
    by (simp_all add: defs bytes_PUTCH wfq_PUTCH)
  have m: "echo_ok ?T" "L_FLAG ICANON ?T" "L_FLAG ISIG ?T" "c_cc (termios ?T) 5 = 0" "q_data (secondary ?T) = 0" "EOF_CHAR ?T = 4"
    by (simp_all add: defs echo_ok_def L_FLAG_def ICANON_def ISIG_def ECHO_def init_c_cc_def EOF_CHAR_def empty_queue_def)
  have e: "fold (edit ?T) [65, 66, 127, 67, 13] [] = [65, 67, 10]"
    by (simp add: defs edit_def erasable_def received_def key_def
        L_FLAG_def I_FLAG_def ERASE_CHAR_def EOF_CHAR_def STOP_CHAR_def START_CHAR_def INTR_CHAR_def init_c_cc_def
        ICRNL_def IGNCR_def INLCR_def IUCLC_def ICANON_def ISIG_def ECHO_def Let_def)
  have "cur_signal canonical_line = 0" by (simp add: canonical_line_def cur_signal_def two_tasks_def plain_task_def boot_ttys_def sched.extend_def)
  moreover have "take_line (is_eof ?T) (nat 10) [65, 67, 10] = ([65, 67, 10], [], False)"
  proof -
    have "\<not> is_eof ?T 65" "\<not> is_eof ?T 67" "\<not> is_eof ?T 10" using m(6) by (simp_all add: is_eof_def del: One_nat_def)
    moreover have "nat 10 = Suc (Suc (Suc 7))" by simp
    ultimately show ?thesis by (simp only: take_line.simps if_False Let_def prod.case) (simp add: eval_nat_numeral)
  qed
  moreover have "data_ok ?T" using b(3) m(5) by (simp add: data_ok_def del: One_nat_def)
  ultimately show ?thesis
    using typed_line_read [of 1 10 canonical_line "[65, 67, 10]" "[65, 67, 10]" "[]" False] b m e by (auto simp: line_end_def)
qed

end
