(* ===== verification/Fs_State.thy ===== *)
theory Fs_State
  imports Tty
begin

text \<open>
  The state of the file system and of the disk driver: the tables of \<open>linux/fs.h\<close>, the static
  variables of \<open>kernel/hd.c\<close>, \<open>kernel/virtio.c\<close>, \<open>fs/buffer.c\<close>, \<open>fs/inode.c\<close>, \<open>fs/super.c\<close> and
  \<open>fs/file_table.c\<close>.

  Buffer heads are the elements of the array at \<open>start_buffer\<close>; pointers to them are indices, with
  \<open>None\<close> for NULL, and \<open>b_data\<close> is the block the buffer head points to.  Requests and super blocks
  are elements of their tables in the same way.  Inodes and files are found by their address,
  since task structures hold pointers to them.  The heads of wait queues are elements of \<open>waitq\<close>
  of the scheduler state at the address of the C variable; the addresses of the static ones are
  fields of the state.
\<close>

subsection \<open>Structures\<close>

record buffer_head =
  b_data :: "nat \<Rightarrow> u8"
  b_dev :: u16
  b_blocknr :: u16
  b_uptodate :: u8
  b_dirt :: u8
  b_count :: u8
  b_lock :: u8
  b_prev :: "nat option"
  b_next :: "nat option"
  b_prev_free :: "nat option"
  b_next_free :: "nat option"

record m_inode =
  i_mode :: u16
  i_uid :: u16
  i_size :: u64
  i_mtime :: u64
  i_gid :: u8
  i_nlinks :: u8
  i_zone :: "nat \<Rightarrow> u16"
  i_atime :: u64
  i_ctime :: u64
  i_dev :: u16
  i_num :: u16
  i_count :: u16
  i_lock :: u8
  i_dirt :: u8
  i_pipe :: u8
  i_mount :: u8
  i_seek :: u8
  i_update :: u8

record file_struct =
  f_mode :: u16
  f_flags :: u16
  f_count :: u16
  f_inode :: u64
  f_pos :: int

record super_block =
  s_ninodes :: u16
  s_nzones :: u16
  s_imap_blocks :: u16
  s_zmap_blocks :: u16
  s_firstdatazone :: u16
  s_log_zone_size :: u16
  s_max_size :: u64
  s_magic :: u16
  s_imap :: "nat \<Rightarrow> nat option"
  s_zmap :: "nat \<Rightarrow> nat option"
  s_dev :: u16
  s_isup :: u64
  s_imount :: u64
  s_time :: u64
  s_rd_only :: u8
  s_dirt :: u8

record hd_request =
  r_hd :: int
  r_nsector :: int
  r_sector :: int
  r_head :: int
  r_cyl :: int
  r_cmd :: int
  r_errors :: int
  r_bh :: nat
  r_next :: "nat option"

record hd_geometry =
  g_head :: u32
  g_sect :: u32
  g_cyl :: u32

record virtq_desc =
  d_addr :: u64
  d_len :: u32
  d_flags :: u16
  d_next :: u16

datatype hd_handler = ReadIntr | WriteIntr

subsection \<open>State\<close>

record kern = ttys +
  start_buffer :: u64
  nr_buffers :: nat
  bufs :: "nat \<Rightarrow> buffer_head"
  hash_table :: "nat \<Rightarrow> nat option"
  free_list :: "nat option"
  buffer_wait :: u64                      \<comment> \<open>address of the variable\<close>
  hd_info :: "hd_geometry list"           \<comment> \<open>\<open>hd_info[]\<close>: \<open>NR_HD\<close> is its length\<close>
  hd_part :: "nat \<Rightarrow> int \<times> int"         \<comment> \<open>\<open>hd[]\<close>: start sector and number of sectors\<close>
  request :: "nat \<Rightarrow> hd_request"
  this_request :: "nat option"
  sorting :: bool
  do_hd :: "hd_handler option"
  wait_for_request :: u64                 \<comment> \<open>address of the variable\<close>
  geometry :: hd_geometry                 \<comment> \<open>\<open>disk_cfg->geometry\<close>\<close>
  vq_desc :: "nat \<Rightarrow> virtq_desc"
  vq_avail_idx :: u16
  vq_avail_ring :: "nat \<Rightarrow> u16"
  vq_notified :: nat                      \<comment> \<open>writes to the notification register\<close>
  virt_type :: u32                        \<comment> \<open>\<open>virt_request.type\<close>\<close>
  virt_reserved :: u32                    \<comment> \<open>\<open>virt_request.reserved\<close>\<close>
  virt_sector :: u64                      \<comment> \<open>\<open>virt_request.sector\<close>\<close>
  virt_buffer :: "nat \<Rightarrow> u8"
  virt_status :: u8
  virt_addr :: "u64 \<times> u64 \<times> u64"        \<comment> \<open>addresses of \<open>virt_request\<close>, \<open>virt_buffer\<close>, \<open>virt_status\<close>\<close>
  virt_isr :: u32                         \<comment> \<open>the interrupt status register of the device\<close>
  virt_acked :: "u32 list"                \<comment> \<open>values written to the interrupt acknowledge register\<close>
  inode_table :: u64                      \<comment> \<open>address of the array\<close>
  inodes :: "u64 \<Rightarrow> m_inode"
  last_allocated_inode :: nat
  file_table :: u64                       \<comment> \<open>address of the array\<close>
  files :: "u64 \<Rightarrow> file_struct"
  supers :: "nat \<Rightarrow> super_block"
  startup_time :: int
  setup_callable :: bool                  \<comment> \<open>the static of \<open>sys_setup\<close>\<close>

definition NR_INODE :: nat where "NR_INODE = 32"
definition NR_FILE :: nat where "NR_FILE = 64"
definition NR_OPEN :: nat where "NR_OPEN = 20"
definition NR_SUPER :: nat where "NR_SUPER = 8"
definition NR_HASH :: nat where "NR_HASH = 307"
definition BLOCK_SIZE :: nat where "BLOCK_SIZE = 1024"
definition NAME_LEN :: nat where "NAME_LEN = 14"

definition upd_buf :: "nat \<Rightarrow> (buffer_head \<Rightarrow> buffer_head) \<Rightarrow> 'a kern_scheme \<Rightarrow> 'a kern_scheme" where
  "upd_buf i f s = s\<lparr>bufs := (bufs s)(i := f (bufs s i))\<rparr>"

definition upd_inode :: "u64 \<Rightarrow> (m_inode \<Rightarrow> m_inode) \<Rightarrow> 'a kern_scheme \<Rightarrow> 'a kern_scheme" where
  "upd_inode p f s = s\<lparr>inodes := (inodes s)(p := f (inodes s p))\<rparr>"

definition upd_file :: "u64 \<Rightarrow> (file_struct \<Rightarrow> file_struct) \<Rightarrow> 'a kern_scheme \<Rightarrow> 'a kern_scheme" where
  "upd_file p f s = s\<lparr>files := (files s)(p := f (files s p))\<rparr>"

definition upd_super :: "nat \<Rightarrow> (super_block \<Rightarrow> super_block) \<Rightarrow> 'a kern_scheme \<Rightarrow> 'a kern_scheme" where
  "upd_super i f s = s\<lparr>supers := (supers s)(i := f (supers s i))\<rparr>"

definition upd_req :: "nat \<Rightarrow> (hd_request \<Rightarrow> hd_request) \<Rightarrow> 'a kern_scheme \<Rightarrow> 'a kern_scheme" where
  "upd_req i f s = s\<lparr>request := (request s)(i := f (request s i))\<rparr>"

text \<open>Addresses: a buffer head has 56 bytes with \<open>b_wait\<close> at 16, an inode 88 bytes with \<open>i_wait\<close> at
  48, a file 24 bytes.\<close>

definition b_wait :: "'a kern_scheme \<Rightarrow> nat \<Rightarrow> u64" where
  "b_wait s i = start_buffer s + of_nat (56 * i) + 16"

definition i_wait :: "u64 \<Rightarrow> u64" where
  "i_wait p = p + 48"

definition inode_at :: "'a kern_scheme \<Rightarrow> nat \<Rightarrow> u64" where
  "inode_at s i = inode_table s + of_nat (88 * i)"

definition file_at :: "'a kern_scheme \<Rightarrow> nat \<Rightarrow> u64" where
  "file_at s i = file_table s + of_nat (24 * i)"

text \<open>\<open>MAJOR(a)\<close> and \<open>MINOR(a)\<close> of a device number.\<close>

definition MAJOR :: "u16 \<Rightarrow> nat" where "MAJOR a = unat (drop_bit 8 a)"
definition MINOR :: "u16 \<Rightarrow> nat" where "MINOR a = unat (a AND 0xff)"

text \<open>\<open>CURRENT_TIME\<close>; \<open>jiffies/HZ\<close> rounds towards zero.\<close>

definition CURRENT_TIME :: "'a kern_scheme \<Rightarrow> u64" where
  "CURRENT_TIME s = word_of_int (startup_time s + (if 0 \<le> jiffies s then jiffies s div 100 else - (- jiffies s div 100)))"

end
