(* ===== verification/Hd.thy ===== *)
theory Hd
  imports Fs_State
begin

text \<open>
  Model of the disk driver: \<open>kernel/hd.c\<close> (requests, the elevator, interrupts, the geometry) and
  \<open>kernel/virtio.c\<close> (initialisation and commands of the virtio block device).

  \<open>hd_info\<close> is the list of drive geometries; the source declares it with no element.  The device is
  known through its registers: the values read at initialisation are a parameter, the values
  written are the result.
\<close>

definition READ :: int where "READ = 0"
definition WRITE :: int where "WRITE = 1"
definition WIN_READ :: int where "WIN_READ = 0x20"
definition WIN_WRITE :: int where "WIN_WRITE = 0x30"
definition NR_REQUEST :: nat where "NR_REQUEST = 32"

subsection \<open>The virtio device\<close>

text \<open>\<open>virtio_mmio_init\<close>: \<open>reg\<close> are the values of the registers at their offsets, \<open>pfn\<close> the page
  frame of the queue; the result is the list of register writes and the message of the panic that
  ends them, if any.  The clearing of the queue itself is left out: the commands are recorded as descriptors, and the array
  has no size in the source.\<close>

definition feature_mask :: u32 where
  "feature_mask = fold (\<lambda>n m. m AND NOT (push_bit n 1)) [5, 7, 11, 12, 27, 29, 28] (NOT 0)"

definition virtio_mmio_init :: "(nat \<Rightarrow> u32) \<Rightarrow> u32 \<Rightarrow> (nat \<times> u32) list \<times> string option" where
  "virtio_mmio_init reg pfn =
     (if reg 0x000 \<noteq> 0x74726976 \<or> reg 0x004 \<noteq> 1 \<or> reg 0x008 \<noteq> 2 \<or> reg 0x00c \<noteq> 0x554d4551
      then ([], Some ''Could not find virtio disk'')
      else
        let s1 = 0 OR 1; s2 = s1 OR 2; s3 = s2 OR 8; s4 = s3 OR 4;
            features = reg 0x010 AND feature_mask;
            ws = [(0x070, 0), (0x070, s1), (0x070, s2), (0x020, features), (0x070, s3), (0x070, s4),
                  (0x028, 4096), (0x030, 0)] in
        if reg 0x034 = 0 then (ws, Some ''virtio disk has no queue 0'')
        else if reg 0x034 < 4 then (ws, Some ''virtio disk max queue too short'')
        else (ws @ [(0x038, 4), (0x040, pfn)], None))"

definition VIRTQ_DESC_F_NEXT :: u16 where "VIRTQ_DESC_F_NEXT = 1"
definition VIRTQ_DESC_F_WRITE :: u16 where "VIRTQ_DESC_F_WRITE = 2"
definition VIRTIO_BLK_T_IN :: u32 where "VIRTIO_BLK_T_IN = 0"
definition VIRTIO_BLK_T_OUT :: u32 where "VIRTIO_BLK_T_OUT = 1"

definition virtio_cmd :: "int \<Rightarrow> u64 \<Rightarrow> 'a kern_scheme \<Rightarrow> 'a kern_scheme" where
  "virtio_cmd write sector s =
     (case virt_addr s of (a_req, a_buf, a_status) \<Rightarrow>
      let d0 = \<lparr>d_addr = a_req, d_len = 16, d_flags = VIRTQ_DESC_F_NEXT, d_next = 1\<rparr>;
          d1 = \<lparr>d_addr = a_buf, d_len = 512,
                d_flags = (if write \<noteq> 0 then 0 else VIRTQ_DESC_F_WRITE) OR VIRTQ_DESC_F_NEXT, d_next = 2\<rparr>;
          d2 = \<lparr>d_addr = a_status, d_len = 1, d_flags = VIRTQ_DESC_F_WRITE, d_next = 0\<rparr> in
      s\<lparr>virt_type := (if write \<noteq> 0 then VIRTIO_BLK_T_OUT else VIRTIO_BLK_T_IN), virt_reserved := 0, virt_sector := sector,
        vq_desc := (vq_desc s)(0 := d0, 1 := d1, 2 := d2), virt_status := 0xFF,
        vq_avail_ring := (vq_avail_ring s)(unat (vq_avail_idx s) mod 4 := 0),
        vq_avail_idx := vq_avail_idx s + 1, vq_notified := vq_notified s + 1\<rparr>)"

text \<open>\<open>VIRT_ACK\<close> writes the two low bits of the interrupt status to the acknowledge register.\<close>

definition VIRT_ACK :: "'a kern_scheme \<Rightarrow> 'a kern_scheme" where
  "VIRT_ACK s = s\<lparr>virt_acked := virt_acked s @ [virt_isr s AND 3]\<rparr>"

subsection \<open>Buffers\<close>

definition lock_buffer :: "nat \<Rightarrow> 'a kern_scheme \<Rightarrow> 'a kern_scheme" where
  "lock_buffer b = upd_buf b (\<lambda>h. h\<lparr>b_lock := 1\<rparr>)"

definition unlock_buffer :: "nat \<Rightarrow> 'a kern_scheme \<Rightarrow> 'a kern_scheme" where
  "unlock_buffer b s = (let t = upd_buf b (\<lambda>h. h\<lparr>b_lock := 0\<rparr>) s in wake_up (b_wait t b) t)"

partial_function (option) wait_buffer_loop :: "nat \<Rightarrow> 'a kern_scheme \<Rightarrow> ('a kern_scheme, unit) kres option" where
  "wait_buffer_loop b s =
     (if b_lock (bufs s b) \<noteq> 0 then
        case sleep_on (b_wait s b) s of Inl e \<Rightarrow> Some (Inl e) | Inr (_, t) \<Rightarrow> wait_buffer_loop b t
      else Some (Inr ((), s)))"

definition wait_on_buffer :: "nat \<Rightarrow> 'a kern_scheme \<Rightarrow> ('a kern_scheme, unit) kres" where
  "wait_on_buffer b s = (case wait_buffer_loop b s of None \<Rightarrow> Inl (Loops, s) | Some r \<Rightarrow> r)"

subsection \<open>Requests\<close>

text \<open>\<open>hd_out\<close>: the sector number is computed from the geometry the device reports, in unsigned
  arithmetic.\<close>

definition lba :: "hd_geometry \<Rightarrow> u32 \<Rightarrow> u32 \<Rightarrow> u32 \<Rightarrow> u32" where
  "lba g sect head cyl = g_sect g * (cyl * g_head g + head) + sect - 1"

definition hd_out :: "u32 \<Rightarrow> u32 \<Rightarrow> u32 \<Rightarrow> u32 \<Rightarrow> u32 \<Rightarrow> int \<Rightarrow> hd_handler \<Rightarrow> 'a kern_scheme
    \<Rightarrow> ('a kern_scheme, unit) kres" where
  "hd_out drive nsect sect head cyl cmd intr_addr s =
     (if 1 < drive \<or> 15 < head then panic ''Trying to write bad sector'' s
      else Inr ((), virtio_cmd cmd (ucast (lba (geometry s) sect head cyl)) (s\<lparr>do_hd := Some intr_addr\<rparr>)))"

text \<open>\<open>memcpy\<close> of 512 bytes between the device buffer and a half of a block.\<close>

definition half_of :: "int \<Rightarrow> nat" where
  "half_of nsector = 512 * nat (nsector mod 2)"

definition copy512 :: "(nat \<Rightarrow> u8) \<Rightarrow> nat \<Rightarrow> (nat \<Rightarrow> u8) \<Rightarrow> nat \<Rightarrow> nat \<Rightarrow> u8" where
  "copy512 dst d src o' = (\<lambda>i. if d \<le> i \<and> i < d + 512 then src (o' + (i - d)) else dst i)"

definition do_request :: "'a kern_scheme \<Rightarrow> ('a kern_scheme, unit) kres" where
  "do_request s =
     (if sorting s then Inr ((), s)
      else case this_request s of
        None \<Rightarrow> Inr ((), s\<lparr>do_hd := None\<rparr>)
      | Some n \<Rightarrow>
          let r = request s n;
              out = (\<lambda>h. hd_out (word_of_int (r_hd r)) (word_of_int (r_nsector r)) (word_of_int (r_sector r))
                           (word_of_int (r_head r)) (word_of_int (r_cyl r)) (r_cmd r) h) in
          if r_cmd r = WIN_WRITE then
            out WriteIntr
              (s\<lparr>virt_buffer := copy512 (virt_buffer s) 0 (b_data (bufs s (r_bh r))) (half_of (r_nsector r))\<rparr>)
          else if r_cmd r = WIN_READ then out ReadIntr s
          else panic ''unknown hd-command'' s)"

text \<open>The end of a request, the same in \<open>read_intr\<close> and \<open>write_intr\<close>.\<close>

definition end_request :: "nat \<Rightarrow> 'a kern_scheme \<Rightarrow> ('a kern_scheme, unit) kres" where
  "end_request n s =
     (let b = r_bh (request s n);
          s1 = upd_buf b (\<lambda>h. h\<lparr>b_uptodate := 1, b_dirt := 0\<rparr>) s;
          s2 = unlock_buffer b (wake_up (wait_for_request s1) s1);
          s3 = upd_req n (\<lambda>r. r\<lparr>r_hd := - 1\<rparr>) s2 in
      do_request (s3\<lparr>this_request := r_next (request s3 n)\<rparr>))"

text \<open>\<open>unexpected_hd_interrupt\<close>, and \<open>bad_rw_intr\<close>, which no routine calls.\<close>

definition unexpected_hd_interrupt :: "'a kern_scheme \<Rightarrow> ('a kern_scheme, unit) kres" where
  "unexpected_hd_interrupt = panic (''Unexpected HD interrupt'' @ [CHR 0x0A, CHR 0x0D])"

definition bad_rw_intr :: "'a kern_scheme \<Rightarrow> ('a kern_scheme, unit) kres" where
  "bad_rw_intr = panic ''bad_rw_intr''"

text \<open>The statement \<open>VIRT_ACK;\<close> of \<open>read_intr\<close> names the function and does not call it.\<close>

definition read_intr :: "'a kern_scheme \<Rightarrow> ('a kern_scheme, unit) kres" where
  "read_intr s =
     (case this_request s of
        None \<Rightarrow> Inl (BadAccess 0, s)
      | Some n \<Rightarrow>
          let r = request s n;
              s1 = upd_buf (r_bh r) (\<lambda>h. h\<lparr>b_data := copy512 (b_data h) (half_of (r_nsector r)) (virt_buffer s) 0\<rparr>) s;
              s2 = upd_req n (\<lambda>r. r\<lparr>r_errors := 0, r_nsector := r_nsector r - 1\<rparr>) s1 in
          if r_nsector (request s2 n) \<noteq> 0 then Inr ((), s2) else end_request n s2)"

definition write_intr :: "'a kern_scheme \<Rightarrow> ('a kern_scheme, unit) kres" where
  "write_intr s =
     (case this_request s of
        None \<Rightarrow> Inl (BadAccess 0, s)
      | Some n \<Rightarrow>
          let s1 = upd_req n (\<lambda>r. r\<lparr>r_nsector := r_nsector r - 1\<rparr>) s in
          if r_nsector (request s1 n) \<noteq> 0 then
            Inr ((), VIRT_ACK (s1\<lparr>virt_buffer := copy512 (virt_buffer s1) 0 (b_data (bufs s1 (r_bh (request s1 n)))) 512\<rparr>))
          else end_request n s1)"

definition hd_interrupt :: "'a kern_scheme \<Rightarrow> ('a kern_scheme, unit) kres" where
  "hd_interrupt s =
     (let t = s\<lparr>do_hd := None\<rparr> in
      case do_hd s of
        Some ReadIntr \<Rightarrow> read_intr t
      | Some WriteIntr \<Rightarrow> write_intr t
      | None \<Rightarrow> unexpected_hd_interrupt t)"

subsection \<open>The elevator\<close>

definition IN_ORDER :: "hd_request \<Rightarrow> hd_request \<Rightarrow> bool" where
  "IN_ORDER s1 s2 \<longleftrightarrow>
     r_hd s1 < r_hd s2 \<or> r_hd s1 = r_hd s2 \<and>
     (r_cyl s1 < r_cyl s2 \<or> r_cyl s1 = r_cyl s2 \<and>
      (r_head s1 < r_head s2 \<or> r_head s1 = r_head s2 \<and> r_sector s1 < r_sector s2))"

text \<open>The \<open>for\<close> loop of \<open>add_request\<close>: the request after which the new one goes.\<close>

partial_function (option) ins_point :: "(nat \<Rightarrow> hd_request) \<Rightarrow> nat \<Rightarrow> nat \<Rightarrow> nat option" where
  "ins_point r req tmp =
     (case r_next (r tmp) of
        None \<Rightarrow> Some tmp
      | Some n \<Rightarrow>
          if (IN_ORDER (r tmp) (r req) \<or> \<not> IN_ORDER (r tmp) (r n)) \<and> IN_ORDER (r req) (r n)
          then Some tmp else ins_point r req n)"

text \<open>The insertion into the list between \<open>sorting=1\<close> and \<open>sorting=0\<close>; \<open>None\<close> if the loop does not
  end.\<close>

definition link_request :: "nat \<Rightarrow> 'a kern_scheme \<Rightarrow> 'a kern_scheme option" where
  "link_request req s =
     (case this_request s of
        None \<Rightarrow> Some (s\<lparr>this_request := Some req\<rparr>)
      | Some tmp \<Rightarrow>
          case r_next (request s tmp) of
            None \<Rightarrow> Some (upd_req tmp (\<lambda>r. r\<lparr>r_next := Some req\<rparr>) s)
          | Some t2 \<Rightarrow>
              case ins_point (request s) req t2 of
                None \<Rightarrow> None
              | Some p \<Rightarrow>
                  Some (upd_req p (\<lambda>r. r\<lparr>r_next := Some req\<rparr>)
                    (upd_req req (\<lambda>r. r\<lparr>r_next := r_next (request s p)\<rparr>) s)))"

definition add_request :: "nat \<Rightarrow> 'a kern_scheme \<Rightarrow> ('a kern_scheme, unit) kres" where
  "add_request req s =
     (if r_nsector (request s req) \<noteq> 2 then panic ''nsector!=2 not implemented'' s
      else case link_request req s of
        None \<Rightarrow> Inl (Loops, s\<lparr>sorting := True\<rparr>)
      | Some t \<Rightarrow> if do_hd t = None then do_request (t\<lparr>sorting := False\<rparr>) else Inr ((), t\<lparr>sorting := False\<rparr>))"

partial_function (option) find_request :: "'a kern_scheme \<Rightarrow> ('a kern_scheme, nat) kres option" where
  "find_request s =
     (case find (\<lambda>i. r_hd (request s i) < 0) [0..<NR_REQUEST] of
        Some i \<Rightarrow> Some (Inr (i, s))
      | None \<Rightarrow>
          case sleep_on (wait_for_request s) s of Inl e \<Rightarrow> Some (Inl e) | Inr (_, t) \<Rightarrow> find_request t)"

definition rw_abs_hd :: "int \<Rightarrow> u32 \<Rightarrow> u32 \<Rightarrow> u32 \<Rightarrow> u32 \<Rightarrow> nat \<Rightarrow> 'a kern_scheme \<Rightarrow> ('a kern_scheme, unit) kres" where
  "rw_abs_hd rw nr sec head cyl bh s =
     (if rw \<noteq> READ \<and> rw \<noteq> WRITE then panic ''Bad hd command, must be R/W'' s
      else
        let s1 = lock_buffer bh s in
        case find_request s1 of
          None \<Rightarrow> Inl (Loops, s1)
        | Some (Inl e) \<Rightarrow> Inl e
        | Some (Inr (req, s2)) \<Rightarrow>
            kseq (add_request req) (wait_on_buffer bh)
              (upd_req req (\<lambda>_. \<lparr>r_hd = sint nr, r_nsector = 2, r_sector = sint sec, r_head = sint head,
                                 r_cyl = sint cyl, r_cmd = (if rw = READ then WIN_READ else WIN_WRITE),
                                 r_errors = 0, r_bh = bh, r_next = None\<rparr>) s2))"

text \<open>Sector within the track (from 0), head and cylinder of a sector number.\<close>

definition chs :: "hd_geometry \<Rightarrow> u32 \<Rightarrow> u32 \<times> u32 \<times> u32" where
  "chs g block = (block mod g_sect g, (block div g_sect g) mod g_head g, (block div g_sect g) div g_head g)"

definition rw_hd :: "int \<Rightarrow> nat \<Rightarrow> 'a kern_scheme \<Rightarrow> ('a kern_scheme, unit) kres" where
  "rw_hd rw bh s =
     (let block = push_bit 1 (ucast (b_blocknr (bufs s bh)) :: u32);
          dev = MINOR (b_dev (bufs s bh)) in
      if 5 * length (hd_info s) \<le> dev \<or> snd (hd_part s dev) < uint (block + 2) then Inr ((), s)
      else
        let g = hd_info s ! (dev div 5);
            block' = block + word_of_int (fst (hd_part s dev)) in
        if g_sect g = 0 \<or> g_head g = 0 then Inl (DivByZero, s)
        else case chs g block' of
               (sec, head, cyl) \<Rightarrow> rw_abs_hd rw (of_nat (dev div 5)) (sec + 1) head cyl bh s)"

text \<open>\<open>hd_init\<close> after the initialisation of the device; the first three assignments go to
  \<open>hd_info[0]\<close>.\<close>

definition hd_tables_init :: "'a kern_scheme \<Rightarrow> ('a kern_scheme, unit) kres" where
  "hd_tables_init s =
     (if hd_info s = [] then Inl (OutOfBounds, s)
      else
        let s1 = s\<lparr>hd_info := (hd_info s)[0 := geometry s]\<rparr>;
            s2 = s1\<lparr>request := \<lambda>i. if i < NR_REQUEST then (request s1 i)\<lparr>r_hd := - 1, r_next := None\<rparr> else request s1 i\<rparr> in
        Inr ((), fold (\<lambda>i t. t\<lparr>hd_part := (hd_part t)(5 * i := (0, sint (g_head (hd_info t ! i) * g_sect (hd_info t ! i)
            * g_cyl (hd_info t ! i))))\<rparr>) [0..<length (hd_info s2)] s2))"

end
