(* ===== verification/Buffer.thy ===== *)
theory Buffer
  imports Hd
begin

text \<open>
  Model of the buffer cache \<open>fs/buffer.c\<close> and of \<open>ll_rw_block\<close>, \<open>block_read\<close> and \<open>block_write\<close> of
  \<open>fs/block_dev.c\<close>.

  The loops follow pointers or repeat after sleeping, so they are option-valued; a routine whose
  loop does not end stops with \<open>Loops\<close>.
\<close>

subsection \<open>Block devices\<close>

definition rd_blk :: "(int \<Rightarrow> nat \<Rightarrow> 'a kern_scheme \<Rightarrow> ('a kern_scheme, unit) kres) option list" where
  "rd_blk = [None, None, None, Some rw_hd, None, None, None]"

definition ll_rw_block :: "int \<Rightarrow> nat \<Rightarrow> 'a kern_scheme \<Rightarrow> ('a kern_scheme, unit) kres" where
  "ll_rw_block rw bh s =
     (let major = MAJOR (b_dev (bufs s bh)) in
      if length (rd_blk :: (int \<Rightarrow> nat \<Rightarrow> 'a kern_scheme \<Rightarrow> ('a kern_scheme, unit) kres) option list) \<le> major
      then panic ''Trying to read nonexistent block-device'' s
      else case rd_blk ! major of
             None \<Rightarrow> panic ''Trying to read nonexistent block-device'' s
           | Some blk_addr \<Rightarrow> blk_addr rw bh s)"

subsection \<open>Writing out\<close>

definition sync_buf :: "nat \<Rightarrow> 'a kern_scheme \<Rightarrow> ('a kern_scheme, unit) kres" where
  "sync_buf i =
     kseq (wait_on_buffer i) (\<lambda>s. if b_dirt (bufs s i) \<noteq> 0 then ll_rw_block WRITE i s else Inr ((), s))"

definition sync_dev :: "int \<Rightarrow> 'a kern_scheme \<Rightarrow> ('a kern_scheme, unit) kres" where
  "sync_dev dev s =
     kfor [0..<nr_buffers s] (\<lambda>i s. if uint (b_dev (bufs s i)) \<noteq> dev then Inr ((), s) else sync_buf i s) s"

subsection \<open>Queues\<close>

definition hashfn :: "int \<Rightarrow> int \<Rightarrow> nat" where
  "hashfn dev block = unat (word_of_int dev XOR word_of_int block :: u32) mod NR_HASH"

definition bh_hash :: "buffer_head \<Rightarrow> nat" where
  "bh_hash h = hashfn (uint (b_dev h)) (uint (b_blocknr h))"

definition unhash :: "nat \<Rightarrow> 'a kern_scheme \<Rightarrow> 'a kern_scheme" where
  "unhash i s =
     (let s1 = (case b_next (bufs s i) of Some n \<Rightarrow> upd_buf n (\<lambda>h. h\<lparr>b_prev := b_prev (bufs s i)\<rparr>) s | None \<Rightarrow> s);
          s2 = (case b_prev (bufs s1 i) of Some p \<Rightarrow> upd_buf p (\<lambda>h. h\<lparr>b_next := b_next (bufs s1 i)\<rparr>) s1 | None \<Rightarrow> s1);
          k = bh_hash (bufs s2 i) in
      if hash_table s2 k = Some i then s2\<lparr>hash_table := (hash_table s2)(k := b_next (bufs s2 i))\<rparr> else s2)"

definition unfree :: "nat \<Rightarrow> 'a kern_scheme \<Rightarrow> ('a kern_scheme, unit) kres" where
  "unfree i s =
     (case (b_prev_free (bufs s i), b_next_free (bufs s i)) of
        (Some p, Some n) \<Rightarrow>
          let s1 = upd_buf p (\<lambda>h. h\<lparr>b_next_free := b_next_free (bufs s i)\<rparr>) s;
              s2 = upd_buf n (\<lambda>h. h\<lparr>b_prev_free := b_prev_free (bufs s1 i)\<rparr>) s1 in
          Inr ((), if free_list s2 = Some i then s2\<lparr>free_list := b_next_free (bufs s2 i)\<rparr> else s2)
      | _ \<Rightarrow> panic ''Free block list corrupted'' s)"

definition remove_from_queues :: "nat \<Rightarrow> 'a kern_scheme \<Rightarrow> ('a kern_scheme, unit) kres" where
  "remove_from_queues i s = unfree i (unhash i s)"

text \<open>\<open>insert_into_queues\<close>: the end of the free list, then the head of the hash queue.  The store
  \<open>bh->b_next->b_prev = bh\<close> is not guarded; \<open>b_prev\<close> is at offset 24.\<close>

definition enfree :: "nat \<Rightarrow> 'a kern_scheme \<Rightarrow> ('a kern_scheme, unit) kres" where
  "enfree i s =
     (case free_list s of
        None \<Rightarrow> Inl (BadAccess 0, s)
      | Some f \<Rightarrow>
          let s1 = upd_buf i (\<lambda>h. h\<lparr>b_next_free := Some f, b_prev_free := b_prev_free (bufs s f)\<rparr>) s in
          case b_prev_free (bufs s1 f) of
            None \<Rightarrow> Inl (BadAccess 0, s1)
          | Some l \<Rightarrow>
              Inr ((), upd_buf f (\<lambda>h. h\<lparr>b_prev_free := Some i\<rparr>) (upd_buf l (\<lambda>h. h\<lparr>b_next_free := Some i\<rparr>) s1)))"

definition enhash :: "nat \<Rightarrow> 'a kern_scheme \<Rightarrow> ('a kern_scheme, unit) kres" where
  "enhash i s =
     (let s1 = upd_buf i (\<lambda>h. h\<lparr>b_prev := None, b_next := None\<rparr>) s in
      if b_dev (bufs s1 i) = 0 then Inr ((), s1)
      else
        let k = bh_hash (bufs s1 i);
            s2 = upd_buf i (\<lambda>h. h\<lparr>b_next := hash_table s1 k\<rparr>) s1;
            s3 = s2\<lparr>hash_table := (hash_table s2)(k := Some i)\<rparr> in
        case b_next (bufs s3 i) of
          None \<Rightarrow> Inl (BadAccess 24, s3)
        | Some n \<Rightarrow> Inr ((), upd_buf n (\<lambda>h. h\<lparr>b_prev := Some i\<rparr>) s3))"

definition insert_into_queues :: "nat \<Rightarrow> 'a kern_scheme \<Rightarrow> ('a kern_scheme, unit) kres" where
  "insert_into_queues i = kseq (enfree i) (enhash i)"

subsection \<open>Finding and getting buffers\<close>

partial_function (option) find_chain :: "(nat \<Rightarrow> buffer_head) \<Rightarrow> int \<Rightarrow> int \<Rightarrow> nat option \<Rightarrow> nat option option" where
  "find_chain b dev block tmp =
     (if tmp = None then Some None
      else if uint (b_dev (b (the tmp))) = dev \<and> uint (b_blocknr (b (the tmp))) = block then Some tmp
      else find_chain b dev block (b_next (b (the tmp))))"

definition find_buffer :: "int \<Rightarrow> int \<Rightarrow> 'a kern_scheme \<Rightarrow> ('a kern_scheme, nat option) kres" where
  "find_buffer dev block s =
     (case find_chain (bufs s) dev block (hash_table s (hashfn dev block)) of
        None \<Rightarrow> Inl (Loops, s) | Some r \<Rightarrow> Inr (r, s))"

definition brelse :: "nat option \<Rightarrow> 'a kern_scheme \<Rightarrow> ('a kern_scheme, unit) kres" where
  "brelse buf s =
     (case buf of
        None \<Rightarrow> Inr ((), s)
      | Some b \<Rightarrow>
          kseq (wait_on_buffer b)
            (\<lambda>s. let t = upd_buf b (\<lambda>h. h\<lparr>b_count := b_count h - 1\<rparr>) s in
                 if b_count (bufs s b) = 0 then panic ''Trying to free free buffer'' t
                 else Inr ((), wake_up (buffer_wait t) t)) s)"

text \<open>One round of \<open>get_hash_table\<close>: \<open>Inl\<close> its result, \<open>Inr\<close> the state for \<open>goto repeat\<close>.\<close>

definition hash_round :: "int \<Rightarrow> int \<Rightarrow> 'a kern_scheme
    \<Rightarrow> ('a kern_scheme, nat option) kres + 'a kern_scheme" where
  "hash_round dev block s =
     (case find_buffer dev block s of
        Inl e \<Rightarrow> Inl (Inl e)
      | Inr (None, t) \<Rightarrow> Inl (Inr (None, t))
      | Inr (Some b, t) \<Rightarrow>
          case wait_on_buffer b (upd_buf b (\<lambda>h. h\<lparr>b_count := b_count h + 1\<rparr>) t) of
            Inl e \<Rightarrow> Inl (Inl e)
          | Inr (_, u) \<Rightarrow>
              if uint (b_dev (bufs u b)) \<noteq> dev \<or> uint (b_blocknr (bufs u b)) \<noteq> block then
                (case brelse (Some b) u of Inl e \<Rightarrow> Inl (Inl e) | Inr (_, v) \<Rightarrow> Inr v)
              else Inl (Inr (Some b, u)))"

partial_function (option) hash_loop :: "int \<Rightarrow> int \<Rightarrow> 'a kern_scheme \<Rightarrow> ('a kern_scheme, nat option) kres option" where
  "hash_loop dev block s = (case hash_round dev block s of Inl r \<Rightarrow> Some r | Inr t \<Rightarrow> hash_loop dev block t)"

definition get_hash_table :: "int \<Rightarrow> int \<Rightarrow> 'a kern_scheme \<Rightarrow> ('a kern_scheme, nat option) kres" where
  "get_hash_table dev block s = (case hash_loop dev block s of None \<Rightarrow> Inl (Loops, s) | Some r \<Rightarrow> r)"

text \<open>The \<open>do ... while\<close> of \<open>getblk\<close> over the free list, from \<open>tmp\<close>.\<close>

partial_function (option) free_scan :: "nat \<Rightarrow> 'a kern_scheme \<Rightarrow> ('a kern_scheme, nat option) kres option" where
  "free_scan tmp s =
     (case (if b_count (bufs s tmp) = 0 then wait_on_buffer tmp s else Inr ((), s)) of
        Inl e \<Rightarrow> Some (Inl e)
      | Inr (_, t) \<Rightarrow>
          if b_count (bufs s tmp) = 0 \<and> b_count (bufs t tmp) = 0 then Some (Inr (Some tmp, t))
          else case b_next_free (bufs t tmp) of
                 None \<Rightarrow> if free_list t = None then Some (Inr (None, t)) else Some (Inl (BadAccess 0, t))
               | Some n \<Rightarrow> if free_list t = Some n then Some (Inr (None, t)) else free_scan n t)"

text \<open>The part of \<open>getblk\<close> that gives the free buffer \<open>b\<close> to the block; \<open>None\<close> means \<open>goto repeat\<close>.\<close>

definition claim_buf :: "int \<Rightarrow> int \<Rightarrow> nat \<Rightarrow> 'a kern_scheme \<Rightarrow> ('a kern_scheme, nat option) kres" where
  "claim_buf dev block b =
     kseq (remove_from_queues b) (kseq (\<lambda>s. if b_dirt (bufs s b) \<noteq> 0 then sync_dev (uint (b_dev (bufs s b))) s else Inr ((), s))
       (\<lambda>s. kbind (find_buffer dev block) (\<lambda>found.
          if found \<noteq> None
          then kseq (kmodify (upd_buf b (\<lambda>h. h\<lparr>b_dev := 0, b_blocknr := 0, b_count := 0\<rparr>)))
                 (kseq (insert_into_queues b) (kreturn None))
          else kseq (insert_into_queues b) (kreturn (Some b)))
        (upd_buf b (\<lambda>h. h\<lparr>b_dev := word_of_int dev, b_blocknr := word_of_int block, b_dirt := 0, b_uptodate := 0\<rparr>) s)))"

definition getblk_round :: "int \<Rightarrow> int \<Rightarrow> 'a kern_scheme \<Rightarrow> ('a kern_scheme, nat) kres + 'a kern_scheme" where
  "getblk_round dev block s =
     (case get_hash_table dev block s of
        Inl e \<Rightarrow> Inl (Inl e)
      | Inr (Some b, t) \<Rightarrow> Inl (Inr (b, t))
      | Inr (None, t) \<Rightarrow>
          case (case free_list t of None \<Rightarrow> Some (Inl (BadAccess 0, t)) | Some f \<Rightarrow> free_scan f t) of
            None \<Rightarrow> Inl (Inl (Loops, t))
          | Some (Inl e) \<Rightarrow> Inl (Inl e)
          | Some (Inr (None, u)) \<Rightarrow> (case sleep_on (buffer_wait u) u of Inl e \<Rightarrow> Inl (Inl e) | Inr (_, v) \<Rightarrow> Inr v)
          | Some (Inr (Some b, u)) \<Rightarrow>
              case claim_buf dev block b (upd_buf b (\<lambda>h. h\<lparr>b_count := b_count h + 1\<rparr>) u) of
                Inl e \<Rightarrow> Inl (Inl e)
              | Inr (None, v) \<Rightarrow> Inr v
              | Inr (Some c, v) \<Rightarrow> Inl (Inr (c, v)))"

partial_function (option) getblk_loop :: "int \<Rightarrow> int \<Rightarrow> 'a kern_scheme \<Rightarrow> ('a kern_scheme, nat) kres option" where
  "getblk_loop dev block s = (case getblk_round dev block s of Inl r \<Rightarrow> Some r | Inr t \<Rightarrow> getblk_loop dev block t)"

definition getblk :: "int \<Rightarrow> int \<Rightarrow> 'a kern_scheme \<Rightarrow> ('a kern_scheme, nat) kres" where
  "getblk dev block s = (case getblk_loop dev block s of None \<Rightarrow> Inl (Loops, s) | Some r \<Rightarrow> r)"

definition bread :: "int \<Rightarrow> int \<Rightarrow> 'a kern_scheme \<Rightarrow> ('a kern_scheme, nat option) kres" where
  "bread dev block =
     kbind (getblk dev block) (\<lambda>b s.
       if b_uptodate (bufs s b) \<noteq> 0 then Inr (Some b, s)
       else kseq (ll_rw_block READ b) (\<lambda>s.
              if b_uptodate (bufs s b) \<noteq> 0 then Inr (Some b, s)
              else kseq (brelse (Some b)) (kreturn None) s) s)"

subsection \<open>Initialisation\<close>

text \<open>The number of rounds of the loop of \<open>buffer_init\<close>: heads of 56 bytes grow from \<open>h\<close>, blocks of
  1024 bytes from \<open>b\<close> downwards, until they would meet.\<close>

function buffer_rounds :: "nat \<Rightarrow> nat \<Rightarrow> nat" where
  "buffer_rounds h b = (if b < 1024 \<or> b - 1024 < h + 56 then 0 else Suc (buffer_rounds (h + 56) (b - 1024)))"
  by pat_completeness auto
termination
  by (relation "measure (\<lambda>(h, b). b)") auto

declare buffer_rounds.simps [simp del]

definition buffer_init :: "'a kern_scheme \<Rightarrow> ('a kern_scheme, unit) kres" where
  "buffer_init s =
     (let m = buffer_rounds (unat (start_buffer s)) (unat (BUFFER_END + V_P_DIFF)); n = nr_buffers s + m in
      if m = 0 then Inl (OutOfBounds, s)
      else
        Inr ((), s\<lparr>nr_buffers := n,
          bufs := \<lambda>i. if i < m then (bufs s i)\<lparr>b_dev := 0, b_dirt := 0, b_count := 0, b_lock := 0, b_uptodate := 0,
                                              b_next := None, b_prev := None,
                                              b_prev_free := Some (if i = 0 then m - 1 else i - 1),
                                              b_next_free := Some (if i = m - 1 then 0 else i + 1)\<rparr>
                       else bufs s i,
          waitq := \<lambda>p. if \<exists>i \<in> set [0..<m]. p = b_wait s i then 0 else waitq s p,
          free_list := Some 0,
          hash_table := \<lambda>k. if k < NR_HASH then None else hash_table s k\<rparr>))"

subsection \<open>Whole devices\<close>

text \<open>\<open>block_read\<close> and \<open>block_write\<close>: \<open>chars\<close> does not take the offset in the block into account, so
  the copy may run past the end of the block; the bytes after a block of 1024 are outside of it.\<close>

definition blk_chars :: "int \<Rightarrow> nat" where
  "blk_chars count = (if count < 1024 then nat count else 1024)"

function block_read :: "int \<Rightarrow> int \<Rightarrow> nat \<Rightarrow> int \<Rightarrow> u8 list \<Rightarrow> 'a kern_scheme
    \<Rightarrow> ('a kern_scheme, int \<times> u8 list) kres" where
  "block_read dev block off count buf s =
     (if count \<le> 0 then Inr ((int (length buf), buf), s)
      else case bread dev block s of
        Inl e \<Rightarrow> Inl e
      | Inr (None, t) \<Rightarrow> Inr ((if buf \<noteq> [] then int (length buf) else - 5, buf), t)
      | Inr (Some b, t) \<Rightarrow>
          let chars = blk_chars count in
          if 1024 < off + chars then Inl (OutOfBounds, t)
          else case brelse (Some b) (upd_buf b (\<lambda>h. h\<lparr>b_dirt := 1\<rparr>) t) of
            Inl e \<Rightarrow> Inl e
          | Inr (_, u) \<Rightarrow> block_read dev (block + 1) 0 (count - int chars)
                             (buf @ map (b_data (bufs t b)) [off..<off + chars]) u)"
  by pat_completeness auto
termination
  by (relation "measure (\<lambda>(dev, block, off, count, buf, s). nat count)") (auto simp: blk_chars_def)

function block_write :: "int \<Rightarrow> int \<Rightarrow> nat \<Rightarrow> u8 list \<Rightarrow> int \<Rightarrow> 'a kern_scheme \<Rightarrow> ('a kern_scheme, int) kres" where
  "block_write dev block off buf written s =
     (if buf = [] then Inr (written, s)
      else case bread dev block s of
        Inl e \<Rightarrow> Inl e
      | Inr (None, t) \<Rightarrow> Inr (if written \<noteq> 0 then written else - 5, t)
      | Inr (Some b, t) \<Rightarrow>
          let chars = blk_chars (int (length buf)) in
          if 1024 < off + chars then Inl (OutOfBounds, t)
          else case brelse (Some b)
                 (upd_buf b (\<lambda>h. h\<lparr>b_data := \<lambda>i. if off \<le> i \<and> i < off + chars then buf ! (i - off) else b_data h i,
                                   b_dirt := 1\<rparr>) t) of
            Inl e \<Rightarrow> Inl e
          | Inr (_, u) \<Rightarrow> block_write dev (block + 1) 0 (drop chars buf) (written + int chars) u)"
  by pat_completeness auto
termination
  by (relation "measure (\<lambda>(dev, block, off, buf, written, s). length buf)") (auto simp: blk_chars_def)

declare block_read.simps [simp del] block_write.simps [simp del]

end
