(* ===== verification/Bitmap.thy ===== *)
theory Bitmap
  imports Buffer
begin

text \<open>
  Model of \<open>fs/bitmap.c\<close> (allocation of blocks and release of inodes in the bit maps of a mounted
  device) and \<open>get_super\<close> of \<open>fs/file_table.c\<close>.  \<open>new_inode\<close> is in theory \<open>Inode\<close>.
\<close>

subsection \<open>Bits of a block\<close>

text \<open>The first \<open>unsigned long\<close> of a block, little endian.\<close>

definition load64 :: "(nat \<Rightarrow> u8) \<Rightarrow> nat \<Rightarrow> u64" where
  "load64 d o' = fold (\<lambda>i w. w OR push_bit (8 * i) (ucast (d (o' + i)))) [0..<8] 0"

definition store64 :: "u64 \<Rightarrow> nat \<Rightarrow> (nat \<Rightarrow> u8) \<Rightarrow> nat \<Rightarrow> u8" where
  "store64 w o' d = (\<lambda>i. if o' \<le> i \<and> i < o' + 8 then ucast (drop_bit (8 * (i - o')) w) else d i)"

definition load16 :: "(nat \<Rightarrow> u8) \<Rightarrow> nat \<Rightarrow> u16" where
  "load16 d o' = ucast (d o') OR push_bit 8 (ucast (d (o' + 1)))"

definition store16 :: "u16 \<Rightarrow> nat \<Rightarrow> (nat \<Rightarrow> u8) \<Rightarrow> nat \<Rightarrow> u8" where
  "store16 w o' d = d(o' := ucast w, o' + 1 := ucast (drop_bit 8 w))"

definition set_bit :: "nat \<Rightarrow> (nat \<Rightarrow> u8) \<Rightarrow> bool \<times> (nat \<Rightarrow> u8)" where
  "set_bit nr addr =
     (let mask = push_bit (nr mod 64) 1; w = load64 addr 0 in (w AND mask \<noteq> 0, store64 (w OR mask) 0 addr))"

definition clear_bit :: "nat \<Rightarrow> (nat \<Rightarrow> u8) \<Rightarrow> bool \<times> (nat \<Rightarrow> u8)" where
  "clear_bit nr addr =
     (let mask = push_bit (nr mod 64) 1; w = load64 addr 0 in (w AND mask \<noteq> 0, store64 (w AND NOT mask) 0 addr))"

definition find_first_zero_in_byte :: "u8 \<Rightarrow> nat" where
  "find_first_zero_in_byte byte = (case find (\<lambda>i. byte AND push_bit i 1 = 0) [0..<8] of Some i \<Rightarrow> i | None \<Rightarrow> 8)"

primrec ffz_loop :: "nat list \<Rightarrow> nat \<Rightarrow> (nat \<Rightarrow> u8) \<Rightarrow> nat" where
  "ffz_loop [] bit_position addr = bit_position"
| "ffz_loop (i # is) bit_position addr =
     (if addr i \<noteq> 0xFF then bit_position + find_first_zero_in_byte (addr i)
      else ffz_loop is (bit_position + 8) addr)"

definition find_first_zero :: "(nat \<Rightarrow> u8) \<Rightarrow> nat" where
  "find_first_zero addr = ffz_loop [0..<BLOCK_SIZE] 0 addr"

definition clear_block :: "nat \<Rightarrow> 'a kern_scheme \<Rightarrow> 'a kern_scheme" where
  "clear_block b = upd_buf b (\<lambda>h. h\<lparr>b_data := \<lambda>i. if i < BLOCK_SIZE then 0 else b_data h i\<rparr>)"

subsection \<open>Blocks\<close>

definition get_super :: "int \<Rightarrow> 'a kern_scheme \<Rightarrow> nat option" where
  "get_super dev s = find (\<lambda>i. uint (s_dev (supers s i)) = dev) [0..<NR_SUPER]"

text \<open>The end of \<open>free_block\<close>: the bit of the block in the zone map.\<close>

definition free_zone_bit :: "nat \<Rightarrow> int \<Rightarrow> 'a kern_scheme \<Rightarrow> ('a kern_scheme, unit) kres" where
  "free_zone_bit sb block s =
     (let n = nat (block - (uint (s_firstdatazone (supers s sb)) - 1)) in
      if 8 \<le> n div 8192 then Inl (OutOfBounds, s)
      else case s_zmap (supers s sb) (n div 8192) of
        None \<Rightarrow> Inl (BadAccess 0, s)
      | Some b \<Rightarrow>
          let (res, d) = clear_bit (n mod 8192) (b_data (bufs s b));
              t = upd_buf b (\<lambda>h. h\<lparr>b_data := d\<rparr>) s in
          if res then panic ''free_block: bit already cleared'' t
          else Inr ((), upd_buf b (\<lambda>h. h\<lparr>b_dirt := 1\<rparr>) t))"

definition free_block :: "int \<Rightarrow> int \<Rightarrow> 'a kern_scheme \<Rightarrow> ('a kern_scheme, unit) kres" where
  "free_block dev block s =
     (case get_super dev s of
        None \<Rightarrow> panic ''trying to free block on nonexistent device'' s
      | Some sb \<Rightarrow>
          if block < uint (s_firstdatazone (supers s sb)) \<or> uint (s_nzones (supers s sb)) \<le> block
          then panic ''trying to free block not in datazone'' s
          else kbind (get_hash_table dev block) (\<lambda>bh t.
            case bh of
              None \<Rightarrow> free_zone_bit sb block t
            | Some b \<Rightarrow>
                if b_count (bufs t b) \<noteq> 1 then Inr ((), t)
                else kseq (brelse (Some b)) (free_zone_bit sb block)
                       (upd_buf b (\<lambda>h. h\<lparr>b_dirt := 0, b_uptodate := 0\<rparr>) t)) s)"

text \<open>The search of \<open>new_block\<close> and \<open>new_inode\<close>: the first map with a zero bit.\<close>

definition find_map :: "(nat \<Rightarrow> nat option) \<Rightarrow> 'a kern_scheme \<Rightarrow> (nat \<times> nat \<times> nat) option" where
  "find_map m s =
     (case find (\<lambda>i. case m i of None \<Rightarrow> False | Some b \<Rightarrow> find_first_zero (b_data (bufs s b)) < 8192) [0..<8] of
        None \<Rightarrow> None
      | Some i \<Rightarrow> Some (i, the (m i), find_first_zero (b_data (bufs s (the (m i))))))"

definition new_block :: "int \<Rightarrow> 'a kern_scheme \<Rightarrow> ('a kern_scheme, int) kres" where
  "new_block dev s =
     (case get_super dev s of
        None \<Rightarrow> panic ''trying to get new block from nonexistant device'' s
      | Some sb \<Rightarrow>
          case find_map (s_zmap (supers s sb)) s of
            None \<Rightarrow> Inr (0, s)
          | Some (i, b, j) \<Rightarrow>
              let (res, d) = set_bit j (b_data (bufs s b));
                  t = upd_buf b (\<lambda>h. h\<lparr>b_data := d\<rparr>) s in
              if res then panic ''new_block: bit already set'' t
              else
                let u = upd_buf b (\<lambda>h. h\<lparr>b_dirt := 1\<rparr>) t;
                    k = int j + (int i * 8192 + uint (s_firstdatazone (supers s sb)) - 1) in
                if uint (s_nzones (supers u sb)) \<le> k then Inr (0, u)
                else kbind (getblk dev k) (\<lambda>c v.
                  if b_count (bufs v c) \<noteq> 1 then panic ''new block: count is != 1'' v
                  else kseq (brelse (Some c)) (kreturn k)
                         (upd_buf c (\<lambda>h. h\<lparr>b_uptodate := 1, b_dirt := 1\<rparr>) (clear_block c v))) u)"

subsection \<open>Inodes\<close>

text \<open>\<open>memset(inode,0,sizeof(*inode))\<close> also clears the wait queue head in the inode.\<close>

definition zero_inode :: m_inode where
  "zero_inode = \<lparr>i_mode = 0, i_uid = 0, i_size = 0, i_mtime = 0, i_gid = 0, i_nlinks = 0, i_zone = \<lambda>_. 0,
     i_atime = 0, i_ctime = 0, i_dev = 0, i_num = 0, i_count = 0, i_lock = 0, i_dirt = 0, i_pipe = 0, i_mount = 0,
     i_seek = 0, i_update = 0\<rparr>"

definition clear_inode :: "u64 \<Rightarrow> 'a kern_scheme \<Rightarrow> 'a kern_scheme" where
  "clear_inode p s = (upd_inode p (\<lambda>_. zero_inode) s)\<lparr>waitq := (waitq s)(i_wait p := 0)\<rparr>"

definition free_inode :: "u64 \<Rightarrow> 'a kern_scheme \<Rightarrow> ('a kern_scheme, unit) kres" where
  "free_inode p s =
     (let i = inodes s p in
      if p = 0 then Inr ((), s)
      else if i_dev i = 0 then Inr ((), clear_inode p s)
      else if 1 < i_count i then panic ''free_inode'' s
      else if i_nlinks i \<noteq> 0 then panic ''trying to free inode with links'' s
      else case get_super (uint (i_dev i)) s of
        None \<Rightarrow> panic ''trying to free inode on nonexistent device'' s
      | Some sb \<Rightarrow>
          if i_num i < 1 \<or> s_ninodes (supers s sb) < i_num i
          then panic ''trying to free inode 0 or nonexistant inode'' s
          else case s_imap (supers s sb) (unat (drop_bit 13 (i_num i))) of
            None \<Rightarrow> panic ''nonexistent imap in superblock'' s
          | Some b \<Rightarrow>
              let (res, d) = clear_bit (unat (i_num i AND 8191)) (b_data (bufs s b));
                  t = upd_buf b (\<lambda>h. h\<lparr>b_data := d\<rparr>) s in
              if res then panic ''free_inode: bit already cleared'' t
              else Inr ((), clear_inode p (upd_buf b (\<lambda>h. h\<lparr>b_dirt := 1\<rparr>) t)))"

end
