(* ===== verification/Inode.thy ===== *)
theory Inode
  imports Bitmap
begin

text \<open>
  Model of \<open>fs/inode.c\<close>, \<open>fs/truncate.c\<close>, \<open>new_inode\<close> of \<open>fs/bitmap.c\<close> and \<open>sys_sync\<close> of
  \<open>fs/buffer.c\<close>.

  An inode is known by its address.  On this target a \<open>struct d_inode\<close> has 48 bytes (its two
  \<open>unsigned long\<close> fields are 8 bytes wide), so a block holds 21 of them.
\<close>

definition S_ISREG :: "u16 \<Rightarrow> bool" where "S_ISREG m \<longleftrightarrow> m AND 0xF000 = 0x8000"
definition S_ISDIR :: "u16 \<Rightarrow> bool" where "S_ISDIR m \<longleftrightarrow> m AND 0xF000 = 0x4000"
definition S_ISCHR :: "u16 \<Rightarrow> bool" where "S_ISCHR m \<longleftrightarrow> m AND 0xF000 = 0x2000"
definition S_ISBLK :: "u16 \<Rightarrow> bool" where "S_ISBLK m \<longleftrightarrow> m AND 0xF000 = 0x6000"

subsection \<open>Locks\<close>

partial_function (option) wait_inode_loop :: "u64 \<Rightarrow> 'a kern_scheme \<Rightarrow> ('a kern_scheme, unit) kres option" where
  "wait_inode_loop p s =
     (if i_lock (inodes s p) \<noteq> 0 then
        case sleep_on (i_wait p) s of Inl e \<Rightarrow> Some (Inl e) | Inr (_, t) \<Rightarrow> wait_inode_loop p t
      else Some (Inr ((), s)))"

definition wait_on_inode :: "u64 \<Rightarrow> 'a kern_scheme \<Rightarrow> ('a kern_scheme, unit) kres" where
  "wait_on_inode p s = (case wait_inode_loop p s of None \<Rightarrow> Inl (Loops, s) | Some r \<Rightarrow> r)"

definition lock_inode :: "u64 \<Rightarrow> 'a kern_scheme \<Rightarrow> ('a kern_scheme, unit) kres" where
  "lock_inode p = kseq (wait_on_inode p) (kmodify (upd_inode p (\<lambda>i. i\<lparr>i_lock := 1\<rparr>)))"

definition unlock_inode :: "u64 \<Rightarrow> 'a kern_scheme \<Rightarrow> 'a kern_scheme" where
  "unlock_inode p s = wake_up (i_wait p) (upd_inode p (\<lambda>i. i\<lparr>i_lock := 0\<rparr>) s)"

subsection \<open>Inodes on disk\<close>

definition INODES_PER_BLOCK :: u64 where "INODES_PER_BLOCK = 1024 div 48"

text \<open>The assignment of a \<open>struct d_inode\<close> in \<open>read_inode\<close> and in \<open>write_inode\<close>, at the offset \<open>o'\<close> of a block.  The values of the
  padding bytes (4 to 7 and 44 to 47) are unspecified in C; the members are what is copied here.\<close>

definition load_dinode :: "(nat \<Rightarrow> u8) \<Rightarrow> nat \<Rightarrow> m_inode \<Rightarrow> m_inode" where
  "load_dinode d o' i =
     i\<lparr>i_mode := load16 d o', i_uid := load16 d (o' + 2), i_size := load64 d (o' + 8), i_mtime := load64 d (o' + 16),
       i_gid := d (o' + 24), i_nlinks := d (o' + 25),
       i_zone := \<lambda>k. if k < 9 then load16 d (o' + 26 + 2 * k) else i_zone i k\<rparr>"

definition store_dinode :: "m_inode \<Rightarrow> nat \<Rightarrow> (nat \<Rightarrow> u8) \<Rightarrow> nat \<Rightarrow> u8" where
  "store_dinode i o' d =
     fold (\<lambda>k. store16 (i_zone i k) (o' + 26 + 2 * k)) [0..<9]
       ((store64 (i_mtime i) (o' + 16) (store64 (i_size i) (o' + 8)
          (store16 (i_uid i) (o' + 2) (store16 (i_mode i) o' d))))(o' + 24 := i_gid i, o' + 25 := i_nlinks i))"

text \<open>\<open>inode->i_num-1\<close> is an \<open>int\<close>, converted to \<open>unsigned long\<close> by the division; \<open>block\<close> is an \<open>int\<close>.
  \<open>sb->s_imap_blocks\<close> is at offset 4.\<close>

definition read_inode :: "u64 \<Rightarrow> 'a kern_scheme \<Rightarrow> ('a kern_scheme, unit) kres" where
  "read_inode p =
     kseq (lock_inode p) (\<lambda>s.
       case get_super (uint (i_dev (inodes s p))) s of
         None \<Rightarrow> Inl (BadAccess 4, s)
       | Some sb \<Rightarrow>
           let block = sint (ucast (2 + ucast (s_imap_blocks (supers s sb)) + ucast (s_zmap_blocks (supers s sb))
                 + (word_of_int (uint (i_num (inodes s p)) - 1) :: u64) div INODES_PER_BLOCK) :: u32) in
           kbind (bread (uint (i_dev (inodes s p))) block) (\<lambda>bh t.
             case bh of
               None \<Rightarrow> panic ''unable to read i-node block'' t
             | Some b \<Rightarrow>
                 kseq (brelse (Some b)) (kmodify (unlock_inode p))
                   (upd_inode p (load_dinode (b_data (bufs t b))
                      (48 * unat ((word_of_int (uint (i_num (inodes t p)) - 1) :: u64) mod INODES_PER_BLOCK))) t)) s)"

definition write_inode :: "u64 \<Rightarrow> 'a kern_scheme \<Rightarrow> ('a kern_scheme, unit) kres" where
  "write_inode p =
     kseq (lock_inode p) (\<lambda>s.
       case get_super (uint (i_dev (inodes s p))) s of
         None \<Rightarrow> Inl (BadAccess 4, s)
       | Some sb \<Rightarrow>
           let block = sint (ucast (2 + ucast (s_imap_blocks (supers s sb)) + ucast (s_zmap_blocks (supers s sb))
                 + (word_of_int (uint (i_num (inodes s p)) - 1) :: u64) div INODES_PER_BLOCK) :: u32) in
           kbind (bread (uint (i_dev (inodes s p))) block) (\<lambda>bh t.
             case bh of
               None \<Rightarrow> panic ''unable to read i-node block'' t
             | Some b \<Rightarrow>
                 kseq (brelse (Some b)) (kmodify (unlock_inode p))
                   (upd_inode p (\<lambda>i. i\<lparr>i_dirt := 0\<rparr>)
                     (upd_buf b (\<lambda>h. h\<lparr>b_data := store_dinode (inodes t p)
                          (48 * unat ((word_of_int (uint (i_num (inodes t p)) - 1) :: u64) mod INODES_PER_BLOCK)) (b_data h),
                        b_dirt := 1\<rparr>) t))) s)"

definition sync_inodes :: "'a kern_scheme \<Rightarrow> ('a kern_scheme, unit) kres" where
  "sync_inodes s =
     kfor [0..<NR_INODE] (\<lambda>k s. kseq (wait_on_inode (inode_at s k)) (\<lambda>t.
       let i = inodes t (inode_at t k) in
       if i_dirt i \<noteq> 0 \<and> i_pipe i = 0 then write_inode (inode_at t k) t else Inr ((), t)) s) s"

definition sys_sync :: "'a kern_scheme \<Rightarrow> ('a kern_scheme, int) kres" where
  "sys_sync = kseq sync_inodes (\<lambda>s. kseq (kfor [0..<nr_buffers s] sync_buf) (kreturn 0) s)"

subsection \<open>Blocks of a file\<close>

text \<open>\<open>if (create && !x) if (x = new_block(dev)) ...\<close> for a zone of the inode and for an entry of an
  indirect block.\<close>

definition make_zone :: "u64 \<Rightarrow> nat \<Rightarrow> bool \<Rightarrow> 'a kern_scheme \<Rightarrow> ('a kern_scheme, unit) kres" where
  "make_zone p k create s =
     (if create \<and> i_zone (inodes s p) k = 0 then
        kbind (new_block (uint (i_dev (inodes s p)))) (\<lambda>z t.
          let u = upd_inode p (\<lambda>i. i\<lparr>i_zone := (i_zone i)(k := word_of_int z)\<rparr>) t in
          if i_zone (inodes u p) k \<noteq> 0
          then Inr ((), upd_inode p (\<lambda>i. i\<lparr>i_ctime := CURRENT_TIME u, i_dirt := 1\<rparr>) u)
          else Inr ((), u)) s
      else Inr ((), s))"

definition indirect :: "u64 \<Rightarrow> nat \<Rightarrow> nat \<Rightarrow> bool \<Rightarrow> 'a kern_scheme \<Rightarrow> ('a kern_scheme, int) kres" where
  "indirect p b k create s =
     (let i = uint (load16 (b_data (bufs s b)) (2 * k)) in
      kbind (\<lambda>s. if create \<and> i = 0 then
                  kbind (new_block (uint (i_dev (inodes s p)))) (\<lambda>z t.
                    if z \<noteq> 0
                    then Inr (z, upd_buf b (\<lambda>h. h\<lparr>b_data := store16 (word_of_int z) (2 * k) (b_data h), b_dirt := 1\<rparr>) t)
                    else Inr (z, t)) s
                else Inr (i, s))
        (\<lambda>r. kseq (brelse (Some b)) (kreturn r)) s)"

definition bmap_single :: "u64 \<Rightarrow> nat \<Rightarrow> bool \<Rightarrow> 'a kern_scheme \<Rightarrow> ('a kern_scheme, int) kres" where
  "bmap_single p k create = kseq (make_zone p 7 create) (\<lambda>s.
     let z = i_zone (inodes s p) 7 in
     if z = 0 then Inr (0, s)
     else kbind (bread (uint (i_dev (inodes s p))) (uint z)) (\<lambda>bh t.
            case bh of None \<Rightarrow> Inr (0, t) | Some b \<Rightarrow> indirect p b k create t) s)"

definition bmap_double :: "u64 \<Rightarrow> nat \<Rightarrow> bool \<Rightarrow> 'a kern_scheme \<Rightarrow> ('a kern_scheme, int) kres" where
  "bmap_double p k create = kseq (make_zone p 8 create) (\<lambda>s.
     let z = i_zone (inodes s p) 8 in
     if z = 0 then Inr (0, s)
     else kbind (bread (uint (i_dev (inodes s p))) (uint z)) (\<lambda>bh t.
            case bh of
              None \<Rightarrow> Inr (0, t)
            | Some b \<Rightarrow> kbind (indirect p b (k div 512) create) (\<lambda>i u.
                if i = 0 then Inr (0, u)
                else kbind (bread (uint (i_dev (inodes u p))) i) (\<lambda>bh v.
                       case bh of None \<Rightarrow> Inr (0, v) | Some c \<Rightarrow> indirect p c (k mod 512) create v) u) t) s)"

definition bmap0 :: "u64 \<Rightarrow> int \<Rightarrow> bool \<Rightarrow> 'a kern_scheme \<Rightarrow> ('a kern_scheme, int) kres" where
  "bmap0 p block create s =
     (if block < 0 then panic ''_bmap: block<0'' s
      else if 7 + 512 + 512 * 512 \<le> block then panic ''_bmap: block>big'' s
      else if block < 7 then
        kseq (make_zone p (nat block) create) (\<lambda>t. Inr (uint (i_zone (inodes t p) (nat block)), t)) s
      else if block - 7 < 512 then bmap_single p (nat (block - 7)) create s
      else bmap_double p (nat (block - 7 - 512)) create s)"

definition bmap :: "u64 \<Rightarrow> int \<Rightarrow> 'a kern_scheme \<Rightarrow> ('a kern_scheme, int) kres" where
  "bmap p block = bmap0 p block False"

definition create_block :: "u64 \<Rightarrow> int \<Rightarrow> 'a kern_scheme \<Rightarrow> ('a kern_scheme, int) kres" where
  "create_block p block = bmap0 p block True"

subsection \<open>Truncation\<close>

text \<open>The loop over the 512 entries of an indirect block \<open>b\<close>.\<close>

definition for_entries :: "nat \<Rightarrow> (int \<Rightarrow> 'a kern_scheme \<Rightarrow> ('a kern_scheme, unit) kres) \<Rightarrow> 'a kern_scheme
    \<Rightarrow> ('a kern_scheme, unit) kres" where
  "for_entries b act =
     kfor [0..<512] (\<lambda>k s. let z = load16 (b_data (bufs s b)) (2 * k) in if z \<noteq> 0 then act (uint z) s else Inr ((), s))"

definition free_ind :: "int \<Rightarrow> int \<Rightarrow> 'a kern_scheme \<Rightarrow> ('a kern_scheme, unit) kres" where
  "free_ind dev block s =
     (if block = 0 then Inr ((), s)
      else kseq (kbind (bread dev block) (\<lambda>bh t.
             case bh of None \<Rightarrow> Inr ((), t)
             | Some b \<Rightarrow> kseq (for_entries b (free_block dev)) (brelse (Some b)) t))
           (free_block dev block) s)"

definition free_dind :: "int \<Rightarrow> int \<Rightarrow> 'a kern_scheme \<Rightarrow> ('a kern_scheme, unit) kres" where
  "free_dind dev block s =
     (if block = 0 then Inr ((), s)
      else kseq (kbind (bread dev block) (\<lambda>bh t.
             case bh of None \<Rightarrow> Inr ((), t)
             | Some b \<Rightarrow> kseq (for_entries b (free_ind dev)) (brelse (Some b)) t))
           (free_block dev block) s)"

definition truncate :: "u64 \<Rightarrow> 'a kern_scheme \<Rightarrow> ('a kern_scheme, unit) kres" where
  "truncate p s =
     (if \<not> (S_ISREG (i_mode (inodes s p)) \<or> S_ISDIR (i_mode (inodes s p))) then Inr ((), s)
      else
        kseq (kfor [0..<7] (\<lambda>k s. let i = inodes s p in
               if i_zone i k \<noteq> 0 then
                 kseq (free_block (uint (i_dev i)) (uint (i_zone i k)))
                   (kmodify (upd_inode p (\<lambda>i. i\<lparr>i_zone := (i_zone i)(k := 0)\<rparr>))) s
               else Inr ((), s)))
         (kseq (\<lambda>s. free_ind (uint (i_dev (inodes s p))) (uint (i_zone (inodes s p) 7)) s)
         (kseq (\<lambda>s. free_dind (uint (i_dev (inodes s p))) (uint (i_zone (inodes s p) 8)) s)
         (\<lambda>s. Inr ((), upd_inode p (\<lambda>i. i\<lparr>i_zone := (i_zone i)(7 := 0, 8 := 0), i_size := 0, i_dirt := 1,
                                       i_mtime := CURRENT_TIME s, i_ctime := CURRENT_TIME s\<rparr>) s)))) s)"

subsection \<open>Releasing inodes\<close>

text \<open>From the label \<open>repeat\<close> of \<open>iput\<close>: \<open>Inl\<close> its result, \<open>Inr\<close> the state for \<open>goto repeat\<close>.\<close>

definition iput_round :: "u64 \<Rightarrow> 'a kern_scheme \<Rightarrow> ('a kern_scheme, unit) kres + 'a kern_scheme" where
  "iput_round p s =
     (if i_nlinks (inodes s p) = 0 then Inl (kseq (truncate p) (free_inode p) s)
      else if i_dirt (inodes s p) \<noteq> 0 then
        (case kseq (write_inode p) (wait_on_inode p) s of Inl e \<Rightarrow> Inl (Inl e) | Inr (_, t) \<Rightarrow> Inr t)
      else Inl (Inr ((), upd_inode p (\<lambda>i. i\<lparr>i_count := i_count i - 1\<rparr>) s)))"

partial_function (option) iput_loop :: "u64 \<Rightarrow> 'a kern_scheme \<Rightarrow> ('a kern_scheme, unit) kres option" where
  "iput_loop p s = (case iput_round p s of Inl r \<Rightarrow> Some r | Inr t \<Rightarrow> iput_loop p t)"

definition iput :: "u64 \<Rightarrow> 'a kern_scheme \<Rightarrow> ('a kern_scheme, unit) kres" where
  "iput p s =
     (if p = 0 then Inr ((), s)
      else kseq (wait_on_inode p) (\<lambda>s.
        if i_count (inodes s p) = 0 then panic ''iput: trying to free free inode'' s
        else if i_pipe (inodes s p) \<noteq> 0 then
          let t = upd_inode p (\<lambda>i. i\<lparr>i_count := i_count i - 1\<rparr>) (wake_up (i_wait p) s) in
          if i_count (inodes t p) \<noteq> 0 then Inr ((), t)
          else kseq (free_page (i_size (inodes t p)))
                 (kmodify (upd_inode p (\<lambda>i. i\<lparr>i_count := 0, i_dirt := 0, i_pipe := 0\<rparr>))) t
        else if i_dev (inodes s p) = 0 \<or> 1 < i_count (inodes s p) then
          Inr ((), upd_inode p (\<lambda>i. i\<lparr>i_count := i_count i - 1\<rparr>) s)
        else case iput_loop p s of None \<Rightarrow> Inl (Loops, s) | Some r \<Rightarrow> r) s)"

subsection \<open>Getting inodes\<close>

partial_function (option) clean_loop :: "u64 \<Rightarrow> 'a kern_scheme \<Rightarrow> ('a kern_scheme, unit) kres option" where
  "clean_loop p s =
     (if i_dirt (inodes s p) \<noteq> 0 then
        case kseq (write_inode p) (wait_on_inode p) s of Inl e \<Rightarrow> Some (Inl e) | Inr (_, t) \<Rightarrow> clean_loop p t
      else Some (Inr ((), s)))"

text \<open>One round of the loop of \<open>get_empty_inode\<close>: the scan starts at the inode allocated last.\<close>

definition empty_round :: "'a kern_scheme \<Rightarrow> ('a kern_scheme, u64) kres + 'a kern_scheme" where
  "empty_round s =
     (case find (\<lambda>k. i_count (inodes s (inode_at s k)) = 0)
             ([last_allocated_inode s..<NR_INODE] @ [0..<last_allocated_inode s]) of
        None \<Rightarrow> Inl (panic ''No free inodes in mem'' s)
      | Some k \<Rightarrow>
          let p = inode_at s k in
          case wait_on_inode p (s\<lparr>last_allocated_inode := k\<rparr>) of
            Inl e \<Rightarrow> Inl (Inl e)
          | Inr (_, t) \<Rightarrow>
              case clean_loop p t of
                None \<Rightarrow> Inl (Inl (Loops, t))
              | Some (Inl e) \<Rightarrow> Inl (Inl e)
              | Some (Inr (_, u)) \<Rightarrow> if i_count (inodes u p) = 0 then Inl (Inr (p, u)) else Inr u)"

partial_function (option) empty_loop :: "'a kern_scheme \<Rightarrow> ('a kern_scheme, u64) kres option" where
  "empty_loop s = (case empty_round s of Inl r \<Rightarrow> Some r | Inr t \<Rightarrow> empty_loop t)"

definition get_empty_inode :: "'a kern_scheme \<Rightarrow> ('a kern_scheme, u64) kres" where
  "get_empty_inode s =
     (case empty_loop s of
        None \<Rightarrow> Inl (Loops, s)
      | Some (Inl e) \<Rightarrow> Inl e
      | Some (Inr (p, t)) \<Rightarrow> Inr (p, upd_inode p (\<lambda>i. i\<lparr>i_count := 1\<rparr>) (clear_inode p t)))"

text \<open>\<open>PIPE_HEAD\<close> and \<open>PIPE_TAIL\<close> are the first two \<open>long\<close> of the zone array: four zones each.\<close>

definition PIPE_HEAD :: "m_inode \<Rightarrow> u64" where
  "PIPE_HEAD i = fold (\<lambda>k w. w OR push_bit (16 * k) (ucast (i_zone i k))) [0..<4] 0"

definition PIPE_TAIL :: "m_inode \<Rightarrow> u64" where
  "PIPE_TAIL i = fold (\<lambda>k w. w OR push_bit (16 * k) (ucast (i_zone i (4 + k)))) [0..<4] 0"

definition set_PIPE_HEAD :: "u64 \<Rightarrow> m_inode \<Rightarrow> m_inode" where
  "set_PIPE_HEAD w i = i\<lparr>i_zone := \<lambda>k. if k < 4 then ucast (drop_bit (16 * k) w) else i_zone i k\<rparr>"

definition set_PIPE_TAIL :: "u64 \<Rightarrow> m_inode \<Rightarrow> m_inode" where
  "set_PIPE_TAIL w i = i\<lparr>i_zone := \<lambda>k. if 4 \<le> k \<and> k < 8 then ucast (drop_bit (16 * (k - 4)) w) else i_zone i k\<rparr>"

definition get_pipe_inode :: "'a kern_scheme \<Rightarrow> ('a kern_scheme, u64) kres" where
  "get_pipe_inode =
     kbind get_empty_inode (\<lambda>p. kbind get_free_page (\<lambda>page s.
       let t = upd_inode p (\<lambda>i. i\<lparr>i_size := page\<rparr>) s in
       if page = 0 then Inr (0, upd_inode p (\<lambda>i. i\<lparr>i_count := 0\<rparr>) t)
       else Inr (p, upd_inode p (\<lambda>i. (set_PIPE_HEAD 0 (set_PIPE_TAIL 0 i))\<lparr>i_count := 2, i_pipe := 1\<rparr>) t)))"

text \<open>The search of \<open>iget\<close>, restarted when the inode has changed while the caller waited: the address
  of the inode with its count raised, or \<open>None\<close>.\<close>

definition is_inode :: "int \<Rightarrow> int \<Rightarrow> m_inode \<Rightarrow> bool" where
  "is_inode dev nr i \<longleftrightarrow> uint (i_dev i) = dev \<and> uint (i_num i) = nr"

partial_function (option) iget_loop :: "int \<Rightarrow> int \<Rightarrow> 'a kern_scheme \<Rightarrow> ('a kern_scheme, u64 option) kres option" where
  "iget_loop dev nr s =
     (let f = find (\<lambda>k. is_inode dev nr (inodes s (inode_at s k))) [0..<NR_INODE] in
      if f = None then Some (Inr (None, s))
      else
        let p = inode_at s (the f) in
        case wait_on_inode p s of
          Inl e \<Rightarrow> Some (Inl e)
        | Inr (_, t) \<Rightarrow>
            if is_inode dev nr (inodes t p)
            then Some (Inr (Some p, upd_inode p (\<lambda>i. i\<lparr>i_count := i_count i + 1\<rparr>) t))
            else iget_loop dev nr t)"

definition iget :: "int \<Rightarrow> int \<Rightarrow> 'a kern_scheme \<Rightarrow> ('a kern_scheme, u64) kres" where
  "iget dev nr s =
     (if dev = 0 then panic ''iget with dev==0'' s
      else kbind get_empty_inode (\<lambda>empty t.
        case iget_loop dev nr t of
          None \<Rightarrow> Inl (Loops, t)
        | Some (Inl e) \<Rightarrow> Inl e
        | Some (Inr (Some p, u)) \<Rightarrow> kseq (if empty \<noteq> 0 then iput empty else kreturn ()) (kreturn p) u
        | Some (Inr (None, u)) \<Rightarrow>
            if empty = 0 then Inr (0, u)
            else kseq (read_inode empty) (kreturn empty)
                   (upd_inode empty (\<lambda>i. i\<lparr>i_dev := word_of_int dev, i_num := word_of_int nr\<rparr>) u)) s)"

definition new_inode :: "int \<Rightarrow> 'a kern_scheme \<Rightarrow> ('a kern_scheme, u64) kres" where
  "new_inode dev =
     kbind get_empty_inode (\<lambda>p s.
       case get_super dev s of
         None \<Rightarrow> panic ''new_inode with unknown device'' s
       | Some sb \<Rightarrow>
           case find_map (s_imap (supers s sb)) s of
             None \<Rightarrow> kseq (iput p) (kreturn 0) s
           | Some (i, b, j) \<Rightarrow>
               if uint (s_ninodes (supers s sb)) < int j + int i * 8192 then kseq (iput p) (kreturn 0) s
               else
                 let (res, d) = set_bit j (b_data (bufs s b));
                     t = upd_buf b (\<lambda>h. h\<lparr>b_data := d\<rparr>) s in
                 if res then panic ''new_inode: bit already set'' t
                 else
                   let u = upd_buf b (\<lambda>h. h\<lparr>b_dirt := 1\<rparr>) t in
                   Inr (p, upd_inode p (\<lambda>n. n\<lparr>i_count := 1, i_nlinks := 1, i_dev := word_of_int dev, i_dirt := 1,
                             i_num := word_of_int (int j + int i * 8192), i_mtime := CURRENT_TIME u,
                             i_atime := CURRENT_TIME u, i_ctime := CURRENT_TIME u\<rparr>) u))"

end
