(* ===== verification/Printk.thy ===== *)
theory Printk
  imports Inode Vsprintf
begin

text \<open>
  Model of \<open>kernel/printk.c\<close>.  The state gains the bytes of kernel memory that the formatter reads
  and writes, the address of the static \<open>buf\<close>, the routine \<open>printk_write\<close> points to, and the
  characters handed to the SBI console.
\<close>

datatype printk_writer = SbiWrite | TtyWrite

record kernel = kern +
  kbytes :: mem                     \<comment> \<open>kernel memory by bytes: \<open>buf\<close> and string arguments\<close>
  printk_buf :: nat                 \<comment> \<open>address of the static \<open>buf[1024]\<close>\<close>
  printk_write :: printk_writer
  sbi_out :: "u8 list"              \<comment> \<open>characters passed to \<open>sbi_console_putchar\<close>\<close>

text \<open>\<open>printk_sbi_write\<close> sends \<open>count\<close> bytes; its loop ends at 0, which a negative \<open>count\<close> passes only by overflow.\<close>

definition printk_sbi_write :: "u8 list \<Rightarrow> int \<Rightarrow> 'a kernel_scheme \<Rightarrow> ('a kernel_scheme, int) kres" where
  "printk_sbi_write buf count s =
     (if count < 0 then Inl (OutOfBounds, s) else Inr (0, s\<lparr>sbi_out := sbi_out s @ take (nat count) buf\<rparr>))"

definition printk :: "u8 list \<Rightarrow> u64 list \<Rightarrow> 'a kernel_scheme \<Rightarrow> ('a kernel_scheme, int) kres" where
  "printk fmt args s =
     (case vsprintf (kbytes s) (printk_buf s) fmt args of
        None \<Rightarrow> Inl (OutOfBounds, s)
      | Some (i, m) \<Rightarrow>
          let t = s\<lparr>kbytes := m\<rparr>;
              text = map (\<lambda>k. m (printk_buf s + k)) [0..<nat i] in
          kseq (case printk_write t of SbiWrite \<Rightarrow> printk_sbi_write text i | TtyWrite \<Rightarrow> tty_write 0 text i)
            (kreturn i) t)"

definition printk_init :: "'a kernel_scheme \<Rightarrow> 'a kernel_scheme" where
  "printk_init s = s\<lparr>printk_write := TtyWrite\<rparr>"

subsection \<open>Output for debugging\<close>

text \<open>\<open>sbi_printf\<close> of \<open>init/main.c\<close>: the text in \<open>sbi_printbuf\<close>, at \<open>buf\<close>, goes to the console; \<open>i\<close> is \<open>-1\<close> after the loop.\<close>

definition sbi_printf :: "nat \<Rightarrow> u8 list \<Rightarrow> u64 list \<Rightarrow> 'a kernel_scheme \<Rightarrow> ('a kernel_scheme, int) kres" where
  "sbi_printf buf fmt args s =
     (case vsprintf (kbytes s) buf fmt args of
        None \<Rightarrow> Inl (OutOfBounds, s)
      | Some (i, m) \<Rightarrow>
          if i < 0 then Inl (OutOfBounds, s) else Inr (- 1, s\<lparr>kbytes := m, sbi_out := sbi_out s @ map (\<lambda>k. m (buf + k)) [0..<nat i]\<rparr>))"

definition print_debug :: "string \<Rightarrow> 'a kernel_scheme \<Rightarrow> ('a kernel_scheme, unit) kres" where
  "print_debug text = kreturn ()"

end
