(* ===== verification/Super.thy ===== *)
theory Super
  imports Printk
begin

text \<open>
  Model of \<open>fs/super.c\<close> and of \<open>sys_setup\<close> in \<open>kernel/hd.c\<close>: reading the partition table, mounting
  a file system and mounting the root file system.

  \<open>struct super_block\<close> on RV64: \<open>s_max_size\<close> is at offset 16, \<open>s_magic\<close> at 24, the map pointers at 32
  and 96, \<open>s_dev\<close> at 160, \<open>s_isup\<close>, \<open>s_imount\<close> and \<open>s_time\<close> at 168, 176 and 184, \<open>s_rd_only\<close> and
  \<open>s_dirt\<close> at 192 and 193.
\<close>

definition SUPER_MAGIC :: u16 where "SUPER_MAGIC = 0x137F"
definition ROOT_DEV :: int where "ROOT_DEV = 0x301"

text \<open>The size of \<open>struct d_inode\<close>: 8 bytes for mode and owner with padding, two \<open>long\<close>, two bytes, nine
  zones, padded to a multiple of 8.\<close>

definition sizeof_d_inode :: nat where "sizeof_d_inode = 48"

definition load32 :: "(nat \<Rightarrow> u8) \<Rightarrow> nat \<Rightarrow> u32" where
  "load32 d o' = ucast (load16 d o') OR push_bit 16 (ucast (load16 d (o' + 2)))"

text \<open>The structure copy \<open>*p = *((struct super_block * ) bh->b_data)\<close>.  A pointer word becomes the index of
  the buffer head it would point to.\<close>

definition buf_of_ptr :: "'a kern_scheme \<Rightarrow> u64 \<Rightarrow> nat option" where
  "buf_of_ptr s w = (if w = 0 then None else Some (unat (w - start_buffer s) div 56))"

definition disk_super :: "'a kern_scheme \<Rightarrow> (nat \<Rightarrow> u8) \<Rightarrow> super_block" where
  "disk_super s d = \<lparr>s_ninodes = load16 d 0, s_nzones = load16 d 2, s_imap_blocks = load16 d 4,
     s_zmap_blocks = load16 d 6, s_firstdatazone = load16 d 8, s_log_zone_size = load16 d 10,
     s_max_size = load64 d 16, s_magic = load16 d 24,
     s_imap = \<lambda>i. buf_of_ptr s (load64 d (32 + 8 * i)), s_zmap = \<lambda>i. buf_of_ptr s (load64 d (96 + 8 * i)),
     s_dev = load16 d 160, s_isup = load64 d 168, s_imount = load64 d 176, s_time = load64 d 184,
     s_rd_only = d 192, s_dirt = d 193\<rparr>"

text \<open>The loops that read the bit map blocks; \<open>upd i\<close> assigns element \<open>i\<close> of \<open>s_imap\<close> or \<open>s_zmap\<close>, which
  have eight elements.  The result is the next \<open>block\<close>.\<close>

definition set_imap :: "nat \<Rightarrow> nat option \<Rightarrow> super_block \<Rightarrow> super_block" where
  "set_imap i bh b = b\<lparr>s_imap := (s_imap b)(i := bh)\<rparr>"

definition set_zmap :: "nat \<Rightarrow> nat option \<Rightarrow> super_block \<Rightarrow> super_block" where
  "set_zmap i bh b = b\<lparr>s_zmap := (s_zmap b)(i := bh)\<rparr>"

function read_maps :: "(nat \<Rightarrow> nat option \<Rightarrow> super_block \<Rightarrow> super_block) \<Rightarrow> nat \<Rightarrow> int \<Rightarrow> nat \<Rightarrow> nat \<Rightarrow> int
    \<Rightarrow> 'a kern_scheme \<Rightarrow> ('a kern_scheme, int) kres" where
  "read_maps upd p dev i n block s =
     (if n \<le> i then Inr (block, s)
      else if 8 \<le> i then Inl (OutOfBounds, s)
      else case bread dev block s of
        Inl e \<Rightarrow> Inl e
      | Inr (None, t) \<Rightarrow> Inr (block, upd_super p (upd i None) t)
      | Inr (Some b, t) \<Rightarrow> read_maps upd p dev (i + 1) n (block + 1) (upd_super p (upd i (Some b)) t))"
  by pat_completeness auto
termination
  by (relation "measure (\<lambda>(upd, p, dev, i, n, block, s). n - i)") auto

declare read_maps.simps [simp del]

definition mark_first :: "nat option \<Rightarrow> 'a kern_scheme \<Rightarrow> ('a kern_scheme, unit) kres" where
  "mark_first bh s =
     (case bh of None \<Rightarrow> Inl (BadAccess 0, s)
      | Some b \<Rightarrow> Inr ((), upd_buf b (\<lambda>h. h\<lparr>b_data := (b_data h)(0 := b_data h 0 OR 1)\<rparr>) s))"

text \<open>\<open>do_mount\<close> from the comparison of the magic number on.\<close>

definition mount_maps :: "nat \<Rightarrow> int \<Rightarrow> 'a kern_scheme \<Rightarrow> ('a kern_scheme, nat option) kres" where
  "mount_maps p dev s =
     (let s0 = upd_super p (\<lambda>b. b\<lparr>s_imap := \<lambda>i. if i < 8 then None else s_imap b i,
                                  s_zmap := \<lambda>i. if i < 8 then None else s_zmap b i\<rparr>) s in
      kbind (read_maps set_imap p dev 0 (unat (s_imap_blocks (supers s0 p))) 2) (\<lambda>block t.
      kbind (read_maps set_zmap p dev 0 (unat (s_zmap_blocks (supers t p))) block) (\<lambda>block u.
        let b = supers u p in
        if block \<noteq> 2 + uint (s_imap_blocks b) + uint (s_zmap_blocks b) then
          kseq (kfor [0..<8] (\<lambda>i s. brelse (s_imap (supers s p) i) s))
            (kseq (kfor [0..<8] (\<lambda>i s. brelse (s_zmap (supers s p) i) s))
              (kseq (kmodify (upd_super p (\<lambda>b. b\<lparr>s_dev := 0\<rparr>))) (kreturn None))) u
        else
          kseq (mark_first (s_imap b 0))
            (kseq (mark_first (s_zmap b 0))
              (kseq (kmodify (upd_super p (\<lambda>b. b\<lparr>s_dev := word_of_int dev, s_isup := 0, s_imount := 0,
                                                 s_time := 0, s_rd_only := 0, s_dirt := 0\<rparr>)))
                (kreturn (Some p)))) u) t) s0)"

text \<open>When no entry is free, \<open>p->s_dev = -1\<close> writes behind the table before the test of \<open>p\<close>.\<close>

definition do_mount :: "int \<Rightarrow> 'a kern_scheme \<Rightarrow> ('a kern_scheme, nat option) kres" where
  "do_mount dev s =
     (case find (\<lambda>i. s_dev (supers s i) = 0) [0..<NR_SUPER] of
        None \<Rightarrow> Inl (OutOfBounds, s)
      | Some p \<Rightarrow>
          kbind (bread dev 1) (\<lambda>bh t.
            case bh of
              None \<Rightarrow> Inr (None, t)
            | Some b \<Rightarrow>
                kseq (brelse (Some b)) (\<lambda>u.
                  if s_magic (supers u p) \<noteq> SUPER_MAGIC
                  then Inr (None, upd_super p (\<lambda>b. b\<lparr>s_dev := 0\<rparr>) u)
                  else mount_maps p dev u)
                  (upd_super p (\<lambda>_. disk_super t (b_data (bufs t b))) t))
            (upd_super p (\<lambda>b. b\<lparr>s_dev := - 1\<rparr>) s))"

subsection \<open>The root file system\<close>

text \<open>The counting loops of \<open>mount_root\<close> use \<open>set_bit\<close>, which also sets the bit.\<close>

primrec count_free :: "(super_block \<Rightarrow> nat \<Rightarrow> nat option) \<Rightarrow> nat \<Rightarrow> nat \<Rightarrow> int \<Rightarrow> 'a kern_scheme
    \<Rightarrow> ('a kern_scheme, int) kres" where
  "count_free mp p 0 free s = Inr (free, s)"
| "count_free mp p (Suc i) free s =
     (if 8 \<le> i div 8192 then Inl (OutOfBounds, s)
      else case mp (supers s p) (i div 8192) of
        None \<Rightarrow> Inl (BadAccess 0, s)
      | Some b \<Rightarrow>
          let (was, d) = set_bit (i mod 8192) (b_data (bufs s b)) in
          count_free mp p i (if was then free else free + 1) (upd_buf b (\<lambda>h. h\<lparr>b_data := d\<rparr>) s))"

definition str :: "string \<Rightarrow> u8 list" where
  "str xs = map (\<lambda>c. of_char c) xs"

definition mount_root :: "'a kernel_scheme \<Rightarrow> ('a kernel_scheme, unit) kres" where
  "mount_root s =
     (if 32 \<noteq> sizeof_d_inode then panic ''bad i-node size'' s
      else
        kbind (do_mount ROOT_DEV) (\<lambda>r t.
          case r of
            None \<Rightarrow> panic ''Unable to mount root'' t
          | Some p \<Rightarrow>
              kbind (iget ROOT_DEV 1) (\<lambda>mi u.
                if mi = 0 then panic ''Unable to read root i-node'' u
                else
                  let v = upd_inode mi (\<lambda>i. i\<lparr>i_count := i_count i + 3\<rparr>) u;
                      w = upd_super p (\<lambda>b. b\<lparr>s_isup := mi, s_imount := mi\<rparr>) v;
                      x = upd_task (current w) (\<lambda>t. t\<lparr>t_pwd := mi, t_root := mi\<rparr>) w in
                  kbind (count_free s_zmap p (unat (s_nzones (supers x p))) 0) (\<lambda>free y.
                  kseq (printk (str ''%d/%d free blocks'' @ [10, 13]) [word_of_int free, ucast (s_nzones (supers y p))])
                  (\<lambda>y. kbind (count_free s_imap p (unat (s_ninodes (supers y p)) + 1) 0) (\<lambda>free z.
                  kseq (printk (str ''%d/%d free inodes'' @ [10, 13]) [word_of_int free, ucast (s_ninodes (supers z p))])
                    (kreturn ()) z) y) y) x) t)
          (s\<lparr>files := \<lambda>a. if \<exists>i \<in> set [0..<NR_FILE]. a = file_at s i then (files s a)\<lparr>f_count := 0\<rparr> else files s a,
             supers := \<lambda>i. if i < NR_SUPER then (supers s i)\<lparr>s_dev := 0\<rparr> else supers s i\<rparr>))"

subsection \<open>The set-up call\<close>

text \<open>One drive of the loop of \<open>sys_setup\<close>: its first sector is read through the first buffer head.\<close>

definition setup_drive :: "nat \<Rightarrow> 'a kernel_scheme \<Rightarrow> ('a kernel_scheme, unit) kres" where
  "setup_drive drive =
     kseq (rw_abs_hd READ (of_nat drive) 1 0 0 0) (\<lambda>s.
       let d = b_data (bufs s 0) in
       if b_uptodate (bufs s 0) = 0 then
         kseq (printk (str ''Unable to read partition table of drive %d'' @ [10, 13]) [of_nat drive]) (panic '''') s
       else if d 510 \<noteq> 0x55 \<or> d 511 \<noteq> 0xAA then
         kseq (printk (str ''Bad partition table on drive %d'' @ [10, 13]) [of_nat drive]) (panic '''') s
       else
         Inr ((), fold (\<lambda>i s. s\<lparr>hd_part := (hd_part s)(i + 5 * drive :=
                     (uint (load32 d (0x1BE + 16 * (i - 1) + 8)), uint (load32 d (0x1BE + 16 * (i - 1) + 12))))\<rparr>)
                   [1..<5] s))"

text \<open>The address of the string passed for \<open>%s\<close> is a parameter: of the empty string when \<open>NR_HD\<close> is at
  most one, of \<open>"s"\<close> otherwise.\<close>

definition sys_setup :: "(bool \<Rightarrow> u64) \<Rightarrow> 'a kernel_scheme \<Rightarrow> ('a kernel_scheme, int) kres" where
  "sys_setup plural s =
     (let t = printk_init s in
      if \<not> setup_callable t then Inr (- 1, t)
      else
        kseq (kfor [0..<length (hd_info t)] setup_drive)
        (kseq (printk (str ''Partition table%s ok.'' @ [10, 13]) [plural (1 < length (hd_info t))])
        (kseq mount_root (kreturn 0))) (t\<lparr>setup_callable := False\<rparr>))"

end
