(* ===== verification/Pipe.thy ===== *)
theory Pipe
  imports Super Sched_Props
begin

text \<open>
  Model of \<open>fs/pipe.c\<close> with the pipe macros of \<open>linux/fs.h\<close>.  The bytes of a pipe are in the page the
  inode's \<open>i_size\<close> points to; the words of \<open>pmem\<close> are little endian.  The bytes copied to or from the
  caller's buffer are lists.
\<close>

definition PIPE_SIZE :: "m_inode \<Rightarrow> u64" where
  "PIPE_SIZE i = (PIPE_HEAD i - PIPE_TAIL i) AND (4096 - 1)"

definition PIPE_EMPTY :: "m_inode \<Rightarrow> bool" where
  "PIPE_EMPTY i \<longleftrightarrow> PIPE_HEAD i = PIPE_TAIL i"

definition PIPE_FULL :: "m_inode \<Rightarrow> bool" where
  "PIPE_FULL i \<longleftrightarrow> PIPE_SIZE i = 4096 - 1"

definition INC_PIPE :: "u64 \<Rightarrow> u64" where
  "INC_PIPE h = (h + 1) AND 0xFFF"

definition load_byte :: "u64 \<Rightarrow> 'a mm_scheme \<Rightarrow> ('a mm_scheme, u8) kres" where
  "load_byte a s =
     (if direct a then Inr (ucast (drop_bit (8 * (unat a mod 8)) (pmem s (a AND NOT 7))), s) else Inl (BadAccess a, s))"

definition put_byte :: "nat \<Rightarrow> u8 \<Rightarrow> u64 \<Rightarrow> u64" where
  "put_byte k c w = (w AND NOT (push_bit (8 * k) 0xFF)) OR push_bit (8 * k) (ucast c)"

definition store_byte :: "u64 \<Rightarrow> u8 \<Rightarrow> 'a mm_scheme \<Rightarrow> ('a mm_scheme, unit) kres" where
  "store_byte a c s =
     (if direct a then
        Inr ((), s\<lparr>pmem := (pmem s)(a AND NOT 7 := put_byte (unat a mod 8) c (pmem s (a AND NOT 7)))\<rparr>)
      else Inl (BadAccess a, s))"

subsection \<open>Reading\<close>

text \<open>The loop that waits for data: \<open>False\<close> when no writer is left.\<close>

partial_function (option) pipe_wait_data :: "u64 \<Rightarrow> 'a kern_scheme \<Rightarrow> ('a kern_scheme, bool) kres option" where
  "pipe_wait_data p s =
     (if PIPE_EMPTY (inodes s p) then
        let t = wake_up (i_wait p) s in
        if i_count (inodes t p) \<noteq> 2 then Some (Inr (False, t))
        else case sleep_on (i_wait p) t of Inl e \<Rightarrow> Some (Inl e) | Inr (_, u) \<Rightarrow> pipe_wait_data p u
      else Some (Inr (True, s)))"

fun pipe_get :: "u64 \<Rightarrow> nat \<Rightarrow> u8 list \<Rightarrow> 'a kern_scheme \<Rightarrow> ('a kern_scheme, u8 list) kres" where
  "pipe_get p 0 b s = Inr (b, s)"
| "pipe_get p (Suc n) b s =
     (if PIPE_EMPTY (inodes s p) then Inr (b, s)
      else case load_byte (i_size (inodes s p) + PIPE_TAIL (inodes s p)) s of
        Inl e \<Rightarrow> Inl e
      | Inr (c, t) \<Rightarrow> pipe_get p n (b @ [c]) (upd_inode p (\<lambda>i. set_PIPE_TAIL (INC_PIPE (PIPE_TAIL i)) i) t))"

definition read_pipe :: "u64 \<Rightarrow> int \<Rightarrow> 'a kern_scheme \<Rightarrow> ('a kern_scheme, int \<times> u8 list) kres" where
  "read_pipe p count s =
     (case pipe_wait_data p s of
        None \<Rightarrow> Inl (Loops, s)
      | Some (Inl e) \<Rightarrow> Inl e
      | Some (Inr (False, t)) \<Rightarrow> Inr ((0, []), t)
      | Some (Inr (True, t)) \<Rightarrow>
          kbind (pipe_get p (nat count) []) (\<lambda>b u. Inr ((int (length b), b), wake_up (i_wait p) u)) t)"

subsection \<open>Writing\<close>

definition SIGPIPE :: nat where "SIGPIPE = 13"

definition raise_sigpipe :: "'a kern_scheme \<Rightarrow> 'a kern_scheme" where
  "raise_sigpipe s = upd_task (current s) (\<lambda>t. t\<lparr>t_signal := t_signal t OR sig_bit SIGPIPE\<rparr>) s"

text \<open>The loop that waits for room: \<open>False\<close> when no reader is left.\<close>

partial_function (option) pipe_wait_room :: "u64 \<Rightarrow> 'a kern_scheme \<Rightarrow> ('a kern_scheme, bool) kres option" where
  "pipe_wait_room p s =
     (if PIPE_FULL (inodes s p) then
        let t = wake_up (i_wait p) s in
        if i_count (inodes t p) \<noteq> 2 then Some (Inr (False, raise_sigpipe t))
        else case sleep_on (i_wait p) t of Inl e \<Rightarrow> Some (Inl e) | Inr (_, u) \<Rightarrow> pipe_wait_room p u
      else Some (Inr (True, s)))"

text \<open>\<open>bs\<close> are the bytes still to be written, \<open>n\<close> the number written.\<close>

fun pipe_put :: "u64 \<Rightarrow> u8 list \<Rightarrow> nat \<Rightarrow> 'a kern_scheme \<Rightarrow> ('a kern_scheme, int) kres" where
  "pipe_put p [] n s = Inr (int n, wake_up (i_wait p) s)"
| "pipe_put p (c # bs) n s =
     (case pipe_wait_room p s of
        None \<Rightarrow> Inl (Loops, s)
      | Some (Inl e) \<Rightarrow> Inl e
      | Some (Inr (False, t)) \<Rightarrow> Inr (int n, t)
      | Some (Inr (True, t)) \<Rightarrow>
          (case store_byte (i_size (inodes t p) + PIPE_HEAD (inodes t p)) c t of
             Inl e \<Rightarrow> Inl e
           | Inr (_, u) \<Rightarrow>
               pipe_put p bs (n + 1)
                 (wake_up (i_wait p) (upd_inode p (\<lambda>i. set_PIPE_HEAD (INC_PIPE (PIPE_HEAD i)) i) u))))"

definition write_pipe :: "u64 \<Rightarrow> u8 list \<Rightarrow> 'a kern_scheme \<Rightarrow> ('a kern_scheme, int) kres" where
  "write_pipe p buf s =
     (let t = wake_up (i_wait p) s in
      if i_count (inodes t p) \<noteq> 2 then Inr (- 1, raise_sigpipe t) else pipe_put p buf 0 t)"

subsection \<open>Creating a pipe\<close>

text \<open>The first two free entries of the file table, their counts raised, then the first two free
  descriptors.\<close>

definition free_files :: "'a kern_scheme \<Rightarrow> nat list" where
  "free_files s = take 2 (filter (\<lambda>i. f_count (files s (file_at s i)) = 0) [0..<NR_FILE])"

definition free_fds :: "'a kern_scheme \<Rightarrow> nat list" where
  "free_fds s = take 2 (filter (\<lambda>i. t_filp (tasks s (current s)) i = 0) [0..<NR_OPEN])"

definition set_filp :: "nat \<Rightarrow> u64 \<Rightarrow> 'a kern_scheme \<Rightarrow> 'a kern_scheme" where
  "set_filp fd f s = upd_task (current s) (\<lambda>t. t\<lparr>t_filp := (t_filp t)(fd := f)\<rparr>) s"

definition set_f_count :: "u64 \<Rightarrow> u16 \<Rightarrow> 'a kern_scheme \<Rightarrow> 'a kern_scheme" where
  "set_f_count f n = upd_file f (\<lambda>x. x\<lparr>f_count := n\<rparr>)"

definition pipe_file :: "u64 \<Rightarrow> u16 \<Rightarrow> file_struct \<Rightarrow> file_struct" where
  "pipe_file p mode x = x\<lparr>f_inode := p, f_pos := 0, f_mode := mode\<rparr>"

definition sys_pipe :: "u64 \<Rightarrow> 'a kern_scheme \<Rightarrow> ('a kern_scheme, int) kres" where
  "sys_pipe fildes s =
     (case free_files s of
        [i, j] \<Rightarrow>
          let f0 = file_at s i; f1 = file_at s j;
              t = upd_file f1 (\<lambda>x. x\<lparr>f_count := f_count x + 1\<rparr>) (upd_file f0 (\<lambda>x. x\<lparr>f_count := f_count x + 1\<rparr>) s);
              drop_files = (\<lambda>s. set_f_count f0 0 (set_f_count f1 0 s)) in
          (case free_fds t of
             [a, b] \<Rightarrow>
               kbind get_pipe_inode (\<lambda>p u.
                 if p = 0 then Inr (- 1, drop_files (set_filp a 0 (set_filp b 0 u)))
                 else
                   kseq (kstore fildes (of_nat a)) (kseq (kstore (fildes + 8) (of_nat b)) (kreturn 0))
                     (upd_file f1 (pipe_file p 2) (upd_file f0 (pipe_file p 1) u)))
                 (set_filp b f1 (set_filp a f0 t))
           | _ \<Rightarrow> Inr (- 1, drop_files t))
      | _ \<Rightarrow> Inr (- 1, s))"

end
