(* ===== verification/Files.thy ===== *)
theory Files
  imports Pipe "HOL-Library.Signed_Division"
begin

text \<open>
  Model of the routines that work on open files: \<open>verify_area\<close> of \<open>kernel/fork.c\<close>, \<open>fs/fcntl.c\<close>,
  \<open>do_close\<close> of \<open>fs/open.c\<close>, \<open>fs/file_dev.c\<close>, \<open>fs/char_dev.c\<close>, \<open>fs/read_write.c\<close>, \<open>sys_fstat\<close> of
  \<open>fs/stat.c\<close> and \<open>fs/ioctl.c\<close>.

  The arguments of a system call are the registers \<open>a0\<close> to \<open>a2\<close>; an \<open>unsigned int\<close> takes the low 32
  bits, an \<open>int\<close> reads them as a signed number.  The bytes of a caller's buffer are lists: what a
  read delivers, and what a write takes.  Printed messages are left out.
\<close>

definition EPERM :: int where "EPERM = 1"
definition ENOENT :: int where "ENOENT = 2"
definition EBADF :: int where "EBADF = 9"
definition ECHILD :: int where "ECHILD = 10"
definition EACCES :: int where "EACCES = 13"
definition EEXIST :: int where "EEXIST = 17"
definition EXDEV :: int where "EXDEV = 18"
definition ENOTDIR :: int where "ENOTDIR = 20"
definition EISDIR :: int where "EISDIR = 21"
definition EINVAL :: int where "EINVAL = 22"
definition EMFILE :: int where "EMFILE = 24"
definition ENOTTY :: int where "ENOTTY = 25"
definition ENOSPC :: int where "ENOSPC = 28"
definition ESPIPE :: int where "ESPIPE = 29"
definition ENOTEMPTY :: int where "ENOTEMPTY = 39"
definition ERROR :: int where "ERROR = 99"

lemmas errno_defs = EPERM_def ENOENT_def EBADF_def ECHILD_def EACCES_def EEXIST_def EXDEV_def ENOTDIR_def EISDIR_def
  EINVAL_def EMFILE_def ENOTTY_def ENOSPC_def ESPIPE_def ENOTEMPTY_def ERROR_def

definition reg_uint :: "u64 \<Rightarrow> u32" where "reg_uint a = ucast a"
definition reg_int :: "u64 \<Rightarrow> int" where "reg_int a = sint (ucast a :: u32)"

text \<open>Conversion to a 64-bit \<open>long\<close>.\<close>

definition to_long :: "int \<Rightarrow> int" where
  "to_long x = sint (word_of_int x :: u64)"

definition filp :: "'a kern_scheme \<Rightarrow> nat \<Rightarrow> u64" where
  "filp s fd = t_filp (tasks s (current s)) fd"

subsection \<open>User memory\<close>

function verify_loop :: "u64 \<Rightarrow> int \<Rightarrow> 'a mm_scheme \<Rightarrow> ('a mm_scheme, unit) kres" where
  "verify_loop start sz s =
     (if 0 < sz then
        case write_verify start s of Inl e \<Rightarrow> Inl e | Inr (_, t) \<Rightarrow> verify_loop (start + 4096) (sz - 4096) t
      else Inr ((), s))"
  by pat_completeness auto
termination by (relation "measure (\<lambda>(start, sz, s). nat sz)") auto

declare verify_loop.simps [simp del]

definition verify_area :: "u64 \<Rightarrow> int \<Rightarrow> 'a mm_scheme \<Rightarrow> ('a mm_scheme, unit) kres" where
  "verify_area addr sz = verify_loop (addr AND NOT 0xFFF) (sz + uint (addr AND 0xFFF))"

subsection \<open>Descriptors\<close>

definition clear_cloexec :: "nat \<Rightarrow> 'a kern_scheme \<Rightarrow> 'a kern_scheme" where
  "clear_cloexec fd s = upd_task (current s) (\<lambda>t. t\<lparr>t_close_on_exec := t_close_on_exec t AND NOT (push_bit fd 1)\<rparr>) s"

definition dupfd :: "u32 \<Rightarrow> u32 \<Rightarrow> 'a kern_scheme \<Rightarrow> ('a kern_scheme, int) kres" where
  "dupfd fd arg s =
     (if NR_OPEN \<le> unat fd \<or> filp s (unat fd) = 0 then Inr (- EBADF, s)
      else if NR_OPEN \<le> unat arg then Inr (- EINVAL, s)
      else case find (\<lambda>k. filp s k = 0) [unat arg..<NR_OPEN] of
        None \<Rightarrow> Inr (- EMFILE, s)
      | Some k \<Rightarrow>
          let f = filp s (unat fd) in
          Inr (int k, upd_file f (\<lambda>x. x\<lparr>f_count := f_count x + 1\<rparr>) (set_filp k f (clear_cloexec k s))))"

definition do_close :: "u32 \<Rightarrow> 'a kern_scheme \<Rightarrow> ('a kern_scheme, int) kres" where
  "do_close fd s =
     (if NR_OPEN \<le> unat fd then Inr (- EINVAL, s)
      else
        let s1 = clear_cloexec (unat fd) s; f = filp s1 (unat fd) in
        if f = 0 then Inr (- EINVAL, s1)
        else
          let s2 = set_filp (unat fd) 0 s1 in
          if f_count (files s2 f) = 0 then panic ''Close: file count is 0'' s2
          else
            let s3 = upd_file f (\<lambda>x. x\<lparr>f_count := f_count x - 1\<rparr>) s2 in
            if f_count (files s3 f) \<noteq> 0 then Inr (0, s3)
            else kseq (iput (f_inode (files s3 f))) (kreturn 0) s3)"

definition sys_close :: "u64 \<Rightarrow> 'a kern_scheme \<Rightarrow> ('a kern_scheme, int) kres" where
  "sys_close a0 = do_close (reg_uint a0)"

definition sys_dup2 :: "u64 \<Rightarrow> u64 \<Rightarrow> 'a kern_scheme \<Rightarrow> ('a kern_scheme, int) kres" where
  "sys_dup2 a0 a1 = kseq (do_close (reg_uint a1)) (dupfd (reg_uint a0) (reg_uint a1))"

definition sys_dup :: "u64 \<Rightarrow> 'a kern_scheme \<Rightarrow> ('a kern_scheme, int) kres" where
  "sys_dup a0 = dupfd (reg_uint a0) 0"

text \<open>\<open>O_APPEND | O_NONBLOCK\<close> is 0xC00.\<close>

definition O_APPEND :: u16 where "O_APPEND = 0x400"
definition O_NONBLOCK :: u16 where "O_NONBLOCK = 0x800"

definition sys_fcntl :: "u64 \<Rightarrow> u64 \<Rightarrow> u64 \<Rightarrow> 'a kern_scheme \<Rightarrow> ('a kern_scheme, int) kres" where
  "sys_fcntl a0 a1 a2 s =
     (let fd = reg_uint a0; cmd = reg_uint a1; n = unat fd in
      if NR_OPEN \<le> n \<or> filp s n = 0 then Inr (- EBADF, s)
      else if cmd = 0 then dupfd fd (reg_uint a2) s
      else if cmd = 1 then Inr (uint (drop_bit n (t_close_on_exec (tasks s (current s))) AND 1), s)
      else if cmd = 2 then
        Inr (0, if a2 AND 1 \<noteq> 0
                then upd_task (current s) (\<lambda>t. t\<lparr>t_close_on_exec := t_close_on_exec t OR push_bit n 1\<rparr>) s
                else clear_cloexec n s)
      else if cmd = 3 then Inr (uint (f_flags (files s (filp s n))), s)
      else if cmd = 4 then
        Inr (0, upd_file (filp s n) (\<lambda>x. x\<lparr>f_flags :=
               (f_flags x AND NOT (O_APPEND OR O_NONBLOCK)) OR (ucast a2 AND (O_APPEND OR O_NONBLOCK))\<rparr>) s)
      else Inr (- 1, s))"

definition IS_BLOCKDEV :: "nat \<Rightarrow> bool" where "IS_BLOCKDEV x \<longleftrightarrow> x = 2 \<or> x = 3"

text \<open>\<open>file->f_inode->i_size+offset\<close> is unsigned and becomes the \<open>int\<close> variable \<open>tmp\<close>; the result is
  \<open>f_pos\<close> as an \<open>int\<close>.\<close>

definition set_pos :: "u64 \<Rightarrow> int \<Rightarrow> 'a kern_scheme \<Rightarrow> ('a kern_scheme, int) kres" where
  "set_pos f pos s = Inr (to_int32 pos, upd_file f (\<lambda>x. x\<lparr>f_pos := pos\<rparr>) s)"

definition sys_lseek :: "u64 \<Rightarrow> u64 \<Rightarrow> u64 \<Rightarrow> 'a kern_scheme \<Rightarrow> ('a kern_scheme, int) kres" where
  "sys_lseek a0 a1 a2 s =
     (let fd = unat (reg_uint a0); offset = sint a1; origin = reg_int a2;
          f = filp s fd; i = f_inode (files s f) in
      if NR_OPEN \<le> fd \<or> f = 0 \<or> i = 0 \<or> \<not> IS_BLOCKDEV (MAJOR (i_dev (inodes s i))) then Inr (- EBADF, s)
      else if i_pipe (inodes s i) \<noteq> 0 then Inr (- ESPIPE, s)
      else if origin = 0 then if offset < 0 then Inr (- EINVAL, s) else set_pos f offset s
      else if origin = 1 then
        let pos = to_long (f_pos (files s f) + offset) in if pos < 0 then Inr (- EINVAL, s) else set_pos f pos s
      else if origin = 2 then
        let tmp = sint (ucast (i_size (inodes s i) + a1) :: u32) in if tmp < 0 then Inr (- EINVAL, s) else set_pos f tmp s
      else Inr (- EINVAL, s))"

subsection \<open>Regular files\<close>

lemma smod_1024_less: "(x :: int) smod 1024 < 1024"
proof -
  have "- (- x mod 1024) < 1024" using pos_mod_sign [of 1024 "- x"] by linarith
  then show ?thesis by (simp add: signed_modulo_int_def sgn_if abs_if)
qed

lemma rest_less: "0 < left \<Longrightarrow> left - nat (min (1024 - x smod 1024) (int left)) < left"
  using smod_1024_less [of x] by auto

text \<open>The loop of \<open>file_read\<close>: \<open>left\<close> bytes are missing, \<open>buf\<close> are those delivered.  C division rounds
  towards zero.\<close>

function file_read_loop :: "u64 \<Rightarrow> u64 \<Rightarrow> nat \<Rightarrow> u8 list \<Rightarrow> 'a kern_scheme \<Rightarrow> ('a kern_scheme, nat \<times> u8 list) kres" where
  "file_read_loop p f left buf s =
     (if left = 0 then Inr ((left, buf), s)
      else case bmap p (to_int32 (f_pos (files s f) sdiv 1024)) s of
        Inl e \<Rightarrow> Inl e
      | Inr (nr, t) \<Rightarrow>
          (case (if nr \<noteq> 0 then bread (uint (i_dev (inodes t p))) nr t else Inr (None, t)) of
             Inl e \<Rightarrow> Inl e
           | Inr (bh, u) \<Rightarrow>
               if nr \<noteq> 0 \<and> bh = None then Inr ((left, buf), u)
               else
                 let off = f_pos (files u f) smod 1024;
                     chars = nat (min (1024 - off) (int left));
                     v = upd_file f (\<lambda>x. x\<lparr>f_pos := f_pos x + int chars\<rparr>) u in
                 (case bh of
                    None \<Rightarrow> file_read_loop p f (left - chars) (buf @ replicate chars 0) v
                  | Some b \<Rightarrow>
                      if off < 0 then Inl (OutOfBounds, v)
                      else case brelse (Some b) v of
                        Inl e \<Rightarrow> Inl e
                      | Inr (_, w) \<Rightarrow>
                          file_read_loop p f (left - chars) (buf @ map (b_data (bufs v b)) [nat off..<nat off + chars]) w)))"
  by pat_completeness auto
termination
  by (relation "measure (\<lambda>(p, f, left, buf, s). left)") (auto simp: rest_less)

declare file_read_loop.simps [simp del]

definition file_read :: "u64 \<Rightarrow> u64 \<Rightarrow> int \<Rightarrow> 'a kern_scheme \<Rightarrow> ('a kern_scheme, int \<times> u8 list) kres" where
  "file_read p f count s =
     (if count \<le> 0 then Inr ((0, []), s)
      else kbind (file_read_loop p f (nat count) []) (\<lambda>r t.
        let n = count - int (fst r) in
        Inr ((if n \<noteq> 0 then n else - ERROR, snd r), upd_inode p (\<lambda>i. i\<lparr>i_atime := CURRENT_TIME t\<rparr>) t)) s)"

text \<open>The loop of \<open>file_write\<close>: the bytes still to be written, the position and the number written.  The
  comparison of \<open>pos\<close> with \<open>i_size\<close> is unsigned.\<close>

definition grow :: "int \<Rightarrow> m_inode \<Rightarrow> m_inode" where
  "grow pos i = (if i_size i < word_of_int pos then i\<lparr>i_size := word_of_int pos, i_dirt := 1\<rparr> else i)"

definition put_data :: "nat \<Rightarrow> u8 list \<Rightarrow> buffer_head \<Rightarrow> buffer_head" where
  "put_data off cs h = h\<lparr>b_data := \<lambda>i. if off \<le> i \<and> i < off + length cs then cs ! (i - off) else b_data h i\<rparr>"

function file_write_loop :: "u64 \<Rightarrow> u8 list \<Rightarrow> int \<Rightarrow> nat \<Rightarrow> 'a kern_scheme \<Rightarrow> ('a kern_scheme, int \<times> nat) kres" where
  "file_write_loop p bs pos i s =
     (if bs = [] then Inr ((pos, i), s)
      else case create_block p (to_int32 (pos sdiv 1024)) s of
        Inl e \<Rightarrow> Inl e
      | Inr (block, t) \<Rightarrow>
          if block = 0 then Inr ((pos, i), t)
          else case bread (uint (i_dev (inodes t p))) block t of
            Inl e \<Rightarrow> Inl e
          | Inr (None, u) \<Rightarrow> Inr ((pos, i), u)
          | Inr (Some b, u) \<Rightarrow>
              let off = pos smod 1024;
                  c = nat (min (1024 - off) (int (length bs)));
                  v = upd_inode p (grow (pos + int c)) (upd_buf b (\<lambda>h. h\<lparr>b_dirt := 1\<rparr>) u) in
              if off < 0 then Inl (OutOfBounds, v)
              else case brelse (Some b) (upd_buf b (put_data (nat off) (take c bs)) v) of
                Inl e \<Rightarrow> Inl e
              | Inr (_, w) \<Rightarrow> file_write_loop p (drop c bs) (pos + int c) (i + c) w)"
  by pat_completeness auto
termination
  by (relation "measure (\<lambda>(p, bs, pos, i, s). length bs)") (auto simp: rest_less)

declare file_write_loop.simps [simp del]

definition file_write :: "u64 \<Rightarrow> u64 \<Rightarrow> u8 list \<Rightarrow> 'a kern_scheme \<Rightarrow> ('a kern_scheme, int) kres" where
  "file_write p f buf s =
     (let append = f_flags (files s f) AND O_APPEND \<noteq> 0;
          pos = (if append then sint (i_size (inodes s p)) else f_pos (files s f)) in
      kbind (file_write_loop p buf pos 0) (\<lambda>r t.
        let t1 = upd_inode p (\<lambda>i. i\<lparr>i_mtime := CURRENT_TIME t\<rparr>) t;
            t2 = (if f_flags (files t1 f) AND O_APPEND = 0
                  then upd_inode p (\<lambda>i. i\<lparr>i_ctime := CURRENT_TIME t1\<rparr>) (upd_file f (\<lambda>x. x\<lparr>f_pos := fst r\<rparr>) t1)
                  else t1) in
        Inr (if snd r \<noteq> 0 then int (snd r) else - 1, t2)) s)"

subsection \<open>Character devices\<close>

text \<open>\<open>buf\<close> are the bytes to be written; a read returns the bytes delivered.\<close>

definition rw_ttyx :: "int \<Rightarrow> nat \<Rightarrow> u8 list \<Rightarrow> int \<Rightarrow> 'a kern_scheme \<Rightarrow> ('a kern_scheme, int \<times> u8 list) kres" where
  "rw_ttyx rw minor buf count =
     (if rw = READ then tty_read minor count else kbind (tty_write minor buf count) (\<lambda>r. kreturn (r, [])))"

definition rw_tty :: "int \<Rightarrow> nat \<Rightarrow> u8 list \<Rightarrow> int \<Rightarrow> 'a kern_scheme \<Rightarrow> ('a kern_scheme, int \<times> u8 list) kres" where
  "rw_tty rw minor buf count s =
     (let tty = t_tty (tasks s (current s)) in
      if tty < 0 then Inr ((- EPERM, []), s) else rw_ttyx rw (nat tty) buf count s)"

definition rw_char :: "int \<Rightarrow> u16 \<Rightarrow> u8 list \<Rightarrow> int \<Rightarrow> 'a kern_scheme \<Rightarrow> ('a kern_scheme, int \<times> u8 list) kres" where
  "rw_char rw dev buf count =
     (if 8 \<le> MAJOR dev then panic ''rw_char: dev>NRDEV''
      else if MAJOR dev = 4 then rw_ttyx rw (MINOR dev) buf count
      else if MAJOR dev = 5 then rw_tty rw (MINOR dev) buf count
      else panic ''Trying to r/w from/to nonexistent character device'')"

subsection \<open>Reading and writing\<close>

text \<open>\<open>block_read\<close> and \<open>block_write\<close> advance \<open>f_pos\<close> by the bytes transferred; \<open>block_read\<close> takes the position
  as unsigned.\<close>

definition advance :: "u64 \<Rightarrow> int \<Rightarrow> 'a kern_scheme \<Rightarrow> 'a kern_scheme" where
  "advance f n = upd_file f (\<lambda>x. x\<lparr>f_pos := f_pos x + (if 0 < n then n else 0)\<rparr>)"

definition read_blkdev :: "u16 \<Rightarrow> u64 \<Rightarrow> int \<Rightarrow> 'a kern_scheme \<Rightarrow> ('a kern_scheme, int \<times> u8 list) kres" where
  "read_blkdev dev f count s =
     (let pos = uint (word_of_int (f_pos (files s f)) :: u64) in
      kbind (block_read (uint dev) (to_int32 (pos div 1024)) (nat (pos mod 1024)) count []) (\<lambda>r t.
        Inr (r, advance f (fst r) t)) s)"

definition write_blkdev :: "u16 \<Rightarrow> u64 \<Rightarrow> u8 list \<Rightarrow> 'a kern_scheme \<Rightarrow> ('a kern_scheme, int) kres" where
  "write_blkdev dev f buf s =
     (let pos = f_pos (files s f) in
      if pos smod 1024 < 0 then Inl (OutOfBounds, s)
      else kbind (block_write (uint dev) (to_int32 (pos sdiv 1024)) (nat (pos smod 1024)) buf 0) (\<lambda>r t.
        Inr (r, advance f r t)) s)"

definition sys_read :: "u64 \<Rightarrow> u64 \<Rightarrow> u64 \<Rightarrow> 'a kern_scheme \<Rightarrow> ('a kern_scheme, int \<times> u8 list) kres" where
  "sys_read a0 a1 a2 s =
     (let fd = unat (reg_uint a0); count = reg_int a2; f = filp s fd in
      if NR_OPEN \<le> fd \<or> count < 0 \<or> f = 0 then Inr ((- EINVAL, []), s)
      else if count = 0 then Inr ((0, []), s)
      else kseq (verify_area a1 count) (\<lambda>s.
        let p = f_inode (files s f); i = inodes s p in
        if i_pipe i \<noteq> 0 then
          if f_mode (files s f) AND 1 \<noteq> 0 then read_pipe p count s else Inr ((- 1, []), s)
        else if S_ISCHR (i_mode i) then rw_char READ (i_zone i 0) [] count s
        else if S_ISBLK (i_mode i) then read_blkdev (i_zone i 0) f count s
        else if S_ISDIR (i_mode i) \<or> S_ISREG (i_mode i) then
          let pos = f_pos (files s f);
              count = (if i_size i < word_of_int (count + pos) then sint (ucast (i_size i - word_of_int pos) :: u32)
                       else count) in
          if count \<le> 0 then Inr ((0, []), s) else file_read p f count s
        else Inr ((- EINVAL, []), s)) s)"

text \<open>\<open>ubuf\<close> are the bytes at the address in \<open>a1\<close>.\<close>

definition sys_write :: "u64 \<Rightarrow> u8 list \<Rightarrow> u64 \<Rightarrow> 'a kern_scheme \<Rightarrow> ('a kern_scheme, int) kres" where
  "sys_write a0 ubuf a2 s =
     (let fd = unat (reg_uint a0); count = reg_int a2; f = filp s fd; buf = take (nat count) ubuf in
      if NR_OPEN \<le> fd \<or> count < 0 \<or> f = 0 then Inr (- EINVAL, s)
      else if count = 0 then Inr (0, s)
      else
        let p = f_inode (files s f); i = inodes s p in
        if i_pipe i \<noteq> 0 then
          if f_mode (files s f) AND 2 \<noteq> 0 then write_pipe p buf s else Inr (- 1, s)
        else if S_ISCHR (i_mode i) then kbind (rw_char WRITE (i_zone i 0) buf count) (\<lambda>r. kreturn (fst r)) s
        else if S_ISBLK (i_mode i) then write_blkdev (i_zone i 0) f buf s
        else if S_ISREG (i_mode i) then file_write p f buf s
        else Inr (- EINVAL, s))"

subsection \<open>Status and device control\<close>

text \<open>The 48 bytes of \<open>struct stat\<close> that \<open>cp_stat\<close> delivers; \<open>junk\<close> gives the padding bytes, which the stack
  determines.\<close>

definition stat_bytes :: "(nat \<Rightarrow> u8) \<Rightarrow> m_inode \<Rightarrow> nat \<Rightarrow> u8" where
  "stat_bytes junk i =
     store64 (i_ctime i) 40 (store64 (i_mtime i) 32 (store64 (i_atime i) 24 (store64 (i_size i) 16
       (store16 (i_zone i 0) 12 ((store16 (i_uid i) 8 ((store16 (i_mode i) 4 (store16 (i_num i) 2
         (store16 (i_dev i) 0 junk)))(6 := i_nlinks i)))(10 := i_gid i))))))"

definition cp_stat :: "(nat \<Rightarrow> u8) \<Rightarrow> u64 \<Rightarrow> u64 \<Rightarrow> 'a kern_scheme \<Rightarrow> ('a kern_scheme, int \<times> u8 list) kres" where
  "cp_stat junk p statbuf =
     kseq (verify_area statbuf 48) (\<lambda>s. Inr ((0, map (stat_bytes junk (inodes s p)) [0..<48]), s))"

definition sys_fstat :: "(nat \<Rightarrow> u8) \<Rightarrow> u64 \<Rightarrow> u64 \<Rightarrow> 'a kern_scheme \<Rightarrow> ('a kern_scheme, int \<times> u8 list) kres" where
  "sys_fstat junk a0 a1 s =
     (let fd = unat (reg_uint a0); f = filp s fd; p = f_inode (files s f) in
      if NR_OPEN \<le> fd \<or> f = 0 \<or> p = 0 then Inr ((- ENOENT, []), s) else cp_stat junk p a1 s)"

text \<open>\<open>tty_ioctl\<close> of \<open>fs/tty_ioctl.c\<close> rejects every command; its cases are commented out.\<close>

definition tty_ioctl :: "u16 \<Rightarrow> u32 \<Rightarrow> u64 \<Rightarrow> 'a kern_scheme \<Rightarrow> ('a kern_scheme, int) kres" where
  "tty_ioctl dev cmd arg s = Inr (- EINVAL, s)"

definition sys_ioctl :: "u64 \<Rightarrow> u64 \<Rightarrow> u64 \<Rightarrow> 'a kern_scheme \<Rightarrow> ('a kern_scheme, int) kres" where
  "sys_ioctl a0 a1 a2 s =
     (let fd = unat (reg_uint a0); f = filp s fd; i = inodes s (f_inode (files s f)); dev = i_zone i 0 in
      if NR_OPEN \<le> fd \<or> f = 0 then Inr (- EBADF, s)
      else if \<not> S_ISCHR (i_mode i) \<and> \<not> S_ISBLK (i_mode i) then Inr (- EINVAL, s)
      else if 8 \<le> MAJOR dev then panic ''unknown device for ioctl'' s
      else if MAJOR dev = 4 \<or> MAJOR dev = 5 then tty_ioctl dev (reg_uint a1) a2 s
      else Inr (- ENOTTY, s))"

end
