(* ===== verification/Namei.thy ===== *)
theory Namei
  imports Files
begin

text \<open>
  Model of \<open>fs/namei.c\<close>: permissions, directory entries, the walk along a path name, opening by name,
  and making and removing directories and links.

  A path is the list of bytes at the caller's pointer; reading behind its end yields the terminating
  NUL.  A directory entry has 16 bytes, the inode number and 14 characters; a pointer to one is the
  offset in the block of its buffer.  \<open>NO_TRUNCATE\<close> is not defined.  Printed messages are left out.
\<close>

definition MAY_EXEC :: u32 where "MAY_EXEC = 1"
definition MAY_WRITE :: u32 where "MAY_WRITE = 2"
definition MAY_READ :: u32 where "MAY_READ = 4"

text \<open>\<open>"\004\002\006\377"[x & O_ACCMODE]\<close>: characters are unsigned on this target.\<close>

definition ACC_MODE :: "u32 \<Rightarrow> u32" where
  "ACC_MODE x = [4, 2, 6, 0xFF] ! unat (x AND 3)"

definition permission :: "'a kern_scheme \<Rightarrow> u64 \<Rightarrow> u32 \<Rightarrow> u32" where
  "permission s p msk =
     (let i = inodes s p; c = tasks s (current s); mode = ucast (i_mode i) :: u32 in
      if i_dev i \<noteq> 0 \<and> i_nlinks i = 0 then 0
      else
        let mode =
          (if \<not> (t_uid c \<noteq> 0 \<and> t_euid c \<noteq> 0) then 0x1FF
           else if t_uid c = i_uid i \<or> t_euid c = i_uid i then drop_bit 6 mode
           else if uint (t_gid c) = uint (i_gid i) \<or> uint (t_egid c) = uint (i_gid i) then drop_bit 3 mode
           else mode) in
        mode AND msk AND 7)"

subsection \<open>Directory entries\<close>

definition char_at :: "u8 list \<Rightarrow> nat \<Rightarrow> u8" where
  "char_at name k = (if k < length name then name ! k else 0)"

definition de_inode :: "(nat \<Rightarrow> u8) \<Rightarrow> nat \<Rightarrow> u16" where
  "de_inode d de = load16 d de"

text \<open>\<open>strncmp\<close> runs on a memory that holds the block and, from 1024 on, the name.\<close>

definition match :: "nat \<Rightarrow> u8 list \<Rightarrow> (nat \<Rightarrow> u8) \<Rightarrow> nat \<Rightarrow> bool" where
  "match len name d de =
     (if de_inode d de = 0 \<or> NAME_LEN < len then False
      else if len < NAME_LEN \<and> d (de + 2 + len) \<noteq> 0 then False
      else strncmp (\<lambda>a. if a < 1024 then d a else char_at name (a - 1024)) 1024 (de + 2) (int len) = Some 0)"

text \<open>The entry number \<open>i\<close> of a directory: behind the end of a block the next one is read.  \<open>None\<close> when
  it has no block or cannot be read.\<close>

definition next_entry :: "(u64 \<Rightarrow> int \<Rightarrow> 'a kern_scheme \<Rightarrow> ('a kern_scheme, int) kres) \<Rightarrow> u64 \<Rightarrow> nat \<Rightarrow> nat
    \<Rightarrow> 'a kern_scheme \<Rightarrow> ('a kern_scheme, int \<times> nat option) kres" where
  "next_entry block_of dir i b =
     kseq (brelse (Some b)) (kbind (block_of dir (int (i div 64))) (\<lambda>block s.
       if block = 0 then Inr ((0, None), s)
       else kbind (bread (uint (i_dev (inodes s dir))) block) (\<lambda>bh. kreturn (block, bh)) s))"

text \<open>The loop of \<open>find_entry\<close> at entry \<open>i\<close>, offset \<open>de\<close> in buffer \<open>b\<close>.  After a block that cannot be
  read, \<open>bh\<close> is NULL and the loop looks at \<open>bh->b_data\<close> if entries are left.\<close>

function find_loop :: "u64 \<Rightarrow> u8 list \<Rightarrow> nat \<Rightarrow> nat \<Rightarrow> nat \<Rightarrow> nat \<Rightarrow> nat \<Rightarrow> 'a kern_scheme
    \<Rightarrow> ('a kern_scheme, (nat \<times> nat) option) kres" where
  "find_loop dir name len entries i b de s =
     (if entries \<le> i then kseq (brelse (Some b)) (kreturn None) s
      else case (if 1024 \<le> de then next_entry bmap dir i b s else Inr ((1, Some b), s)) of
        Inl e \<Rightarrow> Inl e
      | Inr ((_, None), t) \<Rightarrow> if entries \<le> i + 64 then Inr (None, t) else Inl (BadAccess 0, t)
      | Inr ((_, Some b'), t) \<Rightarrow>
          let de' = (if 1024 \<le> de then 0 else de) in
          if match len name (b_data (bufs t b')) de' then Inr (Some (b', de'), t)
          else find_loop dir name len entries (i + 1) b' (de' + 16) t)"
  by pat_completeness auto
termination by (relation "measure (\<lambda>(dir, name, len, entries, i, b, de, s). entries - i)") auto

declare find_loop.simps [simp del]

definition find_entry :: "u64 \<Rightarrow> u8 list \<Rightarrow> nat \<Rightarrow> 'a kern_scheme \<Rightarrow> ('a kern_scheme, (nat \<times> nat) option) kres" where
  "find_entry dir name namelen s =
     (let len = min namelen NAME_LEN;
          entries = nat (to_int32 (uint (i_size (inodes s dir)) div 16));
          block = i_zone (inodes s dir) 0 in
      if len = 0 \<or> block = 0 then Inr (None, s)
      else kbind (bread (uint (i_dev (inodes s dir))) (uint block)) (\<lambda>bh t.
        case bh of None \<Rightarrow> Inr (None, t) | Some b \<Rightarrow> find_loop dir name len entries 0 b 0 t) s)"

text \<open>One round of the loop of \<open>add_entry\<close>: \<open>Inl\<close> its result, \<open>Inr\<close> the variables of the next round.\<close>

definition put_name :: "u8 list \<Rightarrow> nat \<Rightarrow> nat \<Rightarrow> (nat \<Rightarrow> u8) \<Rightarrow> nat \<Rightarrow> u8" where
  "put_name name len de d = (\<lambda>a. if de + 2 \<le> a \<and> a < de + 16
     then if a - (de + 2) < len then char_at name (a - (de + 2)) else 0 else d a)"

definition set_de_inode :: "nat \<Rightarrow> nat \<Rightarrow> u16 \<Rightarrow> 'a kern_scheme \<Rightarrow> 'a kern_scheme" where
  "set_de_inode b de nr = upd_buf b (\<lambda>h. h\<lparr>b_data := store16 nr de (b_data h)\<rparr>)"

definition add_here :: "u64 \<Rightarrow> u8 list \<Rightarrow> nat \<Rightarrow> nat \<Rightarrow> nat \<Rightarrow> nat \<Rightarrow> 'a kern_scheme
    \<Rightarrow> ('a kern_scheme, (nat \<times> nat) option) kres + nat \<times> nat \<times> nat \<times> 'a kern_scheme" where
  "add_here dir name len i b de s =
     (let t = (if unat (i_size (inodes s dir)) \<le> i * 16
               then upd_inode dir (\<lambda>n. n\<lparr>i_size := of_nat ((i + 1) * 16), i_dirt := 1, i_ctime := CURRENT_TIME s\<rparr>)
                      (set_de_inode b de 0 s)
               else s) in
      if de_inode (b_data (bufs t b)) de = 0 then
        Inl (Inr (Some (b, de),
          upd_buf b (\<lambda>h. h\<lparr>b_data := put_name name len de (b_data h), b_dirt := 1\<rparr>)
            (upd_inode dir (\<lambda>n. n\<lparr>i_mtime := CURRENT_TIME t\<rparr>) t)))
      else Inr (i + 1, b, de + 16, t))"

definition add_round :: "u64 \<Rightarrow> u8 list \<Rightarrow> nat \<Rightarrow> nat \<times> nat \<times> nat \<times> 'a kern_scheme
    \<Rightarrow> ('a kern_scheme, (nat \<times> nat) option) kres + nat \<times> nat \<times> nat \<times> 'a kern_scheme" where
  "add_round dir name len v =
     (case v of (i, b, de, s) \<Rightarrow>
      if de < 1024 then add_here dir name len i b de s
      else case next_entry create_block dir i b s of
        Inl e \<Rightarrow> Inl (Inl e)
      | Inr ((block, None), t) \<Rightarrow> if block = 0 then Inl (Inr (None, t)) else Inl (Inl (BadAccess 0, t))
      | Inr ((_, Some b'), t) \<Rightarrow> add_here dir name len i b' 0 t)"

partial_function (option) add_loop :: "u64 \<Rightarrow> u8 list \<Rightarrow> nat \<Rightarrow> nat \<times> nat \<times> nat \<times> 'a kern_scheme
    \<Rightarrow> ('a kern_scheme, (nat \<times> nat) option) kres option" where
  "add_loop dir name len v = (case add_round dir name len v of Inl r \<Rightarrow> Some r | Inr w \<Rightarrow> add_loop dir name len w)"

definition add_entry :: "u64 \<Rightarrow> u8 list \<Rightarrow> nat \<Rightarrow> 'a kern_scheme \<Rightarrow> ('a kern_scheme, (nat \<times> nat) option) kres" where
  "add_entry dir name namelen s =
     (let len = min namelen NAME_LEN; block = i_zone (inodes s dir) 0 in
      if len = 0 \<or> block = 0 then Inr (None, s)
      else kbind (bread (uint (i_dev (inodes s dir))) (uint block)) (\<lambda>bh t.
        case bh of
          None \<Rightarrow> Inr (None, t)
        | Some b \<Rightarrow> (case add_loop dir name len (0, b, 0, t) of None \<Rightarrow> Inl (Loops, t) | Some r \<Rightarrow> r)) s)"

subsection \<open>Walking along a path\<close>

text \<open>\<open>find_entry\<close>, \<open>brelse\<close>, \<open>iput\<close> and \<open>iget\<close>: from a directory to the inode of a name in it, 0 on failure.\<close>

definition dir_enter :: "u64 \<Rightarrow> u8 list \<Rightarrow> nat \<Rightarrow> 'a kern_scheme \<Rightarrow> ('a kern_scheme, u64) kres" where
  "dir_enter dir name namelen =
     kbind (find_entry dir name namelen) (\<lambda>r s.
       case r of
         None \<Rightarrow> kseq (iput dir) (kreturn 0) s
       | Some (b, de) \<Rightarrow>
           let inr = de_inode (b_data (bufs s b)) de; idev = i_dev (inodes s dir) in
           kseq (brelse (Some b)) (kseq (iput dir) (iget (uint idev) (uint inr))) s)"

definition component_len :: "u8 list \<Rightarrow> nat" where
  "component_len path = length (takeWhile (\<lambda>c. c \<noteq> 0 \<and> c \<noteq> 47) path)"

function get_dir_loop :: "u64 \<Rightarrow> u8 list \<Rightarrow> 'a kern_scheme \<Rightarrow> ('a kern_scheme, u64) kres" where
  "get_dir_loop p path s =
     (if \<not> S_ISDIR (i_mode (inodes s p)) \<or> permission s p MAY_EXEC = 0 then kseq (iput p) (kreturn 0) s
      else
        let n = component_len path in
        if char_at path n = 0 then Inr (p, s)
        else case dir_enter p path n s of
          Inl e \<Rightarrow> Inl e
        | Inr (q, t) \<Rightarrow> if q = 0 then Inr (0, t) else get_dir_loop q (drop (n + 1) path) t)"
  by pat_completeness auto
termination
  by (relation "measure (\<lambda>(p, path, s). length path)") (auto simp: char_at_def split: if_splits)

declare get_dir_loop.simps [simp del]

definition get_dir :: "u8 list \<Rightarrow> 'a kern_scheme \<Rightarrow> ('a kern_scheme, u64) kres" where
  "get_dir path s =
     (let c = tasks s (current s) in
      if t_root c = 0 \<or> i_count (inodes s (t_root c)) = 0 then panic ''No root inode'' s
      else if t_pwd c = 0 \<or> i_count (inodes s (t_pwd c)) = 0 then panic ''No cwd inode'' s
      else if char_at path 0 = 0 then Inr (0, s)
      else
        let p = (if char_at path 0 = 47 then t_root c else t_pwd c) in
        get_dir_loop p (if char_at path 0 = 47 then tl path else path)
          (upd_inode p (\<lambda>i. i\<lparr>i_count := i_count i + 1\<rparr>) s))"

text \<open>The name behind the last slash.\<close>

fun base_loop :: "u8 list \<Rightarrow> u8 list \<Rightarrow> u8 list" where
  "base_loop [] base = base"
| "base_loop (c # cs) base = (if c = 0 then base else base_loop cs (if c = 47 then cs else base))"

definition base_name :: "u8 list \<Rightarrow> u8 list" where
  "base_name path = base_loop path path"

definition base_len :: "u8 list \<Rightarrow> nat" where
  "base_len path = length (takeWhile (\<lambda>c. c \<noteq> 0) (base_name path))"

text \<open>\<open>dir_namei\<close> also sets \<open>*name\<close> and \<open>*namelen\<close>: \<open>base_name\<close> and \<open>base_len\<close> of the path.\<close>

definition dir_namei :: "u8 list \<Rightarrow> 'a kern_scheme \<Rightarrow> ('a kern_scheme, u64) kres" where
  "dir_namei path = get_dir path"

definition namei :: "u8 list \<Rightarrow> 'a kern_scheme \<Rightarrow> ('a kern_scheme, u64) kres" where
  "namei path =
     kbind (dir_namei path) (\<lambda>dir s.
       if dir = 0 then Inr (0, s)
       else if base_len path = 0 then Inr (dir, s)
       else kbind (dir_enter dir (base_name path) (base_len path)) (\<lambda>p t.
         if p = 0 then Inr (0, t)
         else Inr (p, upd_inode p (\<lambda>i. i\<lparr>i_atime := CURRENT_TIME t, i_dirt := 1\<rparr>) t)) s)"

subsection \<open>Opening by name\<close>

text \<open>\<open>fail\<close> is \<open>iput(dir); return -err\<close>.\<close>

definition fail :: "u64 \<Rightarrow> int \<Rightarrow> 'a kern_scheme \<Rightarrow> ('a kern_scheme, int) kres" where
  "fail dir err = kseq (iput dir) (kreturn (- err))"

definition O_ACCMODE :: u32 where "O_ACCMODE = 3"
definition O_CREAT :: u32 where "O_CREAT = 0x40"
definition O_EXCL :: u32 where "O_EXCL = 0x80"
definition O_TRUNC :: u32 where "O_TRUNC = 0x200"

definition umask_mode :: "'a kern_scheme \<Rightarrow> u32 \<Rightarrow> u32" where
  "umask_mode s mode = mode AND 0x1FF AND NOT (ucast (t_umask (tasks s (current s))))"

text \<open>The part of \<open>open_namei\<close> that creates the file in \<open>dir\<close>, and the part for an inode number found.  The
  result is the value returned with \<open>*res_inode\<close>.\<close>

definition open_create :: "u64 \<Rightarrow> u8 list \<Rightarrow> nat \<Rightarrow> u16 \<Rightarrow> 'a kern_scheme \<Rightarrow> ('a kern_scheme, int \<times> u64) kres" where
  "open_create dir name len mode s =
     (if permission s dir MAY_WRITE = 0 then kbind (fail dir EACCES) (\<lambda>r. kreturn (r, 0)) s
      else kbind (new_inode (uint (i_dev (inodes s dir)))) (\<lambda>p t.
        if p = 0 then kbind (fail dir ENOSPC) (\<lambda>r. kreturn (r, 0)) t
        else kbind (add_entry dir name len) (\<lambda>r u.
          case r of
            None \<Rightarrow>
              kseq (iput p) (kbind (fail dir ENOSPC) (\<lambda>r. kreturn (r, 0)))
                (upd_inode p (\<lambda>i. i\<lparr>i_nlinks := i_nlinks i - 1\<rparr>) u)
          | Some (b, de) \<Rightarrow>
              kseq (brelse (Some b)) (kseq (iput dir) (kreturn (0, p)))
                (upd_buf b (\<lambda>h. h\<lparr>b_dirt := 1\<rparr>) (set_de_inode b de (i_num (inodes u p)) u)))
          (upd_inode p (\<lambda>i. i\<lparr>i_mode := mode, i_dirt := 1\<rparr>) t)) s)"

definition open_found :: "u64 \<Rightarrow> nat \<Rightarrow> nat \<Rightarrow> u32 \<Rightarrow> 'a kern_scheme \<Rightarrow> ('a kern_scheme, int \<times> u64) kres" where
  "open_found dir b de flag s =
     (let inr = de_inode (b_data (bufs s b)) de; dev = i_dev (inodes s dir) in
      kseq (brelse (Some b)) (kseq (iput dir) (\<lambda>t.
        if flag AND O_EXCL \<noteq> 0 then Inr ((- EEXIST, 0), t)
        else kbind (iget (uint dev) (uint inr)) (\<lambda>p u.
          if p = 0 then Inr ((- EACCES, 0), u)
          else if S_ISDIR (i_mode (inodes u p)) \<and> flag AND O_ACCMODE \<noteq> 0
              \<or> permission u p (ACC_MODE flag) \<noteq> ACC_MODE flag
          then kbind (fail p EPERM) (\<lambda>r. kreturn (r, 0)) u
          else
            let v = upd_inode p (\<lambda>i. i\<lparr>i_atime := CURRENT_TIME u\<rparr>) u in
            kseq (if flag AND O_TRUNC \<noteq> 0 then Inode.truncate p else kreturn ()) (kreturn (0, p)) v) t)) s)"

definition open_namei :: "u8 list \<Rightarrow> u32 \<Rightarrow> u32 \<Rightarrow> 'a kern_scheme \<Rightarrow> ('a kern_scheme, int \<times> u64) kres" where
  "open_namei path flag0 mode0 s =
     (let flag = (if flag0 AND O_TRUNC \<noteq> 0 \<and> flag0 AND O_ACCMODE = 0 then flag0 OR 1 else flag0);
          mode = umask_mode s mode0 OR 0x8000 in
      kbind (dir_namei path) (\<lambda>dir t.
        if dir = 0 then Inr ((- ENOENT, 0), t)
        else if base_len path = 0 then
          if flag AND (O_ACCMODE OR O_CREAT OR O_TRUNC) = 0 then Inr ((0, dir), t)
          else kbind (fail dir EISDIR) (\<lambda>r. kreturn (r, 0)) t
        else kbind (find_entry dir (base_name path) (base_len path)) (\<lambda>r u.
          case r of
            None \<Rightarrow>
              if flag AND O_CREAT = 0 then kbind (fail dir ENOENT) (\<lambda>r. kreturn (r, 0)) u
              else open_create dir (base_name path) (base_len path) (ucast mode) u
          | Some (b, de) \<Rightarrow> open_found dir b de flag u) t) s)"

subsection \<open>Directories\<close>

text \<open>\<open>suser\<close> is \<open>!(current->euid && current->uid)\<close>.\<close>

definition suser :: "'a kern_scheme \<Rightarrow> bool" where
  "suser s \<longleftrightarrow> \<not> (t_euid (tasks s (current s)) \<noteq> 0 \<and> t_uid (tasks s (current s)) \<noteq> 0)"

text \<open>The entries \<open>.\<close> and \<open>..\<close> of a new directory.\<close>

definition dot_entries :: "u16 \<Rightarrow> u16 \<Rightarrow> (nat \<Rightarrow> u8) \<Rightarrow> nat \<Rightarrow> u8" where
  "dot_entries self parent d =
     (store16 parent 16 ((store16 self 0 d)(2 := 46, 3 := 0)))(18 := 46, 19 := 46, 20 := 0)"

text \<open>\<open>sys_mkdir\<close> after \<open>new_inode\<close>: \<open>p\<close> is the new inode.\<close>

definition dec_nlinks :: "u64 \<Rightarrow> 'a kern_scheme \<Rightarrow> 'a kern_scheme" where
  "dec_nlinks p = upd_inode p (\<lambda>i. i\<lparr>i_nlinks := i_nlinks i - 1\<rparr>)"

definition mkdir_enter :: "u64 \<Rightarrow> u64 \<Rightarrow> u8 list \<Rightarrow> nat \<Rightarrow> 'a kern_scheme \<Rightarrow> ('a kern_scheme, int) kres" where
  "mkdir_enter dir p name len =
     kbind (add_entry dir name len) (\<lambda>r s.
       case r of
         None \<Rightarrow>
           kseq (iput dir) (kseq (\<lambda>s. free_block (uint (i_dev (inodes s p))) (uint (i_zone (inodes s p) 0)) s)
             (\<lambda>s. fail p ENOSPC (upd_inode p (\<lambda>i. i\<lparr>i_nlinks := 0\<rparr>) s))) s
       | Some (b, de) \<Rightarrow>
           kseq (iput dir) (kseq (iput p) (kseq (brelse (Some b)) (kreturn 0)))
             (upd_inode dir (\<lambda>i. i\<lparr>i_nlinks := i_nlinks i + 1, i_dirt := 1\<rparr>)
               (upd_buf b (\<lambda>h. h\<lparr>b_dirt := 1\<rparr>) (set_de_inode b de (i_num (inodes s p)) s))))"

definition mkdir_fill :: "u64 \<Rightarrow> u64 \<Rightarrow> u8 list \<Rightarrow> nat \<Rightarrow> u32 \<Rightarrow> 'a kern_scheme \<Rightarrow> ('a kern_scheme, int) kres" where
  "mkdir_fill dir p name len mode s =
     kbind (bread (uint (i_dev (inodes s p))) (uint (i_zone (inodes s p) 0))) (\<lambda>bh t.
       case bh of
         None \<Rightarrow>
           kseq (iput dir) (kseq (\<lambda>s. free_block (uint (i_dev (inodes s p))) (uint (i_zone (inodes s p) 0)) s)
             (\<lambda>s. fail p ERROR (dec_nlinks p s))) t
       | Some b \<Rightarrow>
           kseq (brelse (Some b)) (\<lambda>u.
             mkdir_enter dir p name len
               (upd_inode p (\<lambda>i. i\<lparr>i_mode := 0x4000 OR ucast (umask_mode u mode), i_dirt := 1\<rparr>) u))
             (upd_buf b (\<lambda>h. h\<lparr>b_dirt := 1\<rparr>)
               (upd_inode p (\<lambda>i. i\<lparr>i_nlinks := 2\<rparr>)
                 (upd_buf b (\<lambda>h. h\<lparr>b_data := dot_entries (i_num (inodes t p)) (i_num (inodes t dir)) (b_data h)\<rparr>) t)))) s"

definition mkdir_new :: "u64 \<Rightarrow> u64 \<Rightarrow> u8 list \<Rightarrow> nat \<Rightarrow> u32 \<Rightarrow> 'a kern_scheme \<Rightarrow> ('a kern_scheme, int) kres" where
  "mkdir_new dir p name len mode s =
     (let t = upd_inode p (\<lambda>i. i\<lparr>i_size := 32, i_dirt := 1, i_mtime := CURRENT_TIME s, i_atime := CURRENT_TIME s\<rparr>) s in
      kbind (new_block (uint (i_dev (inodes t p)))) (\<lambda>z u.
        let v = upd_inode p (\<lambda>i. i\<lparr>i_zone := (i_zone i)(0 := word_of_int z)\<rparr>) u in
        if i_zone (inodes v p) 0 = 0 then kseq (iput dir) (\<lambda>s. fail p ENOSPC (dec_nlinks p s)) v
        else mkdir_fill dir p name len mode (upd_inode p (\<lambda>i. i\<lparr>i_dirt := 1\<rparr>) v)) t)"

text \<open>Both variables of \<open>sys_mkdir\<close> are taken from \<open>a0\<close>: \<open>path\<close> are the bytes at that address.\<close>

definition sys_mkdir :: "u64 \<Rightarrow> u8 list \<Rightarrow> 'a kern_scheme \<Rightarrow> ('a kern_scheme, int) kres" where
  "sys_mkdir a0 path s =
     (let mode = reg_uint a0; name = base_name path; len = base_len path in
      if \<not> suser s then Inr (- EPERM, s)
      else kbind (dir_namei path) (\<lambda>dir t.
        if dir = 0 then Inr (- ENOENT, t)
        else if len = 0 then fail dir ENOENT t
        else if permission t dir MAY_WRITE = 0 then fail dir EPERM t
        else kbind (find_entry dir name len) (\<lambda>r u.
          case r of
            Some (b, de) \<Rightarrow> kseq (brelse (Some b)) (fail dir EEXIST) u
          | None \<Rightarrow> kbind (new_inode (uint (i_dev (inodes u dir)))) (\<lambda>p v.
              if p = 0 then fail dir ENOSPC v else mkdir_new dir p name len mode v) u) t) s)"

text \<open>The loop of \<open>empty_dir\<close>.  After a hole \<open>bh\<close> is still the buffer released before, so the next round
  releases it again.\<close>

function edir_loop :: "u64 \<Rightarrow> nat \<Rightarrow> nat \<Rightarrow> nat \<Rightarrow> nat \<Rightarrow> 'a kern_scheme \<Rightarrow> ('a kern_scheme, bool) kres" where
  "edir_loop p len nr b de s =
     (if len \<le> nr then kseq (brelse (Some b)) (kreturn True) s
      else case (if 1024 \<le> de then next_entry bmap p nr b s else Inr ((1, Some b), s)) of
        Inl e \<Rightarrow> Inl e
      | Inr ((block, None), t) \<Rightarrow> if block = 0 then edir_loop p len (nr + 64) b de t else Inr (False, t)
      | Inr ((_, Some b'), t) \<Rightarrow>
          let de' = (if 1024 \<le> de then 0 else de) in
          if de_inode (b_data (bufs t b')) de' \<noteq> 0 then kseq (brelse (Some b')) (kreturn False) t
          else edir_loop p len (nr + 1) b' (de' + 16) t)"
  by pat_completeness auto
termination by (relation "measure (\<lambda>(p, len, nr, b, de, s). len - nr)") auto

declare edir_loop.simps [simp del]

definition dots_ok :: "m_inode \<Rightarrow> (nat \<Rightarrow> u8) \<Rightarrow> bool" where
  "dots_ok i d \<longleftrightarrow> de_inode d 0 = i_num i \<and> de_inode d 16 \<noteq> 0 \<and> d 2 = 46 \<and> d 3 = 0 \<and> d 18 = 46 \<and> d 19 = 46 \<and> d 20 = 0"

definition empty_dir :: "u64 \<Rightarrow> 'a kern_scheme \<Rightarrow> ('a kern_scheme, bool) kres" where
  "empty_dir p s =
     (let i = inodes s p; len = to_int32 (uint (i_size i) div 16) in
      if len < 2 \<or> i_zone i 0 = 0 then Inr (False, s)
      else kbind (bread (uint (i_dev i)) (uint (i_zone i 0))) (\<lambda>bh t.
        case bh of
          None \<Rightarrow> Inr (False, t)
        | Some b \<Rightarrow> if \<not> dots_ok (inodes t p) (b_data (bufs t b)) then Inr (False, t)
                    else edir_loop p (nat len) 2 b 32 t) s)"

text \<open>The exits of \<open>sys_rmdir\<close> and \<open>sys_unlink\<close> that release the inode, the directory and the buffer.\<close>

definition fail2 :: "u64 \<Rightarrow> nat \<Rightarrow> int \<Rightarrow> 'a kern_scheme \<Rightarrow> ('a kern_scheme, int) kres" where
  "fail2 dir b err = kseq (iput dir) (kseq (brelse (Some b)) (kreturn (- err)))"

definition fail3 :: "u64 \<Rightarrow> u64 \<Rightarrow> nat \<Rightarrow> int \<Rightarrow> 'a kern_scheme \<Rightarrow> ('a kern_scheme, int) kres" where
  "fail3 p dir b err = kseq (iput p) (fail2 dir b err)"

definition erase_entry :: "nat \<Rightarrow> nat \<Rightarrow> 'a kern_scheme \<Rightarrow> ('a kern_scheme, unit) kres" where
  "erase_entry b de s = brelse (Some b) (upd_buf b (\<lambda>h. h\<lparr>b_dirt := 1\<rparr>) (set_de_inode b de 0 s))"

definition rmdir_do :: "u64 \<Rightarrow> u64 \<Rightarrow> nat \<Rightarrow> nat \<Rightarrow> 'a kern_scheme \<Rightarrow> ('a kern_scheme, int) kres" where
  "rmdir_do dir p b de =
     kseq (erase_entry b de) (\<lambda>s.
       kseq (iput dir) (kseq (iput p) (kreturn 0))
         (upd_inode dir (\<lambda>i. i\<lparr>i_nlinks := i_nlinks i - 1, i_ctime := CURRENT_TIME s, i_mtime := CURRENT_TIME s,
                             i_dirt := 1\<rparr>)
           (upd_inode p (\<lambda>i. i\<lparr>i_nlinks := 0, i_dirt := 1\<rparr>) s)))"

definition sys_rmdir :: "u8 list \<Rightarrow> 'a kern_scheme \<Rightarrow> ('a kern_scheme, int) kres" where
  "sys_rmdir path s =
     (let name = base_name path; len = base_len path in
      if \<not> suser s then Inr (- EPERM, s)
      else kbind (dir_namei path) (\<lambda>dir t.
        if dir = 0 then Inr (- ENOENT, t)
        else if len = 0 then fail dir ENOENT t
        else kbind (find_entry dir name len) (\<lambda>r u.
          case r of
            None \<Rightarrow> fail dir ENOENT u
          | Some (b, de) \<Rightarrow>
              if permission u dir MAY_WRITE = 0 then fail2 dir b EPERM u
              else kbind (iget (uint (i_dev (inodes u dir))) (uint (de_inode (b_data (bufs u b)) de))) (\<lambda>p v.
                if p = 0 then fail2 dir b EPERM v
                else if p = dir then fail3 p dir b EPERM v
                else if \<not> S_ISDIR (i_mode (inodes v p)) then fail3 p dir b ENOTDIR v
                else kbind (empty_dir p) (\<lambda>e w.
                  if e then rmdir_do dir p b de w else fail3 p dir b ENOTEMPTY w) v) u) t) s)"

subsection \<open>Links\<close>

definition unlink_do :: "u64 \<Rightarrow> u64 \<Rightarrow> nat \<Rightarrow> nat \<Rightarrow> 'a kern_scheme \<Rightarrow> ('a kern_scheme, int) kres" where
  "unlink_do dir p b de s =
     kseq (erase_entry b de) (\<lambda>s.
       kseq (iput p) (kseq (iput dir) (kreturn 0))
         (upd_inode p (\<lambda>i. i\<lparr>i_nlinks := i_nlinks i - 1, i_dirt := 1, i_ctime := CURRENT_TIME s\<rparr>) s))
       (if i_nlinks (inodes s p) = 0 then upd_inode p (\<lambda>i. i\<lparr>i_nlinks := 1\<rparr>) s else s)"

definition sys_unlink :: "u8 list \<Rightarrow> 'a kern_scheme \<Rightarrow> ('a kern_scheme, int) kres" where
  "sys_unlink path =
     (let name = base_name path; len = base_len path in
      kbind (dir_namei path) (\<lambda>dir t.
        if dir = 0 then Inr (- ENOENT, t)
        else if len = 0 then fail dir ENOENT t
        else if permission t dir MAY_WRITE = 0 then fail dir EPERM t
        else kbind (find_entry dir name len) (\<lambda>r u.
          case r of
            None \<Rightarrow> fail dir ENOENT u
          | Some (b, de) \<Rightarrow>
              kbind (iget (uint (i_dev (inodes u dir))) (uint (de_inode (b_data (bufs u b)) de))) (\<lambda>p v.
                if p = 0 then fail2 dir b ENOENT v
                else if \<not> S_ISREG (i_mode (inodes v p)) then fail3 p dir b EPERM v
                else unlink_do dir p b de v) u) t))"

text \<open>\<open>sys_link\<close> with the two names it is declared with; the system call table passes it the registers.\<close>

definition link_do :: "u64 \<Rightarrow> u64 \<Rightarrow> u8 list \<Rightarrow> nat \<Rightarrow> 'a kern_scheme \<Rightarrow> ('a kern_scheme, int) kres" where
  "link_do old dir name len =
     kbind (find_entry dir name len) (\<lambda>r s.
       case r of
         Some (b, de) \<Rightarrow> kseq (brelse (Some b)) (kseq (iput dir) (fail old EEXIST)) s
       | None \<Rightarrow> kbind (add_entry dir name len) (\<lambda>r t.
           case r of
             None \<Rightarrow> kseq (iput dir) (fail old ENOSPC) t
           | Some (b, de) \<Rightarrow>
               kseq (brelse (Some b)) (kseq (iput dir) (\<lambda>u.
                 kseq (iput old) (kreturn 0)
                   (upd_inode old (\<lambda>i. i\<lparr>i_nlinks := i_nlinks i + 1, i_ctime := CURRENT_TIME u, i_dirt := 1\<rparr>) u)))
                 (upd_buf b (\<lambda>h. h\<lparr>b_dirt := 1\<rparr>) (set_de_inode b de (i_num (inodes t old)) t))) s)"

definition sys_link :: "u8 list \<Rightarrow> u8 list \<Rightarrow> 'a kern_scheme \<Rightarrow> ('a kern_scheme, int) kres" where
  "sys_link oldname newname =
     kbind (namei oldname) (\<lambda>old s.
       if old = 0 then Inr (- ENOENT, s)
       else if \<not> S_ISREG (i_mode (inodes s old)) then fail old EPERM s
       else kbind (dir_namei newname) (\<lambda>dir t.
         if dir = 0 then fail old EACCES t
         else if base_len newname = 0 then kseq (iput old) (fail dir EPERM) t
         else if i_dev (inodes t dir) \<noteq> i_dev (inodes t old) then kseq (iput dir) (fail old EXDEV) t
         else if permission t dir MAY_WRITE = 0 then kseq (iput dir) (fail old EACCES) t
         else link_do old dir (base_name newname) (base_len newname) t) s)"

end
