(* ===== verification/Open.thy ===== *)
theory Open
  imports Namei
begin

text \<open>
  Model of \<open>fs/open.c\<close> (\<open>do_close\<close> is in \<open>Files\<close>) and of \<open>sys_stat\<close> in \<open>fs/stat.c\<close>.  A file name is
  the list of bytes at the address in \<open>a0\<close>.
\<close>

definition sys_utime :: "u8 list \<Rightarrow> u64 \<Rightarrow> 'a kern_scheme \<Rightarrow> ('a kern_scheme, int) kres" where
  "sys_utime path tbuf =
     kbind (namei path) (\<lambda>p s.
       if p = 0 then Inr (- ENOENT, s)
       else kbind (\<lambda>s. if tbuf \<noteq> 0 then kbind (kload tbuf) (\<lambda>a. kbind (kload (tbuf + 8)) (\<lambda>m. kreturn (a, m))) s
                       else Inr ((CURRENT_TIME s, CURRENT_TIME s), s))
         (\<lambda>r s. kseq (iput p) (kreturn 0)
           (upd_inode p (\<lambda>i. i\<lparr>i_atime := fst r, i_mtime := snd r, i_dirt := 1\<rparr>) s)) s)"

text \<open>The inode is looked at after it was released.\<close>

definition access_bits :: "'a kern_scheme \<Rightarrow> u64 \<Rightarrow> u16 \<Rightarrow> u16" where
  "access_bits s p res0 =
     (let c = tasks s (current s);
          res = (if suser s then if res0 AND 0x49 \<noteq> 0 then 0x1FF else 0x1B6 else res0) in
      if t_euid c = i_uid (inodes s p) then drop_bit 6 res
      else if uint (t_egid c) = uint (i_gid (inodes s p)) then drop_bit 6 res
      else res)"

definition sys_access :: "u8 list \<Rightarrow> u64 \<Rightarrow> 'a kern_scheme \<Rightarrow> ('a kern_scheme, int) kres" where
  "sys_access path a1 =
     (let mode = ucast a1 AND 7 in
      kbind (namei path) (\<lambda>p s.
        if p = 0 then Inr (- EACCES, s)
        else
          let res = i_mode (inodes s p) AND 0x1FF in
          kseq (iput p) (\<lambda>t. Inr (if access_bits t p res AND 7 AND mode = mode then 0 else - EACCES, t)) s))"

text \<open>\<open>sys_chdir\<close> and \<open>sys_chroot\<close>; the declaration of \<open>filename\<close> in the second lacks its equals sign.\<close>

definition sys_chdir :: "u8 list \<Rightarrow> 'a kern_scheme \<Rightarrow> ('a kern_scheme, int) kres" where
  "sys_chdir path =
     kbind (namei path) (\<lambda>p s.
       if p = 0 then Inr (- ENOENT, s)
       else if \<not> S_ISDIR (i_mode (inodes s p)) then fail p ENOTDIR s
       else kseq (iput (t_pwd (tasks s (current s))))
              (\<lambda>t. Inr (0, upd_task (current t) (\<lambda>x. x\<lparr>t_pwd := p\<rparr>) t)) s)"

definition sys_chroot :: "u8 list \<Rightarrow> 'a kern_scheme \<Rightarrow> ('a kern_scheme, int) kres" where
  "sys_chroot path =
     kbind (namei path) (\<lambda>p s.
       if p = 0 then Inr (- ENOENT, s)
       else if \<not> S_ISDIR (i_mode (inodes s p)) then fail p ENOTDIR s
       else kseq (iput (t_root (tasks s (current s))))
              (\<lambda>t. Inr (0, upd_task (current t) (\<lambda>x. x\<lparr>t_root := p\<rparr>) t)) s)"

definition sys_chmod :: "u8 list \<Rightarrow> u64 \<Rightarrow> 'a kern_scheme \<Rightarrow> ('a kern_scheme, int) kres" where
  "sys_chmod path a1 =
     kbind (namei path) (\<lambda>p s.
       if p = 0 then Inr (- ENOENT, s)
       else
         let c = tasks s (current s); i = inodes s p; m = ucast a1 :: u16 in
         if \<not> suser s \<and> t_uid c \<noteq> i_uid i \<and> t_euid c \<noteq> i_uid i then fail p EACCES s
         else
           let mode = (if suser s then m else (m AND 0x1FF) OR (i_mode i AND 0xE00)) in
           kseq (iput p) (kreturn 0)
             (upd_inode p (\<lambda>i. i\<lparr>i_mode := (mode AND 0xFFF) OR (i_mode i AND NOT 0xFFF), i_dirt := 1\<rparr>) s))"

definition sys_chown :: "u8 list \<Rightarrow> u64 \<Rightarrow> u64 \<Rightarrow> 'a kern_scheme \<Rightarrow> ('a kern_scheme, int) kres" where
  "sys_chown path a1 a2 =
     kbind (namei path) (\<lambda>p s.
       if p = 0 then Inr (- ENOENT, s)
       else if \<not> suser s then fail p EACCES s
       else kseq (iput p) (kreturn 0) (upd_inode p (\<lambda>i. i\<lparr>i_uid := ucast a1, i_gid := ucast a2, i_dirt := 1\<rparr>) s))"

subsection \<open>Opening\<close>

text \<open>\<open>do_open\<close> for the inode found: terminals may become the controlling terminal.  \<open>Inl\<close> is the failure
  exit.\<close>

definition open_tty :: "u64 \<Rightarrow> 'a kern_scheme \<Rightarrow> ('a kern_scheme, bool) kres" where
  "open_tty p s =
     (let i = inodes s p; c = tasks s (current s); dev = i_zone i 0 in
      if \<not> S_ISCHR (i_mode i) then Inr (True, s)
      else if MAJOR dev = 4 then
        if t_leader c \<noteq> 0 \<and> t_tty c < 0 then
          let t = upd_task (current s) (\<lambda>x. x\<lparr>t_tty := int (MINOR dev)\<rparr>) s in
          if MINOR dev < 3 then Inr (True, upd_tty (MINOR dev) (\<lambda>y. y\<lparr>pgrp := t_pgrp c\<rparr>) t) else Inl (OutOfBounds, t)
        else Inr (True, s)
      else if MAJOR dev = 5 \<and> t_tty c < 0 then Inr (False, s)
      else Inr (True, s))"

definition do_open :: "u8 list \<Rightarrow> u32 \<Rightarrow> u32 \<Rightarrow> 'a kern_scheme \<Rightarrow> ('a kern_scheme, int) kres" where
  "do_open path flag mode s =
     (case find (\<lambda>k. filp s k = 0) [0..<NR_OPEN] of
        None \<Rightarrow> Inr (- EINVAL, s)
      | Some fd \<Rightarrow>
          let s1 = clear_cloexec fd s in
          (case find (\<lambda>k. f_count (files s1 (file_at s1 k)) = 0) [0..<NR_FILE] of
             None \<Rightarrow> Inr (- EINVAL, s1)
           | Some k \<Rightarrow>
               let f = file_at s1 k; undo = (\<lambda>s. set_f_count f 0 (set_filp fd 0 s)) in
               kbind (open_namei path flag (umask_mode s mode)) (\<lambda>r t.
                 if fst r < 0 then Inr (fst r, undo t)
                 else
                   let p = snd r in
                   kbind (open_tty p) (\<lambda>ok u.
                     if \<not> ok then kseq (iput p) (kseq (kmodify undo) (kreturn (- EPERM))) u
                     else Inr (int fd, upd_file f (\<lambda>x. x\<lparr>f_mode := i_mode (inodes u p), f_flags := ucast flag,
                                 f_count := 1, f_inode := p, f_pos := 0\<rparr>) u)) t)
                 (upd_file f (\<lambda>x. x\<lparr>f_count := f_count x + 1\<rparr>) (set_filp fd f s1))))"

text \<open>\<open>sys_open\<close> has no \<open>return\<close>: what its caller gets is the parameter \<open>garbage\<close>.\<close>

definition sys_open :: "int \<Rightarrow> u8 list \<Rightarrow> u64 \<Rightarrow> u64 \<Rightarrow> 'a kern_scheme \<Rightarrow> ('a kern_scheme, int) kres" where
  "sys_open garbage path a1 a2 = kseq (do_open path (reg_uint a1) (reg_uint a2)) (kreturn garbage)"

definition sys_creat :: "u8 list \<Rightarrow> u64 \<Rightarrow> 'a kern_scheme \<Rightarrow> ('a kern_scheme, int) kres" where
  "sys_creat path a1 = do_open path (O_CREAT OR O_TRUNC) (reg_uint a1)"

definition sys_stat :: "(nat \<Rightarrow> u8) \<Rightarrow> u8 list \<Rightarrow> u64 \<Rightarrow> 'a kern_scheme \<Rightarrow> ('a kern_scheme, int \<times> u8 list) kres" where
  "sys_stat junk path statbuf =
     kbind (namei path) (\<lambda>p s.
       if p = 0 then Inr ((- ENOENT, []), s)
       else kbind (cp_stat junk p statbuf) (\<lambda>r. kseq (iput p) (kreturn r)) s)"

end
