(* ===== verification/Process.thy ===== *)
theory Process
  imports Open
begin

text \<open>
  Model of \<open>copy_process\<close> and \<open>sys_fork\<close> of \<open>kernel/fork.c\<close>, and of \<open>do_exit\<close>, \<open>sys_exit\<close> and
  \<open>sys_waitpid\<close> of \<open>kernel/exit.c\<close>.  The saved processor registers in \<open>thread\<close> are not part of the
  task structure of the model.
\<close>

subsection \<open>Fork\<close>

text \<open>\<open>task_pt_regs(tsk)\<close> adds \<open>THREAD_SIZE - sizeof(struct pt_regs)\<close> to a pointer to a task structure, so the
  offset counts task structures of 1072 bytes and not bytes.\<close>

definition THREAD_SIZE :: u64 where "THREAD_SIZE = 8192"
definition sizeof_pt_regs :: u64 where "sizeof_pt_regs = 288"
definition sizeof_task_struct :: u64 where "sizeof_task_struct = 1072"

definition task_pt_regs :: "u64 \<Rightarrow> u64" where
  "task_pt_regs tsk = tsk + (THREAD_SIZE - sizeof_pt_regs) * sizeof_task_struct"

definition child_of :: "'a sched_scheme \<Rightarrow> u64 \<Rightarrow> task_struct" where
  "child_of s p =
     (let c = tasks s (current s) in
      c\<lparr>t_state := TASK_RUNNING, t_stack := p + THREAD_SIZE, t_pid := last_pid s, t_father := t_pid c,
        t_counter := t_priority c, t_signal := 0, t_alarm := 0, t_leader := 0, t_utime := 0, t_stime := 0,
        t_cutime := 0, t_cstime := 0, t_start_time := jiffies s\<rparr>)"

text \<open>\<open>*childregs = *(current_pt_regs())\<close> and \<open>childregs->a0 = 0\<close>; \<open>a0\<close> is the eleventh register.\<close>

definition copy_regs :: "u64 \<Rightarrow> u64 \<Rightarrow> 'a mm_scheme \<Rightarrow> ('a mm_scheme, unit) kres" where
  "copy_regs dst src =
     kseq (kfor [0..<36] (\<lambda>k. kbind (kload (src + of_nat (8 * k))) (kstore (dst + of_nat (8 * k)))))
       (kstore (dst + 80) 0)"

definition copy_process :: "'a sched_scheme \<Rightarrow> ('a sched_scheme, int) kres" where
  "copy_process =
     kbind find_empty_process (\<lambda>nr s.
       if nr < 0 then Inr (nr, s)
       else kbind get_two_free_pages (\<lambda>p t.
         if p = 0 then Inr (- EAGAIN, t)
         else kbind (copy_page_tables p) (\<lambda>r u.
           if r \<noteq> 0 then kseq (free_two_pages p) (kreturn (- EAGAIN)) u
           else
             kseq (\<lambda>v. copy_regs (task_pt_regs p) (task_pt_regs (current v)) v)
               (\<lambda>v. Inr (to_int32 (last_pid v), v)) (u\<lparr>task := (task u)(nat nr := p)\<rparr>))
           (t\<lparr>tasks := (tasks t)(p := child_of t p), task_pgd := (task_pgd t)(p := task_pgd t (current t))\<rparr>)) s)"

definition sys_fork :: "'a sched_scheme \<Rightarrow> ('a sched_scheme, int) kres" where
  "sys_fork = copy_process"

subsection \<open>Exit\<close>

definition orphan :: "'a sched_scheme \<Rightarrow> 'a sched_scheme" where
  "orphan s =
     fold (\<lambda>i s. if task s i \<noteq> 0 \<and> t_father (tasks s (task s i)) = t_pid (tasks s (current s))
                  then upd_task (task s i) (\<lambda>t. t\<lparr>t_father := 0\<rparr>) s else s) [0..<NR_TASKS] s"

definition close_all :: "'a kern_scheme \<Rightarrow> ('a kern_scheme, unit) kres" where
  "close_all =
     kfor [0..<NR_OPEN] (\<lambda>i s. if filp s i \<noteq> 0 then kseq (do_close (of_nat i)) (kreturn ()) s else Inr ((), s))"

definition leave_tty :: "'a kern_scheme \<Rightarrow> ('a kern_scheme, unit) kres" where
  "leave_tty s =
     (let c = tasks s (current s) in
      if t_leader c \<noteq> 0 \<and> 0 \<le> t_tty c then
        if t_tty c < 3 then Inr ((), upd_tty (nat (t_tty c)) (\<lambda>y. y\<lparr>pgrp := 0\<rparr>) s) else Inl (OutOfBounds, s)
      else Inr ((), s))"

text \<open>The end of \<open>do_exit\<close> before \<open>schedule\<close>: the parent is told, or the task is dead at once.\<close>

definition become_zombie :: "int \<Rightarrow> 'a sched_scheme \<Rightarrow> 'a sched_scheme" where
  "become_zombie code s0 =
     (let s = (if last_task_used_math s0 = current s0 then s0\<lparr>last_task_used_math := 0\<rparr> else s0);
          t = upd_task (current s) (\<lambda>x. x\<lparr>t_state := TASK_ZOMBIE\<rparr>) s;
          father = t_father (tasks t (current t)) in
      if father \<noteq> 0
      then upd_task (current t) (\<lambda>x. x\<lparr>t_exit_code := to_int32 code\<rparr>) (do_kill father (int SIGCHLD) True t)
      else upd_task (current t) (\<lambda>x. x\<lparr>t_state := TASK_DEAD\<rparr>) t)"

definition do_exit :: "int \<Rightarrow> 'a kern_scheme \<Rightarrow> ('a kern_scheme, unit) kres" where
  "do_exit code s =
     (if current s = task s 0 then panic ''Try to do_exit on TASK 0.'' s
      else
        kseq (free_page_tables (current s))
        (kseq (kmodify orphan)
        (kseq close_all
        (kseq (\<lambda>s. iput (t_pwd (tasks s (current s))) s)
        (kseq (\<lambda>s. Inr ((), upd_task (current s) (\<lambda>t. t\<lparr>t_pwd := 0\<rparr>) s))
        (kseq (\<lambda>s. iput (t_root (tasks s (current s))) s)
        (kseq (\<lambda>s. Inr ((), upd_task (current s) (\<lambda>t. t\<lparr>t_root := 0\<rparr>) s))
        (kseq leave_tty
        (kseq (kmodify (become_zombie code)) schedule)))))))) s)"

text \<open>The argument of \<open>sys_exit\<close> is declared as the exit code; the system call table passes the address of
  the registers.\<close>

definition sys_exit :: "u64 \<Rightarrow> 'a kern_scheme \<Rightarrow> ('a kern_scheme, unit) kres" where
  "sys_exit arg = do_exit (uint (push_bit 8 (arg AND 0xff)))"

subsection \<open>Waiting for a child\<close>

definition wait_selects :: "int \<Rightarrow> 'a sched_scheme \<Rightarrow> u64 \<Rightarrow> bool" where
  "wait_selects pid s p \<longleftrightarrow>
     p \<noteq> 0 \<and> p \<noteq> current s \<and>
     (pid = - 1 \<or> t_pid (tasks s p) = pid \<or> pid = 0 \<and> t_pgrp (tasks s p) = t_pgrp (tasks s (current s))
       \<or> pid < 0 \<and> t_pgrp (tasks s p) = - pid) \<and>
     t_father (tasks s p) = t_pid (tasks s (current s))"

text \<open>The scan of the table: \<open>Inl\<close> a zombie child, or \<open>Inr\<close> whether any child was seen.\<close>

fun wait_scan :: "int \<Rightarrow> 'a sched_scheme \<Rightarrow> nat list \<Rightarrow> bool \<Rightarrow> u64 + bool" where
  "wait_scan pid s [] flag = Inr flag"
| "wait_scan pid s (i # is) flag =
     (if wait_selects pid s (task s i) then
        if t_state (tasks s (task s i)) = TASK_ZOMBIE then Inl (task s i) else wait_scan pid s is True
      else wait_scan pid s is flag)"

text \<open>\<open>*(unsigned int * ) stat_addr = exit_code\<close>, as four bytes.\<close>

definition store_uint :: "u64 \<Rightarrow> int \<Rightarrow> 'a mm_scheme \<Rightarrow> ('a mm_scheme, unit) kres" where
  "store_uint a v =
     kfor [0..<4] (\<lambda>k. store_byte (a + of_nat k) (ucast (drop_bit (8 * k) (word_of_int v :: u32))))"

definition reap :: "u64 \<Rightarrow> u64 \<Rightarrow> 'a sched_scheme \<Rightarrow> ('a sched_scheme, int) kres" where
  "reap stat_addr p s =
     kseq (store_uint stat_addr (t_exit_code (tasks s p))) (\<lambda>t.
       let u = upd_task (current t) (\<lambda>x. x\<lparr>t_cutime := t_cutime x + t_utime (tasks t p),
                                            t_cstime := t_cstime x + t_stime (tasks t p)\<rparr>) t;
           flag = to_int32 (t_pid (tasks u p)) in
       kseq (release p) (kreturn flag) u) s"

text \<open>From the label \<open>repeat\<close>, with \<open>flag\<close> as the rounds before left it: \<open>Inl\<close> the result, \<open>Inr\<close> the
  state for \<open>goto repeat\<close>, which is only reached with the flag set.\<close>

definition wait_round :: "int \<Rightarrow> u64 \<Rightarrow> u32 \<Rightarrow> bool \<Rightarrow> 'a sched_scheme \<Rightarrow> ('a sched_scheme, int) kres + 'a sched_scheme" where
  "wait_round pid stat_addr options flag s =
     (case wait_scan pid s slots flag of
        Inl p \<Rightarrow> Inl (reap stat_addr p s)
      | Inr False \<Rightarrow> Inl (Inr (- ECHILD, s))
      | Inr True \<Rightarrow>
          if options AND 1 \<noteq> 0 then Inl (Inr (0, s))
          else case do_pause s of
            Inl e \<Rightarrow> Inl (Inl e)
          | Inr (_, t) \<Rightarrow>
              let u = upd_task (current t) (\<lambda>x. x\<lparr>t_signal := t_signal x AND NOT (sig_bit SIGCHLD)\<rparr>) t in
              if t_signal (tasks u (current u)) = 0 then Inr u else Inl (Inr (- EINTR, u)))"

partial_function (option) wait_loop :: "int \<Rightarrow> u64 \<Rightarrow> u32 \<Rightarrow> bool \<Rightarrow> 'a sched_scheme \<Rightarrow> ('a sched_scheme, int) kres option" where
  "wait_loop pid stat_addr options flag s =
     (case wait_round pid stat_addr options flag s of Inl r \<Rightarrow> Some r | Inr t \<Rightarrow> wait_loop pid stat_addr options True t)"

definition sys_waitpid :: "u64 \<Rightarrow> u64 \<Rightarrow> u64 \<Rightarrow> 'a sched_scheme \<Rightarrow> ('a sched_scheme, int) kres" where
  "sys_waitpid a0 a1 a2 =
     kseq (verify_area a1 4) (\<lambda>s.
       case wait_loop (reg_int a0) a1 (reg_uint a2) False s of None \<Rightarrow> Inl (Loops, s) | Some r \<Rightarrow> r)"

end
