(* ===== verification/Hd_Props.thy ===== *)
theory Hd_Props
  imports Hd Sched_Props "HOL-Library.Multiset"
begin

text \<open>
  The disk driver: the request list against an elevator on lists, the geometry round trip, and what
  a read request does to the device.
\<close>

subsection \<open>The request list\<close>

text \<open>\<open>chain r p xs\<close>: following \<open>next\<close> from \<open>p\<close> gives the requests \<open>xs\<close>.\<close>

fun chain :: "(nat \<Rightarrow> hd_request) \<Rightarrow> nat option \<Rightarrow> nat list \<Rightarrow> bool" where
  "chain r p [] \<longleftrightarrow> p = None"
| "chain r p (x # xs) \<longleftrightarrow> p = Some x \<and> chain r (r_next (r x)) xs"

text \<open>The specification: the elevator on the list of requests, which leaves the first two alone.\<close>

fun elev :: "('a \<Rightarrow> 'a \<Rightarrow> bool) \<Rightarrow> 'a \<Rightarrow> 'a list \<Rightarrow> 'a list" where
  "elev lt x (t # n # ns) =
     (if (lt t x \<or> \<not> lt t n) \<and> lt x n then t # x # n # ns else t # elev lt x (n # ns))"
| "elev lt x ts = ts @ [x]"

fun elev_add :: "('a \<Rightarrow> 'a \<Rightarrow> bool) \<Rightarrow> 'a \<Rightarrow> 'a list \<Rightarrow> 'a list" where
  "elev_add lt x (a # b # bs) = a # elev lt x (b # bs)"
| "elev_add lt x as = as @ [x]"

lemma mset_elev: "mset (elev lt x ts) = add_mset x (mset ts)"
  by (induction lt x ts rule: elev.induct) auto

lemma mset_elev_add: "mset (elev_add lt x ts) = add_mset x (mset ts)"
  by (cases "(lt, x, ts)" rule: elev_add.cases) (simp_all add: mset_elev)

lemma elev_Cons: "\<exists>zs. elev lt x (n # ns) = n # zs"
  by (cases ns) auto

text \<open>The number of places where the head moves back.\<close>

fun descents :: "('a \<Rightarrow> 'a \<Rightarrow> bool) \<Rightarrow> 'a list \<Rightarrow> nat" where
  "descents lt (a # b # xs) = (if lt a b then 0 else 1) + descents lt (b # xs)"
| "descents lt xs = 0"

text \<open>Without a place to insert, an ascending list that starts below \<open>x\<close> ends below \<open>x\<close>.\<close>

lemma elev_ascending:
  assumes "descents lt (n # ns) = 0" "lt n x" "\<And>y. y \<in> set ns \<Longrightarrow> lt x y \<or> lt y x"
  shows "descents lt (elev lt x (n # ns)) = 0"
  using assms
proof (induction ns arbitrary: n)
  case (Cons m ns)
  show ?case
  proof (cases "lt x m")
    case True
    then show ?thesis using Cons.prems by (auto split: if_splits)
  next
    case False
    then have m: "lt m x" using Cons.prems(3) [of m] by simp
    have nm: "lt n m" using Cons.prems(1) by (auto split: if_splits)
    have "descents lt (elev lt x (m # ns)) = 0"
      using Cons.prems m by (intro Cons.IH) (auto split: if_splits)
    moreover obtain zs where "elev lt x (m # ns) = m # zs" using elev_Cons [of lt x m ns] by blast
    ultimately show ?thesis using False nm by simp
  qed
qed simp

lemma elev_descents:
  assumes "descents lt ts \<le> 1" "\<And>y. y \<in> set ts \<Longrightarrow> lt x y \<or> lt y x"
  shows "descents lt (elev lt x ts) \<le> 1"
  using assms
proof (induction lt x ts rule: elev.induct)
  case (1 lt x t n ns)
  obtain zs where zs: "elev lt x (n # ns) = n # zs" using elev_Cons [of lt x n ns] by blast
  show ?case
  proof (cases "(lt t x \<or> \<not> lt t n) \<and> lt x n")
    case True
    then show ?thesis using "1.prems"(1) by (auto split: if_splits)
  next
    case ins: False
    show ?thesis
    proof (cases "lt t n")
      case True
      then show ?thesis using 1 ins zs by simp
    next
      case False
      then have "descents lt (n # ns) = 0" using "1.prems"(1) by simp
      moreover have "lt n x" using False ins "1.prems"(2) [of n] by auto
      ultimately have "descents lt (n # zs) = 0"
        using elev_ascending [of lt n ns x] "1.prems"(2) zs by simp
      moreover have "elev lt x (t # n # ns) = t # n # zs" using ins zs by auto
      ultimately show ?thesis by (simp del: elev.simps)
    qed
  qed
qed auto

subsection \<open>The linked list implements the elevator\<close>

lemma chain_upd: "req \<notin> set xs \<Longrightarrow> chain (r(req := q)) p xs = chain r p xs"
  by (induction xs arbitrary: p) auto

lemma chain_next:
  "chain r p (as @ [x]) \<Longrightarrow> r_next (r x) = None"
  by (induction as arbitrary: p) auto

text \<open>\<open>ins_point\<close> finds the place the elevator inserts at.\<close>

lemma ins_point_elev:
  assumes "chain r (Some t) (t # ts)"
  shows "\<exists>as p bs. ins_point r req t = Some p \<and> t # ts = as @ p # bs \<and>
    elev (\<lambda>i j. IN_ORDER (r i) (r j)) req (t # ts) = as @ p # req # bs"
  using assms
proof (induction ts arbitrary: t)
  case Nil
  then show ?case by (subst ins_point.simps) auto
next
  case (Cons n ns)
  then have n: "r_next (r t) = Some n" "chain r (Some n) (n # ns)" by auto
  show ?case
  proof (cases "(IN_ORDER (r t) (r req) \<or> \<not> IN_ORDER (r t) (r n)) \<and> IN_ORDER (r req) (r n)")
    case True
    then have "ins_point r req t = Some t" using n by (subst ins_point.simps) simp
    moreover have "elev (\<lambda>i j. IN_ORDER (r i) (r j)) req (t # n # ns) = [] @ t # req # n # ns" using True by simp
    ultimately show ?thesis by blast
  next
    case False
    then have e: "ins_point r req t = ins_point r req n" using n by (subst ins_point.simps) auto
    obtain as p bs where "ins_point r req n = Some p" "n # ns = as @ p # bs"
      "elev (\<lambda>i j. IN_ORDER (r i) (r j)) req (n # ns) = as @ p # req # bs"
      using Cons.IH [OF n(2)] by blast
    moreover have "elev (\<lambda>i j. IN_ORDER (r i) (r j)) req (t # n # ns)
        = t # elev (\<lambda>i j. IN_ORDER (r i) (r j)) req (n # ns)" using False by auto
    ultimately have "ins_point r req t = Some p \<and> t # n # ns = (t # as) @ p # bs \<and>
      elev (\<lambda>i j. IN_ORDER (r i) (r j)) req (t # n # ns) = (t # as) @ p # req # bs"
      using e by (simp del: elev.simps)
    then show ?thesis by blast
  qed
qed

text \<open>Linking \<open>req\<close> behind \<open>p\<close>.\<close>

lemma chain_link:
  assumes "chain r h (as @ p # bs)" "distinct (as @ p # bs)" "req \<notin> set (as @ p # bs)"
  shows "chain (r(req := (r req)\<lparr>r_next := r_next (r p)\<rparr>, p := (r p)\<lparr>r_next := Some req\<rparr>)) h (as @ p # req # bs)"
  using assms
proof (induction as arbitrary: h)
  case Nil
  have "chain (r(req := x, p := y)) q bs = chain r q bs" for x y q
    using Nil.prems(2,3) chain_upd [of p bs] chain_upd [of req bs] by (simp del: fun_upd_apply)
  then show ?case using Nil by (simp del: fun_upd_apply add: fun_upd_same fun_upd_other)
next
  case (Cons a as)
  then show ?case by (auto simp del: fun_upd_apply simp: fun_upd_other)
qed

text \<open>C16: \<open>add_request\<close> inserts the request into the linked list exactly as the elevator does on the
  list of requests: no request is lost, the first two are left in place, and if the rest of the
  list moves the head back at most once, and no two requests are for the same place, it still
  does.\<close>

lemma link_request_elevator:
  assumes "chain (request s) (this_request s) xs" "distinct xs" "req \<notin> set xs" "r_next (request s req) = None"
    "\<And>i. i \<in> set xs \<Longrightarrow> IN_ORDER (request s i) (request s req) \<or> IN_ORDER (request s req) (request s i)"
  defines "lt \<equiv> (\<lambda>i j. IN_ORDER (request s i) (request s j))"
  shows "\<exists>t ys. link_request req s = Some t \<and> chain (request t) (this_request t) ys \<and> ys = elev_add lt req xs
    \<and> mset ys = add_mset req (mset xs) \<and> take 2 xs = take (min 2 (length xs)) ys
    \<and> (descents lt (tl xs) \<le> 1 \<longrightarrow> descents lt (tl ys) \<le> 1)"
proof -
  obtain t where t: "link_request req s = Some t" "chain (request t) (this_request t) (elev_add lt req xs)"
  proof (cases "(lt, req, xs)" rule: elev_add.cases)
    case (1 lt' x a b bs)
    then have xs: "xs = a # b # bs" "lt' = lt" "x = req" by auto
    then have c: "this_request s = Some a" "r_next (request s a) = Some b" "chain (request s) (Some b) (b # bs)"
      using assms(1) by auto
    then obtain as p ds where p: "ins_point (request s) req b = Some p" "b # bs = as @ p # ds"
      "elev lt req (b # bs) = as @ p # req # ds"
      using ins_point_elev [OF c(3), of req] unfolding lt_def by blast
    have "chain (request s) (this_request s) ((a # as) @ p # ds)" "distinct ((a # as) @ p # ds)"
      "req \<notin> set ((a # as) @ p # ds)" using assms(1-3) xs p(2) by auto
    note l = chain_link [OF this]
    have "req \<noteq> p" using assms(3) xs p(2) by auto
    then have "link_request req s = Some (s\<lparr>request := (request s)(req := (request s req)\<lparr>r_next := r_next (request s p)\<rparr>,
        p := (request s p)\<lparr>r_next := Some req\<rparr>)\<rparr>)"
      using c p(1) by (simp add: link_request_def upd_req_def)
    moreover have "elev_add lt req xs = (a # as) @ p # req # ds" using xs p(3) by (simp del: elev.simps)
    ultimately show ?thesis using that l by (simp del: chain.simps)
  qed (use that assms in \<open>simp_all add: link_request_def upd_req_def\<close>)
  have "take 2 xs = take (min 2 (length xs)) (elev_add lt req xs)"
  proof (cases "(lt, req, xs)" rule: elev_add.cases)
    case (1 lt' x a b bs)
    obtain zs where "elev lt req (b # bs) = b # zs" using elev_Cons [of lt req b bs] by blast
    then show ?thesis using 1 by (simp add: numeral_2_eq_2)
  qed auto
  moreover have "descents lt (tl (elev_add lt req xs)) \<le> 1" if "descents lt (tl xs) \<le> 1"
  proof (cases "(lt, req, xs)" rule: elev_add.cases)
    case (1 lt' x a b bs)
    then show ?thesis using that elev_descents [of lt "b # bs" req] assms(5) by (auto simp: lt_def)
  qed auto
  ultimately show ?thesis using t mset_elev_add [of lt req xs] by blast
qed


definition three_requests :: "nat \<Rightarrow> hd_request" where
  "three_requests i = \<lparr>r_hd = 0, r_nsector = 2, r_sector = 1, r_head = 0,
     r_cyl = (if i = 0 then 5 else if i = 2 then 9 else 7), r_cmd = WIN_READ, r_errors = 0, r_bh = 0,
     r_next = (if i = 0 then Some 2 else None)\<rparr>"

definition boot_kern :: kern where
  "boot_kern = ttys.extend (sched.extend two_tasks
       \<lparr>tty_table = init_tty_table (\<lambda>n k. of_nat (n * 3 + k)), cr_flag = False, uart_ier = 0, uart_sent = []\<rparr>)
     \<lparr>start_buffer = 0, nr_buffers = 0, bufs = \<lambda>_. \<lparr>b_data = \<lambda>_. 0, b_dev = 0, b_blocknr = 0, b_uptodate = 0,
         b_dirt = 0, b_count = 0, b_lock = 0, b_prev = None, b_next = None, b_prev_free = None, b_next_free = None\<rparr>,
      hash_table = \<lambda>_. None, free_list = None, buffer_wait = 1, hd_info = [], hd_part = \<lambda>_. (0, 0),
      request = three_requests, this_request = None, sorting = False, do_hd = None, wait_for_request = 2,
      geometry = \<lparr>g_head = 4, g_sect = 17, g_cyl = 100\<rparr>, vq_desc = \<lambda>_. \<lparr>d_addr = 0, d_len = 0, d_flags = 0, d_next = 0\<rparr>,
      vq_avail_idx = 0, vq_avail_ring = \<lambda>_. 0, vq_notified = 0, virt_type = 0, virt_reserved = 0, virt_sector = 0,
      virt_buffer = \<lambda>_. 0, virt_status = 0, virt_addr = (0, 0, 0), virt_isr = 0, virt_acked = [], inode_table = 4096,
      inodes = \<lambda>_. \<lparr>i_mode = 0, i_uid = 0, i_size = 0, i_mtime = 0, i_gid = 0, i_nlinks = 0, i_zone = \<lambda>_. 0,
         i_atime = 0, i_ctime = 0, i_dev = 0, i_num = 0, i_count = 0, i_lock = 0, i_dirt = 0, i_pipe = 0, i_mount = 0,
         i_seek = 0, i_update = 0\<rparr>,
      last_allocated_inode = 0, file_table = 8192,
      files = \<lambda>_. \<lparr>f_mode = 0, f_flags = 0, f_count = 0, f_inode = 0, f_pos = 0\<rparr>,
      supers = \<lambda>_. \<lparr>s_ninodes = 0, s_nzones = 0, s_imap_blocks = 0, s_zmap_blocks = 0, s_firstdatazone = 0,
         s_log_zone_size = 0, s_max_size = 0, s_magic = 0, s_imap = \<lambda>_. None, s_zmap = \<lambda>_. None, s_dev = 0,
         s_isup = 0, s_imount = 0, s_time = 0, s_rd_only = 0, s_dirt = 0\<rparr>,
      startup_time = 0, setup_callable = True\<rparr>"

lemma boot_kern_requests:
  "request boot_kern = three_requests" "this_request boot_kern = None" "do_hd boot_kern = None"
  "sorting boot_kern = False" "geometry boot_kern = \<lparr>g_head = 4, g_sect = 17, g_cyl = 100\<rparr>"
  by (simp_all add: boot_kern_def ttys.extend_def sched.extend_def)

lemma link_request_elevator_witness:
  "\<exists>t. link_request 3 (boot_kern\<lparr>this_request := Some 0\<rparr>) = Some t
    \<and> chain (request t) (this_request t) [0, 2, 3]"
proof -
  let ?s = "boot_kern\<lparr>this_request := Some 0\<rparr>"
  have "chain (request ?s) (this_request ?s) [0, 2]" "r_next (request ?s 3) = None"
    by (simp_all add: boot_kern_requests three_requests_def)
  moreover have "IN_ORDER (request ?s i) (request ?s 3) \<or> IN_ORDER (request ?s 3) (request ?s i)"
    if "i \<in> set [0, 2]" for i
    using that by (auto simp: boot_kern_requests three_requests_def IN_ORDER_def)
  ultimately obtain t ys where t: "link_request 3 ?s = Some t" "chain (request t) (this_request t) ys"
    "ys = elev_add (\<lambda>i j. IN_ORDER (request ?s i) (request ?s j)) 3 [0, 2]"
    using link_request_elevator [of ?s "[0, 2]" 3] by auto
  then have "ys = [0, 2, 3]" by simp
  then show ?thesis using t(1,2) by (intro exI [of _ t]) simp
qed

subsection \<open>Geometry\<close>

text \<open>The split of a sector number into sector, head and cylinder by \<open>rw_hd\<close> stays within the
  geometry, and \<open>hd_out\<close> puts the same sector number together again, for every 32-bit sector number
  and every geometry with at least one sector and one head.\<close>

lemma chs_lba_roundtrip:
  assumes "g_sect g \<noteq> 0" "g_head g \<noteq> 0" "chs g block = (sec, head, cyl)"
  shows "lba g (sec + 1) head cyl = block \<and> sec < g_sect g \<and> head < g_head g"
proof -
  let ?q = "block div g_sect g"
  have e: "sec = block mod g_sect g" "head = ?q mod g_head g" "cyl = ?q div g_head g"
    using assms(3) by (auto simp: chs_def)
  have "g_sect g * (?q div g_head g * g_head g + ?q mod g_head g) + block mod g_sect g = block"
    by (simp only: div_mult_mod_eq mult_div_mod_eq)
  then have "lba g (sec + 1) head cyl = block" by (simp add: lba_def e)
  moreover have "sec < g_sect g" "head < g_head g"
    unfolding e using assms(1,2) by (simp_all add: word_mod_less_divisor word_neq_0_conv)
  ultimately show ?thesis by simp
qed

lemma chs_lba_roundtrip_witness:
  "lba \<lparr>g_head = 4, g_sect = 17, g_cyl = 100\<rparr> (14 + 1) 2 14 = 1000 \<and> (14 :: u32) < 17 \<and> (2 :: u32) < 4"
  using chs_lba_roundtrip [of "\<lparr>g_head = 4, g_sect = 17, g_cyl = 100\<rparr>" 1000 14 2 14] by (simp add: chs_def)

subsection \<open>A read request\<close>

text \<open>C17: A read request on the idle driver is sent to the device as a write command (\<open>hd_out\<close> passes
  the command code where \<open>virtio_cmd\<close> expects a truth value), for one sector only.  The first
  interrupt is not acknowledged and leaves the request unfinished with no command under way, and the next one panics: the
  buffer never becomes up to date.\<close>

lemma read_request_never_completes:
  assumes "this_request s = None" "do_hd s = None" "r_cmd (request s n) = WIN_READ" "r_nsector (request s n) = 2"
    "0 \<le> r_hd (request s n)" "r_hd (request s n) \<le> 1" "0 \<le> r_head (request s n)" "r_head (request s n) \<le> 15"
  shows "\<exists>t u v. add_request n s = Inr ((), t) \<and> virt_type t = VIRTIO_BLK_T_OUT
    \<and> virt_sector t = ucast (lba (geometry s) (word_of_int (r_sector (request s n)))
        (word_of_int (r_head (request s n))) (word_of_int (r_cyl (request s n))))
    \<and> hd_interrupt t = Inr ((), u) \<and> vq_notified u = vq_notified t \<and> virt_acked u = virt_acked s
    \<and> b_uptodate (bufs u (r_bh (request s n))) = b_uptodate (bufs s (r_bh (request s n)))
    \<and> hd_interrupt u = Inl (Panic (''Unexpected HD interrupt'' @ [CHR 0x0A, CHR 0x0D]), v)"
proof -
  let ?r = "request s n"
  have w: "\<not> 1 < (word_of_int (r_hd ?r) :: u32)" "\<not> 15 < (word_of_int (r_head ?r) :: u32)"
    using assms(5-8) by (simp_all add: word_less_def uint_word_of_int)
  define a where "a = s\<lparr>this_request := Some n, sorting := False\<rparr>"
  define t where "t = virtio_cmd WIN_READ (ucast (lba (geometry s) (word_of_int (r_sector ?r))
    (word_of_int (r_head ?r)) (word_of_int (r_cyl ?r)))) (a\<lparr>do_hd := Some ReadIntr\<rparr>)"
  have "link_request n s = Some (s\<lparr>this_request := Some n\<rparr>)" using assms(1) by (simp add: link_request_def)
  then have "add_request n s = do_request a" using assms(2,4) by (simp add: add_request_def a_def)
  also have "\<dots> = Inr ((), t)"
    using assms(3) w by (simp add: Let_def do_request_def a_def t_def hd_out_def WIN_READ_def WIN_WRITE_def)
  finally have add: "add_request n s = Inr ((), t)" .
  have t: "do_hd t = Some ReadIntr" "this_request t = Some n" "request t = request s" "bufs t = bufs s" "virt_acked t = virt_acked s"
    "virt_type t = VIRTIO_BLK_T_OUT"
    "virt_sector t = ucast (lba (geometry s) (word_of_int (r_sector ?r)) (word_of_int (r_head ?r)) (word_of_int (r_cyl ?r)))"
    by (simp_all add: t_def a_def virtio_cmd_def split_beta Let_def WIN_READ_def)
  obtain u where u: "hd_interrupt t = Inr ((), u)" "do_hd u = None" "vq_notified u = vq_notified t" "virt_acked u = virt_acked t"
    "b_uptodate (bufs u (r_bh ?r)) = b_uptodate (bufs s (r_bh ?r))"
    using t assms(4) by (simp add: hd_interrupt_def read_intr_def upd_req_def upd_buf_def Let_def)
  have "hd_interrupt u = Inl (Panic (''Unexpected HD interrupt'' @ [CHR 0x0A, CHR 0x0D]), u)"
    using u(2) by (simp add: hd_interrupt_def unexpected_hd_interrupt_def panic_def)
  then show ?thesis using add t u by (intro exI [of _ t] exI [of _ u] conjI) simp_all
qed

lemma read_request_never_completes_witness:
  "\<exists>t. add_request 3 boot_kern = Inr ((), t) \<and> virt_type t = VIRTIO_BLK_T_OUT"
  using read_request_never_completes [of boot_kern 3]
  by (auto simp: boot_kern_requests three_requests_def)

end
