(* ===== verification/Buffer_Props.thy ===== *)
theory Buffer_Props
  imports Buffer Hd_Props
begin

text \<open>
  The buffer cache: the free list is a ring through all buffers and every hash queue a doubly
  linked list of the buffers with that hash value.  \<open>buffer_init\<close> establishes this, moving a buffer
  to another block keeps it, and lookups find exactly the buffers in the queues.
\<close>

subsection \<open>The free list\<close>

text \<open>\<open>fpath b x ys z\<close>: the free list goes from \<open>x\<close> through \<open>ys\<close> to \<open>z\<close>, forwards and backwards.\<close>

fun fpath :: "(nat \<Rightarrow> buffer_head) \<Rightarrow> nat \<Rightarrow> nat list \<Rightarrow> nat \<Rightarrow> bool" where
  "fpath b x [] z \<longleftrightarrow> b_next_free (b x) = Some z \<and> b_prev_free (b z) = Some x"
| "fpath b x (y # ys) z \<longleftrightarrow> b_next_free (b x) = Some y \<and> b_prev_free (b y) = Some x \<and> fpath b y ys z"

definition free_ring :: "(nat \<Rightarrow> buffer_head) \<Rightarrow> nat list \<Rightarrow> bool" where
  "free_ring b xs \<longleftrightarrow> (case xs of [] \<Rightarrow> False | x # ys \<Rightarrow> fpath b x ys x)"

lemma fpath_append: "fpath b x (ys @ y # zs) z \<longleftrightarrow> fpath b x ys y \<and> fpath b y zs z"
  by (induction ys arbitrary: x) auto

lemma ring_rotate: "free_ring b (as @ x # bs) \<longleftrightarrow> free_ring b (x # bs @ as)"
proof (cases as)
  case (Cons a as')
  then show ?thesis using fpath_append [of b a as' x bs a] fpath_append [of b x bs a as' x] by (auto simp: free_ring_def)
qed simp

lemma fpath_cong:
  "(\<And>i. b_next_free (b i) = b_next_free (c i) \<and> b_prev_free (b i) = b_prev_free (c i)) \<Longrightarrow> fpath b x ys z = fpath c x ys z"
  by (induction ys arbitrary: x) auto

lemma ring_cong:
  "(\<And>i. b_next_free (b i) = b_next_free (c i) \<and> b_prev_free (b i) = b_prev_free (c i)) \<Longrightarrow> free_ring b xs = free_ring c xs"
  using fpath_cong [of b c] by (auto simp: free_ring_def split: list.splits)

text \<open>Leading the end of the path to another buffer.\<close>

lemma fpath_redirect:
  assumes "fpath b u us x" "distinct (u # us)" "z \<notin> set us" "l = last (u # us)"
    "\<And>j. j \<in> set (u # us) \<Longrightarrow> b_next_free (c j) = (if j = l then Some z else b_next_free (b j))"
    "\<And>j. j \<in> set us \<Longrightarrow> b_prev_free (c j) = b_prev_free (b j)" "b_prev_free (c z) = Some l"
  shows "fpath c u us z"
  using assms
proof (induction us arbitrary: u)
  case (Cons v us)
  have "fpath c v us z"
  proof (rule Cons.IH)
    show "fpath b v us x" "distinct (v # us)" "z \<notin> set us" "l = last (v # us)" using Cons.prems(1-4) by auto
    show "b_next_free (c j) = (if j = l then Some z else b_next_free (b j))" if "j \<in> set (v # us)" for j
      using Cons.prems(5) that by simp
    show "b_prev_free (c j) = b_prev_free (b j)" if "j \<in> set us" for j using Cons.prems(6) that by simp
  qed (rule Cons.prems(7))
  moreover have "u \<noteq> l"
  proof -
    have "l \<in> set (v # us)" using Cons.prems(4) last_in_set [of "v # us"] by simp
    then show ?thesis using Cons.prems(2) by auto
  qed
  moreover have "b_next_free (c u) = b_next_free (b u)" using Cons.prems(5) [of u] calculation(2) by simp
  moreover have "b_prev_free (c v) = b_prev_free (b v)" using Cons.prems(6) [of v] by simp
  ultimately show ?case using Cons.prems(1) by simp
qed simp

lemma fpath_last: "fpath b u us x \<Longrightarrow> b_prev_free (b x) = Some (last (u # us))"
  by (induction us arbitrary: u) auto

lemma ring_unfree:
  assumes "free_ring b (i # f # fs)" "distinct (i # f # fs)" "l = last (f # fs)"
    "\<And>j. b_next_free (c j) = (if j = l then Some f else b_next_free (b j))"
    "\<And>j. b_prev_free (c j) = (if j = f then Some l else b_prev_free (b j))"
  shows "free_ring c (f # fs)"
proof -
  have "fpath c f fs f"
  proof (rule fpath_redirect)
    show "fpath b f fs i" using assms(1) by (simp add: free_ring_def)
    show "distinct (f # fs)" "f \<notin> set fs" using assms(2) by auto
    show "b_prev_free (c j) = b_prev_free (b j)" if "j \<in> set fs" for j
      using that assms(2) assms(5) [of j] by (metis distinct.simps(2))
  qed (simp_all add: assms(3-5))
  then show ?thesis by (simp add: free_ring_def)
qed

lemma ring_enfree:
  assumes "free_ring b (f # fs)" "distinct (i # f # fs)" "l = last (f # fs)"
    "\<And>j. b_next_free (c j) = (if j = l then Some i else if j = i then Some f else b_next_free (b j))"
    "\<And>j. b_prev_free (c j) = (if j = f then Some i else if j = i then Some l else b_prev_free (b j))"
  shows "free_ring c ((f # fs) @ [i])"
proof -
  have l: "i \<noteq> l" using assms(2,3) last_in_set [of "f # fs"] by auto
  have "fpath c f fs i"
  proof (rule fpath_redirect)
    show "fpath b f fs f" using assms(1) by (simp add: free_ring_def)
    show "distinct (f # fs)" "i \<notin> set fs" using assms(2) by auto
    show "b_next_free (c j) = (if j = l then Some i else b_next_free (b j))" if "j \<in> set (f # fs)" for j
      using that assms(2) assms(4) [of j] by auto
    show "b_prev_free (c j) = b_prev_free (b j)" if "j \<in> set fs" for j
      using that assms(2) assms(5) [of j] by auto
    show "b_prev_free (c i) = Some l" using assms(2) assms(5) [of i] by auto
  qed (rule assms(3))
  moreover have "b_next_free (c i) = Some f" "b_prev_free (c f) = Some i" using assms(4) [of i] assms(5) [of f] l by auto
  ultimately have "fpath c f (fs @ [i]) f" using fpath_append [of c f fs i "[]" f] by simp
  then show ?thesis by (simp add: free_ring_def)
qed

subsection \<open>The hash queues\<close>

text \<open>\<open>dll b p c xs\<close>: from \<open>c\<close>, whose predecessor is \<open>p\<close>, the queue goes through \<open>xs\<close>.\<close>

fun dll :: "(nat \<Rightarrow> buffer_head) \<Rightarrow> nat option \<Rightarrow> nat option \<Rightarrow> nat list \<Rightarrow> bool" where
  "dll b p c [] \<longleftrightarrow> c = None"
| "dll b p c (x # xs) \<longleftrightarrow> c = Some x \<and> b_prev (b x) = p \<and> dll b (Some x) (b_next (b x)) xs"

lemma dll_cong:
  "(\<And>i. i \<in> set xs \<Longrightarrow> b_next (b i) = b_next (d i) \<and> b_prev (b i) = b_prev (d i)) \<Longrightarrow> dll b p c xs = dll d p c xs"
  by (induction xs arbitrary: p c) auto

lemma dll_prev: "dll b p c (as @ x # bs) \<Longrightarrow> b_prev (b x) = (if as = [] then p else Some (last as))"
  by (induction as arbitrary: p c) auto

lemma dll_next: "dll b p c (as @ x # bs) \<Longrightarrow> b_next (b x) = (if bs = [] then None else Some (hd bs))"
  by (induction as arbitrary: p c) (auto, cases bs, auto)

lemma dll_neighbours:
  assumes "dll b None c (as @ x # bs)" "b_next (b x) = Some j \<or> b_prev (b x) = Some j"
  shows "j \<in> set (as @ x # bs)"
  using assms(2) dll_prev [OF assms(1)] dll_next [OF assms(1)] hd_in_set [of bs] last_in_set [of as]
  by (auto split: if_splits)

text \<open>Taking \<open>x\<close> out of its queue.\<close>

lemma dll_remove:
  assumes "dll b p c (as @ x # bs)" "distinct (as @ x # bs)" "\<And>q. p = Some q \<Longrightarrow> q \<notin> set (as @ x # bs)"
    "\<And>j. b_prev (d j) = (if b_next (b x) = Some j then b_prev (b x) else b_prev (b j))"
    "\<And>j. j \<in> set (as @ bs) \<Longrightarrow> b_next (d j) = (if b_prev (b x) = Some j then b_next (b x) else b_next (b j))"
  shows "dll d p (if as = [] then b_next (b x) else c) (as @ bs)"
  using assms
proof (induction as arbitrary: p c)
  case Nil
  show ?case
  proof (cases bs)
    case (Cons y ys)
    have q: "b_next (b x) = Some y" "b_prev (b x) = p" "b_next (d y) = b_next (b y)"
      using Nil Cons by auto
    have "dll b (Some y) (b_next (b y)) ys" using Nil.prems(1) Cons by simp
    moreover have "dll d (Some y) (b_next (b y)) ys = dll b (Some y) (b_next (b y)) ys"
    proof (rule dll_cong)
      fix j assume j: "j \<in> set ys"
      then have "j \<noteq> y" "p \<noteq> Some j" using Nil.prems(2,3) Cons by auto
      then show "b_next (d j) = b_next (b j) \<and> b_prev (d j) = b_prev (b j)"
        using Nil.prems(4) [of j] Nil.prems(5) [of j] q j Cons by auto
    qed
    ultimately show ?thesis using q Nil.prems(4) [of y] Cons by simp
  qed (use Nil in simp)
next
  case (Cons a as)
  have n: "b_next (b x) \<noteq> Some a" using dll_next [OF Cons.prems(1)] Cons.prems(2) by (cases bs) auto
  have IH: "dll d (Some a) (if as = [] then b_next (b x) else b_next (b a)) (as @ bs)"
  proof (rule Cons.IH)
    show "dll b (Some a) (b_next (b a)) (as @ x # bs)" using Cons.prems(1) by simp
    show "distinct (as @ x # bs)" using Cons.prems(2) by simp
    show "q \<notin> set (as @ x # bs)" if "Some a = Some q" for q using that Cons.prems(2) by auto
    show "b_next (d j) = (if b_prev (b x) = Some j then b_next (b x) else b_next (b j))" if "j \<in> set (as @ bs)" for j
      using that Cons.prems(5) [of j] by simp
  qed (rule Cons.prems(4))
  have p: "b_prev (b x) = Some (last (a # as))" using dll_prev [OF Cons.prems(1)] by simp
  have "b_next (d a) = (if as = [] then b_next (b x) else b_next (b a))"
    using Cons.prems(5) [of a] p Cons.prems(2) last_in_set [of as] by (cases "as = []") auto
  then show ?case using IH n Cons.prems(1,4) by simp
qed

lemma dll_insert:
  assumes "dll b None c (n # ns)" "i \<notin> set (n # ns)" "distinct (n # ns)"
    "b_next (d i) = Some n" "b_prev (d i) = None" "b_prev (d n) = Some i" "b_next (d n) = b_next (b n)"
    "\<And>j. j \<in> set ns \<Longrightarrow> b_next (d j) = b_next (b j) \<and> b_prev (d j) = b_prev (b j)"
  shows "dll d None (Some i) (i # n # ns)"
proof -
  have "dll d (Some n) (b_next (b n)) ns = dll b (Some n) (b_next (b n)) ns" using assms(8) by (rule dll_cong)
  then show ?thesis using assms by simp
qed

lemma find_chain_dll:
  "dll b p c xs \<Longrightarrow>
   find_chain b dev block c = Some (find (\<lambda>i. uint (b_dev (b i)) = dev \<and> uint (b_blocknr (b i)) = block) xs)"
proof (induction xs arbitrary: p c)
  case Nil
  then show ?case by (subst find_chain.simps) simp
next
  case (Cons x xs)
  then show ?case by (subst find_chain.simps) auto
qed

subsection \<open>The cache\<close>

definition cached :: "'a kern_scheme \<Rightarrow> nat \<Rightarrow> bool" where
  "cached s i \<longleftrightarrow> i < nr_buffers s \<and> b_dev (bufs s i) \<noteq> 0"

definition cache_ok :: "'a kern_scheme \<Rightarrow> nat list \<Rightarrow> (nat \<Rightarrow> nat list) \<Rightarrow> bool" where
  "cache_ok s xs H \<longleftrightarrow>
     free_ring (bufs s) xs \<and> distinct xs \<and> set xs = {..<nr_buffers s} \<and> free_list s = Some (hd xs)
     \<and> (\<forall>k. dll (bufs s) None (hash_table s k) (H k) \<and> distinct (H k)
            \<and> set (H k) = {i. cached s i \<and> bh_hash (bufs s i) = k})
     \<and> (\<forall>i < nr_buffers s. b_dev (bufs s i) = 0 \<longrightarrow> b_next (bufs s i) = None \<and> b_prev (bufs s i) = None)"

definition cache_wf :: "'a kern_scheme \<Rightarrow> bool" where
  "cache_wf s \<longleftrightarrow> (\<exists>xs H. cache_ok s xs H)"

text \<open>Lookup is determined by the blocks the buffers hold.\<close>

definition holds :: "'a kern_scheme \<Rightarrow> int \<Rightarrow> int \<Rightarrow> nat \<Rightarrow> bool" where
  "holds s dev block i \<longleftrightarrow> cached s i \<and> uint (b_dev (bufs s i)) = dev \<and> uint (b_blocknr (bufs s i)) = block"

lemma find_buffer_cache:
  assumes "cache_wf s"
  shows "\<exists>r. find_buffer dev block s = Inr (r, s) \<and>
    (case r of None \<Rightarrow> \<forall>i. \<not> holds s dev block i | Some i \<Rightarrow> holds s dev block i)"
proof -
  obtain xs H where ok: "cache_ok s xs H" using assms by (auto simp: cache_wf_def)
  let ?P = "\<lambda>i. uint (b_dev (bufs s i)) = dev \<and> uint (b_blocknr (bufs s i)) = block"
  let ?k = "hashfn dev block"
  have d: "dll (bufs s) None (hash_table s ?k) (H ?k)" "set (H ?k) = {i. cached s i \<and> bh_hash (bufs s i) = ?k}"
    using ok by (auto simp: cache_ok_def)
  then have f: "find_buffer dev block s = Inr (find ?P (H ?k), s)"
    using find_chain_dll [OF d(1), of dev block] by (simp add: find_buffer_def)
  have h: "holds s dev block i \<longleftrightarrow> i \<in> set (H ?k) \<and> ?P i" for i
    using d(2) by (auto simp: holds_def bh_hash_def)
  show ?thesis
    using f h by (auto simp: find_None_iff find_Some_iff split: option.splits intro!: exI [of _ "find ?P (H ?k)"])
qed

subsection \<open>Taking a buffer out of its queues\<close>

text \<open>What a buffer says of its block, apart from the links.\<close>

definition same_block :: "'a kern_scheme \<Rightarrow> 'a kern_scheme \<Rightarrow> nat \<Rightarrow> bool" where
  "same_block s t j \<longleftrightarrow> b_dev (bufs t j) = b_dev (bufs s j) \<and> b_blocknr (bufs t j) = b_blocknr (bufs s j)
     \<and> b_data (bufs t j) = b_data (bufs s j) \<and> b_uptodate (bufs t j) = b_uptodate (bufs s j)
     \<and> b_dirt (bufs t j) = b_dirt (bufs s j) \<and> b_count (bufs t j) = b_count (bufs s j)"

lemma unhash_bufs:
  assumes "b_next (bufs s i) \<noteq> Some i" "b_prev (bufs s i) \<noteq> Some i"
  shows "bufs (unhash i s) j = (bufs s j)
      \<lparr>b_prev := (if b_next (bufs s i) = Some j then b_prev (bufs s i) else b_prev (bufs s j)),
       b_next := (if b_prev (bufs s i) = Some j then b_next (bufs s i) else b_next (bufs s j))\<rparr>"
    and "hash_table (unhash i s) = (if hash_table s (bh_hash (bufs s i)) = Some i
      then (hash_table s)(bh_hash (bufs s i) := b_next (bufs s i)) else hash_table s)"
    and "nr_buffers (unhash i s) = nr_buffers s" "free_list (unhash i s) = free_list s"
  using assms by (auto simp: unhash_def upd_buf_def Let_def bh_hash_def split: option.splits)

lemma filter_neq: "i \<notin> set xs \<Longrightarrow> filter (\<lambda>j. j \<noteq> i) xs = xs"
  by (induction xs) auto

definition unlinked :: "(nat \<Rightarrow> nat list) \<Rightarrow> nat \<Rightarrow> nat \<Rightarrow> nat list" where
  "unlinked H i k = filter (\<lambda>j. j \<noteq> i) (H k)"

lemma unhash_ok:
  assumes "cache_ok s xs H" "i < nr_buffers s"
  shows "b_next (bufs s i) \<noteq> Some i" "b_prev (bufs s i) \<noteq> Some i"
    "dll (bufs (unhash i s)) None (hash_table (unhash i s) k) (unlinked H i k)"
proof -
  let ?b = "bufs s" and ?k = "bh_hash (bufs s i)"
  have dH: "dll ?b None (hash_table s k) (H k)" "distinct (H k)"
    "set (H k) = {i. cached s i \<and> bh_hash (?b i) = k}" for k
    using assms(1) by (auto simp: cache_ok_def)
  have "b_next (?b i) \<noteq> Some i \<and> b_prev (?b i) \<noteq> Some i \<and> dll (bufs (unhash i s)) None (hash_table (unhash i s) k) (unlinked H i k)"
  proof (cases "cached s i")
    case True
    then have "i \<in> set (H ?k)" using dH(3) by simp
    then obtain as bs where H: "H ?k = as @ i # bs" by (metis split_list)
    note d = dH(1) [of ?k, unfolded H] and ds = dH(2) [of ?k, unfolded H]
    have pn: "b_prev (?b i) = (if as = [] then None else Some (last as))" "b_next (?b i) = (if bs = [] then None else Some (hd bs))"
      using dll_prev [OF d] dll_next [OF d] by auto
    have self: "b_next (?b i) \<noteq> Some i" "b_prev (?b i) \<noteq> Some i"
      using pn ds by (auto split: if_splits)
    note u = unhash_bufs [OF self]
    have ht: "hash_table s ?k = Some i \<longleftrightarrow> as = []" using d ds by (cases as) auto
    show ?thesis
    proof (cases "k = ?k")
      case True
      have "dll (bufs (unhash i s)) None (if as = [] then b_next (?b i) else hash_table s ?k) (as @ bs)"
        by (rule dll_remove [OF d ds]) (simp_all add: u(1))
      moreover have "hash_table (unhash i s) ?k = (if as = [] then b_next (?b i) else hash_table s ?k)"
        using u(2) ht by simp
      moreover have "unlinked H i ?k = as @ bs" using ds by (simp add: unlinked_def H filter_neq)
      ultimately show ?thesis using True self by simp
    next
      case False
      have "j \<notin> set (H ?k)" if "j \<in> set (H k)" for j using that False dH(3) by auto
      then have n: "b_next (?b i) \<noteq> Some j \<and> b_prev (?b i) \<noteq> Some j" if "j \<in> set (H k)" for j
        using that dll_neighbours [OF d] H by metis
      have "dll (bufs (unhash i s)) None (hash_table s k) (H k) = dll ?b None (hash_table s k) (H k)"
        using n by (intro dll_cong) (simp add: u(1))
      moreover have "unlinked H i k = H k" using False dH(3) by (auto simp: unlinked_def filter_id_conv)
      ultimately show ?thesis using False self dH(1) [of k] u(2) by simp
    qed
  next
    case False
    then have e: "b_next (?b i) = None" "b_prev (?b i) = None"
      using assms by (auto simp: cache_ok_def cached_def)
    have ni: "i \<notin> set (H k)" for k using False dH(3) by auto
    have "hash_table s k \<noteq> Some i" for k using dH(1) [of k] ni [of k] by (cases "H k") auto
    then have "unhash i s = s" using e by (simp add: unhash_def Let_def)
    moreover have "unlinked H i k = H k" using ni by (auto simp: unlinked_def filter_id_conv)
    ultimately show ?thesis using e dH(1) [of k] by simp
  qed
  then show "b_next (bufs s i) \<noteq> Some i" "b_prev (bufs s i) \<noteq> Some i"
    "dll (bufs (unhash i s)) None (hash_table (unhash i s) k) (unlinked H i k)" by blast+
qed

lemma neighbours_cached:
  assumes "cache_ok s xs H" "i < nr_buffers s" "b_next (bufs s i) = Some j \<or> b_prev (bufs s i) = Some j"
  shows "cached s j"
proof -
  have c: "cached s i" using assms by (auto simp: cache_ok_def cached_def)
  have H: "dll (bufs s) None (hash_table s k) (H k)" "set (H k) = {i. cached s i \<and> bh_hash (bufs s i) = k}" for k
    using assms(1) by (auto simp: cache_ok_def)
  obtain as bs where "H (bh_hash (bufs s i)) = as @ i # bs" using H(2) c by (metis (mono_tags) mem_Collect_eq split_list)
  then have "j \<in> set (H (bh_hash (bufs s i)))" using dll_neighbours [of "bufs s" _ as i bs j] assms(3) H(1) [of "bh_hash (bufs s i)"] by simp
  then show ?thesis using H(2) by simp
qed

text \<open>Taking a buffer out of the free list.\<close>

lemma unfree_bufs:
  assumes "b_prev_free (bufs s i) = Some p" "b_next_free (bufs s i) = Some n" "p \<noteq> i" "n \<noteq> i"
  shows "\<exists>t. unfree i s = Inr ((), t)
    \<and> (\<forall>j. bufs t j = (bufs s j)\<lparr>b_next_free := (if j = p then Some n else b_next_free (bufs s j)),
                                b_prev_free := (if j = n then Some p else b_prev_free (bufs s j))\<rparr>)
    \<and> free_list t = (if free_list s = Some i then Some n else free_list s)
    \<and> nr_buffers t = nr_buffers s \<and> hash_table t = hash_table s"
  using assms by (auto simp: unfree_def upd_buf_def Let_def)

lemma remove_ok:
  assumes "cache_ok s xs H" "i < nr_buffers s" "2 \<le> nr_buffers s"
  shows "\<exists>t f fs. remove_from_queues i s = Inr ((), t) \<and> free_ring (bufs t) (f # fs) \<and> distinct (i # f # fs)
    \<and> set (i # f # fs) = {..<nr_buffers s} \<and> free_list t = Some f \<and> nr_buffers t = nr_buffers s
    \<and> (\<forall>k. dll (bufs t) None (hash_table t k) (unlinked H i k))
    \<and> (\<forall>j. same_block s t j)
    \<and> (\<forall>j. j \<noteq> i \<and> j < nr_buffers s \<and> b_dev (bufs s j) = 0 \<longrightarrow> b_next (bufs t j) = None \<and> b_prev (bufs t j) = None)"
proof -
  have r: "free_ring (bufs s) xs" "distinct xs" "set xs = {..<nr_buffers s}" "free_list s = Some (hd xs)"
    and z: "\<And>j. j < nr_buffers s \<Longrightarrow> b_dev (bufs s j) = 0 \<Longrightarrow> b_next (bufs s j) = None \<and> b_prev (bufs s j) = None"
    using assms(1) by (auto simp: cache_ok_def)
  obtain as bs where xs: "xs = as @ i # bs" using r(3) assms(2) by (metis lessThan_iff split_list)
  obtain f fs where ff: "bs @ as = f # fs"
  proof (cases "bs @ as")
    case Nil
    then have "length xs = 1" using xs by simp
    moreover have "length xs = nr_buffers s" using r(2,3) by (metis card_lessThan distinct_card)
    ultimately show ?thesis using assms(3) by simp
  qed
  let ?u = "unhash i s" and ?l = "last (f # fs)"
  note u = unhash_bufs [OF unhash_ok(1,2) [OF assms(1,2)]]
  have ds: "distinct (i # f # fs)" using r(2) xs ff by (metis distinct.simps(2) distinct_append distinct_rotate
    list.set_intros(1) append_Cons rotate1.simps(2) rotate_append)
  have st: "set (i # f # fs) = {..<nr_buffers s}" using r(3) xs ff by (metis Un_commute insert_is_Un list.simps(15) set_append sup_assoc sup_left_commute)
  have ring_u: "free_ring (bufs ?u) (i # f # fs)"
    using r(1) ring_rotate [of "bufs s" as i bs] xs ff ring_cong [of "bufs ?u" "bufs s"] u(1) by simp
  then have pn: "b_next_free (bufs ?u i) = Some f" "b_prev_free (bufs ?u i) = Some ?l"
    using fpath_last [of "bufs ?u" f fs i] by (auto simp: free_ring_def)
  have "?l \<noteq> i" "f \<noteq> i" using ds last_in_set [of "f # fs"] by auto
  then obtain t where t: "unfree i ?u = Inr ((), t)"
    "\<And>j. bufs t j = (bufs ?u j)\<lparr>b_next_free := (if j = ?l then Some f else b_next_free (bufs ?u j)),
        b_prev_free := (if j = f then Some ?l else b_prev_free (bufs ?u j))\<rparr>"
    "free_list t = (if free_list s = Some i then Some f else free_list s)" "nr_buffers t = nr_buffers s"
    "hash_table t = hash_table ?u"
    using unfree_bufs [OF pn(2,1)] u(3,4) by auto
  have ring_t: "free_ring (bufs t) (f # fs)"
    by (rule ring_unfree [OF ring_u ds refl]) (simp_all add: t(2))
  obtain g gs where g: "free_ring (bufs t) (g # gs)" "distinct (i # g # gs)" "set (i # g # gs) = {..<nr_buffers s}"
    "free_list t = Some g"
  proof (cases as)
    case Nil
    then show ?thesis using that [OF ring_t ds st] t(3) r(4) xs by simp
  next
    case (Cons a as')
    have "free_ring (bufs t) (a # as' @ bs)" using ring_t ring_rotate [of "bufs t" bs a as'] Cons ff by simp
    moreover have "free_list t = Some a" using t(3) r(2,4) xs Cons by auto
    moreover have "distinct (i # a # as' @ bs)" "set (i # a # as' @ bs) = {..<nr_buffers s}" using r(2,3) xs Cons by auto
    ultimately show ?thesis using that by blast
  qed
  have "dll (bufs t) None (hash_table t k) (unlinked H i k)" for k
    using unhash_ok(3) [OF assms(1,2), of k] dll_cong [of "unlinked H i k" "bufs t" "bufs ?u"] t(2,5) by simp
  moreover have "b_next (bufs t j) = None \<and> b_prev (bufs t j) = None"
    if "j \<noteq> i" "j < nr_buffers s" "b_dev (bufs s j) = 0" for j
    using that z [of j] neighbours_cached [OF assms(1,2), of j] t(2) [of j] u(1) [of j] by (auto simp: cached_def)
  moreover have "remove_from_queues i s = Inr ((), t)" using t(1) by (simp add: remove_from_queues_def)
  moreover have "same_block s t j" for j by (simp add: same_block_def t(2) u(1))
  ultimately show ?thesis using g t(4) by (intro exI [of _ t] exI [of _ g] exI [of _ gs]) simp
qed

subsection \<open>Putting a buffer into its queues\<close>

lemma enfree_bufs:
  assumes "free_list s = Some f" "b_prev_free (bufs s f) = Some l" "i \<noteq> f" "i \<noteq> l"
  shows "\<exists>t. enfree i s = Inr ((), t)
    \<and> (\<forall>j. bufs t j = (bufs s j)
        \<lparr>b_next_free := (if j = l then Some i else if j = i then Some f else b_next_free (bufs s j)),
         b_prev_free := (if j = f then Some i else if j = i then Some l else b_prev_free (bufs s j))\<rparr>)
    \<and> free_list t = free_list s \<and> nr_buffers t = nr_buffers s \<and> hash_table t = hash_table s"
  using assms by (auto simp: enfree_def upd_buf_def Let_def)

lemma enhash_bufs:
  assumes "b_dev (bufs s i) \<noteq> 0" "hash_table s (bh_hash (bufs s i)) = Some n" "n \<noteq> i"
  shows "\<exists>t. enhash i s = Inr ((), t)
    \<and> (\<forall>j. bufs t j = (bufs s j)
        \<lparr>b_next := (if j = i then Some n else b_next (bufs s j)),
         b_prev := (if j = n then Some i else if j = i then None else b_prev (bufs s j))\<rparr>)
    \<and> free_list t = free_list s \<and> nr_buffers t = nr_buffers s
    \<and> hash_table t = (hash_table s)(bh_hash (bufs s i) := Some i)"
  using assms by (auto simp: enhash_def upd_buf_def Let_def bh_hash_def)

lemma insert_ok:
  assumes "free_ring (bufs s) (f # fs)" "distinct (i # f # fs)" "set (i # f # fs) = {..<nr_buffers s}"
    "free_list s = Some f"
    "\<And>k. dll (bufs s) None (hash_table s k) (G k) \<and> distinct (G k)
       \<and> set (G k) = {j. j \<noteq> i \<and> cached s j \<and> bh_hash (bufs s j) = k}"
    "\<And>j. j \<noteq> i \<Longrightarrow> j < nr_buffers s \<Longrightarrow> b_dev (bufs s j) = 0 \<Longrightarrow> b_next (bufs s j) = None \<and> b_prev (bufs s j) = None"
    "b_dev (bufs s i) \<noteq> 0" "G (bh_hash (bufs s i)) \<noteq> []"
  shows "\<exists>t. insert_into_queues i s = Inr ((), t) \<and> cache_wf t \<and> nr_buffers t = nr_buffers s \<and> (\<forall>j. same_block s t j)"
proof -
  let ?k = "bh_hash (bufs s i)" and ?l = "last (f # fs)"
  obtain n ns where G: "G ?k = n # ns" using assms(8) by (cases "G ?k") auto
  have "?l \<in> set (f # fs)" by (rule last_in_set) simp
  then have i: "i \<noteq> f" "i \<noteq> ?l" using assms(2) by (auto simp del: last.simps)
  have ni: "n \<noteq> i" using assms(5) [of ?k] G by auto
  have nr: "i < nr_buffers s" using assms(3) by (metis lessThan_iff list.set_intros(1))
  have l: "b_prev_free (bufs s f) = Some ?l" using assms(1) fpath_last [of "bufs s" f fs f] by (simp add: free_ring_def)
  obtain u where u: "enfree i s = Inr ((), u)" "free_list u = Some f" "nr_buffers u = nr_buffers s" "hash_table u = hash_table s"
    and ub: "\<And>j. bufs u j = (bufs s j)
      \<lparr>b_next_free := (if j = ?l then Some i else if j = i then Some f else b_next_free (bufs s j)),
       b_prev_free := (if j = f then Some i else if j = i then Some ?l else b_prev_free (bufs s j))\<rparr>"
    using enfree_bufs [OF assms(4) l i(1,2)] assms(4) by auto
  have hs: "bh_hash (bufs u j) = bh_hash (bufs s j)" for j by (simp add: bh_hash_def ub)
  have "hash_table u ?k = Some n" using assms(5) [of ?k] G u(4) by simp
  then obtain t where t: "enhash i u = Inr ((), t)" "free_list t = Some f" "nr_buffers t = nr_buffers s"
    "hash_table t = (hash_table s)(?k := Some i)"
    and tb: "\<And>j. bufs t j = (bufs u j)\<lparr>b_next := (if j = i then Some n else b_next (bufs u j)),
       b_prev := (if j = n then Some i else if j = i then None else b_prev (bufs u j))\<rparr>"
    using enhash_bufs [of u i n] assms(7) ni u hs by (auto simp: ub)
  have hst: "bh_hash (bufs t j) = bh_hash (bufs s j)" "b_dev (bufs t j) = b_dev (bufs s j)" for j
    by (simp_all add: bh_hash_def tb ub)
  then have ct: "cached t j = cached s j" for j using t(3) by (simp add: cached_def)
  have "free_ring (bufs u) ((f # fs) @ [i])" by (rule ring_enfree [OF assms(1,2) refl]) (simp_all add: ub)
  then have ring_t: "free_ring (bufs t) ((f # fs) @ [i])" using ring_cong [of "bufs t" "bufs u"] tb by simp
  let ?H = "G(?k := i # G ?k)"
  have dt: "dll (bufs t) None (hash_table t k) (?H k) \<and> distinct (?H k)
      \<and> set (?H k) = {j. cached t j \<and> bh_hash (bufs t j) = k}" for k
  proof (cases "k = ?k")
    case True
    have "dll (bufs t) None (Some i) (i # n # ns)"
    proof (rule dll_insert)
      show "dll (bufs s) None (hash_table s ?k) (n # ns)" "distinct (n # ns)" "i \<notin> set (n # ns)"
        using assms(5) [of ?k] G by auto
      show "b_next (bufs t j) = b_next (bufs s j) \<and> b_prev (bufs t j) = b_prev (bufs s j)" if "j \<in> set ns" for j
        using that assms(5) [of ?k] G by (auto simp: tb ub)
    qed (use ni in \<open>simp_all add: tb ub\<close>)
    moreover have "cached t i" using assms(7) nr ct by (simp add: cached_def)
    ultimately show ?thesis using True t(4) assms(5) [of ?k] G hst ct by auto
  next
    case False
    have "n \<notin> set (G k)" using False assms(5) [of ?k] assms(5) [of k] G by auto
    then have "dll (bufs t) None (hash_table s k) (G k) = dll (bufs s) None (hash_table s k) (G k)"
      using assms(5) [of k] by (intro dll_cong) (auto simp: tb ub)
    then show ?thesis using False t(4) assms(5) [of k] hst ct by auto
  qed
  have z: "b_next (bufs t j) = None \<and> b_prev (bufs t j) = None" if "j < nr_buffers t" "b_dev (bufs t j) = 0" for j
  proof -
    have "j \<noteq> i" "j \<noteq> n" using that assms(5) [of ?k] assms(7) G hst by (auto simp: cached_def)
    then show ?thesis using assms(6) [of j] that t(3) hst by (simp add: tb ub)
  qed
  have "cache_ok t ((f # fs) @ [i]) ?H"
    unfolding cache_ok_def using ring_t dt z assms(2,3) t(2,3) by auto
  moreover have "same_block s t j" for j by (simp add: same_block_def tb ub)
  ultimately show ?thesis using u t by (auto simp: cache_wf_def insert_into_queues_def kseq_def kbind_def)
qed

subsection \<open>Moving a buffer to another block\<close>

lemma uint16: "0 \<le> x \<Longrightarrow> x < 2 ^ 16 \<Longrightarrow> uint (word_of_int x :: u16) = x"
  by (simp add: uint_word_of_int)

lemma kseq_Inr: "m s = Inr (u, t) \<Longrightarrow> kseq m n s = n t"
  and kbind_Inr: "m s = Inr (a, t) \<Longrightarrow> kbind m f s = f a t"
  by (simp_all add: kseq_def kbind_def)

definition block_range :: "int \<Rightarrow> int \<Rightarrow> bool" where
  "block_range dev block \<longleftrightarrow> 0 < dev \<and> dev < 2 ^ 16 \<and> 0 \<le> block \<and> block < 2 ^ 16"

text \<open>The state of \<open>claim_buf\<close> just before \<open>insert_into_queues\<close>.\<close>

lemma claim_buf_prefix:
  assumes "cache_ok s xs H" "2 \<le> nr_buffers s" "i < nr_buffers s" "b_dirt (bufs s i) = 0" "block_range dev block"
    "\<And>j. j \<noteq> i \<Longrightarrow> \<not> holds s dev block j"
  shows "\<exists>t f fs. claim_buf dev block i s = kseq (insert_into_queues i) (kreturn (Some i)) t
    \<and> free_ring (bufs t) (f # fs) \<and> distinct (i # f # fs) \<and> set (i # f # fs) = {..<nr_buffers t}
    \<and> free_list t = Some f \<and> nr_buffers t = nr_buffers s
    \<and> (\<forall>k. dll (bufs t) None (hash_table t k) (unlinked H i k) \<and> distinct (unlinked H i k)
         \<and> set (unlinked H i k) = {j. j \<noteq> i \<and> cached t j \<and> bh_hash (bufs t j) = k})
    \<and> (\<forall>j. j \<noteq> i \<longrightarrow> same_block s t j)
    \<and> (\<forall>j. j \<noteq> i \<longrightarrow> j < nr_buffers s \<longrightarrow> b_dev (bufs t j) = 0 \<longrightarrow> b_next (bufs t j) = None \<and> b_prev (bufs t j) = None)
    \<and> b_dev (bufs t i) = word_of_int dev \<and> b_blocknr (bufs t i) = word_of_int block
    \<and> bh_hash (bufs t i) = hashfn dev block \<and> b_count (bufs t i) = b_count (bufs s i)"
proof -
  obtain r f fs where r: "remove_from_queues i s = Inr ((), r)" "free_ring (bufs r) (f # fs)" "distinct (i # f # fs)"
    "set (i # f # fs) = {..<nr_buffers s}" "free_list r = Some f" "nr_buffers r = nr_buffers s"
    "\<And>k. dll (bufs r) None (hash_table r k) (unlinked H i k)" "\<And>j. same_block s r j"
    "\<And>j. j \<noteq> i \<Longrightarrow> j < nr_buffers s \<Longrightarrow> b_dev (bufs s j) = 0 \<Longrightarrow> b_next (bufs r j) = None \<and> b_prev (bufs r j) = None"
    using remove_ok [OF assms(1,3,2)] by blast
  define t where "t = upd_buf i (\<lambda>h. h\<lparr>b_dev := word_of_int dev, b_blocknr := word_of_int block, b_dirt := 0, b_uptodate := 0\<rparr>) r"
  have tb: "bufs t j = (if j = i then (bufs r i)\<lparr>b_dev := word_of_int dev, b_blocknr := word_of_int block, b_dirt := 0,
      b_uptodate := 0\<rparr> else bufs r j)" for j by (simp add: t_def upd_buf_def)
  have tf: "free_list t = free_list r" "nr_buffers t = nr_buffers r" "hash_table t = hash_table r"
    by (simp_all add: t_def upd_buf_def)
  have sb: "same_block s t j" if "j \<noteq> i" for j using r(8) [of j] that by (simp add: same_block_def tb)
  have hash_i: "bh_hash (bufs t i) = hashfn dev block"
    using assms(5) by (simp add: tb bh_hash_def block_range_def uint16)
  have d: "dll (bufs t) None (hash_table t k) (unlinked H i k)" for k
    using r(7) [of k] dll_cong [of "unlinked H i k" "bufs t" "bufs r"] tf by (simp add: tb)
  have st: "distinct (unlinked H i k) \<and> set (unlinked H i k) = {j. j \<noteq> i \<and> cached t j \<and> bh_hash (bufs t j) = k}" for k
  proof -
    have "distinct (H k)" "set (H k) = {j. cached s j \<and> bh_hash (bufs s j) = k}" using assms(1) by (auto simp: cache_ok_def)
    moreover have "cached t j = cached s j \<and> bh_hash (bufs t j) = bh_hash (bufs s j)" if "j \<noteq> i" for j
      using sb [OF that] tf r(6) by (simp add: same_block_def cached_def bh_hash_def)
    ultimately show ?thesis by (auto simp: unlinked_def)
  qed
  have "free_ring (bufs t) (f # fs)" using r(2) ring_cong [of "bufs t" "bufs r"] by (simp add: tb)
  moreover have "claim_buf dev block i s = kseq (insert_into_queues i) (kreturn (Some i)) t"
  proof -
    have dirt: "b_dirt (bufs r i) = 0" using r(8) [of i] assms(4) by (simp add: same_block_def)
    have "\<not> (uint (b_dev (bufs t j)) = dev \<and> uint (b_blocknr (bufs t j)) = block)"
      if "j \<in> set (unlinked H i (hashfn dev block))" for j
    proof -
      have j: "j \<noteq> i" "cached t j" using that st [of "hashfn dev block"] by auto
      then show ?thesis using assms(6) [of j] sb [of j] tf r(6) by (auto simp: holds_def same_block_def cached_def)
    qed
    then have "find (\<lambda>j. uint (b_dev (bufs t j)) = dev \<and> uint (b_blocknr (bufs t j)) = block) (unlinked H i (hashfn dev block)) = None"
      by (simp add: find_None_iff)
    then have "find_buffer dev block t = Inr (None, t)"
      using find_chain_dll [OF d, of dev block "hashfn dev block"] by (simp add: find_buffer_def)
    then show ?thesis unfolding claim_buf_def using r(1) dirt by (simp add: kseq_Inr kbind_Inr t_def [symmetric])
  qed
  moreover have "b_next (bufs t j) = None \<and> b_prev (bufs t j) = None"
    if "j \<noteq> i" "j < nr_buffers s" "b_dev (bufs t j) = 0" for j
    using r(9) [of j] that sb [of j] by (simp add: tb same_block_def)
  moreover have "b_count (bufs t i) = b_count (bufs s i)" using r(8) [of i] by (simp add: tb same_block_def)
  ultimately show ?thesis
    using r(3-6) tf d st sb hash_i tb by (intro exI [of _ t] exI [of _ f] exI [of _ fs]) simp
qed

subsection \<open>The contract of a block cache\<close>

text \<open>What the file system relies on: a lookup finds a buffer that holds the block if there is one,
  no block is in two buffers, and giving a buffer to a block that is not cached makes it hold
  that block and leaves the other buffers alone.\<close>

locale block_cache =
  fixes invar :: "'s \<Rightarrow> bool" and holding :: "'s \<Rightarrow> 'k \<Rightarrow> nat \<Rightarrow> bool" and lookup :: "'s \<Rightarrow> 'k \<Rightarrow> nat option"
    and can_install :: "'k \<Rightarrow> nat \<Rightarrow> 's \<Rightarrow> bool" and install :: "'k \<Rightarrow> nat \<Rightarrow> 's \<Rightarrow> 's option"
  assumes lookup_Some: "invar s \<Longrightarrow> lookup s k = Some i \<Longrightarrow> holding s k i"
    and lookup_None: "invar s \<Longrightarrow> lookup s k = None \<Longrightarrow> \<not> holding s k i"
    and unique: "invar s \<Longrightarrow> holding s k i \<Longrightarrow> holding s k j \<Longrightarrow> i = j"
    and one_key: "holding s k i \<Longrightarrow> holding s l i \<Longrightarrow> k = l"
    and install: "invar s \<Longrightarrow> can_install k i s \<Longrightarrow> \<exists>t. install k i s = Some t \<and> invar t \<and> holding t k i
      \<and> (\<forall>l j. j \<noteq> i \<longrightarrow> holding t l j = holding s l j)"
begin

lemma lookup_iff: "invar s \<Longrightarrow> lookup s k = Some i \<longleftrightarrow> holding s k i"
  using lookup_Some lookup_None unique by (metis not_None_eq)

text \<open>After the installation the cache is the old one with the block added and the block the buffer
  held before removed.\<close>

lemma lookup_install:
  assumes "invar s" "can_install k i s" "install k i s = Some t"
  shows "lookup t = (\<lambda>l. if l = k then Some i else if lookup s l = Some i then None else lookup s l) \<and> invar t"
proof -
  have t: "invar t" "holding t k i" "\<And>l j. j \<noteq> i \<Longrightarrow> holding t l j = holding s l j"
    using install [OF assms(1,2)] assms(3) by auto
  have "lookup t l = (if l = k then Some i else if lookup s l = Some i then None else lookup s l)" for l
  proof (cases "l = k")
    case True
    then show ?thesis using t lookup_iff by simp
  next
    case False
    then have "\<not> holding t l i" using t(2) one_key by blast
    then have "holding t l j \<longleftrightarrow> j \<noteq> i \<and> holding s l j" for j
      using t(3) [of j l] by (cases "j = i") auto
    then have "lookup t l = Some j \<longleftrightarrow> j \<noteq> i \<and> lookup s l = Some j" for j
      using lookup_iff [OF t(1)] lookup_iff [OF assms(1)] by simp
    then show ?thesis using False by (metis not_None_eq)
  qed
  then show ?thesis using t(1) by auto
qed

end

text \<open>The buffer cache of the kernel keeps the contract.\<close>

definition cache_inv :: "'a kern_scheme \<Rightarrow> bool" where
  "cache_inv s \<longleftrightarrow> cache_wf s \<and> 2 \<le> nr_buffers s \<and>
     (\<forall>dev block i j. holds s dev block i \<longrightarrow> holds s dev block j \<longrightarrow> i = j)"

definition cache_lookup :: "'a kern_scheme \<Rightarrow> int \<times> int \<Rightarrow> nat option" where
  "cache_lookup s k = (case find_buffer (fst k) (snd k) s of Inr (r, _) \<Rightarrow> r | Inl _ \<Rightarrow> None)"

text \<open>The buffer is clean, the block not cached, and its hash queue not empty without the buffer.\<close>

definition can_claim :: "int \<times> int \<Rightarrow> nat \<Rightarrow> 'a kern_scheme \<Rightarrow> bool" where
  "can_claim k i s \<longleftrightarrow> i < nr_buffers s \<and> b_dirt (bufs s i) = 0 \<and> block_range (fst k) (snd k)
     \<and> (\<forall>j. \<not> holds s (fst k) (snd k) j)
     \<and> (\<exists>j. j \<noteq> i \<and> cached s j \<and> bh_hash (bufs s j) = hashfn (fst k) (snd k))"

definition cache_install :: "int \<times> int \<Rightarrow> nat \<Rightarrow> 'a kern_scheme \<Rightarrow> 'a kern_scheme option" where
  "cache_install k i s = (case claim_buf (fst k) (snd k) i s of Inr (Some j, t) \<Rightarrow> if j = i then Some t else None | _ \<Rightarrow> None)"

lemma claim_buf_installs:
  assumes "cache_inv s" "can_claim (dev, block) i s"
  shows "\<exists>t. claim_buf dev block i s = Inr (Some i, t) \<and> cache_inv t \<and> holds t dev block i
    \<and> (\<forall>d b j. j \<noteq> i \<longrightarrow> holds t d b j = holds s d b j) \<and> b_count (bufs t i) = b_count (bufs s i)"
proof -
  obtain xs H where ok: "cache_ok s xs H" and nr: "2 \<le> nr_buffers s"
    and un: "\<And>d b i j. holds s d b i \<Longrightarrow> holds s d b j \<Longrightarrow> i = j"
    using assms(1) unfolding cache_inv_def cache_wf_def by blast
  have c: "i < nr_buffers s" "b_dirt (bufs s i) = 0" "block_range dev block" "\<And>j. \<not> holds s dev block j"
    "\<exists>j. j \<noteq> i \<and> cached s j \<and> bh_hash (bufs s j) = hashfn dev block"
    using assms(2) by (auto simp: can_claim_def)
  obtain t f fs where t: "claim_buf dev block i s = kseq (insert_into_queues i) (kreturn (Some i)) t"
    "free_ring (bufs t) (f # fs)" "distinct (i # f # fs)" "set (i # f # fs) = {..<nr_buffers t}"
    "free_list t = Some f" "nr_buffers t = nr_buffers s"
    "\<And>k. dll (bufs t) None (hash_table t k) (unlinked H i k) \<and> distinct (unlinked H i k)
       \<and> set (unlinked H i k) = {j. j \<noteq> i \<and> cached t j \<and> bh_hash (bufs t j) = k}"
    "\<And>j. j \<noteq> i \<Longrightarrow> same_block s t j"
    "\<And>j. j \<noteq> i \<Longrightarrow> j < nr_buffers s \<Longrightarrow> b_dev (bufs t j) = 0 \<Longrightarrow> b_next (bufs t j) = None \<and> b_prev (bufs t j) = None"
    "b_dev (bufs t i) = word_of_int dev" "b_blocknr (bufs t i) = word_of_int block"
    "bh_hash (bufs t i) = hashfn dev block" "b_count (bufs t i) = b_count (bufs s i)"
    using claim_buf_prefix [OF ok nr c(1-3)] c(4) by blast
  have ct: "cached t j = cached s j \<and> bh_hash (bufs t j) = bh_hash (bufs s j)" if "j \<noteq> i" for j
    using t(8) [OF that] t(6) by (simp add: same_block_def cached_def bh_hash_def)
  have ud: "uint (word_of_int dev :: u16) = dev" "uint (word_of_int block :: u16) = block" "(word_of_int dev :: u16) \<noteq> 0"
    using c(3) uint16 [of dev] uint16 [of block] by (auto simp: block_range_def)
  have "unlinked H i (bh_hash (bufs t i)) \<noteq> []"
  proof -
    obtain j where "j \<noteq> i" "cached s j" "bh_hash (bufs s j) = hashfn dev block" using c(5) by blast
    then have "j \<in> set (unlinked H i (hashfn dev block))" using t(7) [of "hashfn dev block"] ct by auto
    then show ?thesis using t(12) by (metis empty_iff empty_set)
  qed
  then obtain u where u: "insert_into_queues i t = Inr ((), u)" "cache_wf u" "nr_buffers u = nr_buffers t" "\<And>j. same_block t u j"
    using insert_ok [OF t(2-5,7)] t(6,9,10) ud(3) by metis
  have h: "holds u d b j = (if j = i then d = dev \<and> b = block else holds s d b j)" for d b j
    using u(3) u(4) [of j] t(6) t(8) [of j] t(10,11) c(1) ud by (auto simp: holds_def cached_def same_block_def)
  have "cache_inv u"
    unfolding cache_inv_def using u(2,3) t(6) nr un c(4) by (auto simp: h split: if_splits)
  moreover have "b_count (bufs u i) = b_count (bufs s i)" using u(4) [of i] t(13) by (simp add: same_block_def)
  ultimately show ?thesis using t(1) u(1) h by (auto simp: kseq_def kbind_def kreturn_def)
qed

interpretation buffer_cache: block_cache cache_inv "\<lambda>s k. holds s (fst k) (snd k)" cache_lookup can_claim cache_install
proof
  fix s :: "'a kern_scheme" and k l :: "int \<times> int" and i j
  show "holds s (fst k) (snd k) i" if "cache_inv s" "cache_lookup s k = Some i"
    using that find_buffer_cache [of s "fst k" "snd k"] by (auto simp: cache_inv_def cache_lookup_def)
  show "\<not> holds s (fst k) (snd k) i" if "cache_inv s" "cache_lookup s k = None"
    using that find_buffer_cache [of s "fst k" "snd k"] by (auto simp: cache_inv_def cache_lookup_def)
  show "i = j" if "cache_inv s" "holds s (fst k) (snd k) i" "holds s (fst k) (snd k) j"
    using that by (auto simp: cache_inv_def)
  show "k = l" if "holds s (fst k) (snd k) i" "holds s (fst l) (snd l) i"
    using that by (auto simp: holds_def prod_eq_iff)
  show "\<exists>t. cache_install k i s = Some t \<and> cache_inv t \<and> holds t (fst k) (snd k) i
      \<and> (\<forall>l j. j \<noteq> i \<longrightarrow> holds t (fst l) (snd l) j = holds s (fst l) (snd l) j)"
    if "cache_inv s" "can_claim k i s"
    using claim_buf_installs [of s "fst k" "snd k" i] that by (auto simp: cache_install_def)
qed

subsection \<open>Properties\<close>

definition small_cache :: kern where
  "small_cache = boot_kern\<lparr>nr_buffers := 2, free_list := Some 1, hash_table := (\<lambda>_. None)(154 := Some 0),
     bufs := (bufs boot_kern)(
       0 := (bufs boot_kern 0)\<lparr>b_dev := 0x301, b_blocknr := 1, b_prev_free := Some 1, b_next_free := Some 1\<rparr>,
       1 := (bufs boot_kern 1)\<lparr>b_prev_free := Some 0, b_next_free := Some 0\<rparr>)\<rparr>"

lemma boot_kern_buf: "bufs boot_kern i = \<lparr>b_data = \<lambda>_. 0, b_dev = 0, b_blocknr = 0, b_uptodate = 0,
    b_dirt = 0, b_count = 0, b_lock = 0, b_prev = None, b_next = None, b_prev_free = None, b_next_free = None\<rparr>"
  by (simp add: boot_kern_def ttys.extend_def sched.extend_def)

lemma small_cache_cached: "cached small_cache i \<longleftrightarrow> i = 0"
  by (auto simp: cached_def small_cache_def boot_kern_buf)

lemma small_cache_inv: "cache_inv small_cache"
proof -
  have h: "bh_hash (bufs small_cache 0) = 154"
    by (simp add: small_cache_def boot_kern_buf bh_hash_def hashfn_def NR_HASH_def)
  have r: "free_ring (bufs small_cache) [1, 0]" by (simp add: free_ring_def small_cache_def)
  have "cache_ok small_cache [1, 0] ((\<lambda>_. [])(154 := [0]))"
    unfolding cache_ok_def small_cache_cached using r h
    by (auto simp: small_cache_def boot_kern_buf)
  then show ?thesis unfolding cache_inv_def cache_wf_def holds_def small_cache_cached
    by (auto simp: small_cache_def)
qed

lemma fpath_upt:
  assumes "\<And>j. i \<le> j \<Longrightarrow> j < n \<Longrightarrow> b_next_free (b j) = Some (Suc j) \<and> b_prev_free (b (Suc j)) = Some j"
    "b_next_free (b n) = Some z" "b_prev_free (b z) = Some n" "i \<le> n"
  shows "fpath b i [Suc i..<Suc n] z"
  using assms(1,4)
proof (induction "n - i" arbitrary: i)
  case 0
  then show ?case using assms(2,3) by simp
next
  case (Suc m)
  then have "fpath b (Suc i) [Suc (Suc i)..<Suc n] z" by (intro Suc.hyps(1)) auto
  moreover have "[Suc i..<Suc n] = Suc i # [Suc (Suc i)..<Suc n]" using Suc.hyps(2) by (intro upt_conv_Cons) simp
  moreover have "i < n" using Suc.hyps(2) by simp
  ultimately show ?case using Suc.prems(1) [of i] by (simp del: upt_Suc)
qed

lemma buffer_rounds_fit: "56 * buffer_rounds h b + 1024 * buffer_rounds h b \<le> b - h"
proof (induction h b rule: buffer_rounds.induct)
  case (1 h b)
  then show ?case by (subst (1 2) buffer_rounds.simps) auto
qed

lemma buffer_init_cache:
  assumes "nr_buffers s = 0" "\<forall>k. NR_HASH \<le> k \<longrightarrow> hash_table s k = None" "buffer_init s = Inr ((), t)"
  shows "cache_wf t \<and> (\<forall>i. \<not> cached t i) \<and> 0 < nr_buffers t
    \<and> 56 * nr_buffers t + 1024 * nr_buffers t \<le> unat (BUFFER_END + V_P_DIFF) - unat (start_buffer s)"
proof -
  define m where "m = buffer_rounds (unat (start_buffer s)) (unat (BUFFER_END + V_P_DIFF))"
  have t: "m \<noteq> 0" "nr_buffers t = m" "free_list t = Some 0" "hash_table t = (\<lambda>k. None)"
    and b: "\<And>i. i < m \<Longrightarrow> b_dev (bufs t i) = 0 \<and> b_next (bufs t i) = None \<and> b_prev (bufs t i) = None
        \<and> b_prev_free (bufs t i) = Some (if i = 0 then m - 1 else i - 1)
        \<and> b_next_free (bufs t i) = Some (if i = m - 1 then 0 else i + 1)"
    using assms by (auto simp: buffer_init_def Let_def m_def [symmetric] fun_eq_iff not_le split: if_splits)
  have c: "\<not> cached t i" for i using b [of i] t(2) by (auto simp: cached_def)
  have "fpath (bufs t) 0 [Suc 0..<Suc (m - 1)] 0" by (rule fpath_upt) (use b t(1) in auto)
  moreover have "[0..<m] = 0 # [Suc 0..<Suc (m - 1)]" using t(1) upt_conv_Cons [of 0 m] by simp
  ultimately have "free_ring (bufs t) [0..<m]" by (simp add: free_ring_def del: upt_Suc)
  then have "cache_ok t [0..<m] (\<lambda>_. [])"
    unfolding cache_ok_def using t b c by (auto simp: hd_upt)
  then show ?thesis
    using c t buffer_rounds_fit [of "unat (start_buffer s)" "unat (BUFFER_END + V_P_DIFF)"]
    by (auto simp: cache_wf_def m_def)
qed

subsection \<open>The first block\<close>

lemma wait_on_buffer_unlocked: "b_lock (bufs s b) = 0 \<Longrightarrow> wait_on_buffer b s = Inr ((), s)"
  by (simp add: wait_on_buffer_def wait_buffer_loop.simps)

text \<open>The order of the cache depends on the links and the blocks only.\<close>

definition same_links :: "'a kern_scheme \<Rightarrow> 'a kern_scheme \<Rightarrow> bool" where
  "same_links s t \<longleftrightarrow> nr_buffers t = nr_buffers s \<and> free_list t = free_list s \<and> hash_table t = hash_table s
     \<and> (\<forall>j. b_next (bufs t j) = b_next (bufs s j) \<and> b_prev (bufs t j) = b_prev (bufs s j)
          \<and> b_next_free (bufs t j) = b_next_free (bufs s j) \<and> b_prev_free (bufs t j) = b_prev_free (bufs s j)
          \<and> b_dev (bufs t j) = b_dev (bufs s j) \<and> b_blocknr (bufs t j) = b_blocknr (bufs s j))"

lemma cache_ok_links:
  assumes "same_links s t" "cache_ok s xs H"
  shows "cache_ok t xs H"
  using assms(2) ring_cong [of "bufs t" "bufs s"] dll_cong [of _ "bufs t" "bufs s"] assms(1)
  unfolding same_links_def cache_ok_def cached_def bh_hash_def by simp

lemma cache_wf_links: "same_links s t \<Longrightarrow> cache_wf s \<Longrightarrow> cache_wf t"
  using cache_ok_links unfolding cache_wf_def by blast

lemma holds_links: "same_links s t \<Longrightarrow> holds t dev block i = holds s dev block i"
  by (auto simp: same_links_def holds_def cached_def)

lemma enhash_empty_queue:
  assumes "b_dev (bufs s i) \<noteq> 0" "hash_table s (bh_hash (bufs s i)) = None"
  shows "\<exists>t. enhash i s = Inl (BadAccess 24, t)"
  using assms by (auto simp: enhash_def upd_buf_def Let_def bh_hash_def)

lemma claim_buf_empty_queue:
  assumes "cache_ok s xs H" "2 \<le> nr_buffers s" "i < nr_buffers s" "b_dirt (bufs s i) = 0" "block_range dev block"
    "\<And>j. j \<noteq> i \<Longrightarrow> cached s j \<Longrightarrow> bh_hash (bufs s j) \<noteq> hashfn dev block" "\<And>j. \<not> holds s dev block j"
  shows "\<exists>t. claim_buf dev block i s = Inl (BadAccess 24, t)"
proof -
  obtain t f fs where t: "claim_buf dev block i s = kseq (insert_into_queues i) (kreturn (Some i)) t"
    "free_ring (bufs t) (f # fs)" "distinct (i # f # fs)" "free_list t = Some f" "nr_buffers t = nr_buffers s"
    "\<And>k. dll (bufs t) None (hash_table t k) (unlinked H i k) \<and> distinct (unlinked H i k)
       \<and> set (unlinked H i k) = {j. j \<noteq> i \<and> cached t j \<and> bh_hash (bufs t j) = k}"
    "\<And>j. j \<noteq> i \<Longrightarrow> same_block s t j" "b_dev (bufs t i) = word_of_int dev"
    "bh_hash (bufs t i) = hashfn dev block"
    using claim_buf_prefix [OF assms(1-5)] assms(7) by blast
  have "\<not> (cached t j \<and> bh_hash (bufs t j) = hashfn dev block)" if "j \<noteq> i" for j
    using assms(6) [OF that] t(5) t(7) [OF that] by (auto simp: cached_def same_block_def bh_hash_def)
  then have "unlinked H i (hashfn dev block) = []" using t(6) [of "hashfn dev block"] by (auto simp flip: set_empty)
  then have h: "hash_table t (hashfn dev block) = None" using t(6) [of "hashfn dev block"] by simp
  have l: "b_prev_free (bufs t f) = Some (last (f # fs))" using t(2) fpath_last [of "bufs t" f fs f] by (simp add: free_ring_def)
  have "last (f # fs) \<in> set (f # fs)" by (rule last_in_set) simp
  then have i: "i \<noteq> f" "i \<noteq> last (f # fs)" using t(3) by (auto simp del: last.simps)
  obtain u where u: "enfree i t = Inr ((), u)" "hash_table u = hash_table t"
    "b_dev (bufs u i) = b_dev (bufs t i)" "bh_hash (bufs u i) = bh_hash (bufs t i)"
    using enfree_bufs [OF t(4) l i] by (auto simp: bh_hash_def)
  have "b_dev (bufs u i) \<noteq> 0" using u(3) t(8) assms(5) uint16 [of dev] by (auto simp: block_range_def)
  then obtain v where "enhash i u = Inl (BadAccess 24, v)" using enhash_empty_queue [of u i] u(2,4) t(9) h by auto
  then show ?thesis using t(1) u(1) by (simp add: insert_into_queues_def kseq_def kbind_def)
qed

text \<open>What \<open>getblk\<close> does for a block that is not cached when the first buffer of the free list can be taken.\<close>

lemma getblk_takes_first:
  assumes "cache_wf s" "\<And>j. \<not> holds s dev block j" "free_list s = Some f" "b_count (bufs s f) = 0" "b_lock (bufs s f) = 0"
    and u: "u = upd_buf f (\<lambda>h. h\<lparr>b_count := 1\<rparr>) s"
  shows "claim_buf dev block f u = Inr (Some f, t) \<Longrightarrow> getblk dev block s = Inr (f, t)"
    "claim_buf dev block f u = Inl e \<Longrightarrow> getblk dev block s = Inl e" "same_links s u" "f < nr_buffers s"
proof -
  have "find_buffer dev block s = Inr (None, s)"
    using find_buffer_cache [OF assms(1), of dev block] assms(2) by (auto split: option.splits)
  then have "hash_round dev block s = Inl (Inr (None, s))" by (simp add: hash_round_def)
  then have g: "get_hash_table dev block s = Inr (None, s)" by (simp add: get_hash_table_def hash_loop.simps)
  have sc: "free_scan f s = Some (Inr (Some f, s))"
    using assms(4,5) by (subst free_scan.simps) (simp add: wait_on_buffer_unlocked)
  have e: "upd_buf f (\<lambda>h. h\<lparr>b_count := b_count h + 1\<rparr>) s = u" using assms(4) by (simp add: u upd_buf_def)
  have r: "getblk_round dev block s = (case claim_buf dev block f u of Inl e \<Rightarrow> Inl (Inl e)
      | Inr (None, v) \<Rightarrow> Inr v | Inr (Some c, v) \<Rightarrow> Inl (Inr (c, v)))"
    using g sc assms(3) by (simp add: getblk_round_def e)
  show "claim_buf dev block f u = Inr (Some f, t) \<Longrightarrow> getblk dev block s = Inr (f, t)"
    "claim_buf dev block f u = Inl e \<Longrightarrow> getblk dev block s = Inl e"
    using r by (simp_all add: getblk_def getblk_loop.simps)
  show "same_links s u" by (simp add: u same_links_def upd_buf_def)
  obtain xs H where "cache_ok s xs H" using assms(1) by (auto simp: cache_wf_def)
  then have "xs \<noteq> []" "f = hd xs" "set xs = {..<nr_buffers s}" using assms(3) by (auto simp: cache_ok_def free_ring_def)
  then show "f < nr_buffers s" using hd_in_set [of xs] by auto
qed

lemma cache_inv_links: "same_links s t \<Longrightarrow> cache_inv s \<Longrightarrow> cache_inv t"
  using cache_wf_links [of s t] by (simp add: cache_inv_def holds_links) (simp add: same_links_def)

lemma cache_lookup_links:
  assumes "same_links s t" "cache_inv s"
  shows "cache_lookup t = cache_lookup s"
proof
  fix k
  have "cache_lookup t k = Some i \<longleftrightarrow> cache_lookup s k = Some i" for i
    using buffer_cache.lookup_iff [OF assms(2)] buffer_cache.lookup_iff [OF cache_inv_links [OF assms]] holds_links [OF assms(1)] by simp
  then show "cache_lookup t k = cache_lookup s k" by (metis not_Some_eq)
qed

text \<open>C18: \<open>getblk\<close> of a block that is not cached, when the first buffer of the free list is neither in use nor locked nor
  dirty.  If the hash queue of the block holds another buffer, it returns the buffer with one user and
  keeps the cache in order: the free list is a ring through all buffers, the hash queues are
  doubly linked lists of the buffers with their hash value, and no block is cached twice.  Afterwards the block is found in that buffer,
  the block the buffer held before is not found any more, and every other lookup gives what it gave before.  If the hash queue
  holds no other buffer, \<open>getblk\<close> ends in a store through the null pointer, because \<open>insert_into_queues\<close> sets
  \<open>bh->b_next->b_prev\<close> although the queue was empty.\<close>

theorem getblk_claim_lookup:
  assumes "cache_inv s" "block_range dev block" "\<forall>j. \<not> holds s dev block j"
    "free_list s = Some f" "b_count (bufs s f) = 0" "b_lock (bufs s f) = 0" "b_dirt (bufs s f) = 0"
  shows "if \<exists>j. j \<noteq> f \<and> cached s j \<and> bh_hash (bufs s j) = hashfn dev block
    then \<exists>t. getblk dev block s = Inr (f, t) \<and> cache_inv t \<and> b_count (bufs t f) = 1
      \<and> cache_lookup t = (\<lambda>l. if l = (dev, block) then Some f else if cache_lookup s l = Some f then None else cache_lookup s l)
    else \<exists>t. getblk dev block s = Inl (BadAccess 24, t)"
proof -
  let ?u = "upd_buf f (\<lambda>h. h\<lparr>b_count := 1\<rparr>) s"
  have wf: "cache_wf s" "2 \<le> nr_buffers s" using assms(1) by (simp_all add: cache_inv_def)
  note g = getblk_takes_first [OF wf(1) _ assms(4-6) refl, of dev block]
  have l: "same_links s ?u" "f < nr_buffers s" using g(3,4) assms(3) by blast+
  have b: "bufs ?u j = (bufs s j)\<lparr>b_count := (if j = f then 1 else b_count (bufs s j))\<rparr>" "nr_buffers ?u = nr_buffers s" for j
    by (simp_all add: upd_buf_def)
  have same: "cached ?u j = cached s j" "bh_hash (bufs ?u j) = bh_hash (bufs s j)" "\<not> holds ?u dev block j" for j
    using assms(3) holds_links [OF l(1)] by (simp_all add: cached_def bh_hash_def b)
  show ?thesis
  proof (cases "\<exists>j. j \<noteq> f \<and> cached s j \<and> bh_hash (bufs s j) = hashfn dev block")
    case True
    have iu: "cache_inv ?u" by (rule cache_inv_links [OF l(1) assms(1)])
    have cu: "can_claim (dev, block) f ?u" using True l(2) assms(2,7) by (auto simp: can_claim_def same b)
    obtain t where t: "claim_buf dev block f ?u = Inr (Some f, t)" "b_count (bufs t f) = 1"
      using claim_buf_installs [OF iu cu] by (auto simp: b)
    then have "cache_install (dev, block) f ?u = Some t" by (simp add: cache_install_def)
    then show ?thesis
      using True buffer_cache.lookup_install [OF iu cu] t g(1) assms(3) cache_lookup_links [OF l(1) assms(1)] by auto
  next
    case False
    obtain xs H where "cache_ok ?u xs H" using cache_wf_links [OF l(1) wf(1)] by (auto simp: cache_wf_def)
    then have "\<exists>t. claim_buf dev block f ?u = Inl (BadAccess 24, t)"
      using False wf(2) l(2) assms(2,7) same by (intro claim_buf_empty_queue) (auto simp: b)
    then show ?thesis using False g(2) assms(3) by auto
  qed
qed

text \<open>One buffer holds block 1 of device 0x301; block 923 has the same hash value and block 5 another one.\<close>

theorem getblk_claim_lookup_witness:
  "(\<exists>t. getblk 0x301 923 small_cache = Inr (1, t) \<and> cache_lookup t (0x301, 923) = Some 1)
    \<and> (\<exists>t. getblk 0x301 5 small_cache = Inl (BadAccess 24, t))"
proof -
  have h: "bh_hash (bufs small_cache 0) = hashfn 0x301 923" "bh_hash (bufs small_cache 0) \<noteq> hashfn 0x301 5"
    by (simp_all add: small_cache_def boot_kern_buf bh_hash_def hashfn_def NR_HASH_def)
  have n: "free_list small_cache = Some 1" "b_count (bufs small_cache 1) = 0" "b_lock (bufs small_cache 1) = 0"
    "b_dirt (bufs small_cache 1) = 0" "block_range 0x301 923" "block_range 0x301 5"
    by (simp_all add: small_cache_def boot_kern_buf block_range_def)
  have "\<forall>j. \<not> holds small_cache 0x301 923 j" "\<forall>j. \<not> holds small_cache 0x301 5 j"
    unfolding holds_def small_cache_cached by (auto simp: small_cache_def)
  then show ?thesis
    using getblk_claim_lookup [OF small_cache_inv n(5) _ n(1-4)] getblk_claim_lookup [OF small_cache_inv n(6) _ n(1-4)] h
    by (auto simp: small_cache_cached)
qed

text \<open>C19: \<open>buffer_init\<close> leaves an orderly cache that holds no block: the free list is a ring through all
  buffers, and the buffer heads and the blocks fit between the end of the kernel and the end of the buffer
  area.  From there no block is ever obtained: with at least two buffers \<open>getblk\<close> of any block of any device ends in a store
  through the null pointer.\<close>

theorem buffer_init_getblk:
  assumes "nr_buffers s = 0" "\<forall>k. NR_HASH \<le> k \<longrightarrow> hash_table s k = None" "buffer_init s = Inr ((), t)"
  shows "cache_wf t \<and> (\<forall>i. \<not> cached t i) \<and> 0 < nr_buffers t
    \<and> 56 * nr_buffers t + 1024 * nr_buffers t \<le> unat (BUFFER_END + V_P_DIFF) - unat (start_buffer s)
    \<and> (2 \<le> nr_buffers t \<longrightarrow> (\<forall>dev block. block_range dev block \<longrightarrow> (\<exists>u. getblk dev block t = Inl (BadAccess 24, u))))"
proof -
  have t: "free_list t = Some 0" "b_count (bufs t 0) = 0" "b_lock (bufs t 0) = 0" "b_dirt (bufs t 0) = 0"
    using assms(3) by (auto simp: buffer_init_def Let_def split: if_splits)
  note c = buffer_init_cache [OF assms]
  let ?u = "upd_buf 0 (\<lambda>h. h\<lparr>b_count := 1\<rparr>) t"
  have no: "\<not> holds t dev block j" "\<not> cached ?u j" "\<not> holds ?u dev block j" for dev block j
    using c by (auto simp: holds_def cached_def upd_buf_def)
  have "\<exists>u. getblk dev block t = Inl (BadAccess 24, u)" if nr: "2 \<le> nr_buffers t" and r: "block_range dev block" for dev block
  proof -
    note g = getblk_takes_first [OF _ no(1) t(1-3) refl]
    obtain xs H where "cache_ok ?u xs H" using cache_wf_links [OF g(3)] c by (auto simp: cache_wf_def)
    then have "\<exists>u. claim_buf dev block 0 ?u = Inl (BadAccess 24, u)"
      using nr r t(4) no by (intro claim_buf_empty_queue) (auto simp: upd_buf_def)
    then show ?thesis using g(2) c by blast
  qed
  then show ?thesis using c by blast
qed

theorem buffer_init_getblk_witness:
  "\<exists>t. buffer_init (boot_kern\<lparr>start_buffer := BUFFER_END + V_P_DIFF - 3240\<rparr>) = Inr ((), t)
    \<and> (\<exists>u. getblk 0x301 1 t = Inl (BadAccess 24, u))"
proof -
  let ?s = "boot_kern\<lparr>start_buffer := BUFFER_END + V_P_DIFF - 3240\<rparr>"
  have e: "unat (BUFFER_END + V_P_DIFF) = 0xFFFFFFC000400000" "unat (BUFFER_END + V_P_DIFF - 3240) = 0xFFFFFFC0003FF358"
    by (simp_all add: BUFFER_END_def V_P_DIFF_def VA_KERNEL_def PA_KERNEL_def RAM_START_def SBI_SIZE_def BUFFER_SIZE_def)
  have n: "nr_buffers ?s = 0" "\<forall>k. NR_HASH \<le> k \<longrightarrow> hash_table ?s k = None"
    by (simp_all add: boot_kern_def ttys.extend_def sched.extend_def)
  have m: "2 \<le> buffer_rounds 0xFFFFFFC0003FF358 0xFFFFFFC000400000"
    by (subst buffer_rounds.simps, simp, subst buffer_rounds.simps, simp)
  then obtain t where t: "buffer_init ?s = Inr ((), t)" "2 \<le> nr_buffers t"
    using e n(1) by (auto simp: buffer_init_def Let_def)
  moreover have "block_range 0x301 1" by (simp add: block_range_def)
  ultimately show ?thesis using buffer_init_getblk [OF n t(1)] by blast
qed

end
