(* ===== verification/Bitmap_Props.thy ===== *)
theory Bitmap_Props
  imports Bitmap Buffer_Props
begin

text \<open>
  The bit maps: the search for a free bit against a reference definition on single bits, what
  \<open>set_bit\<close> and \<open>clear_bit\<close> do to the bits of a block, and the consequences for \<open>new_block\<close> and
  \<open>free_block\<close>.
\<close>

subsection \<open>Single bits\<close>

definition bit_of :: "(nat \<Rightarrow> u8) \<Rightarrow> nat \<Rightarrow> bool" where
  "bit_of d k = bit (d (k div 8)) (k mod 8)"

lemma and_push_bit_eq_0: "(w :: 'a :: len word) AND push_bit i 1 = 0 \<longleftrightarrow> \<not> (bit w i \<and> i < LENGTH('a))"
proof
  assume e: "w AND push_bit i 1 = 0"
  show "\<not> (bit w i \<and> i < LENGTH('a))"
  proof
    assume b: "bit w i \<and> i < LENGTH('a)"
    then have "bit (w AND push_bit i 1) i" by (simp add: bit_and_iff bit_exp_iff)
    then show False using e by simp
  qed
next
  assume "\<not> (bit w i \<and> i < LENGTH('a))"
  then show "w AND push_bit i 1 = 0"
    by (intro bit_word_eqI) (auto simp: bit_and_iff bit_exp_iff)
qed

lemma find_first_zero_in_byte_eq:
  "find_first_zero_in_byte w = (case find (\<lambda>i. \<not> bit w i) [0..<8] of Some i \<Rightarrow> i | None \<Rightarrow> 8)"
proof -
  have "find (\<lambda>i. w AND push_bit i 1 = 0) [0..<8] = find (\<lambda>i. \<not> bit w i) [0..<8]"
    by (rule find_cong) (simp_all add: and_push_bit_eq_0 del: push_bit_of_1)
  then show ?thesis by (simp add: find_first_zero_in_byte_def)
qed

lemma byte_full: "(w :: u8) = 0xFF \<longleftrightarrow> (\<forall>i<8. bit w i)"
proof
  assume "w = 0xFF"
  then have "w = mask 8" by (simp add: mask_eq_exp_minus_1)
  then show "\<forall>i<8. bit w i" by (simp add: bit_mask_iff)
next
  assume b: "\<forall>i<8. bit w i"
  have "w = mask 8" by (rule bit_word_eqI) (use b in \<open>auto simp: bit_mask_iff\<close>)
  then show "w = 0xFF" by (simp add: mask_eq_exp_minus_1)
qed

lemma find_first_zero_in_byte_spec:
  assumes "w \<noteq> 0xFF" "find_first_zero_in_byte w = n"
  shows "n < 8 \<and> \<not> bit w n \<and> (\<forall>i<n. bit w i)"
proof -
  obtain i where "i < 8" "\<not> bit w i" using assms(1) byte_full by blast
  then have "find (\<lambda>i. \<not> bit w i) [0..<8] \<noteq> None" by (auto simp: find_None_iff)
  then have "find (\<lambda>i. \<not> bit w i) [0..<8] = Some n"
    using assms(2) by (auto simp: find_first_zero_in_byte_eq split: option.splits)
  then show ?thesis by (auto simp: find_upt_Some_iff)
qed

lemma ffz_loop_spec:
  assumes "m \<le> 1024" "\<forall>k < 8 * m. bit_of d k" "ffz_loop [m..<1024] (8 * m) d = n"
  shows "n \<le> 8192 \<and> (\<forall>k<n. bit_of d k) \<and> (n < 8192 \<longrightarrow> \<not> bit_of d n)"
  using assms
proof (induction "1024 - m" arbitrary: m)
  case 0
  then show ?case by simp
next
  case (Suc x)
  then have u: "[m..<1024] = m # [Suc m..<1024]" by (intro upt_conv_Cons) simp
  show ?case
  proof (cases "d m = 0xFF")
    case True
    have "bit_of d k" if "k < 8 * Suc m" for k
    proof (cases "k < 8 * m")
      case False
      then have "k div 8 = m" "k mod 8 < 8" using that by auto
      then show ?thesis using True byte_full [of "d m"] by (simp add: bit_of_def)
    qed (use Suc.prems(2) in simp)
    moreover have "ffz_loop [Suc m..<1024] (8 * Suc m) d = n" using Suc.prems(3) True u by (simp add: add.commute)
    ultimately show ?thesis using Suc.hyps(2) by (intro Suc.hyps(1) [of "Suc m"]) simp_all
  next
    case False
    let ?j = "find_first_zero_in_byte (d m)"
    have n: "n = 8 * m + ?j" using Suc.prems(3) u False by simp
    have j: "?j < 8" "\<not> bit (d m) ?j" "\<And>i. i < ?j \<Longrightarrow> bit (d m) i"
      using find_first_zero_in_byte_spec [OF False refl] by auto
    have "bit_of d k" if "k < n" for k
    proof (cases "k < 8 * m")
      case False
      then have "k div 8 = m" using that n j(1) by auto
      moreover from this have "k mod 8 = k - 8 * m" using minus_mult_div_eq_mod [of k 8] by simp
      ultimately show ?thesis using j(3) [of "k - 8 * m"] that n False by (simp add: bit_of_def)
    qed (use Suc.prems(2) in simp)
    moreover have "\<not> bit_of d n" using n j by (simp add: bit_of_def)
    moreover have "n \<le> 8192" using n j(1) Suc.hyps(2) by auto
    ultimately show ?thesis by simp
  qed
qed

lemma find_first_zero_spec:
  "find_first_zero d \<le> 8192 \<and> (\<forall>k < find_first_zero d. bit_of d k)
    \<and> (find_first_zero d < 8192 \<longrightarrow> \<not> bit_of d (find_first_zero d))"
  using ffz_loop_spec [of 0 d "find_first_zero d"] by (simp add: find_first_zero_def BLOCK_SIZE_def)

text \<open>C20: \<open>find_first_zero\<close>, which skips full bytes, returns the position of the first zero bit of the
  block, and 8192 if every bit is set: it agrees with the search bit by bit.\<close>

theorem find_first_zero_eq_search:
  "find_first_zero d = (case find (\<lambda>k. \<not> bit_of d k) [0..<8192] of Some k \<Rightarrow> k | None \<Rightarrow> 8192)"
proof (cases "find_first_zero d < 8192")
  case True
  then have "find (\<lambda>k. \<not> bit_of d k) [0..<8192] = Some (find_first_zero d)"
    using find_first_zero_spec [of d] by (auto simp: find_upt_Some_iff)
  then show ?thesis by simp
next
  case False
  then have "find_first_zero d = 8192" "find (\<lambda>k. \<not> bit_of d k) [0..<8192] = None"
    using find_first_zero_spec [of d] by (auto simp: find_None_iff)
  then show ?thesis by simp
qed

subsection \<open>Setting and clearing\<close>

lemma bit_load64:
  "bit (load64 d o') k \<longleftrightarrow> k < 64 \<and> bit (d (o' + k div 8)) (k mod 8)"
  using bit_pieces [of 8 "\<lambda>i. d (o' + i)" k] by (simp add: load64_def)

lemma bit_of_store64:
  "bit_of (store64 w 0 d) k = (if k < 64 then bit w k else bit_of d k)"
proof (cases "k < 64")
  case True
  then have "k div 8 < 8" by auto
  then show ?thesis using True by (simp add: bit_of_def store64_def bit_ucast_iff bit_drop_bit_eq)
next
  case False
  then have "\<not> k div 8 < 8" by auto
  then show ?thesis using False by (simp add: bit_of_def store64_def)
qed

lemma set_bit_bits:
  "fst (set_bit nr d) = bit_of d (nr mod 64)"
  "bit_of (snd (set_bit nr d)) k = (k = nr mod 64 \<or> bit_of d k)"
proof -
  have m: "nr mod 64 < 64" by simp
  show "fst (set_bit nr d) = bit_of d (nr mod 64)"
    using and_push_bit_eq_0 [of "load64 d 0" "nr mod 64"] m by (simp add: set_bit_def Let_def bit_load64 bit_of_def)
  show "bit_of (snd (set_bit nr d)) k = (k = nr mod 64 \<or> bit_of d k)"
    using m by (auto simp: set_bit_def Let_def bit_of_store64 bit_or_iff bit_load64 bit_exp_iff
        bit_of_def [of d])
qed

lemma clear_bit_bits:
  "fst (clear_bit nr d) = bit_of d (nr mod 64)"
  "bit_of (snd (clear_bit nr d)) k = (k \<noteq> nr mod 64 \<and> bit_of d k)"
proof -
  have m: "nr mod 64 < 64" by simp
  show "fst (clear_bit nr d) = bit_of d (nr mod 64)"
    using and_push_bit_eq_0 [of "load64 d 0" "nr mod 64"] m by (simp add: clear_bit_def Let_def bit_load64 bit_of_def)
  show "bit_of (snd (clear_bit nr d)) k = (k \<noteq> nr mod 64 \<and> bit_of d k)"
    using m by (auto simp: clear_bit_def Let_def bit_of_store64 bit_and_iff bit_not_iff bit_load64 bit_exp_iff
        bit_of_def [of d])
qed

subsection \<open>Consequences for the maps\<close>

lemma find_map_SomeD:
  assumes "find_map m s = Some (i, b, j)"
  shows "m i = Some b" "j = find_first_zero (b_data (bufs s b))" "j < 8192" "i < 8"
  using assms by (auto simp: find_map_def find_upt_Some_iff split: option.splits)

text \<open>\<open>set_bit\<close> works on the first 64 bits of the map block only, so when the first free bit of the
  first map with a free bit comes later, \<open>new_block\<close> panics instead of allocating it: a device never
  gives out more than the zones of the first 64 bits of a map.\<close>

theorem new_block_panics_beyond_64:
  assumes "get_super dev s = Some sb" "find_map (s_zmap (supers s sb)) s = Some (i, b, j)" "64 \<le> j"
  shows "\<exists>t. new_block dev s = Inl (Panic ''new_block: bit already set'', t)"
proof -
  have "j mod 64 < j" using assms(3) by (meson less_le_trans mod_less_divisor zero_less_numeral)
  then have "bit_of (b_data (bufs s b)) (j mod 64)"
    using find_first_zero_spec [of "b_data (bufs s b)"] find_map_SomeD(2) [OF assms(2)] by blast
  then have "fst (set_bit j (b_data (bufs s b)))" using set_bit_bits(1) by simp
  then show ?thesis using assms(1,2) by (simp add: new_block_def split_beta Let_def panic_def)
qed

text \<open>Freeing a block that is allocated and not in the cache panics, since \<open>clear_bit\<close> returns the
  old value of the bit where its callers expect the complement: for a block among the first 64 of
  its map, \<open>free_block\<close> succeeds exactly if the block is not allocated.\<close>

theorem free_block_panics_if_allocated:
  assumes "cache_wf s" "\<forall>i. \<not> holds s dev block i" "get_super dev s = Some sb"
    "uint (s_firstdatazone (supers s sb)) \<le> block" "block < uint (s_nzones (supers s sb))"
    "n = nat (block - uint (s_firstdatazone (supers s sb)) + 1)" "n < 64" "s_zmap (supers s sb) 0 = Some b"
  shows "if bit_of (b_data (bufs s b)) n
    then \<exists>t. free_block dev block s = Inl (Panic ''free_block: bit already cleared'', t)
    else \<exists>t. free_block dev block s = Inr ((), t) \<and> (\<forall>k. bit_of (b_data (bufs t b)) k = bit_of (b_data (bufs s b)) k)"
proof -
  have "find_buffer dev block s = Inr (None, s)"
    using find_buffer_cache [OF assms(1), of dev block] assms(2) by (auto split: option.splits)
  then have "hash_round dev block s = Inl (Inr (None, s))" by (simp add: hash_round_def)
  then have g: "get_hash_table dev block s = Inr (None, s)" by (simp add: get_hash_table_def hash_loop.simps)
  have n: "nat (block - (uint (s_firstdatazone (supers s sb)) - 1)) = n" using assms(6) by (simp add: algebra_simps)
  have f: "free_block dev block s = free_zone_bit sb block s"
    using assms(3-5) g by (simp add: free_block_def kbind_def)
  have c: "fst (clear_bit n (b_data (bufs s b))) = bit_of (b_data (bufs s b)) n"
    "bit_of (snd (clear_bit n (b_data (bufs s b)))) k = (k \<noteq> n \<and> bit_of (b_data (bufs s b)) k)" for k
    using clear_bit_bits [of n] assms(7) by simp_all
  have e: "free_zone_bit sb block s = (if fst (clear_bit n (b_data (bufs s b)))
      then Inl (Panic ''free_block: bit already cleared'', upd_buf b (\<lambda>h. h\<lparr>b_data := snd (clear_bit n (b_data (bufs s b)))\<rparr>) s)
      else Inr ((), upd_buf b (\<lambda>h. h\<lparr>b_dirt := 1\<rparr>) (upd_buf b (\<lambda>h. h\<lparr>b_data := snd (clear_bit n (b_data (bufs s b)))\<rparr>) s)))"
    using assms(7,8) unfolding free_zone_bit_def n by (simp add: split_beta Let_def panic_def)
  show ?thesis
  proof (cases "bit_of (b_data (bufs s b)) n")
    case True
    then show ?thesis using f e c(1) by simp
  next
    case False
    then show ?thesis using f e c by (auto simp: upd_buf_def)
  qed
qed

subsection \<open>Examples\<close>

definition full_map :: "nat \<Rightarrow> u8" where
  "full_map i = (if i < 8 then 0xFF else 0)"

definition mounted :: kern where
  "mounted = small_cache\<lparr>bufs := (bufs small_cache)(1 := (bufs small_cache 1)\<lparr>b_data := full_map\<rparr>),
     supers := (supers boot_kern)(0 := (supers boot_kern 0)\<lparr>s_dev := 0x301, s_firstdatazone := 10, s_nzones := 100,
       s_ninodes := 100, s_zmap := (\<lambda>_. None)(0 := Some 1), s_imap := (\<lambda>_. None)(0 := Some 1)\<rparr>)\<rparr>"

lemma bit_of_full_map: "bit_of full_map k \<longleftrightarrow> k < 64"
proof (cases "k < 64")
  case True
  then have "k div 8 < 8" "k mod 8 < 8" by auto
  then show ?thesis using True byte_full [of "0xFF"] by (simp add: bit_of_def full_map_def)
next
  case False
  then have "\<not> k div 8 < 8" by auto
  then show ?thesis using False by (simp add: bit_of_def full_map_def)
qed

lemma full_map_first_zero: "find_first_zero full_map = 64"
proof -
  have "find (\<lambda>k. \<not> bit_of full_map k) [0..<8192] = Some 64" by (auto simp: find_upt_Some_iff bit_of_full_map)
  then show ?thesis unfolding find_first_zero_eq_search by simp
qed

lemma mounted_super:
  "get_super 0x301 mounted = Some 0" "s_zmap (supers mounted 0) 0 = Some 1" "b_data (bufs mounted 1) = full_map"
  "s_firstdatazone (supers mounted 0) = 10" "s_nzones (supers mounted 0) = 100"
  by (simp_all add: get_super_def mounted_def NR_SUPER_def find_upt_Some_iff)

lemma mounted_find_map: "find_map (s_zmap (supers mounted 0)) mounted = Some (0, 1, 64)"
proof -
  have "find (\<lambda>i. case s_zmap (supers mounted 0) i of None \<Rightarrow> False
      | Some b \<Rightarrow> find_first_zero (b_data (bufs mounted b)) < 8192) [0..<8] = Some 0"
    by (simp add: find_upt_Some_iff mounted_super mounted_super(3) [unfolded One_nat_def] full_map_first_zero)
  then show ?thesis
    by (simp add: find_map_def mounted_super mounted_super(3) [unfolded One_nat_def] full_map_first_zero)
qed

lemma new_block_panics_beyond_64_witness:
  "\<exists>t. new_block 0x301 mounted = Inl (Panic ''new_block: bit already set'', t)"
  by (rule new_block_panics_beyond_64 [OF mounted_super(1) mounted_find_map]) simp

lemma mounted_links: "same_links small_cache mounted"
  by (simp add: same_links_def mounted_def)

lemma free_block_panics_if_allocated_witness:
  "\<exists>t. free_block 0x301 20 mounted = Inl (Panic ''free_block: bit already cleared'', t)"
proof -
  have "cache_wf mounted" using small_cache_inv cache_wf_links [OF mounted_links] by (simp add: cache_inv_def)
  moreover have "\<forall>i. \<not> holds mounted 0x301 20 i"
    unfolding holds_links [OF mounted_links] unfolding holds_def small_cache_cached
    by (simp add: small_cache_def boot_kern_buf)
  ultimately have "if bit_of (b_data (bufs mounted 1)) 11
    then \<exists>t. free_block 0x301 20 mounted = Inl (Panic ''free_block: bit already cleared'', t)
    else \<exists>t. free_block 0x301 20 mounted = Inr ((), t) \<and> (\<forall>k. bit_of (b_data (bufs t 1)) k = bit_of (b_data (bufs mounted 1)) k)"
    by (rule free_block_panics_if_allocated [OF _ _ mounted_super(1)]) (simp_all add: mounted_super)
  then show ?thesis unfolding mounted_super by (simp add: bit_of_full_map)
qed

end
