(* ===== verification/Inode_Props.thy ===== *)
theory Inode_Props
  imports Inode Bitmap_Props
begin

text \<open>
  Inodes: what is written to an inode block is read back and no other inode of the block changes;
  \<open>bmap\<close> on cached blocks computes the block map of the file; the inode table.
\<close>

subsection \<open>Inodes in a block\<close>

lemma bit_load16: "bit (load16 d o') k \<longleftrightarrow> (if k < 8 then bit (d o') k else bit (d (o' + 1)) (k - 8))"
  using bit_imp_le_length [of "d o'" k] bit_imp_le_length [of "d (o' + 1)" "k - 8"]
  by (auto simp: load16_def bit_or_iff bit_ucast_iff bit_push_bit_iff)

lemma load16_bytes:
  "load16 d o' = w" if "d o' = ucast w" "d (o' + 1) = ucast (drop_bit 8 w)"
proof (rule bit_word_eqI)
  fix k assume "k < LENGTH(16)"
  then show "bit (load16 d o') k = bit w k"
    using that by (auto simp: bit_load16 bit_ucast_iff bit_drop_bit_eq)
qed

lemma load16_cong: "d o' = e o' \<Longrightarrow> d (o' + 1) = e (o' + 1) \<Longrightarrow> load16 d o' = load16 e o'"
  by (simp add: load16_def)

lemma load64_bytes:
  assumes "\<And>i. i < 8 \<Longrightarrow> d (o' + i) = ucast (drop_bit (8 * i) w)"
  shows "load64 d o' = w"
proof (rule bit_word_eqI)
  fix k assume k: "k < LENGTH(64)"
  then have "k div 8 < 8" by auto
  then show "bit (load64 d o') k = bit w k"
    using k assms [of "k div 8"] by (simp add: bit_load64 bit_ucast_iff bit_drop_bit_eq)
qed

lemma load64_cong: "(\<And>i. i < 8 \<Longrightarrow> d (o' + i) = e (o' + i)) \<Longrightarrow> load64 d o' = load64 e o'"
  by (rule bit_word_eqI) (auto simp: bit_load64)

text \<open>The bytes of the zone array.\<close>

lemma fold_store16:
  "fold (\<lambda>k. store16 (z k) (b + 2 * k)) [0..<n] d x =
    (if b \<le> x \<and> x < b + 2 * n
     then if even (x - b) then ucast (z ((x - b) div 2)) else ucast (drop_bit 8 (z ((x - b) div 2)))
     else d x)"
proof (induction n)
  case (Suc n)
  have "x = b + 2 * n \<or> x = b + 2 * n + 1 \<or> (x < b + 2 * n \<or> b + 2 * n + 1 < x)" by auto
  then show ?case using Suc by (auto simp: store16_def)
qed auto

text \<open>The bytes of an inode in a block.\<close>

lemma store_dinode_byte:
  "store_dinode i o' d x =
    (if x = o' then ucast (i_mode i) else if x = o' + 1 then ucast (drop_bit 8 (i_mode i))
     else if x = o' + 2 then ucast (i_uid i) else if x = o' + 3 then ucast (drop_bit 8 (i_uid i))
     else if o' + 8 \<le> x \<and> x < o' + 16 then ucast (drop_bit (8 * (x - (o' + 8))) (i_size i))
     else if o' + 16 \<le> x \<and> x < o' + 24 then ucast (drop_bit (8 * (x - (o' + 16))) (i_mtime i))
     else if x = o' + 24 then i_gid i else if x = o' + 25 then i_nlinks i
     else if o' + 26 \<le> x \<and> x < o' + 44
     then if even (x - (o' + 26)) then ucast (i_zone i ((x - (o' + 26)) div 2))
          else ucast (drop_bit 8 (i_zone i ((x - (o' + 26)) div 2)))
     else d x)"
  unfolding store_dinode_def fold_store16 by (auto simp: store16_def store64_def)

text \<open>The part of an inode that is on disk.\<close>

definition on_disk :: "m_inode \<Rightarrow> u16 \<times> u16 \<times> u64 \<times> u64 \<times> u8 \<times> u8 \<times> (nat \<Rightarrow> u16)" where
  "on_disk i = (i_mode i, i_uid i, i_size i, i_mtime i, i_gid i, i_nlinks i, \<lambda>k. if k < 9 then i_zone i k else 0)"

lemma load_store_dinode: "on_disk (load_dinode (store_dinode i o' d) o' j) = on_disk i"
proof -
  let ?s = "store_dinode i o' d"
  have "load16 ?s o' = i_mode i" "load16 ?s (o' + 2) = i_uid i"
    by (rule load16_bytes; simp add: store_dinode_byte)+
  moreover have "load64 ?s (o' + 8) = i_size i" "load64 ?s (o' + 16) = i_mtime i"
    by (rule load64_bytes; simp add: store_dinode_byte)+
  moreover have "load16 ?s (o' + 26 + 2 * k) = i_zone i k" if "k < 9" for k
    by (rule load16_bytes) (use that in \<open>simp_all add: store_dinode_byte\<close>)
  ultimately show ?thesis
    by (simp add: on_disk_def load_dinode_def store_dinode_byte fun_eq_iff)
qed

text \<open>Loading depends on the 48 bytes of the inode only.\<close>

lemma load_dinode_cong:
  assumes "\<And>x. x < 48 \<Longrightarrow> d (o' + x) = e (o' + x)"
  shows "load_dinode d o' j = load_dinode e o' j"
proof -
  have l16: "load16 d (o' + x) = load16 e (o' + x)" if "x < 47" for x
    using assms [of x] assms [of "x + 1"] that by (intro load16_cong) (simp_all add: add.assoc)
  have l64: "load64 d (o' + x) = load64 e (o' + x)" if "x < 40" for x
    using assms that by (intro load64_cong) (simp_all add: add.assoc)
  have z: "(\<lambda>k. if k < 9 then load16 d (o' + 26 + 2 * k) else i_zone j k) = (\<lambda>k. if k < 9 then load16 e (o' + 26 + 2 * k) else i_zone j k)"
    using l16 [of "26 + 2 * k" for k] by (auto simp: fun_eq_iff add.assoc)
  show ?thesis
    unfolding load_dinode_def z using assms [of 24] assms [of 25] l16 [of 0] l16 [of 2] l64 [of 8] l64 [of 16] by simp
qed

lemma on_disk_load: "on_disk (load_dinode d o' i) = on_disk (load_dinode d o' j)"
  by (simp add: on_disk_def load_dinode_def fun_eq_iff)

subsection \<open>Reading cached blocks\<close>

text \<open>A buffer that is ready to be used, and nobody waiting for a buffer.\<close>

definition idle_buf :: "'a kern_scheme \<Rightarrow> nat \<Rightarrow> bool" where
  "idle_buf s b \<longleftrightarrow> b_lock (bufs s b) = 0 \<and> b_uptodate (bufs s b) \<noteq> 0 \<and> b_count (bufs s b) \<noteq> 255"

definition quiet :: "'a kern_scheme \<Rightarrow> bool" where
  "quiet s \<longleftrightarrow> waitq s (buffer_wait s) = 0"

definition ready :: "'a kern_scheme \<Rightarrow> int \<Rightarrow> int \<Rightarrow> bool" where
  "ready s dev block \<longleftrightarrow> (\<exists>b. holds s dev block b \<and> idle_buf s b)"

definition block_data :: "'a kern_scheme \<Rightarrow> int \<Rightarrow> int \<Rightarrow> nat \<Rightarrow> u8" where
  "block_data s dev block = (case cache_lookup s (dev, block) of Some b \<Rightarrow> b_data (bufs s b) | None \<Rightarrow> (\<lambda>_. 0))"

lemma find_buffer_holds:
  assumes "cache_inv s" "holds s dev block b"
  shows "find_buffer dev block s = Inr (Some b, s)"
proof -
  obtain r where "find_buffer dev block s = Inr (r, s)"
    using find_buffer_cache [of s dev block] assms(1) by (auto simp: cache_inv_def)
  moreover have "cache_lookup s (dev, block) = Some b"
    using buffer_cache.lookup_iff [OF assms(1), of "(dev, block)" b] assms(2) by simp
  ultimately show ?thesis by (simp add: cache_lookup_def)
qed

lemma block_data_holds: "cache_inv s \<Longrightarrow> holds s dev block b \<Longrightarrow> block_data s dev block = b_data (bufs s b)"
  using find_buffer_holds by (fastforce simp: block_data_def cache_lookup_def)

lemma getblk_cached:
  assumes "cache_inv s" "holds s dev block b" "b_lock (bufs s b) = 0"
  shows "getblk dev block s = Inr (b, upd_buf b (\<lambda>h. h\<lparr>b_count := b_count h + 1\<rparr>) s)"
proof -
  let ?t = "upd_buf b (\<lambda>h. h\<lparr>b_count := b_count h + 1\<rparr>) s"
  have "wait_on_buffer b ?t = Inr ((), ?t)" using assms(3) by (simp add: wait_on_buffer_unlocked upd_buf_def)
  then have "hash_round dev block s = Inl (Inr (Some b, ?t))"
    using find_buffer_holds [OF assms(1,2)] assms(2) by (simp add: hash_round_def holds_def) (simp add: upd_buf_def)
  then have "get_hash_table dev block s = Inr (Some b, ?t)" by (simp add: get_hash_table_def hash_loop.simps)
  then show ?thesis by (simp add: getblk_def getblk_loop.simps getblk_round_def)
qed

lemma bread_cached:
  assumes "cache_inv s" "holds s dev block b" "idle_buf s b"
  shows "bread dev block s = Inr (Some b, upd_buf b (\<lambda>h. h\<lparr>b_count := b_count h + 1\<rparr>) s)"
  using getblk_cached [OF assms(1,2)] assms(3) by (simp add: bread_def kbind_def idle_buf_def upd_buf_def)

lemma brelse_undo:
  assumes "idle_buf s b" "quiet s"
  shows "brelse (Some b) (upd_buf b (\<lambda>h. h\<lparr>b_count := b_count h + 1\<rparr>) s) = Inr ((), s)"
proof -
  let ?t = "upd_buf b (\<lambda>h. h\<lparr>b_count := b_count h + 1\<rparr>) s"
  have "wait_on_buffer b ?t = Inr ((), ?t)" using assms(1) by (simp add: wait_on_buffer_unlocked upd_buf_def idle_buf_def)
  moreover have "b_count (bufs ?t b) \<noteq> 0"
  proof -
    have "b_count (bufs s b) + 1 \<noteq> 0"
    proof
      assume "b_count (bufs s b) + 1 = 0"
      then have "b_count (bufs s b) = - 1" by (simp add: eq_neg_iff_add_eq_0)
      then show False using assms(1) by (simp add: idle_buf_def)
    qed
    then show ?thesis by (simp add: upd_buf_def)
  qed
  moreover have "upd_buf b (\<lambda>h. h\<lparr>b_count := b_count h - 1\<rparr>) ?t = s" by (simp add: upd_buf_def)
  ultimately show ?thesis using assms(2) by (simp add: brelse_def kseq_Inr quiet_def wake_up_def)
qed

lemma indirect_cached:
  assumes "idle_buf s b" "quiet s" "create \<Longrightarrow> load16 (b_data (bufs s b)) (2 * k) \<noteq> 0"
  shows "indirect p b k create (upd_buf b (\<lambda>h. h\<lparr>b_count := b_count h + 1\<rparr>) s)
    = Inr (uint (load16 (b_data (bufs s b)) (2 * k)), s)"
  using brelse_undo [OF assms(1,2)] assms(3)
  by (auto simp: indirect_def kbind_def kseq_def kreturn_def upd_buf_def Let_def uint_0_iff)

text \<open>Looking an entry up in a cached indirect block; with \<open>create\<close> the entry has to exist.\<close>

lemma read_entry:
  assumes "cache_inv s" "quiet s" "ready s dev block" "create \<Longrightarrow> load16 (block_data s dev block) (2 * k) \<noteq> 0"
  shows "kbind (bread dev block) (\<lambda>bh t. case bh of None \<Rightarrow> f t | Some b \<Rightarrow> indirect p b k create t) s
    = Inr (uint (load16 (block_data s dev block) (2 * k)), s)"
proof -
  obtain b where b: "holds s dev block b" "idle_buf s b" using assms(3) by (auto simp: ready_def)
  then show ?thesis
    using bread_cached [OF assms(1) b] indirect_cached [OF b(2) assms(2), of create k p] block_data_holds [OF assms(1) b(1)] assms(4)
    by (simp add: kbind_Inr)
qed

subsection \<open>Writing and reading inodes\<close>

text \<open>Where inode number \<open>n\<close> of a file system is: 21 inodes of 48 bytes to a block, after the boot block, the super block and
  the maps; the first inode has the number 1.\<close>

definition inode_block :: "super_block \<Rightarrow> nat \<Rightarrow> int" where
  "inode_block sb n = 2 + uint (s_imap_blocks sb) + uint (s_zmap_blocks sb) + int ((n - 1) div 21)"

definition inode_slot :: "nat \<Rightarrow> nat" where
  "inode_slot n = 48 * ((n - 1) mod 21)"

definition disk_inode :: "'a kern_scheme \<Rightarrow> int \<Rightarrow> super_block \<Rightarrow> nat \<Rightarrow> u16 \<times> u16 \<times> u64 \<times> u64 \<times> u8 \<times> u8 \<times> (nat \<Rightarrow> u16)" where
  "disk_inode s dev sb n = on_disk (load_dinode (block_data s dev (inode_block sb n)) (inode_slot n) zero_inode)"

lemma sint_small: "k < 2 ^ 31 \<Longrightarrow> sint (word_of_nat k :: u32) = int k"
proof -
  assume "k < 2 ^ 31"
  then have "sint (word_of_int (int k) :: u32) = int k" unfolding sint_sbintrunc' by (intro signed_take_bit_int_eq_self) simp_all
  then show "sint (word_of_nat k :: u32) = int k" by simp
qed

lemma inode_place:
  assumes "num \<noteq> (0 :: u16)"
  shows "sint (ucast (2 + ucast (s_imap_blocks sb) + ucast (s_zmap_blocks sb)
      + (word_of_int (uint num - 1) :: u64) div INODES_PER_BLOCK) :: u32) = inode_block sb (unat num)"
    "48 * unat ((word_of_int (uint num - 1) :: u64) mod INODES_PER_BLOCK) = inode_slot (unat num)"
proof -
  define N :: u64 where "N = word_of_nat (unat num - 1)"
  have pos: "0 < unat num" "unat num < 65536" using assms unsigned_less [of num, where ?'a = nat] by (simp_all add: unat_gt_0)
  have e: "word_of_int (uint num - 1) = N" using pos(1) by (simp add: N_def of_nat_diff)
  have n: "unat N = unat num - 1" using pos by (simp add: N_def unat_of_nat take_bit_nat_eq_self del: of_nat_diff)
  have d: "unat INODES_PER_BLOCK = 21" by (simp add: INODES_PER_BLOCK_def)
  show "48 * unat ((word_of_int (uint num - 1) :: u64) mod INODES_PER_BLOCK) = inode_slot (unat num)"
    unfolding e by (simp add: unat_mod n d inode_slot_def)
  let ?i = "s_imap_blocks sb" and ?z = "s_zmap_blocks sb"
  define k where "k = 2 + unat ?i + unat ?z + (unat num - 1) div 21"
  have "(unat num - 1) div 21 < 65536" using pos(2) by (intro le_less_trans [OF div_le_dividend]) simp
  then have k: "k < 2 ^ 31" using unsigned_less [of ?i, where ?'a = nat] unsigned_less [of ?z, where ?'a = nat] by (simp add: k_def)
  have "N div INODES_PER_BLOCK = word_of_nat ((unat num - 1) div 21)"
    by (simp add: word_unat_eq_iff unat_div n d unat_of_nat take_bit_nat_eq_self) (use pos(2) in \<open>simp add: le_less_trans [OF div_le_dividend]\<close>)
  then have "2 + ucast ?i + ucast ?z + N div INODES_PER_BLOCK = (word_of_nat k :: u64)" by (simp add: k_def)
  moreover have "ucast (word_of_nat k :: u64) = (word_of_nat k :: u32)"
    using k by (simp add: word_unat_eq_iff unsigned_ucast_eq unat_of_nat take_bit_nat_eq_self)
  ultimately show "sint (ucast (2 + ucast ?i + ucast ?z + (word_of_int (uint num - 1) :: u64) div INODES_PER_BLOCK) :: u32)
      = inode_block sb (unat num)"
    unfolding e using sint_small [OF k] by (simp only:) (simp add: inode_block_def k_def)
qed

text \<open>An inode that nobody has locked or waits for.\<close>

definition idle_inode :: "'a kern_scheme \<Rightarrow> u64 \<Rightarrow> bool" where
  "idle_inode s p \<longleftrightarrow> i_lock (inodes s p) = 0 \<and> waitq s (i_wait p) = 0"

lemma lock_unlock_idle:
  assumes "idle_inode s p"
  shows "lock_inode p s = Inr ((), upd_inode p (\<lambda>i. i\<lparr>i_lock := 1\<rparr>) s)"
    "waitq t = waitq s \<Longrightarrow> unlock_inode p t = upd_inode p (\<lambda>i. i\<lparr>i_lock := 0\<rparr>) t"
  using assms by (simp_all add: lock_inode_def wait_on_inode_def wait_inode_loop.simps idle_inode_def kseq_def kbind_def kmodify_def
      unlock_inode_def wake_up_def upd_inode_def)

text \<open>The locked inode has the device, the number and the super block of the idle one.\<close>

lemma locked_inode:
  "i_dev (inodes (upd_inode p (\<lambda>i. i\<lparr>i_lock := 1\<rparr>) s) p) = i_dev (inodes s p)"
  "i_num (inodes (upd_inode p (\<lambda>i. i\<lparr>i_lock := 1\<rparr>) s) p) = i_num (inodes s p)"
  "get_super dev (upd_inode p g s) = get_super dev s" "supers (upd_inode p g s) = supers s"
  by (simp_all add: upd_inode_def get_super_def)

text \<open>What happens between the locks: the block is found in the cache, \<open>act\<close> works on it, and it is released.\<close>

lemma inode_block_work:
  assumes "cache_inv s" "idle_inode s p" "holds s dev block b" "idle_buf s b"
    and l: "l = upd_inode p (\<lambda>i. i\<lparr>i_lock := 1\<rparr>) s"
    and v: "act b (upd_buf b (\<lambda>h. h\<lparr>b_count := b_count h + 1\<rparr>) l) = upd_buf b (\<lambda>h. h\<lparr>b_count := b_count h + 1\<rparr>) v"
      "idle_buf v b" "quiet v" "waitq v = waitq s"
  shows "kbind (bread dev block) (\<lambda>bh t. case bh of None \<Rightarrow> panic e t
      | Some b \<Rightarrow> kseq (brelse (Some b)) (kmodify (unlock_inode p)) (act b t)) l = Inr ((), upd_inode p (\<lambda>i. i\<lparr>i_lock := 0\<rparr>) v)"
proof -
  have li: "same_links s l" by (simp add: l same_links_def upd_inode_def)
  have "bread dev block l = Inr (Some b, upd_buf b (\<lambda>h. h\<lparr>b_count := b_count h + 1\<rparr>) l)"
    using assms(3,4) holds_links [OF li] by (intro bread_cached [OF cache_inv_links [OF li assms(1)]]) (simp_all add: l idle_buf_def upd_inode_def)
  then show ?thesis
    using brelse_undo [OF v(2,3)] lock_unlock_idle(2) [OF assms(2) v(4)] by (simp add: kbind_Inr kseq_Inr v(1) kmodify_def)
qed

lemma upd_inode_twice: "upd_inode p f (upd_inode p g s) = upd_inode p (\<lambda>i. f (g i)) s"
  and upd_buf_twice: "upd_buf b h (upd_buf b k s) = upd_buf b (\<lambda>x. h (k x)) s"
  and upd_inode_buf: "upd_buf b h (upd_inode p f s) = upd_inode p f (upd_buf b h s)"
  and upd_inode_cong: "f (inodes s p) = g (inodes s p) \<Longrightarrow> upd_inode p f s = upd_inode p g s"
  by (simp_all add: upd_inode_def upd_buf_def)

lemma count_last: "(h :: buffer_head)\<lparr>b_count := c, b_data := d, b_dirt := e\<rparr> = h\<lparr>b_data := d, b_dirt := e, b_count := c\<rparr>"
  by (cases h) simp

lemma unlock_last: "i_lock i = 0 \<Longrightarrow> i\<lparr>i_lock := 0, i_dirt := x\<rparr> = i\<lparr>i_dirt := x\<rparr>" "i_lock i = 0 \<Longrightarrow> i\<lparr>i_dirt := x, i_lock := 0\<rparr> = i\<lparr>i_dirt := x\<rparr>"
  for i :: m_inode by (cases i; simp)+

text \<open>\<open>read_inode\<close> loads the inode from the place its number names.\<close>

lemma read_inode_cached:
  assumes "cache_inv s" "quiet s" "idle_inode s p" "dev = uint (i_dev (inodes s p))" "get_super dev s = Some k"
    "num = i_num (inodes s p)" "num \<noteq> 0" "holds s dev (inode_block (supers s k) (unat num)) b" "idle_buf s b"
  shows "read_inode p s = Inr ((), upd_inode p (load_dinode (b_data (bufs s b)) (inode_slot (unat num))) s)"
proof -
  let ?slot = "inode_slot (unat num)" and ?l = "upd_inode p (\<lambda>i. i\<lparr>i_lock := 1\<rparr>) s"
  let ?v = "upd_inode p (\<lambda>i. load_dinode (b_data (bufs s b)) ?slot (i\<lparr>i_lock := 1\<rparr>)) s"
  let ?act = "\<lambda>b t. upd_inode p (load_dinode (b_data (bufs t b))
      (48 * unat ((word_of_int (uint (i_num (inodes t p)) - 1) :: u64) mod INODES_PER_BLOCK))) t"
  have "48 * unat ((word_of_int (uint (i_num (inodes (upd_buf b (\<lambda>h. h\<lparr>b_count := b_count h + 1\<rparr>) ?l) p)) - 1) :: u64) mod INODES_PER_BLOCK) = ?slot"
    using inode_place(2) [OF assms(7)] assms(6) by (simp add: upd_buf_def upd_inode_def)
  then have a: "?act b (upd_buf b (\<lambda>h. h\<lparr>b_count := b_count h + 1\<rparr>) ?l) = upd_buf b (\<lambda>h. h\<lparr>b_count := b_count h + 1\<rparr>) ?v"
    by (simp only:) (simp add: upd_inode_def upd_buf_def)
  have "idle_buf ?v b" "quiet ?v" "waitq ?v = waitq s" using assms(2,9) by (simp_all add: idle_buf_def quiet_def upd_inode_def)
  note w = inode_block_work [where act = ?act and e = "''unable to read i-node block''", OF assms(1,3,8,9) refl a this]
  have "(load_dinode d o' (i\<lparr>i_lock := 1\<rparr>))\<lparr>i_lock := 0\<rparr> = load_dinode d o' i" if "i_lock i = 0" for d o' i
    using that by (cases i) (simp add: load_dinode_def fun_eq_iff)
  then have "upd_inode p (\<lambda>i. i\<lparr>i_lock := 0\<rparr>) ?v = upd_inode p (load_dinode (b_data (bufs s b)) ?slot) s"
    using assms(3) by (simp add: upd_inode_def idle_inode_def)
  then show ?thesis
    unfolding read_inode_def kseq_Inr [of "lock_inode p" s, OF lock_unlock_idle(1) [OF assms(3)]] locked_inode assms(4,6) [symmetric] assms(5) option.case Let_def
      inode_place(1) [OF assms(7)] w by simp
qed

text \<open>\<open>write_inode\<close> stores it there and marks the block dirty.\<close>

lemma write_inode_cached:
  assumes "cache_inv s" "quiet s" "idle_inode s p" "dev = uint (i_dev (inodes s p))" "get_super dev s = Some k"
    "num = i_num (inodes s p)" "num \<noteq> 0" "holds s dev (inode_block (supers s k) (unat num)) b" "idle_buf s b"
  shows "write_inode p s = Inr ((), upd_inode p (\<lambda>i. i\<lparr>i_dirt := 0\<rparr>)
    (upd_buf b (\<lambda>h. h\<lparr>b_data := store_dinode (inodes s p) (inode_slot (unat num)) (b_data h), b_dirt := 1\<rparr>) s))"
proof -
  let ?slot = "inode_slot (unat num)" and ?l = "upd_inode p (\<lambda>i. i\<lparr>i_lock := 1\<rparr>) s"
  let ?v = "upd_inode p (\<lambda>i. i\<lparr>i_lock := 1, i_dirt := 0\<rparr>)
    (upd_buf b (\<lambda>h. h\<lparr>b_data := store_dinode (inodes s p) ?slot (b_data h), b_dirt := 1\<rparr>) s)"
  let ?act = "\<lambda>b t. upd_inode p (\<lambda>i. i\<lparr>i_dirt := 0\<rparr>)
     (upd_buf b (\<lambda>h. h\<lparr>b_data := store_dinode (inodes t p)
          (48 * unat ((word_of_int (uint (i_num (inodes t p)) - 1) :: u64) mod INODES_PER_BLOCK)) (b_data h),
        b_dirt := 1\<rparr>) t)"
  have st: "store_dinode (i\<lparr>i_lock := 1\<rparr>) = store_dinode i" for i by (simp add: store_dinode_def fun_eq_iff)
  have "48 * unat ((word_of_int (uint (i_num (inodes (upd_buf b (\<lambda>h. h\<lparr>b_count := b_count h + 1\<rparr>) ?l) p)) - 1) :: u64) mod INODES_PER_BLOCK) = ?slot"
    using inode_place(2) [OF assms(7)] assms(6) by (simp add: upd_buf_def upd_inode_def)
  then have a: "?act b (upd_buf b (\<lambda>h. h\<lparr>b_count := b_count h + 1\<rparr>) ?l) = upd_buf b (\<lambda>h. h\<lparr>b_count := b_count h + 1\<rparr>) ?v"
    by (simp only: upd_inode_buf upd_inode_twice upd_buf_twice count_last) (simp add: upd_inode_def upd_buf_def st)
  have "idle_buf ?v b" "quiet ?v" "waitq ?v = waitq s" using assms(2,9) by (simp_all add: idle_buf_def quiet_def upd_inode_def upd_buf_def)
  note w = inode_block_work [where act = ?act and e = "''unable to read i-node block''", OF assms(1,3,8,9) refl a this]
  have "upd_inode p (\<lambda>i. i\<lparr>i_lock := 0\<rparr>) ?v = upd_inode p (\<lambda>i. i\<lparr>i_dirt := 0\<rparr>)
      (upd_buf b (\<lambda>h. h\<lparr>b_data := store_dinode (inodes s p) ?slot (b_data h), b_dirt := 1\<rparr>) s)"
    unfolding upd_inode_twice using assms(3) by (intro upd_inode_cong) (simp add: upd_buf_def idle_inode_def unlock_last)
  then show ?thesis
    unfolding write_inode_def kseq_Inr [of "lock_inode p" s, OF lock_unlock_idle(1) [OF assms(3)]] locked_inode assms(4,6) [symmetric] assms(5) option.case Let_def
      inode_place(1) [OF assms(7)] w by simp
qed

text \<open>Two inodes of a file system have different places, 48 bytes apart if they share a block.\<close>

lemma inode_places:
  assumes "0 < m" "0 < n" "m \<noteq> n" "inode_block sb m = inode_block sb n"
  shows "inode_slot m + 48 \<le> inode_slot n \<or> inode_slot n + 48 \<le> inode_slot m"
proof -
  have "(m - 1) div 21 = (n - 1) div 21" using assms(4) by (simp add: inode_block_def)
  moreover have "m - 1 \<noteq> n - 1" using assms(1-3) by auto
  ultimately have "(m - 1) mod 21 \<noteq> (n - 1) mod 21" by (metis div_mult_mod_eq)
  then show ?thesis unfolding inode_slot_def by linarith
qed

lemma stored_block:
  assumes "cache_inv s" "holds s dev block b" "t = upd_inode p f (upd_buf b (\<lambda>h. h\<lparr>b_data := g (b_data h), b_dirt := 1\<rparr>) s)"
  shows "same_links s t" "block_data t dev block = g (block_data s dev block)"
    "(d, c) \<noteq> (dev, block) \<Longrightarrow> block_data t d c = block_data s d c"
proof -
  show l: "same_links s t" by (simp add: assms(3) same_links_def upd_inode_def upd_buf_def)
  have i: "cache_inv t" by (rule cache_inv_links [OF l assms(1)])
  show "block_data t dev block = g (block_data s dev block)"
    using block_data_holds [OF assms(1,2)] block_data_holds [OF i, of dev block b] assms(2) holds_links [OF l]
    by (simp add: assms(3) upd_inode_def upd_buf_def)
  assume ne: "(d, c) \<noteq> (dev, block)"
  have "j \<noteq> b" if "cache_lookup s (d, c) = Some j" for j
    using buffer_cache.lookup_Some [OF assms(1) that] assms(2) ne by (auto simp: holds_def)
  then show "block_data t d c = block_data s d c"
    unfolding block_data_def cache_lookup_links [OF l assms(1)]
    by (auto simp: assms(3) upd_inode_def upd_buf_def split: option.split)
qed

text \<open>C21: Writing an inode and reading it.  For an unlocked inode whose block is in the cache, up to date and unlocked, \<open>write_inode\<close>
  stores the fields that are kept on disk in the place of the inode number -- 21 inodes of 48 bytes to a block, counted from 1,
  after the boot block, the super block and the maps --, marks the block dirty and the inode clean, and changes neither a byte of
  the block outside these 48, nor another block, nor what is stored for any other inode number.  \<open>read_inode\<close> of any
  unlocked inode in memory with the same device and number then finds the fields that were written.\<close>

theorem inode_roundtrip:
  assumes "cache_inv s" "quiet s" "idle_inode s p" "idle_inode s q"
    "dev = uint (i_dev (inodes s p))" "get_super dev s = Some k" "n = unat (i_num (inodes s p))" "0 < n"
    "i_dev (inodes s q) = i_dev (inodes s p)" "i_num (inodes s q) = i_num (inodes s p)"
    "blk = inode_block (supers s k) n" "ready s dev blk"
  shows "\<exists>t u b. write_inode p s = Inr ((), t) \<and> read_inode q t = Inr ((), u)
    \<and> disk_inode t dev (supers s k) n = on_disk (inodes s p) \<and> on_disk (inodes u q) = on_disk (inodes s p)
    \<and> i_dirt (inodes t p) = 0 \<and> cache_lookup t (dev, blk) = Some b \<and> b_dirt (bufs t b) = 1
    \<and> (\<forall>x. x < inode_slot n \<or> inode_slot n + 48 \<le> x \<longrightarrow> block_data t dev blk x = block_data s dev blk x)
    \<and> (\<forall>d c. (d, c) \<noteq> (dev, blk) \<longrightarrow> block_data t d c = block_data s d c)
    \<and> (\<forall>m. 0 < m \<and> m \<noteq> n \<longrightarrow> disk_inode t dev (supers s k) m = disk_inode s dev (supers s k) m)"
proof -
  let ?i = "inodes s p" and ?sb = "supers s k"
  obtain b where b: "holds s dev blk b" "idle_buf s b" using assms(12) by (auto simp: ready_def)
  have num: "i_num ?i \<noteq> 0" using assms(7,8) by auto
  define t where "t = upd_inode p (\<lambda>i. i\<lparr>i_dirt := 0\<rparr>) (upd_buf b (\<lambda>h. h\<lparr>b_data := store_dinode ?i (inode_slot n) (b_data h), b_dirt := 1\<rparr>) s)"
  have w: "write_inode p s = Inr ((), t)"
    using write_inode_cached [OF assms(1-3,5,6) refl num] b assms(7,11) by (simp add: t_def)
  note d = stored_block [OF assms(1) b(1) t_def]
  have idle: "idle_inode t q" "quiet t" "idle_buf t b" "get_super dev t = Some k" "supers t = supers s"
    "i_dev (inodes t q) = i_dev ?i" "i_num (inodes t q) = i_num ?i" "i_dirt (inodes t p) = 0" "b_dirt (bufs t b) = 1"
    using assms(2,4,6,9,10) b(2)
    by (cases "q = p"; simp add: t_def idle_inode_def quiet_def idle_buf_def get_super_def upd_inode_def upd_buf_def)+
  have hb: "holds t dev blk b" "cache_inv t" using b(1) holds_links [OF d(1)] cache_inv_links [OF d(1) assms(1)] by auto
  define u where "u = upd_inode q (load_dinode (b_data (bufs t b)) (inode_slot n)) t"
  have r: "read_inode q t = Inr ((), u)"
    using read_inode_cached [OF hb(2) idle(2,1) _ idle(4) _ num] hb(1) idle(3,5-7) assms(5,7,11) by (simp add: u_def)
  have bt: "b_data (bufs t b) = store_dinode ?i (inode_slot n) (block_data s dev blk)"
    using d(2) block_data_holds [OF hb(2,1)] by simp
  have here: "disk_inode t dev ?sb n = on_disk ?i"
    unfolding disk_inode_def assms(11) [symmetric] d(2) by (rule load_store_dinode)
  have there: "on_disk (inodes u q) = on_disk ?i" by (simp add: u_def upd_inode_def bt load_store_dinode)
  have out: "block_data t dev blk x = block_data s dev blk x" if "x < inode_slot n \<or> inode_slot n + 48 \<le> x" for x
    using that by (auto simp: d(2) store_dinode_byte)
  have other: "disk_inode t dev ?sb m = disk_inode s dev ?sb m" if "0 < m" "m \<noteq> n" for m
  proof (cases "inode_block ?sb m = blk")
    case True
    have "block_data t dev blk (inode_slot m + x) = block_data s dev blk (inode_slot m + x)" if "x < 48" for x
      using inode_places [of m n ?sb] \<open>0 < m\<close> \<open>m \<noteq> n\<close> assms(8,11) True that by (intro out) auto
    then show ?thesis unfolding disk_inode_def True by (metis load_dinode_cong)
  qed (simp add: disk_inode_def d(3))
  have "cache_lookup t (dev, blk) = Some b" using buffer_cache.lookup_iff [OF hb(2), of "(dev, blk)" b] hb(1) by simp
  then show ?thesis
    using w r here there idle(8,9) out d(3) other by (intro exI [of _ t] exI [of _ u] exI [of _ b] conjI allI impI) simp_all
qed

subsection \<open>The block map\<close>

definition zone_dev :: "'a kern_scheme \<Rightarrow> u64 \<Rightarrow> int" where
  "zone_dev s p = uint (i_dev (inodes s p))"

definition entry :: "'a kern_scheme \<Rightarrow> u64 \<Rightarrow> u16 \<Rightarrow> nat \<Rightarrow> u16" where
  "entry s p z k = (if z = 0 then 0 else load16 (block_data s (zone_dev s p) (uint z)) (2 * k))"

text \<open>The specification: block \<open>n\<close> of the file is a zone of the inode, an entry of the indirect block,
  or an entry of an indirect block found in the double indirect block; 0 is a hole.\<close>

definition file_zone :: "'a kern_scheme \<Rightarrow> u64 \<Rightarrow> nat \<Rightarrow> u16" where
  "file_zone s p n =
     (let zone = i_zone (inodes s p) in
      if n < 7 then zone n
      else if n < 7 + 512 then entry s p (zone 7) (n - 7)
      else entry s p (entry s p (zone 8) ((n - 519) div 512)) ((n - 519) mod 512))"

definition indirect_blocks :: "'a kern_scheme \<Rightarrow> u64 \<Rightarrow> nat \<Rightarrow> u16 set" where
  "indirect_blocks s p n =
     (let zone = i_zone (inodes s p) in
      (if n < 7 then {} else if n < 7 + 512 then {zone 7}
       else {zone 8, entry s p (zone 8) ((n - 519) div 512)}) - {0})"

lemma make_zone_present: "(create \<Longrightarrow> i_zone (inodes s p) k \<noteq> 0) \<Longrightarrow> make_zone p k create s = Inr ((), s)"
  by (auto simp: make_zone_def)

lemma bmap_single_cached:
  assumes "cache_inv s" "quiet s" "i_zone (inodes s p) 7 \<noteq> 0 \<Longrightarrow> ready s (zone_dev s p) (uint (i_zone (inodes s p) 7))"
    "create \<Longrightarrow> entry s p (i_zone (inodes s p) 7) k \<noteq> 0"
  shows "bmap_single p k create s = Inr (uint (entry s p (i_zone (inodes s p) 7) k), s)"
proof (cases "i_zone (inodes s p) 7 = 0")
  case True
  then show ?thesis using assms(4) by (auto simp: bmap_single_def make_zone_def kseq_def kbind_def entry_def Let_def)
next
  case False
  then have "create \<Longrightarrow> load16 (block_data s (zone_dev s p) (uint (i_zone (inodes s p) 7))) (2 * k) \<noteq> 0"
    using assms(4) by (simp add: entry_def)
  note r = read_entry [OF assms(1,2) assms(3) [OF False] this, unfolded zone_dev_def]
  show ?thesis using False
    by (simp add: bmap_single_def make_zone_present kseq_Inr r entry_def zone_dev_def Let_def)
qed

lemma bmap_double_cached:
  assumes "cache_inv s" "quiet s" "z = i_zone (inodes s p) 8" "y = entry s p z (k div 512)"
    "z \<noteq> 0 \<Longrightarrow> ready s (zone_dev s p) (uint z)" "y \<noteq> 0 \<Longrightarrow> ready s (zone_dev s p) (uint y)"
    "create \<Longrightarrow> entry s p y (k mod 512) \<noteq> 0"
  shows "bmap_double p k create s = Inr (uint (entry s p y (k mod 512)), s)"
proof (cases "z = 0")
  case True
  then show ?thesis using assms(3,4,7) by (auto simp: bmap_double_def make_zone_def kseq_def kbind_def entry_def Let_def)
next
  case False
  have c: "create \<Longrightarrow> y \<noteq> 0" using assms(7) by (auto simp: entry_def)
  obtain b where hb: "holds s (zone_dev s p) (uint z) b" "idle_buf s b" using assms(5) [OF False] by (auto simp: ready_def)
  have "create \<Longrightarrow> load16 (b_data (bufs s b)) (2 * (k div 512)) \<noteq> 0"
    using c False block_data_holds [OF assms(1) hb(1)] by (simp add: entry_def assms(4))
  from indirect_cached [OF hb(2) assms(2) this]
  have e: "indirect p b (k div 512) create (upd_buf b (\<lambda>h. h\<lparr>b_count := b_count h + 1\<rparr>) s) = Inr (uint y, s)"
    using block_data_holds [OF assms(1) hb(1)] False by (simp add: entry_def assms(4))
  have f: "bmap_double p k create s = (if uint y = 0 then Inr (0, s)
      else kbind (bread (zone_dev s p) (uint y)) (\<lambda>bh v.
        case bh of None \<Rightarrow> Inr (0, v) | Some c \<Rightarrow> indirect p c (k mod 512) create v) s)"
    using False bread_cached [OF assms(1) hb] e
    by (simp add: bmap_double_def make_zone_present kseq_Inr kbind_Inr zone_dev_def assms(3) Let_def)
  show ?thesis
  proof (cases "y = 0")
    case True
    then show ?thesis by (simp add: f entry_def [of s p 0])
  next
    case ne: False
    have "create \<Longrightarrow> load16 (block_data s (zone_dev s p) (uint y)) (2 * (k mod 512)) \<noteq> 0"
      using assms(7) ne by (simp add: entry_def)
    note r = read_entry [OF assms(1,2) assms(6) [OF ne] this]
    show ?thesis using ne by (simp add: f r entry_def [of s p y] uint_0_iff)
  qed
qed

lemma bmap0_cached:
  assumes "cache_inv s" "quiet s" "\<And>z. z \<in> indirect_blocks s p n \<Longrightarrow> ready s (zone_dev s p) (uint z)"
    "create \<Longrightarrow> file_zone s p n \<noteq> 0"
  shows "bmap0 p (int n) create s = (if n < 7 + 512 + 512 * 512 then Inr (uint (file_zone s p n), s)
    else Inl (Panic ''_bmap: block>big'', s))"
proof -
  have i: "z \<noteq> 0 \<Longrightarrow> z \<in> indirect_blocks s p n \<union> {0} \<Longrightarrow> ready s (zone_dev s p) (uint z)" for z using assms(3) by blast
  consider "n < 7" | "7 \<le> n" "n < 519" | "519 \<le> n" "n < 7 + 512 + 512 * 512" | "7 + 512 + 512 * 512 \<le> n" by linarith
  then show ?thesis
  proof cases
    case 1
    then show ?thesis using assms(4) by (simp add: bmap0_def make_zone_present kseq_def kbind_def file_zone_def Let_def)
  next
    case 2
    have "nat (int n - 7) = n - 7" using 2 by simp
    then have "bmap0 p (int n) create s = bmap_single p (n - 7) create s" using 2 by (simp add: bmap0_def)
    moreover have "i_zone (inodes s p) 7 \<in> indirect_blocks s p n \<union> {0}" using 2 by (simp add: indirect_blocks_def)
    then have r: "i_zone (inodes s p) 7 \<noteq> 0 \<Longrightarrow> ready s (zone_dev s p) (uint (i_zone (inodes s p) 7))" using i by blast
    moreover have fz: "file_zone s p n = entry s p (i_zone (inodes s p) 7) (n - 7)" using 2 by (simp add: file_zone_def Let_def)
    ultimately show ?thesis
      using 2 assms(4) bmap_single_cached [OF assms(1,2) r, of create "n - 7"] by (simp add: fz)
  next
    case 3
    have "nat (int n - 519) = n - 519" using 3 by simp
    then have "bmap0 p (int n) create s = bmap_double p (n - 519) create s" using 3 by (simp add: bmap0_def)
    moreover let ?y = "entry s p (i_zone (inodes s p) 8) ((n - 519) div 512)"
    have "i_zone (inodes s p) 8 \<in> indirect_blocks s p n \<union> {0}" "?y \<in> indirect_blocks s p n \<union> {0}"
      using 3 by (auto simp: indirect_blocks_def Let_def)
    then have r: "i_zone (inodes s p) 8 \<noteq> 0 \<Longrightarrow> ready s (zone_dev s p) (uint (i_zone (inodes s p) 8))"
      "?y \<noteq> 0 \<Longrightarrow> ready s (zone_dev s p) (uint ?y)" using i by blast+
    moreover have fz: "file_zone s p n = entry s p ?y ((n - 519) mod 512)"
      using 3 by (simp add: file_zone_def Let_def)
    ultimately show ?thesis
      using 3 assms(4) bmap_double_cached [OF assms(1,2) refl refl r, of create] by (simp add: fz)
  next
    case 4
    then show ?thesis by (simp add: bmap0_def panic_def)
  qed
qed

lemma bmap_cached:
  assumes "cache_inv s" "quiet s" "\<And>z. z \<in> indirect_blocks s p n \<Longrightarrow> ready s (zone_dev s p) (uint z)"
  shows "bmap p (int n) s = (if n < 7 + 512 + 512 * 512 then Inr (uint (file_zone s p n), s)
    else Inl (Panic ''_bmap: block>big'', s))"
  unfolding bmap_def by (rule bmap0_cached [OF assms]) simp_all

text \<open>C22: When the indirect blocks it needs are in the cache, up to date and unlocked, \<open>bmap\<close> returns
  the zone the block map of the file assigns to block \<open>n\<close>, for every block below the limit of
  7 + 512 + 512 * 512, and leaves the state as it was, reference counts of buffers included.  At the limit it
  panics.\<close>

theorem bmap_refines_file_zone:
  assumes "cache_inv s" "quiet s" "\<And>z. z \<in> indirect_blocks s p n \<Longrightarrow> ready s (zone_dev s p) (uint z)"
  shows "bmap p (int n) s = (if n < 7 + 512 + 512 * 512 then Inr (uint (file_zone s p n), s)
    else Inl (Panic ''_bmap: block>big'', s))"
  by (rule bmap_cached [OF assms])

text \<open>Example states: block 1 of device 0x301 is in the cache with the bytes \<open>d\<close>; the inode at 4096 is \<open>i\<close>.\<close>

definition small_with :: "(nat \<Rightarrow> u8) \<Rightarrow> m_inode \<Rightarrow> kern" where
  "small_with d i = small_cache\<lparr>bufs := (bufs small_cache)(0 := (bufs small_cache 0)\<lparr>b_uptodate := 1, b_data := d\<rparr>),
     inodes := (inodes boot_kern)(4096 := i)\<rparr>"

lemma small_with_links: "same_links small_cache (small_with d i)"
  by (simp add: same_links_def small_with_def)

lemma small_with_inv: "cache_inv (small_with d i)"
  using small_cache_inv cache_wf_links [OF small_with_links] small_with_links [of d i]
  unfolding cache_inv_def holds_links [OF small_with_links] by (simp add: same_links_def)

lemma small_with_ready: "ready (small_with d i) 0x301 1" "quiet (small_with d i)" "block_data (small_with d i) 0x301 1 = d"
  "inodes (small_with d i) 4096 = i" "holds (small_with d i) 0x301 1 0"
proof -
  show h: "holds (small_with d i) 0x301 1 0"
    unfolding holds_links [OF small_with_links] unfolding holds_def small_cache_cached by (simp add: small_cache_def)
  show "quiet (small_with d i)"
    by (simp add: quiet_def small_with_def small_cache_def boot_kern_def ttys.extend_def sched.extend_def two_tasks_def)
  show "ready (small_with d i) 0x301 1" using h unfolding ready_def
    by (intro exI [of _ 0]) (simp add: idle_buf_def small_with_def small_cache_def boot_kern_buf)
  show "block_data (small_with d i) 0x301 1 = d" using block_data_holds [OF small_with_inv h] by (simp add: small_with_def)
qed (simp add: small_with_def)

text \<open>Two inodes in memory with the number 5 of a device without maps, whose inodes start at block 2; its block 2 is in the cache.\<close>

definition two_inodes :: kern where
  "two_inodes = small_cache\<lparr>bufs := (bufs small_cache)(0 := (bufs small_cache 0)\<lparr>b_uptodate := 1, b_blocknr := 2\<rparr>),
      hash_table := (\<lambda>_. None)(157 := Some 0),
      inodes := (\<lambda>_. zero_inode\<lparr>i_dev := 0x301, i_num := 5\<rparr>)(4096 := zero_inode\<lparr>i_dev := 0x301, i_num := 5, i_size := 77\<rparr>),
      supers := (supers boot_kern)(0 := (supers boot_kern 0)\<lparr>s_dev := 0x301\<rparr>)\<rparr>"

lemma two_inodes_inv: "cache_inv two_inodes" "holds two_inodes 0x301 2 0"
proof -
  have c: "cached two_inodes i \<longleftrightarrow> i = 0" for i by (auto simp: cached_def two_inodes_def small_cache_def boot_kern_buf)
  have h: "bh_hash (bufs two_inodes 0) = 157"
    by (simp add: two_inodes_def small_cache_def boot_kern_buf bh_hash_def hashfn_def NR_HASH_def)
  have r: "free_ring (bufs two_inodes) [1, 0]" by (simp add: free_ring_def two_inodes_def small_cache_def)
  have "cache_ok two_inodes [1, 0] ((\<lambda>_. [])(157 := [0]))"
    unfolding cache_ok_def c using r h by (auto simp: two_inodes_def small_cache_def boot_kern_buf)
  then show "cache_inv two_inodes" unfolding cache_inv_def cache_wf_def holds_def c by (auto simp: two_inodes_def small_cache_def)
  show "holds two_inodes 0x301 2 0" unfolding holds_def c by (simp add: two_inodes_def small_cache_def)
qed

theorem inode_roundtrip_witness:
  "\<exists>t u. write_inode 4096 two_inodes = Inr ((), t) \<and> read_inode 8192 t = Inr ((), u) \<and> i_size (inodes u 8192) = 77"
proof -
  have s: "get_super 0x301 two_inodes = Some 0" "inode_block (supers two_inodes 0) 5 = 2"
    by (simp_all add: get_super_def NR_SUPER_def upt_rec two_inodes_def inode_block_def boot_kern_def ttys.extend_def sched.extend_def)
  have w: "waitq two_inodes = (\<lambda>_. 0)"
    by (simp add: two_inodes_def small_cache_def boot_kern_def ttys.extend_def sched.extend_def two_tasks_def)
  then have q: "quiet two_inodes" "idle_inode two_inodes 4096" "idle_inode two_inodes 8192"
    by (simp_all add: quiet_def idle_inode_def) (simp_all add: two_inodes_def zero_inode_def)
  have i: "inodes two_inodes 4096 = zero_inode\<lparr>i_dev := 0x301, i_num := 5, i_size := 77\<rparr>"
    "inodes two_inodes 8192 = zero_inode\<lparr>i_dev := 0x301, i_num := 5\<rparr>" by (simp_all add: two_inodes_def)
  have "idle_buf two_inodes 0" by (simp add: idle_buf_def two_inodes_def small_cache_def boot_kern_buf)
  then have "ready two_inodes 0x301 2" using two_inodes_inv(2) by (auto simp: ready_def)
  from inode_roundtrip [OF two_inodes_inv(1) q(1-3), where dev = 769 and k = 0 and n = 5 and blk = 2] this s
  show ?thesis by (auto simp: i on_disk_def)
qed

definition one_file :: kern where
  "one_file = small_with ((\<lambda>_. 0)(6 := 44)) (zero_inode\<lparr>i_dev := 0x301, i_zone := (\<lambda>_. 0)(7 := 1)\<rparr>)"

lemmas one_file_inv = small_with_inv [of "(\<lambda>_. 0)(6 := 44)" "zero_inode\<lparr>i_dev := 0x301, i_zone := (\<lambda>_. 0)(7 := 1)\<rparr>",
    folded one_file_def]
  and one_file_ready = small_with_ready [of "(\<lambda>_. 0)(6 := 44)" "zero_inode\<lparr>i_dev := 0x301, i_zone := (\<lambda>_. 0)(7 := 1)\<rparr>",
    folded one_file_def]

lemma one_file_zones: "zone_dev one_file 4096 = 0x301" "file_zone one_file 4096 10 = 44" "file_zone one_file 4096 9 = 0"
    "indirect_blocks one_file 4096 10 = {1}" "indirect_blocks one_file 4096 9 = {1}"
  by (simp_all add: file_zone_def entry_def zone_dev_def one_file_ready load16_def Let_def indirect_blocks_def)

lemma bmap_refines_file_zone_witness: "bmap 4096 (int 10) one_file = Inr (44, one_file)"
  using bmap_refines_file_zone [OF one_file_inv one_file_ready(2), of 4096 10] one_file_ready(1) by (simp add: one_file_zones)

end
