(* ===== verification/Super_Props.thy ===== *)
theory Super_Props
  imports Super Inode_Props Tty_Props
begin

text \<open>
  Results on starting the file system: the set-up call, mounting the root and the loop that counts the
  free entries of a bit map.
\<close>

subsection \<open>Messages\<close>

lemma vsnprintf_loop_text:
  "37 \<notin> set cs \<Longrightarrow> vsnprintf_loop lim buf (cs @ fmt) args st = vsnprintf_loop lim buf fmt args (puts lim cs st)"
  by (induction cs arbitrary: st) auto

lemma snd_put_str: "snd (put_str lim s i n st) = snd st + n"
  by (induction n arbitrary: i st) (simp_all add: put_def)

lemma strnlen_le:
  assumes "m (s + k) = 0"
  shows "strnlen m s maxlen \<le> k"
proof -
  have "m (s + k) = 0 \<Longrightarrow> len \<le> k \<Longrightarrow> strnlen_loop m s maxlen len \<le> k" for len
  proof (induction m s maxlen len rule: strnlen_loop.induct)
    case (1 m s maxlen len)
    show ?case
    proof (cases "len < maxlen \<and> m (s + len) \<noteq> 0")
      case True
      then have "len \<noteq> k" using "1.prems"(1) by auto
      then show ?thesis using "1.IH" [OF True "1.prems"(1)] "1.prems"(2) True by (subst strnlen_loop.simps) simp
    next
      case False
      then show ?thesis using "1.prems"(2) by (subst strnlen_loop.simps) auto
    qed
  qed
  then show ?thesis using assms by (simp add: strnlen_def)
qed

text \<open>A conversion \<open>%s\<close> without flags, width or precision emits the string, if that is shorter than 1024 bytes.\<close>

lemma str_len_bound:
  assumes "m (unat p + k) = 0" "k < 1024"
  shows "0 \<le> str_len m p (- 1)" "str_len m p (- 1) < 1024"
proof -
  let ?n = "strnlen m (unat p) (unat (- 1 :: u64))"
  have n: "?n \<le> k" using assms by (intro strnlen_le) simp_all
  then have "sint (word_of_nat ?n :: u32) = int ?n"
    using to_int_nat [of ?n] assms(2) by (simp add: to_int_def)
  then show "0 \<le> str_len m p (- 1)" "str_len m p (- 1) < 1024"
    using n assms(2) by (auto simp: str_len_def Let_def null_text_def)
qed

lemma convert_string:
  assumes "fst st (unat p + k) = 0" "k < 1024"
  shows "\<exists>st'. convert lim buf (115 # fmt) (p # args) st = Some (fmt, args, st') \<and> snd st \<le> snd st' \<and> snd st' < snd st + 1024"
proof -
  let ?len = "str_len (fst st) p (- 1)"
  have l: "0 \<le> ?len" "?len < 1024" using str_len_bound [of "fst st" p k, OF assms] by auto
  then have "convert lim buf (115 # fmt) (p # args) st = Some (fmt, args, put_str lim p 0 (nat ?len) st)"
    by (simp add: convert_def parse_width_def parse_precision_def parse_qualifier_def pad_eqs in_int_def
        is_digit_def cur_def has_def F_LEFT_def)
  then show ?thesis using l by (simp add: snd_put_str)
qed

text \<open>The string at \<open>p\<close> ends within 1024 bytes and outside the 1024 bytes at \<open>buf\<close>, which lie in the address space.\<close>

definition text_at :: "mem \<Rightarrow> nat \<Rightarrow> u64 \<Rightarrow> bool" where
  "text_at m buf p \<longleftrightarrow> buf + 2048 \<le> 2 ^ 64
     \<and> (\<exists>k < 1024. m (unat p + k) = 0 \<and> (unat p + k < buf \<or> buf + 1024 \<le> unat p + k))"

lemma vsprintf_prefix_string:
  assumes "37 \<notin> set cs" "cs \<noteq> []" "37 \<notin> set ds" "length cs + length ds < 1024" "text_at m buf p"
  shows "\<exists>i m'. vsprintf m buf (cs @ 37 # 115 # ds) (p # args) = Some (i, m') \<and> 0 < i"
proof -
  obtain k where k: "k < 1024" "m (unat p + k) = 0" "unat p + k < buf \<or> buf + 1024 \<le> unat p + k" and b: "buf + 2048 \<le> 2 ^ 64"
    using assms(5) by (auto simp: text_at_def)
  have "\<exists>m' str. vsnprintf_loop lim buf (cs @ 37 # 115 # ds) (p # args) (m, buf) = Some (m', str)
      \<and> buf < str \<and> str < buf + 2048" for lim
  proof -
    have "fst (puts lim cs (m, buf)) (unat p + k) = 0" using k assms(4) by (auto simp: puts_eq)
    then obtain st1 where 1: "convert lim buf (115 # ds) (p # args) (puts lim cs (m, buf)) = Some (ds, args, st1)"
      "buf + length cs \<le> snd st1" "snd st1 < buf + length cs + 1024"
      using convert_string [of "puts lim cs (m, buf)" p k lim buf ds args] k(1) by (auto simp: snd_puts)
    have "0 < length cs" using assms(2) by blast
    then have "buf < snd (puts lim ds st1)" "snd (puts lim ds st1) < buf + 2048"
      using 1(2,3) assms(4) unfolding snd_puts by linarith+
    then show ?thesis
      using assms(1,3) 1(1) by (cases "puts lim ds st1") (simp add: vsnprintf_loop_text vsnprintf_loop_plain)
  qed
  then obtain g h where "\<And>lim. vsnprintf_loop lim buf (cs @ 37 # 115 # ds) (p # args) (m, buf) = Some (g lim, h lim)
      \<and> buf < h lim \<and> h lim < buf + 2048" by metis
  moreover have "h lim < 2 ^ 64 \<and> to_int (int (h lim) - int buf) = int (h lim - buf) \<and> 0 < h lim - buf" for lim
  proof -
    have "buf < h lim" "h lim < buf + 2048" using calculation by blast+
    then show ?thesis using b to_int_nat [of "h lim - buf"] by (simp add: of_nat_diff)
  qed
  ultimately show ?thesis unfolding vsprintf_def vsnprintf_def Let_def by (simp split: prod.split)
qed

subsection \<open>The set-up call\<close>

lemma cur_signal_ext: "cur_signal (s\<lparr>kbytes := m\<rparr>) = cur_signal s"
  by (simp add: cur_signal_def)

lemma printk_console_faults:
  fixes s :: "'a kernel_scheme"
  assumes "printk_write s = TtyWrite" "write_fn (tty_table s 0) = NullWrite" "cur_signal s = 0"
    "\<not> FULL (write_q (tty_table s 0))"
    and "\<exists>i m'. vsprintf (kbytes s) (printk_buf s) fmt args = Some (i, m') \<and> 0 < i"
  shows "\<exists>t. printk fmt args s = Inl (BadAccess 0, t)"
proof -
  obtain i m' where v: "vsprintf (kbytes s) (printk_buf s) fmt args = Some (i, m')" "0 < i" using assms(5) by blast
  let ?t = "s\<lparr>kbytes := m'\<rparr>"
  let ?text = "map (\<lambda>k. m' (printk_buf s + k)) [0..<nat i]"
  obtain t where "tty_write 0 ?text i ?t = Inl (BadAccess 0, t)"
    using tty_write_console_faults [of ?t i ?text] assms(2-4) v(2) by (auto simp: cur_signal_def)
  then show ?thesis using v(1) assms(1) by (auto simp: printk_def Let_def kres_simps)
qed

text \<open>C23: The first \<open>setup\<close> call never gets the root file system mounted.  It first switches \<open>printk\<close> to
  \<open>tty_write\<close>, and its own message \<open>"Partition table ok."\<close> is then written to the console, which has no
  write routine: with the empty drive table of the source the call ends in a jump through the null
  pointer (the string that \<open>%s\<close> is given ends within 1024 bytes, and outside the buffer of \<open>printk\<close>).  Were the message printed, \<open>mount_root\<close> would panic whatever the disk holds, because a disk
  inode has 48 bytes on this machine.\<close>

theorem sys_setup_never_mounts:
  fixes s :: "'a kernel_scheme"
  assumes "setup_callable s" "hd_info s = []" "write_fn (tty_table s 0) = NullWrite" "cur_signal s = 0"
    "\<not> FULL (write_q (tty_table s 0))" "text_at (kbytes s) (printk_buf s) (plural False)"
  shows "(\<exists>t. sys_setup plural s = Inl (BadAccess 0, t)) \<and> mount_root r = Inl (Panic ''bad i-node size'', r)"
proof
  let ?s = "(printk_init s)\<lparr>setup_callable := False\<rparr>"
  let ?cs = "[80, 97, 114, 116, 105, 116, 105, 111, 110, 32, 116, 97, 98, 108, 101] :: u8 list"
  let ?ds = "[32, 111, 107, 46, 10, 13] :: u8 list"
  have f: "str ''Partition table%s ok.'' @ [10, 13] = ?cs @ 37 # 115 # ?ds"
    by (simp add: str_def)
  have "\<exists>t. printk (str ''Partition table%s ok.'' @ [10, 13]) [plural False] ?s = Inl (BadAccess 0, t)"
  proof (rule printk_console_faults)
    show "\<exists>i m'. vsprintf (kbytes ?s) (printk_buf ?s) (str ''Partition table%s ok.'' @ [10, 13]) [plural False] = Some (i, m') \<and> 0 < i"
      unfolding f using assms(6) by (intro vsprintf_prefix_string) (simp_all add: printk_init_def)
  qed (use assms in \<open>simp_all add: printk_init_def cur_signal_def\<close>)
  then show "\<exists>t. sys_setup plural s = Inl (BadAccess 0, t)"
    using assms(1,2) by (auto simp: sys_setup_def Let_def printk_init_def kres_simps)
  show "mount_root r = Inl (Panic ''bad i-node size'', r)"
    by (simp add: mount_root_def sizeof_d_inode_def kres_simps)
qed

definition boot_kernel :: kernel where
  "boot_kernel = kern.extend boot_kern
     \<lparr>kbytes = \<lambda>_. 0, printk_buf = 4096, printk_write = SbiWrite, sbi_out = []\<rparr>"

lemma sys_setup_never_mounts_witness:
  "(\<exists>t. sys_setup (\<lambda>_. 0) boot_kernel = Inl (BadAccess 0, t))
    \<and> mount_root boot_kernel = Inl (Panic ''bad i-node size'', boot_kernel)"
  by (rule sys_setup_never_mounts)
    (simp_all add: boot_kernel_def kern.extend_def boot_kern_def ttys.extend_def sched.extend_def init_tty_table_def
      cur_signal_def two_tasks_def plain_task_def FULL_bytes text_at_def, auto intro: exI [of _ 0])

end
