(* ===== verification/Pipe_Props.thy ===== *)
theory Pipe_Props
  imports Pipe Super_Props Mm_Tables
begin

text \<open>
  A pipe is a bounded first-in first-out queue of 4095 bytes: \<open>write_pipe\<close> appends to it and
  \<open>read_pipe\<close> takes from its front, through the indices kept in the zones of the inode and the bytes
  of its page.
\<close>

subsection \<open>Indices\<close>

lemma bit_PIPE:
  "bit (PIPE_HEAD i) k \<longleftrightarrow> k < 64 \<and> bit (i_zone i (k div 16)) (k mod 16)"
  "bit (PIPE_TAIL i) k \<longleftrightarrow> k < 64 \<and> bit (i_zone i (4 + k div 16)) (k mod 16)"
  using bit_pieces [of 4 "i_zone i" k] bit_pieces [of 4 "\<lambda>j. i_zone i (4 + j)" k]
  by (simp_all add: PIPE_HEAD_def PIPE_TAIL_def)

lemma bit_piece: "k < 64 \<Longrightarrow> bit (ucast (drop_bit (16 * (k div 16)) (w :: u64)) :: u16) (k mod 16) \<longleftrightarrow> bit w k"
  by (simp add: bit_ucast_iff bit_drop_bit_eq)

lemma PIPE_set [simp]:
  "PIPE_HEAD (set_PIPE_HEAD w i) = w" "PIPE_TAIL (set_PIPE_HEAD w i) = PIPE_TAIL i"
  "PIPE_TAIL (set_PIPE_TAIL w i) = w" "PIPE_HEAD (set_PIPE_TAIL w i) = PIPE_HEAD i"
proof -
  have "bit w k \<Longrightarrow> k < 64" for k using bit_imp_le_length [of w k] by simp
  moreover have "k < 64 \<Longrightarrow> k div 16 < 4" for k :: nat by (simp add: less_mult_imp_div_less)
  ultimately show
    "PIPE_HEAD (set_PIPE_HEAD w i) = w" "PIPE_TAIL (set_PIPE_HEAD w i) = PIPE_TAIL i"
    "PIPE_TAIL (set_PIPE_TAIL w i) = w" "PIPE_HEAD (set_PIPE_TAIL w i) = PIPE_HEAD i"
    by (auto simp: bit_eq_iff bit_PIPE set_PIPE_HEAD_def set_PIPE_TAIL_def bit_piece)
qed

lemma PIPE_other [simp]:
  "i_size (set_PIPE_HEAD w i) = i_size i" "i_size (set_PIPE_TAIL w i) = i_size i"
  "i_count (set_PIPE_HEAD w i) = i_count i" "i_count (set_PIPE_TAIL w i) = i_count i"
  by (simp_all add: set_PIPE_HEAD_def set_PIPE_TAIL_def)

lemma unat_mask12: "unat ((x :: u64) AND 0xFFF) = unat x mod 4096"
proof -
  have "(0xFFF :: u64) = mask 12" by (simp add: mask_eq_exp_minus_1)
  then have "x AND 0xFFF = take_bit 12 x" by (simp add: take_bit_eq_mask)
  then show ?thesis by (simp add: unsigned_take_bit_eq take_bit_eq_mod unat_mod)
qed

lemma unat_INC_PIPE: "unat a < 4096 \<Longrightarrow> unat (INC_PIPE a) = (unat a + 1) mod 4096"
  by (simp add: INC_PIPE_def unat_mask12 unat_word_ariths)

lemma PIPE_FULL_iff:
  assumes "unat (PIPE_HEAD i) < 4096" "unat (PIPE_TAIL i) < 4096"
  shows "PIPE_FULL i \<longleftrightarrow> ring_len 4096 (unat (PIPE_HEAD i)) (unat (PIPE_TAIL i)) = 4095"
proof -
  let ?h = "unat (PIPE_HEAD i)" and ?t = "unat (PIPE_TAIL i)"
  have "unat (PIPE_SIZE i) = ring_len 4096 ?h ?t"
  proof (cases "?t \<le> ?h")
    case True
    then have "unat (PIPE_HEAD i - PIPE_TAIL i) = ?h - ?t" by (simp add: unat_sub_if')
    then show ?thesis using True assms by (simp add: PIPE_SIZE_def unat_mask12 ring_len_cases)
  next
    case False
    then have "unat (PIPE_HEAD i - PIPE_TAIL i) = ?h + 2 ^ 64 - ?t" by (simp add: unat_sub_if')
    also have "\<dots> = (?h + 4096 - ?t) + 4096 * (2 ^ 52 - 1)" using assms by simp
    finally have e: "unat (PIPE_HEAD i - PIPE_TAIL i) = (?h + 4096 - ?t) + 4096 * (2 ^ 52 - 1)" .
    have "unat (PIPE_SIZE i) = unat (PIPE_HEAD i - PIPE_TAIL i) mod 4096" by (simp add: PIPE_SIZE_def unat_mask12)
    also have "\<dots> = (?h + 4096 - ?t) mod 4096" unfolding e by (rule mod_mult_self2)
    finally show ?thesis using False assms by (simp add: ring_len_cases)
  qed
  then show ?thesis by (simp add: PIPE_FULL_def word_unat_eq_iff)
qed

subsection \<open>Bytes of memory\<close>

definition byte_at :: "(u64 \<Rightarrow> u64) \<Rightarrow> u64 \<Rightarrow> u8" where
  "byte_at m a = ucast (drop_bit (8 * (unat a mod 8)) (m (a AND NOT 7)))"

lemma load_byte_at: "direct a \<Longrightarrow> load_byte a s = Inr (byte_at (pmem s) a, s)"
  by (simp add: load_byte_def byte_at_def)

lemma bit_put_byte:
  "bit (put_byte k c w) n \<longleftrightarrow> n < 64 \<and> (if 8 * k \<le> n \<and> n < 8 * k + 8 then bit c (n - 8 * k) else bit w n)"
proof -
  have m: "bit (0xFF :: u64) j \<longleftrightarrow> j < 8" for j
    using bit_mask_iff [of 8 j, where ?'a = u64] by (auto simp: mask_eq_exp_minus_1)
  have "bit w n \<Longrightarrow> n < 64" using bit_imp_le_length [of w n] by simp
  moreover have "bit c (n - 8 * k) \<Longrightarrow> n - 8 * k < 8" using bit_imp_le_length [of c "n - 8 * k"] by simp
  ultimately show ?thesis
    using m [of "n - 8 * k"]
    by (cases "8 * k \<le> n \<and> n < 8 * k + 8")
      (auto simp: put_byte_def bit_or_iff bit_and_iff bit_not_iff bit_push_bit_iff bit_ucast_iff)
qed

lemma same_word_byte:
  assumes "a AND NOT 7 = b AND NOT 7" "unat a mod 8 = unat (b :: u64) mod 8"
  shows "a = b"
proof -
  have "(7 :: u64) = mask 3" by (simp add: mask_eq_exp_minus_1)
  then have "x AND 7 = take_bit 3 x" for x :: u64 by (simp add: take_bit_eq_mask)
  then have "unat (x AND 7) = unat x mod 8" for x :: u64 by (simp add: take_bit_eq_mod unat_mod)
  then have "a AND 7 = b AND 7" using assms(2) by (simp add: word_unat_eq_iff)
  then show ?thesis using assms(1) by (metis bit.conj_disj_distrib bit.disj_cancel_right and.right_neutral)
qed

lemma byte_at_store:
  "byte_at (m(a AND NOT 7 := put_byte (unat a mod 8) c (m (a AND NOT 7)))) b = (if b = a then c else byte_at m b)"
proof (rule bit_word_eqI)
  fix n assume n: "n < LENGTH(8)"
  let ?m = "m(a AND NOT 7 := put_byte (unat a mod 8) c (m (a AND NOT 7)))"
  have b: "bit (byte_at m' b) n \<longleftrightarrow> bit (m' (b AND NOT 7)) (8 * (unat b mod 8) + n)" for m'
    using n by (simp add: byte_at_def bit_ucast_iff bit_drop_bit_eq)
  have "unat b mod 8 < 8" by simp
  then have r: "8 * (unat b mod 8) + n < 64" using n by simp
  have eq: "8 * x \<le> 8 * y + n \<and> 8 * y + n < 8 * x + 8 \<longleftrightarrow> x = y" for x y using n by auto
  show "bit (byte_at ?m b) n \<longleftrightarrow> bit (if b = a then c else byte_at m b) n"
  proof (cases "b AND NOT 7 = a AND NOT 7")
    case True
    then have "b = a \<longleftrightarrow> unat a mod 8 = unat b mod 8" using same_word_byte [of a b] by metis
    then show ?thesis using b [of ?m] b [of m] True r n by (cases "b = a") (simp_all add: bit_put_byte eq)
  next
    case False
    then show ?thesis using b [of ?m] b [of m] by auto
  qed
qed

subsection \<open>The contents of a pipe\<close>

definition pipe_byte :: "'a kern_scheme \<Rightarrow> u64 \<Rightarrow> nat \<Rightarrow> u8" where
  "pipe_byte s p k = byte_at (pmem s) (i_size (inodes s p) + of_nat k)"

definition pipe_bytes :: "'a kern_scheme \<Rightarrow> u64 \<Rightarrow> u8 list" where
  "pipe_bytes s p = ring_list 4096 (pipe_byte s p) (unat (PIPE_HEAD (inodes s p))) (unat (PIPE_TAIL (inodes s p)))"

definition pipe_ok :: "'a kern_scheme \<Rightarrow> u64 \<Rightarrow> bool" where
  "pipe_ok s p \<longleftrightarrow> i_size (inodes s p) \<in> pool_pages \<and> unat (PIPE_HEAD (inodes s p)) < 4096
     \<and> unat (PIPE_TAIL (inodes s p)) < 4096 \<and> i_count (inodes s p) = 2"

lemma pipe_page:
  assumes "q \<in> pool_pages" "unat x < 4096"
  shows "direct (q + x)"
proof -
  obtain i where i: "i < 31232" "q = page_addr i" using assms(1) by (auto simp: pool_pages_def)
  have "unat (q + x) = 0xFFFFFFC000400000 + i * 4096 + unat x"
    using i assms(2) by (simp add: unat_word_ariths unat_page_addr)
  then show "direct (q + x)"
    using i(1) assms(2) by (simp add: direct_def VA_KERNEL_def high_va word_le_nat_alt word_less_nat_alt)
qed

lemma wake_up_kern [simp]:
  "inodes (wake_up q s) = inodes s" "pmem (wake_up q s) = pmem s"
  for s :: "'a kern_scheme"
  by (simp_all add: wake_up_def upd_task_def)

lemma pipe_wake [simp]:
  "pipe_ok (wake_up q s) p = pipe_ok s p" "pipe_bytes (wake_up q s) p = pipe_bytes s p"
  by (simp_all add: pipe_ok_def pipe_bytes_def pipe_byte_def [abs_def])

lemma PIPE_EMPTY_bytes: "pipe_ok s p \<Longrightarrow> PIPE_EMPTY (inodes s p) \<longleftrightarrow> pipe_bytes s p = []"
  by (auto simp: PIPE_EMPTY_def pipe_ok_def pipe_bytes_def ring_list_def ring_len_cases word_unat_eq_iff)

lemma PIPE_FULL_bytes: "pipe_ok s p \<Longrightarrow> PIPE_FULL (inodes s p) \<longleftrightarrow> length (pipe_bytes s p) = 4095"
  by (simp add: pipe_ok_def pipe_bytes_def PIPE_FULL_iff)

subsection \<open>One byte\<close>

lemma pipe_take_byte:
  assumes "pipe_ok s p" "pipe_bytes s p = c # cs"
  defines "t \<equiv> upd_inode p (\<lambda>i. set_PIPE_TAIL (INC_PIPE (PIPE_TAIL i)) i) s"
  shows "load_byte (i_size (inodes s p) + PIPE_TAIL (inodes s p)) s = Inr (c, s)"
    and "pipe_ok t p" and "pipe_bytes t p = cs"
proof -
  let ?i = "inodes s p"
  have o: "i_size ?i \<in> pool_pages" "unat (PIPE_HEAD ?i) < 4096" "unat (PIPE_TAIL ?i) < 4096"
    using assms(1) by (simp_all add: pipe_ok_def)
  have ne: "unat (PIPE_HEAD ?i) \<noteq> unat (PIPE_TAIL ?i)"
    using assms(2) o by (auto simp: pipe_bytes_def ring_list_def ring_len_cases)
  note g = ring_list_get [OF o(2,3) ne, of "pipe_byte s p"]
  have c: "c = pipe_byte s p (unat (PIPE_TAIL ?i))" using g assms(2) by (simp add: pipe_bytes_def)
  show "load_byte (i_size ?i + PIPE_TAIL ?i) s = Inr (c, s)"
    using pipe_page [OF o(1,3)] c by (simp add: load_byte_at pipe_byte_def)
  have "pipe_byte t p = pipe_byte s p" by (simp add: fun_eq_iff pipe_byte_def t_def upd_inode_def)
  then show "pipe_bytes t p = cs"
    using g assms(2) o(3) by (simp add: pipe_bytes_def t_def upd_inode_def unat_INC_PIPE)
  show "pipe_ok t p" using assms(1) by (simp add: pipe_ok_def t_def upd_inode_def unat_INC_PIPE)
qed

lemma pipe_put_byte:
  assumes "pipe_ok s p" "length (pipe_bytes s p) < 4095"
  obtains t where "store_byte (i_size (inodes s p) + PIPE_HEAD (inodes s p)) c s = Inr ((), t)"
    "pipe_ok (upd_inode p (\<lambda>i. set_PIPE_HEAD (INC_PIPE (PIPE_HEAD i)) i) t) p"
    "pipe_bytes (upd_inode p (\<lambda>i. set_PIPE_HEAD (INC_PIPE (PIPE_HEAD i)) i) t) p = pipe_bytes s p @ [c]"
proof -
  let ?i = "inodes s p" and ?a = "i_size (inodes s p) + PIPE_HEAD (inodes s p)"
  have o: "i_size ?i \<in> pool_pages" "unat (PIPE_HEAD ?i) < 4096" "unat (PIPE_TAIL ?i) < 4096"
    using assms(1) by (simp_all add: pipe_ok_def)
  define t where "t = s\<lparr>pmem := (pmem s)(?a AND NOT 7 := put_byte (unat ?a mod 8) c (pmem s (?a AND NOT 7)))\<rparr>"
  let ?u = "upd_inode p (\<lambda>i. set_PIPE_HEAD (INC_PIPE (PIPE_HEAD i)) i) t"
  have h: "i_size ?i + of_nat k = ?a \<longleftrightarrow> k = unat (PIPE_HEAD ?i)" if "k < 4096" for k
    unfolding add_left_cancel using that by (auto simp: word_unat_eq_iff unat_of_nat take_bit_nat_eq_self)
  have m: "pmem ?u = (pmem s)(?a AND NOT 7 := put_byte (unat ?a mod 8) c (pmem s (?a AND NOT 7)))"
    "i_size (inodes ?u p) = i_size ?i" by (simp_all add: upd_inode_def t_def)
  have pb: "pipe_byte ?u p k = ((pipe_byte s p)(unat (PIPE_HEAD ?i) := c)) k" if "k < 4096" for k
    unfolding pipe_byte_def m byte_at_store using h [OF that] by (simp add: pipe_byte_def)
  have len: "ring_len 4096 (unat (PIPE_HEAD ?i)) (unat (PIPE_TAIL ?i)) \<noteq> 4096 - 1"
    using assms(2) by (simp add: pipe_bytes_def)
  have cong: "ring_list 4096 f x y = ring_list 4096 g x y" if "\<And>k. k < 4096 \<Longrightarrow> f k = g k" for f g :: "nat \<Rightarrow> u8" and x y
    using that by (simp add: ring_list_def)
  show thesis
  proof (rule that)
    show "store_byte ?a c s = Inr ((), t)" using pipe_page [OF o(1,2)] by (simp add: store_byte_def t_def)
    show "pipe_ok ?u p" using assms(1) by (simp add: pipe_ok_def upd_inode_def t_def unat_INC_PIPE)
    have "pipe_bytes ?u p = ring_list 4096 ((pipe_byte s p)(unat (PIPE_HEAD ?i) := c))
        ((unat (PIPE_HEAD ?i) + 1) mod 4096) (unat (PIPE_TAIL ?i))"
    proof -
      have "unat (PIPE_HEAD (inodes ?u p)) = (unat (PIPE_HEAD ?i) + 1) mod 4096" "PIPE_TAIL (inodes ?u p) = PIPE_TAIL ?i"
        using o(2) by (simp_all add: upd_inode_def t_def unat_INC_PIPE)
      then show ?thesis unfolding pipe_bytes_def by (simp only: cong [of "pipe_byte ?u p", OF pb])
    qed
    then show "pipe_bytes ?u p = pipe_bytes s p @ [c]"
      using ring_list_put [OF o(2,3) len, of "pipe_byte s p" c] by (simp add: pipe_bytes_def)
  qed
qed

subsection \<open>Whole transfers\<close>

lemma pipe_get_take:
  assumes "pipe_ok s p"
  shows "\<exists>t. pipe_get p n b s = Inr (b @ take n (pipe_bytes s p), t) \<and> pipe_ok t p
    \<and> pipe_bytes t p = drop n (pipe_bytes s p)"
  using assms
proof (induction n arbitrary: b s)
  case (Suc n)
  show ?case
  proof (cases "pipe_bytes s p")
    case Nil
    then show ?thesis using Suc.prems by (simp add: PIPE_EMPTY_bytes)
  next
    case (Cons c cs)
    then show ?thesis
      using Suc.IH [OF pipe_take_byte(2) [OF Suc.prems Cons], of "b @ [c]"] pipe_take_byte(1,3) [OF Suc.prems Cons] Suc.prems
      by (simp add: PIPE_EMPTY_bytes)
  qed
qed auto

lemma pipe_wait_data_ready: "\<not> PIPE_EMPTY (inodes s p) \<Longrightarrow> pipe_wait_data p s = Some (Inr (True, s))"
  by (subst pipe_wait_data.simps) simp

lemma pipe_wait_room_ready: "\<not> PIPE_FULL (inodes s p) \<Longrightarrow> pipe_wait_room p s = Some (Inr (True, s))"
  by (subst pipe_wait_room.simps) simp

lemma pipe_put_append:
  assumes "pipe_ok s p" "length (pipe_bytes s p) + length bs \<le> 4095"
  shows "\<exists>t. pipe_put p bs n s = Inr (int (n + length bs), t) \<and> pipe_ok t p \<and> pipe_bytes t p = pipe_bytes s p @ bs"
  using assms
proof (induction bs arbitrary: n s)
  case (Cons c bs)
  then have room: "length (pipe_bytes s p) < 4095" by simp
  then have w: "pipe_wait_room p s = Some (Inr (True, s))"
    using Cons.prems(1) PIPE_FULL_bytes [of s p] pipe_wait_room_ready [of s p] by simp
  obtain t where t: "store_byte (i_size (inodes s p) + PIPE_HEAD (inodes s p)) c s = Inr ((), t)"
    "pipe_ok (upd_inode p (\<lambda>i. set_PIPE_HEAD (INC_PIPE (PIPE_HEAD i)) i) t) p"
    "pipe_bytes (upd_inode p (\<lambda>i. set_PIPE_HEAD (INC_PIPE (PIPE_HEAD i)) i) t) p = pipe_bytes s p @ [c]"
    using pipe_put_byte [OF Cons.prems(1) room] by blast
  let ?u = "wake_up (i_wait p) (upd_inode p (\<lambda>i. set_PIPE_HEAD (INC_PIPE (PIPE_HEAD i)) i) t)"
  have "\<exists>v. pipe_put p bs (n + 1) ?u = Inr (int (n + 1 + length bs), v) \<and> pipe_ok v p \<and> pipe_bytes v p = pipe_bytes ?u p @ bs"
    using t(2,3) Cons.prems(2) by (intro Cons.IH) simp_all
  then show ?case using w t by simp
qed simp

text \<open>C24: A pipe with both ends open is a first-in first-out queue of 4095 bytes.  \<open>write_pipe\<close> of bytes that
  fit appends them and reports their number; \<open>read_pipe\<close> on a pipe that is not empty returns the oldest
  bytes, at most as many as asked for, and leaves the rest.  Neither sleeps.\<close>

theorem pipe_is_fifo:
  assumes "pipe_ok s p"
  shows "(length (pipe_bytes s p) + length buf \<le> 4095 \<longrightarrow>
      (\<exists>t. write_pipe p buf s = Inr (int (length buf), t) \<and> pipe_ok t p \<and> pipe_bytes t p = pipe_bytes s p @ buf))
    \<and> (pipe_bytes s p \<noteq> [] \<longrightarrow>
      (\<exists>t. read_pipe p (int n) s = Inr ((int (min n (length (pipe_bytes s p))), take n (pipe_bytes s p)), t)
        \<and> pipe_ok t p \<and> pipe_bytes t p = drop n (pipe_bytes s p)))"
proof (intro conjI impI)
  have 2: "i_count (inodes s p) = 2" using assms by (simp add: pipe_ok_def)
  show "\<exists>t. write_pipe p buf s = Inr (int (length buf), t) \<and> pipe_ok t p \<and> pipe_bytes t p = pipe_bytes s p @ buf"
    if "length (pipe_bytes s p) + length buf \<le> 4095"
    using that pipe_put_append [of "wake_up (i_wait p) s" p buf 0] assms 2 by (simp add: write_pipe_def Let_def)
  show "\<exists>t. read_pipe p (int n) s = Inr ((int (min n (length (pipe_bytes s p))), take n (pipe_bytes s p)), t)
        \<and> pipe_ok t p \<and> pipe_bytes t p = drop n (pipe_bytes s p)" if "pipe_bytes s p \<noteq> []"
  proof -
    obtain t where "pipe_get p n [] s = Inr (take n (pipe_bytes s p), t)" "pipe_ok t p"
      "pipe_bytes t p = drop n (pipe_bytes s p)" using pipe_get_take [OF assms, of n "[]"] by auto
    moreover have "pipe_wait_data p s = Some (Inr (True, s))"
      using that assms by (simp add: pipe_wait_data_ready PIPE_EMPTY_bytes)
    ultimately show ?thesis by (simp add: read_pipe_def kres_simps min.commute)
  qed
qed

definition one_pipe :: kern where
  "one_pipe = upd_inode 4096 (\<lambda>i. (set_PIPE_HEAD 3 i)\<lparr>i_size := page_addr 5, i_count := 2, i_pipe := 1\<rparr>) boot_kern"

lemma one_pipe_ok: "pipe_ok one_pipe 4096" and one_pipe_bytes: "length (pipe_bytes one_pipe 4096) = 3"
proof -
  have "PIPE_HEAD (inodes one_pipe 4096) = 3" "PIPE_TAIL (inodes one_pipe 4096) = 0"
    by (simp_all add: one_pipe_def upd_inode_def PIPE_HEAD_def set_PIPE_HEAD_def PIPE_TAIL_def boot_kern_def ttys.extend_def
        upt_rec)
  then show "pipe_ok one_pipe 4096" "length (pipe_bytes one_pipe 4096) = 3"
    by (simp_all add: pipe_ok_def pipe_bytes_def one_pipe_def upd_inode_def pool_pages_def ring_len_cases)
qed

lemma pipe_is_fifo_witness:
  "(\<exists>t. write_pipe 4096 [1, 2] one_pipe = Inr (2, t) \<and> length (pipe_bytes t 4096) = 5)
    \<and> (\<exists>t. read_pipe 4096 2 one_pipe = Inr ((2, take 2 (pipe_bytes one_pipe 4096)), t) \<and> length (pipe_bytes t 4096) = 1)"
proof
  have ne: "pipe_bytes one_pipe 4096 \<noteq> []" using one_pipe_bytes by auto
  show "\<exists>t. write_pipe 4096 [1, 2] one_pipe = Inr (2, t) \<and> length (pipe_bytes t 4096) = 5"
    using pipe_is_fifo [OF one_pipe_ok, of "[1, 2]" 0] ne by (auto simp: one_pipe_bytes)
  show "\<exists>t. read_pipe 4096 2 one_pipe = Inr ((2, take 2 (pipe_bytes one_pipe 4096)), t) \<and> length (pipe_bytes t 4096) = 1"
    using pipe_is_fifo [OF one_pipe_ok, of "[]" 2] ne by (auto simp: one_pipe_bytes)
qed

end
