(* ===== verification/Files_Props.thy ===== *)
theory Files_Props
  imports Files Pipe_Props
begin

text \<open>
  Results on open files: reading a regular file delivers the bytes of the file, and the descriptor
  operations keep the reference counts of the file table.
\<close>

subsection \<open>States that differ in the file table only\<close>

lemma file_links: "same_links s (upd_file f g s)"
  by (simp add: same_links_def upd_file_def)

lemma holds_file [simp]: "holds (upd_file f g s) dev block = holds s dev block"
  by (rule ext, rule holds_links, rule file_links)

lemma cache_inv_file: "cache_inv s \<Longrightarrow> cache_inv (upd_file f g s)"
  using cache_wf_links [OF file_links, of s f g] by (simp add: cache_inv_def) (simp add: upd_file_def)

lemma upd_file_fields [simp]:
  "bufs (upd_file f g s) = bufs s" "inodes (upd_file f g s) = inodes s" "waitq (upd_file f g s) = waitq s"
  "buffer_wait (upd_file f g s) = buffer_wait s" "files (upd_file f g s) f = g (files s f)"
  by (simp_all add: upd_file_def)

lemma cache_lookup_file:
  assumes "cache_inv s"
  shows "cache_lookup (upd_file f g s) k = cache_lookup s k"
proof -
  have "cache_lookup (upd_file f g s) k = Some b \<longleftrightarrow> cache_lookup s k = Some b" for b
    using buffer_cache.lookup_iff [OF assms, of k b] buffer_cache.lookup_iff [OF cache_inv_file [OF assms], of f g k b]
    by simp
  then show ?thesis by (metis option.exhaust)
qed

lemma frame_file:
  assumes "cache_inv s"
  shows "block_data (upd_file f g s) dev block = block_data s dev block"
    and "ready (upd_file f g s) dev block = ready s dev block"
    and "quiet (upd_file f g s) = quiet s"
    and "entry (upd_file f g s) p z k = entry s p z k"
    and "file_zone (upd_file f g s) p n = file_zone s p n"
    and "indirect_blocks (upd_file f g s) p n = indirect_blocks s p n"
    and "zone_dev (upd_file f g s) p = zone_dev s p"
proof -
  show b: "block_data (upd_file f g s) dev block = block_data s dev block" for dev block
    by (simp add: block_data_def cache_lookup_file [OF assms] split: option.splits)
  show z: "zone_dev (upd_file f g s) p = zone_dev s p" by (simp add: zone_dev_def)
  show e: "entry (upd_file f g s) p z k = entry s p z k" for z k by (simp add: entry_def b z)
  show "file_zone (upd_file f g s) p n = file_zone s p n" by (simp add: file_zone_def e Let_def)
  show "indirect_blocks (upd_file f g s) p n = indirect_blocks s p n" by (simp add: indirect_blocks_def e Let_def)
qed (simp_all add: ready_def idle_buf_def quiet_def)

subsection \<open>Reading a file\<close>

text \<open>The bytes of a file: those of its zones, and zero in a hole.\<close>

definition file_byte :: "'a kern_scheme \<Rightarrow> u64 \<Rightarrow> nat \<Rightarrow> u8" where
  "file_byte s p n =
     (let z = file_zone s p (n div 1024) in if z = 0 then 0 else block_data s (zone_dev s p) (uint z) (n mod 1024))"

text \<open>Block \<open>k\<close> of the file can be read without waiting: its index blocks and its zone are in the cache.\<close>

definition resident :: "'a kern_scheme \<Rightarrow> u64 \<Rightarrow> nat \<Rightarrow> bool" where
  "resident s p k \<longleftrightarrow> k < 7 + 512 + 512 * 512 \<and> (\<forall>z \<in> indirect_blocks s p k. ready s (zone_dev s p) (uint z))
     \<and> (file_zone s p k \<noteq> 0 \<longrightarrow> ready s (zone_dev s p) (uint (file_zone s p k)))"

lemma c_div_mod: "int n sdiv 1024 = int (n div 1024)" "int n smod 1024 = int (n mod 1024)"
  by (simp_all add: signed_divide_int_def signed_modulo_int_def sgn_if zdiv_int zmod_int)

lemma to_int32_small: "n < 2 ^ 31 \<Longrightarrow> to_int32 (int n) = int n"
  by (simp add: to_int32_def)

definition at_pos :: "nat \<Rightarrow> file_struct \<Rightarrow> file_struct" where
  "at_pos n x = x\<lparr>f_pos := int n\<rparr>"

lemma map_file_byte:
  assumes "pos mod 1024 + chars \<le> 1024"
  shows "map (file_byte s p) [pos..<pos + chars] =
    (let z = file_zone s p (pos div 1024) in
     if z = 0 then replicate chars 0
     else map (block_data s (zone_dev s p) (uint z)) [pos mod 1024..<pos mod 1024 + chars])"
proof (rule nth_equalityI)
  fix i assume "i < length (map (file_byte s p) [pos..<pos + chars])"
  then have i: "i < chars" by simp
  define q r where "q = pos div 1024" and "r = pos mod 1024"
  then have p: "pos + i = (r + i) + 1024 * q" by simp
  have "r + i < 1024" using i assms by (simp add: r_def)
  then have "((r + i) + 1024 * q) div 1024 = q" "((r + i) + 1024 * q) mod 1024 = r + i" by simp_all
  then have "(pos + i) div 1024 = pos div 1024" "(pos + i) mod 1024 = pos mod 1024 + i"
    unfolding p q_def [symmetric] r_def [symmetric] by auto
  then show "map (file_byte s p) [pos..<pos + chars] ! i = (let z = file_zone s p (pos div 1024) in
     if z = 0 then replicate chars 0
     else map (block_data s (zone_dev s p) (uint z)) [pos mod 1024..<pos mod 1024 + chars]) ! i"
    using i by (simp add: file_byte_def Let_def)
qed (simp add: Let_def)

text \<open>One round of the loop of \<open>file_read\<close>.\<close>

lemma file_read_round:
  assumes "cache_inv s" "quiet s" "resident s p (pos div 1024)" "0 < left" "f_pos (files s f) = int pos"
  defines "chars \<equiv> min (1024 - pos mod 1024) left"
  shows "file_read_loop p f left buf s =
    file_read_loop p f (left - chars) (buf @ map (file_byte s p) [pos..<pos + chars]) (upd_file f (at_pos (pos + chars)) s)"
proof -
  let ?z = "file_zone s p (pos div 1024)" and ?dev = "zone_dev s p"
  have k: "pos div 1024 < 7 + 512 + 512 * 512" and ib: "\<And>z. z \<in> indirect_blocks s p (pos div 1024) \<Longrightarrow> ready s ?dev (uint z)"
    using assms(3) by (auto simp: resident_def)
  have "to_int32 (f_pos (files s f) sdiv 1024) = int (pos div 1024)"
    using k assms(5) by (simp add: c_div_mod to_int32_small)
  then have bm: "bmap p (to_int32 (f_pos (files s f) sdiv 1024)) s = Inr (uint ?z, s)"
    using bmap_cached [OF assms(1,2) ib] k by simp
  have le: "pos mod 1024 + chars \<le> 1024" using mod_less_divisor [of 1024 pos] unfolding chars_def by linarith
  have m: "map (file_byte s p) [pos..<pos + chars] = (if ?z = 0 then replicate chars 0
      else map (block_data s ?dev (uint ?z)) [pos mod 1024..<pos mod 1024 + chars])"
    using map_file_byte [OF le, of s p] by (simp add: Let_def)
  have c: "nat (min (1024 - int pos smod 1024) (int left)) = chars"
  proof -
    have "int (1024 - pos mod 1024) = 1024 - int (pos mod 1024)" using mod_less_divisor [of 1024 pos] by linarith
    then have "int chars = min (1024 - int (pos mod 1024)) (int left)" by (simp add: chars_def of_nat_min)
    then show ?thesis by (simp add: c_div_mod)
  qed
  have g: "(\<lambda>x. x\<lparr>f_pos := f_pos x + int chars\<rparr>) (files s f) = at_pos (pos + chars) (files s f)"
    using assms(5) by (simp add: at_pos_def)
  have u: "upd_file f (\<lambda>x. x\<lparr>f_pos := f_pos x + int chars\<rparr>) s = upd_file f (at_pos (pos + chars)) s"
    using g by (simp add: upd_file_def)
  show ?thesis
  proof (cases "?z = 0")
    case True
    then show ?thesis
      using bm assms(4,5) by (subst file_read_loop.simps) (simp add: Let_def c u m del: int_nat_eq)
  next
    case False
    obtain b where b: "holds s ?dev (uint ?z) b" "idle_buf s b" using assms(3) False by (auto simp: resident_def ready_def)
    let ?up = "upd_buf b (\<lambda>h. h\<lparr>b_count := b_count h + 1\<rparr>)"
    have br: "bread ?dev (uint ?z) s = Inr (Some b, ?up s)" by (rule bread_cached [OF assms(1) b])
    have v: "upd_file f (\<lambda>x. x\<lparr>f_pos := f_pos x + int chars\<rparr>) (?up s) = ?up (upd_file f (at_pos (pos + chars)) s)"
      using g by (simp add: upd_file_def upd_buf_def)
    have rel: "brelse (Some b) (?up (upd_file f (at_pos (pos + chars)) s)) = Inr ((), upd_file f (at_pos (pos + chars)) s)"
      by (rule brelse_undo) (use b(2) assms(2) in \<open>simp_all add: idle_buf_def quiet_def\<close>)
    have d: "b_data (bufs (?up (upd_file f (at_pos (pos + chars)) s)) b) = block_data s ?dev (uint ?z)"
      using block_data_holds [OF assms(1) b(1)] by (simp add: upd_buf_def)
    have fp: "f_pos (files (?up s) f) = int pos" using assms(5) by (simp add: upd_buf_def)
    show ?thesis
      using bm br False assms(4,5) d fp
      by (subst file_read_loop.simps)
        (simp add: Let_def zone_dev_def [symmetric] c v rel m uint_0_iff del: int_nat_eq, simp add: c_div_mod nat_mod_distrib)
  qed
qed

lemma frame_bytes:
  assumes "cache_inv s"
  shows "resident (upd_file f g s) p k = resident s p k" and "file_byte (upd_file f g s) p n = file_byte s p n"
  by (simp_all add: resident_def file_byte_def frame_file [OF assms] Let_def)

lemma at_pos_simps:
  "upd_file f (at_pos a) (upd_file f (at_pos b) s) = upd_file f (at_pos a) s"
  "f_pos (files s f) = int a \<Longrightarrow> upd_file f (at_pos a) s = s"
proof -
  show "upd_file f (at_pos a) (upd_file f (at_pos b) s) = upd_file f (at_pos a) s"
    by (simp add: upd_file_def at_pos_def)
  assume "f_pos (files s f) = int a"
  then have "at_pos a (files s f) = files s f" by (simp add: at_pos_def)
  then show "upd_file f (at_pos a) s = s" by (simp add: upd_file_def)
qed

lemma file_read_loop_bytes:
  assumes "cache_inv s" "quiet s" "f_pos (files s f) = int pos"
    "\<And>k. pos div 1024 \<le> k \<Longrightarrow> k * 1024 < pos + left \<Longrightarrow> resident s p k"
  shows "file_read_loop p f left buf s
    = Inr ((0, buf @ map (file_byte s p) [pos..<pos + left]), upd_file f (at_pos (pos + left)) s)"
  using assms
proof (induction left arbitrary: pos buf s rule: less_induct)
  case (less left)
  show ?case
  proof (cases "left = 0")
    case True
    then show ?thesis using less.prems(3) by (subst file_read_loop.simps) (simp add: at_pos_simps)
  next
    case False
    define chars where "chars = min (1024 - pos mod 1024) left"
    let ?t = "upd_file f (at_pos (pos + chars)) s"
    have c: "0 < chars" "chars \<le> left" using False mod_less_divisor [of 1024 pos] by (simp_all add: chars_def)
    have "pos div 1024 * 1024 \<le> pos" by simp
    then have "resident s p (pos div 1024)" using less.prems(4) False by auto
    then have r: "file_read_loop p f left buf s
        = file_read_loop p f (left - chars) (buf @ map (file_byte s p) [pos..<pos + chars]) ?t"
      using file_read_round [OF less.prems(1,2) _ _ less.prems(3)] False unfolding chars_def by simp
    have "resident s p k" if "(pos + chars) div 1024 \<le> k" "k * 1024 < pos + chars + (left - chars)" for k
      using less.prems(4) [of k] that c(2) div_le_mono [of pos "pos + chars" 1024] by simp
    then have "file_read_loop p f (left - chars) (buf @ map (file_byte s p) [pos..<pos + chars]) ?t
        = Inr ((0, (buf @ map (file_byte s p) [pos..<pos + chars]) @ map (file_byte ?t p) [pos + chars..<pos + chars + (left - chars)]),
            upd_file f (at_pos (pos + chars + (left - chars))) ?t)"
      using c less.prems(1,2)
      by (intro less.IH) (simp_all add: cache_inv_file frame_file frame_bytes at_pos_def)
    then show ?thesis
      using r c upt_add_eq_append [of pos "pos + chars" "left - chars"]
      by (simp add: frame_bytes [OF less.prems(1), abs_def] at_pos_simps)
  qed
qed

lemma file_read_bytes:
  assumes "cache_inv s" "quiet s" "f_pos (files s f) = int pos" "0 < n"
    "\<forall>k. pos div 1024 \<le> k \<and> k * 1024 < pos + n \<longrightarrow> resident s p k"
  shows "file_read p f (int n) s = Inr ((int n, map (file_byte s p) [pos..<pos + n]),
    upd_inode p (\<lambda>i. i\<lparr>i_atime := CURRENT_TIME s\<rparr>) (upd_file f (\<lambda>x. x\<lparr>f_pos := int (pos + n)\<rparr>) s))"
proof -
  have "file_read_loop p f n [] s
      = Inr ((0, map (file_byte s p) [pos..<pos + n]), upd_file f (at_pos (pos + n)) s)"
    using file_read_loop_bytes [OF assms(1-3), of n p "[]"] assms(5) by simp
  moreover have "CURRENT_TIME (upd_file f (at_pos (pos + n)) s) = CURRENT_TIME s"
    by (simp add: CURRENT_TIME_def upd_file_def)
  ultimately show ?thesis
    using assms(4) by (simp add: file_read_def kres_simps at_pos_def [abs_def] Let_def)
qed

text \<open>C25: Reading a regular file delivers its bytes.  If the blocks from the position on are in the cache, up to
  date and unlocked, with the index blocks that lead to them, \<open>file_read\<close> returns the number of bytes
  asked for and exactly the bytes of the file at the position, zeros in holes included, across any number of
  blocks; it advances the position by that number and otherwise changes only the access time of the
  inode.\<close>

theorem file_read_delivers:
  assumes "cache_inv s" "quiet s" "f_pos (files s f) = int pos" "0 < n"
    "\<forall>k. pos div 1024 \<le> k \<and> k * 1024 < pos + n \<longrightarrow> resident s p k"
  shows "file_read p f (int n) s = Inr ((int n, map (file_byte s p) [pos..<pos + n]),
    upd_inode p (\<lambda>i. i\<lparr>i_atime := CURRENT_TIME s\<rparr>) (upd_file f (\<lambda>x. x\<lparr>f_pos := int (pos + n)\<rparr>) s))"
  by (rule file_read_bytes [OF assms])

text \<open>The file of \<open>one_file\<close> has a hole at block 9; block 10 is in zone 44, which is not in the cache.\<close>

lemma file_read_delivers_witness:
  "file_read 4096 8192 3 (upd_file 8192 (\<lambda>x. x\<lparr>f_pos := 9216\<rparr>) one_file) =
    Inr ((3, [0, 0, 0]), upd_inode 4096 (\<lambda>i. i\<lparr>i_atime := CURRENT_TIME (upd_file 8192 (\<lambda>x. x\<lparr>f_pos := 9216\<rparr>) one_file)\<rparr>)
      (upd_file 8192 (\<lambda>x. x\<lparr>f_pos := 9219\<rparr>) (upd_file 8192 (\<lambda>x. x\<lparr>f_pos := 9216\<rparr>) one_file)))"
proof -
  let ?s = "upd_file 8192 (\<lambda>x. x\<lparr>f_pos := 9216\<rparr>) one_file"
  have z: "file_zone one_file 4096 9 = 0" "indirect_blocks one_file 4096 9 = {1}" "zone_dev one_file 4096 = 0x301"
    using one_file_zones by simp_all
  have k: "resident one_file 4096 k" if "9 \<le> k" "k * 1024 < 9219" for k
  proof -
    have "k = 9" using that by linarith
    then show ?thesis using one_file_ready(1) by (simp add: resident_def z)
  qed
  have "file_read 4096 8192 (int 3) ?s = Inr ((int 3, map (file_byte ?s 4096) [9216..<9216 + 3]),
    upd_inode 4096 (\<lambda>i. i\<lparr>i_atime := CURRENT_TIME ?s\<rparr>) (upd_file 8192 (\<lambda>x. x\<lparr>f_pos := int (9216 + 3)\<rparr>) ?s))"
    by (rule file_read_delivers)
      (use k one_file_inv one_file_ready(2) in \<open>simp_all add: cache_inv_file frame_file frame_bytes\<close>)
  moreover have "map (file_byte ?s 4096) [9216..<9216 + 3] = [0, 0, 0]"
    by (simp add: upt_rec file_byte_def frame_file [OF one_file_inv] z)
  ultimately show ?thesis by simp
qed

subsection \<open>Reference counts of open files\<close>

definition live :: "'a sched_scheme \<Rightarrow> u64 set" where
  "live s = {p. p \<noteq> 0 \<and> (\<exists>i < NR_TASKS. task s i = p)}"

definition ref_set :: "'a sched_scheme \<Rightarrow> u64 \<Rightarrow> (u64 \<times> nat) set" where
  "ref_set s f = {(p, fd). p \<in> live s \<and> fd < NR_OPEN \<and> t_filp (tasks s p) fd = f}"

text \<open>Every entry of the file table counts the descriptors that refer to it.\<close>

definition counts_ok :: "'a kern_scheme \<Rightarrow> bool" where
  "counts_ok s \<longleftrightarrow> (\<forall>f. f \<noteq> 0 \<longrightarrow> unat (f_count (files s f)) = card (ref_set s f))"

lemma live_bound: "finite (live s)" "card (live s) \<le> 64"
proof -
  have sub: "live s \<subseteq> task s ` {..<64}" by (auto simp: live_def NR_TASKS_def)
  show "finite (live s)" by (rule finite_subset [OF sub]) simp
  have "card (live s) \<le> card (task s ` {..<64})" by (rule card_mono [OF _ sub]) simp
  also have "\<dots> \<le> card {..<64 :: nat}" by (rule card_image_le) simp
  finally show "card (live s) \<le> 64" by simp
qed

lemma ref_set_bound: "finite (ref_set s f)" "card (ref_set s f) \<le> 1280"
proof -
  have sub: "ref_set s f \<subseteq> live s \<times> {..<20}" by (auto simp: ref_set_def NR_OPEN_def)
  show "finite (ref_set s f)" by (rule finite_subset [OF sub]) (simp add: live_bound)
  have "card (ref_set s f) \<le> card (live s \<times> {..<20 :: nat})"
    by (rule card_mono [OF _ sub]) (simp add: live_bound)
  also have "\<dots> \<le> 64 * 20" using live_bound(2) [of s] by (simp add: card_cartesian_product)
  finally show "card (ref_set s f) \<le> 1280" by simp
qed

lemma ref_set_set_filp:
  assumes "current s \<in> live s" "k < NR_OPEN"
  shows "ref_set (set_filp k g s) f =
    (if f = g then insert (current s, k) (ref_set s f) else ref_set s f - {(current s, k)})"
  using assms by (auto simp: ref_set_def set_filp_def upd_task_def live_def split: if_splits)

lemma ref_set_file [simp]: "ref_set (upd_file h u s) f = ref_set s f" "ref_set (clear_cloexec k s) f = ref_set s f"
  by (auto simp: ref_set_def live_def upd_file_def clear_cloexec_def upd_task_def)

lemma fd_fields [simp]:
  "files (set_filp k g s) = files s" "files (clear_cloexec k s) = files s" "current (set_filp k g s) = current s"
  "current (clear_cloexec k s) = current s" "live (clear_cloexec k s) = live s" "filp (clear_cloexec k s) = filp s"
  "filp (upd_file h u s) = filp s" "filp (set_filp k g s) = (filp s)(k := g)"
  by (auto simp: set_filp_def clear_cloexec_def upd_task_def live_def filp_def upd_file_def)

lemma count_pos:
  assumes "counts_ok s" "current s \<in> live s" "k < NR_OPEN" "filp s k \<noteq> 0"
  shows "f_count (files s (filp s k)) \<noteq> 0"
proof -
  have "(current s, k) \<in> ref_set s (filp s k)" using assms(2,3) by (simp add: ref_set_def filp_def)
  then have "card (ref_set s (filp s k)) \<noteq> 0" using ref_set_bound(1) [of s "filp s k"] by auto
  then show ?thesis using assms(1,4) by (auto simp: counts_ok_def)
qed

lemma unat_count_Suc: "unat (c :: u16) \<le> 1280 \<Longrightarrow> unat (c + 1) = Suc (unat c)"
  by (simp add: unat_word_ariths)

lemma unat_count_pred: "c \<noteq> 0 \<Longrightarrow> unat (c - 1 :: u16) = unat c - 1"
  by (simp add: unat_minus_one)

text \<open>Taking a free descriptor for an open file, and giving one up.\<close>

lemma counts_open_fd:
  assumes "counts_ok s" "current s \<in> live s" "k < NR_OPEN" "filp s k = 0" "f \<noteq> 0"
  shows "counts_ok (upd_file f (\<lambda>x. x\<lparr>f_count := f_count x + 1\<rparr>) (set_filp k f s))"
  unfolding counts_ok_def
proof (intro allI impI)
  fix g :: u64 assume g: "g \<noteq> 0"
  have new: "(current s, k) \<notin> ref_set s g" using assms(4) g by (simp add: ref_set_def filp_def)
  have c: "unat (f_count (files s g)) = card (ref_set s g)" using assms(1) g by (simp add: counts_ok_def)
  show "unat (f_count (files (upd_file f (\<lambda>x. x\<lparr>f_count := f_count x + 1\<rparr>) (set_filp k f s)) g))
      = card (ref_set (upd_file f (\<lambda>x. x\<lparr>f_count := f_count x + 1\<rparr>) (set_filp k f s)) g)"
    using new c ref_set_bound [of s g] assms(2,3)
    by (cases "g = f") (simp_all add: ref_set_set_filp unat_count_Suc, simp add: upd_file_def)
qed

lemma counts_close_fd:
  assumes "counts_ok s" "current s \<in> live s" "k < NR_OPEN" "filp s k = f" "f \<noteq> 0"
  shows "counts_ok (upd_file f (\<lambda>x. x\<lparr>f_count := f_count x - 1\<rparr>) (set_filp k 0 s))"
  unfolding counts_ok_def
proof (intro allI impI)
  fix g :: u64 assume g: "g \<noteq> 0"
  have old: "(current s, k) \<in> ref_set s g \<longleftrightarrow> g = f" using assms(2-4) by (auto simp: ref_set_def filp_def)
  have c: "unat (f_count (files s g)) = card (ref_set s g)" using assms(1) g by (simp add: counts_ok_def)
  have "f_count (files s f) \<noteq> 0" using count_pos [OF assms(1-3)] assms(4,5) by simp
  then show "unat (f_count (files (upd_file f (\<lambda>x. x\<lparr>f_count := f_count x - 1\<rparr>) (set_filp k 0 s)) g))
      = card (ref_set (upd_file f (\<lambda>x. x\<lparr>f_count := f_count x - 1\<rparr>) (set_filp k 0 s)) g)"
    using old c g ref_set_bound(1) [of s g] assms(2,3)
    by (cases "g = f") (simp_all add: ref_set_set_filp unat_count_pred, simp add: upd_file_def)
qed

lemma counts_cloexec: "counts_ok s \<Longrightarrow> counts_ok (clear_cloexec k s)"
  by (simp add: counts_ok_def)

text \<open>The reference counts of the file table stay exact under duplication and closing.  When every entry
  counts the descriptors of the live processes that refer to it, \<open>dupfd\<close> of an open descriptor takes the
  lowest free descriptor from \<open>arg\<close> on, makes it refer to the same file and keeps the counts exact, or
  reports \<open>EMFILE\<close>; \<open>do_close\<close> frees the descriptor and keeps the counts exact, never finds a count of
  0, and releases the inode exactly when the last reference goes.\<close>

theorem descriptor_counts_exact:
  assumes "counts_ok s" "current s \<in> live s" "unat fd < NR_OPEN" "filp s (unat fd) = f" "f \<noteq> 0" "unat arg < NR_OPEN"
  shows "(case find (\<lambda>k. filp s k = 0) [unat arg..<NR_OPEN] of
        None \<Rightarrow> dupfd fd arg s = Inr (- EMFILE, s)
      | Some k \<Rightarrow> \<exists>t. dupfd fd arg s = Inr (int k, t) \<and> filp t k = f \<and> counts_ok t)
    \<and> (\<exists>t. counts_ok t \<and> filp t (unat fd) = 0 \<and>
        do_close fd s = (if card (ref_set s f) = 1 then kseq (iput (f_inode (files s f))) (kreturn 0) t else Inr (0, t)))"
proof
  show "case find (\<lambda>k. filp s k = 0) [unat arg..<NR_OPEN] of
        None \<Rightarrow> dupfd fd arg s = Inr (- EMFILE, s)
      | Some k \<Rightarrow> \<exists>t. dupfd fd arg s = Inr (int k, t) \<and> filp t k = f \<and> counts_ok t"
  proof (cases "find (\<lambda>k. filp s k = 0) [unat arg..<NR_OPEN]")
    case None
    then show ?thesis using assms by (simp add: dupfd_def)
  next
    case (Some k)
    then have k: "k < NR_OPEN" "filp s k = 0" by (simp_all add: find_upt_Some_iff)
    have "counts_ok (upd_file f (\<lambda>x. x\<lparr>f_count := f_count x + 1\<rparr>) (set_filp k f (clear_cloexec k s)))"
      using counts_open_fd [OF counts_cloexec [OF assms(1)] _ k(1)] k(2) assms(2,5) by simp
    then show ?thesis using assms(3-6) Some by (simp add: dupfd_def Let_def)
  qed
  let ?s2 = "set_filp (unat fd) 0 (clear_cloexec (unat fd) s)"
  let ?t = "upd_file f (\<lambda>x. x\<lparr>f_count := f_count x - 1\<rparr>) ?s2"
  have ok: "counts_ok ?t" using counts_close_fd [OF counts_cloexec [OF assms(1)], of "unat fd"] assms(2-5) by simp
  have ne: "f_count (files s f) \<noteq> 0" using count_pos [OF assms(1-3)] assms(4,5) by simp
  have "unat (f_count (files s f)) = card (ref_set s f)" using assms(1,5) by (simp add: counts_ok_def)
  then have "f_count (files s f) - 1 = 0 \<longleftrightarrow> card (ref_set s f) = 1"
    using ne unat_count_pred [OF ne] unat_eq_zero [of "f_count (files s f)"] by (auto simp: word_unat_eq_iff)
  then have "do_close fd s = (if card (ref_set s f) = 1 then kseq (iput (f_inode (files s f))) (kreturn 0) ?t else Inr (0, ?t))"
    using assms(3-5) ne by (simp add: do_close_def Let_def)
  then show "\<exists>t. counts_ok t \<and> filp t (unat fd) = 0 \<and>
        do_close fd s = (if card (ref_set s f) = 1 then kseq (iput (f_inode (files s f))) (kreturn 0) t else Inr (0, t))"
    using ok by auto
qed

text \<open>Two processes; the first has file 8192 open as descriptor 1.\<close>

definition one_open :: kern where
  "one_open = upd_file 8192 (\<lambda>x. x\<lparr>f_count := 1\<rparr>) (set_filp 1 8192 boot_kern)"

lemma one_open_counts: "counts_ok one_open" "current one_open \<in> live one_open" "card (ref_set one_open 8192) = 1"
proof -
  have c: "current boot_kern \<in> live boot_kern" "t_filp (tasks boot_kern p) k = 0" "f_count (files boot_kern g) = 0" for p k g
    by (auto simp: live_def NR_TASKS_def boot_kern_def ttys.extend_def sched.extend_def two_tasks_def plain_task_def)
  have r: "ref_set boot_kern g = {}" if "g \<noteq> 0" for g using that by (simp add: ref_set_def c)
  have "counts_ok boot_kern" by (simp add: counts_ok_def r c)
  moreover have "upd_file 8192 (\<lambda>x. x\<lparr>f_count := f_count x + 1\<rparr>) (set_filp 1 8192 boot_kern) = one_open"
    using c(3) by (simp add: one_open_def upd_file_def set_filp_def upd_task_def)
  ultimately show "counts_ok one_open"
    using counts_open_fd [of boot_kern 1 8192] c by (simp add: NR_OPEN_def filp_def)
  show "current one_open \<in> live one_open"
    using c(1) by (simp add: one_open_def live_def upd_file_def set_filp_def upd_task_def)
  show "card (ref_set one_open 8192) = 1"
    using c(1) by (simp add: one_open_def ref_set_set_filp r NR_OPEN_def)
qed

lemma descriptor_counts_exact_witness:
  "(\<exists>t. dupfd 1 0 one_open = Inr (0, t) \<and> filp t 0 = 8192)
    \<and> (\<exists>t. counts_ok t \<and> filp t 1 = 0 \<and> do_close 1 one_open = kseq (iput 0) (kreturn 0) t)"
proof -
  have f: "filp one_open k = (if k = 1 then 8192 else 0)" for k
    by (simp add: one_open_def)
      (simp add: filp_def boot_kern_def ttys.extend_def sched.extend_def two_tasks_def plain_task_def)
  have "find (\<lambda>k. filp one_open k = 0) [0..<NR_OPEN] = Some 0" by (simp add: find_upt_Some_iff f NR_OPEN_def)
  moreover have "f_inode (files one_open 8192) = 0"
    by (simp add: one_open_def boot_kern_def ttys.extend_def)
  ultimately show ?thesis
    using descriptor_counts_exact [OF one_open_counts(1,2), of 1 8192 0] one_open_counts(3)
    by (auto simp: f NR_OPEN_def)
qed

end
