(* ===== verification/Process_Props.thy ===== *)
theory Process_Props
  imports Process Mm_Fault Files_Props
begin

text \<open>
  Results on processes: waiting for a child, and what fork does to the table of open files.
\<close>

subsection \<open>Waiting\<close>

lemma write_verify_cases:
  "write_verify a s = Inr ((), s) \<and> a AND NOT 0xFFF < TASK_SIZE \<or> (\<exists>e. write_verify a s = Inl (e, s))"
  using wv_condition unfolding write_verify_def Let_def
  by (auto simp: kbind_def get_pte_eval kload_def kreturn_def not_le split: if_splits)

lemma verify_loop_cases: "verify_loop a n s = Inr ((), s) \<or> (\<exists>e. verify_loop a n s = Inl (e, s))"
proof (induction a n s rule: verify_loop.induct)
  case (1 a n s)
  have "0 < n \<Longrightarrow> write_verify a s = Inr ((), s) \<Longrightarrow> verify_loop (a + 4096) (n - 4096) s = Inr ((), s)
      \<or> (\<exists>e. verify_loop (a + 4096) (n - 4096) s = Inl (e, s))"
    using 1 by blast
  then show ?case using write_verify_cases [of a s] by (subst (1 2) verify_loop.simps) auto
qed

lemma page_base_user:
  assumes "(a AND NOT 0xFFF) AND NOT 0xFFF < TASK_SIZE"
  shows "\<not> direct (a :: u64)"
proof -
  have "a AND NOT 0xFFF = a - (a AND 0xFFF)"
  proof -
    have "NOT a AND (a AND 0xFFF) = 0" by (simp add: and.assoc [symmetric])
    then have "a - (a AND 0xFFF) = a AND NOT (a AND 0xFFF)" by (rule disjunctive_diff_eq_and_not)
    then show ?thesis by (simp add: bit.conj_disj_distrib)
  qed
  moreover have "unat (a AND 0xFFF) < 4096" "unat (a AND 0xFFF) \<le> unat a" by (simp_all add: unat_mask12)
  ultimately have "unat a < unat (a AND NOT 0xFFF) + 4096" by (simp add: unat_sub_if')
  moreover have "unat (a AND NOT 0xFFF) < 0x3FFFFFFFFF"
    using assms by (simp add: word_less_nat_alt TASK_SIZE_def and.assoc)
  ultimately show ?thesis by (simp add: direct_def VA_KERNEL_def word_le_nat_alt)
qed

lemma waitpid_zombie:
  assumes "wait_scan (reg_int a0) s slots False = Inl p"
  shows "\<exists>e. sys_waitpid a0 a1 a2 s = Inl (e, s)"
proof (cases "\<exists>e. verify_area a1 4 s = Inl (e, s)")
  case True
  then show ?thesis by (auto simp: sys_waitpid_def kres_simps)
next
  case False
  then have v: "verify_area a1 4 s = Inr ((), s)" unfolding verify_area_def using verify_loop_cases by blast
  have "0 \<le> uint (a1 AND 0xFFF)" by simp
  then have pos: "0 < 4 + uint (a1 AND 0xFFF)" by linarith
  have "(a1 AND NOT 0xFFF) AND NOT 0xFFF < TASK_SIZE"
    using v pos write_verify_cases [of "a1 AND NOT 0xFFF" s]
    by (simp add: verify_area_def, subst (asm) verify_loop.simps) auto
  then have nd: "\<not> direct a1" by (rule page_base_user)
  have "reap a1 p s = Inl (BadAccess a1, s)"
    using nd by (simp add: reap_def store_uint_def kseq_def kbind_def upt_rec store_byte_def)
  then have "wait_loop (reg_int a0) a1 (reg_uint a2) False s = Some (Inl (BadAccess a1, s))"
    using assms by (subst wait_loop.simps) (simp add: wait_round_def)
  then show ?thesis using v by (simp add: sys_waitpid_def kres_simps)
qed

text \<open>C29: No child is ever reaped.  When a child of the caller that \<open>waitpid\<close> selects is a zombie, the call
  does not return, whatever status address the caller passes: \<open>verify_area\<close> ends the process unless
  the address is a user address, and the status is then stored through that address while the supervisor
  cannot access user memory.  Nothing has changed at that moment, so the child stays a zombie.\<close>

theorem waitpid_never_reaps:
  assumes "wait_scan (reg_int a0) s slots False = Inl p"
  shows "\<exists>e. sys_waitpid a0 a1 a2 s = Inl (e, s)"
  by (rule waitpid_zombie [OF assms])

text \<open>The parent is process 7, and its child 9 at the page after it is a zombie.\<close>

definition zombie_child :: kern where
  "zombie_child = boot_kern\<lparr>current := page_addr 5, task := (\<lambda>_. 0)(0 := 64, 1 := page_addr 5, 2 := page_addr 7),
     tasks := (tasks boot_kern)(page_addr 5 := plain_task\<lparr>t_pid := 7\<rparr>,
       page_addr 7 := plain_task\<lparr>t_pid := 9, t_father := 7, t_state := TASK_ZOMBIE\<rparr>)\<rparr>"

lemma waitpid_never_reaps_witness:
  "wait_scan (- 1) zombie_child slots False = Inl (page_addr 7) \<and> (\<exists>e. sys_waitpid 0xFFFFFFFF 0x80000000 0 zombie_child = Inl (e, zombie_child))"
proof -
  have "page_addr 7 \<noteq> page_addr 5" "page_addr 7 \<noteq> 0" by (simp_all add: page_addr_inj page_addr_nonzero)
  then have "wait_scan (- 1) zombie_child slots False = Inl (page_addr 7)"
    by (simp add: zombie_child_def slots_def NR_TASKS_def upt_rec wait_selects_def)
  moreover have "reg_int 0xFFFFFFFF = - 1" by (simp add: reg_int_def)
  ultimately show ?thesis using waitpid_never_reaps [of "0xFFFFFFFF" zombie_child "page_addr 7"] by simp
qed

subsection \<open>What a routine of memory management leaves alone\<close>

definition mm_only :: "('a mm_scheme \<Rightarrow> ('a mm_scheme, 'b) kres) \<Rightarrow> bool" where
  "mm_only m \<longleftrightarrow> (\<forall>s r t. m s = Inr (r, t) \<longrightarrow> mm.more t = mm.more s \<and> task t = task s \<and> current t = current s)"

named_theorems mm_only_intros \<open>routines that change memory only\<close>

lemma mm_onlyD: "mm_only m \<Longrightarrow> m s = Inr (r, t) \<Longrightarrow> mm.more t = mm.more s \<and> task t = task s \<and> current t = current s"
  by (simp add: mm_only_def)

lemma mm_only_compose [mm_only_intros]:
  "mm_only m \<Longrightarrow> (\<And>a. mm_only (f a)) \<Longrightarrow> mm_only (kbind m f)"
  "mm_only m \<Longrightarrow> mm_only n \<Longrightarrow> mm_only (kseq m n)"
  "mm_only m \<Longrightarrow> mm_only m' \<Longrightarrow> mm_only (if b then m else m')"
  "mm_only (kreturn x)"
  unfolding mm_only_def by (auto simp: kres_iff kres_simps)

lemma mm_only_kfor [mm_only_intros]:
  assumes "\<And>i. mm_only (body i)"
  shows "mm_only (kfor is body)"
  unfolding mm_only_def
proof (intro allI impI)
  fix s r t assume "kfor is body s = Inr (r, t)"
  then show "mm.more t = mm.more s \<and> task t = task s \<and> current t = current s"
  proof (induction "is" arbitrary: s)
    case (Cons i "is")
    then obtain u where "body i s = Inr ((), u)" "kfor is body u = Inr (r, t)" by (auto simp: kres_iff simp del: kfor.simps)
    then show ?case using Cons.IH [of u] mm_onlyD [OF assms, of i s] by simp
  qed simp
qed

lemma mm_only_basic [mm_only_intros]:
  "mm_only (kload a)" "mm_only (kstore a w)" "mm_only (get_count n)" "mm_only (set_count n c)" "mm_only get_free_page"
  "mm_only get_two_free_pages" "mm_only (memcpy_page d a)" "mm_only (kmodify (\<lambda>s. s\<lparr>task_pgd := g s\<rparr>))"
  by (auto simp: mm_only_def kload_def kstore_def get_count_def set_count_def get_free_page_def get_two_free_pages_def
      memcpy_page_def kmodify_def split: option.splits if_splits)

lemma mm_only_copy_page_tables: "mm_only (copy_page_tables p)"
proof -
  have "mm_only (reference_count_one_table a)" for a
    unfolding reference_count_one_table_def inc_count_def by (intro mm_only_intros)
  then have "mm_only (kbind get_free_page (\<lambda>n. if n = 0 then kreturn (- ENOMEM)
      else kseq (kmodify (\<lambda>t. t\<lparr>task_pgd := (task_pgd t)(p := n)\<rparr>)) (kseq (memcpy_page n old)
        (kseq (kfor [0..<256] (\<lambda>i. reference_count_one_table (pte_addr old i))) (kreturn 0)))))" for old
    by (intro mm_only_intros)
  then show ?thesis unfolding mm_only_def copy_page_tables_def Let_def by blast
qed

lemma mm_only_copy_regs: "mm_only (copy_regs d a)"
  unfolding copy_regs_def by (intro mm_only_intros)

subsection \<open>Fork\<close>

lemma find_empty_process_slot:
  assumes "find_empty_process s = Inr (nr, t)" "0 \<le> nr"
  shows "\<exists>pid. t = s\<lparr>last_pid := pid\<rparr> \<and> 1 \<le> nat nr \<and> nat nr < NR_TASKS \<and> task s (nat nr) = 0"
  using assms by (auto simp: find_empty_process_def EAGAIN_def find_upt_Some_iff split: option.splits)

lemma sched_more:
  fixes s t :: "'a kern_scheme"
  assumes "mm.more t = mm.more s"
  shows "tasks t = tasks s" "files t = files s" "jiffies t = jiffies s" "last_pid t = last_pid s"
  using assms by (cases s; cases t; simp)+

text \<open>The steps of a fork that reports no error.\<close>

lemma copy_process_steps:
  fixes s :: "'a kern_scheme"
  assumes "copy_process s = Inr (r, t)" "0 \<le> r"
  obtains nr pid i v q w y where "nr < NR_TASKS" "task s nr = 0"
    "scan_down (mem_map s) 31231 = Some i" "get_two_free_pages (s\<lparr>last_pid := pid\<rparr>) = Inr (page_addr i, v)"
    "copy_page_tables (page_addr i) (v\<lparr>tasks := (tasks v)(page_addr i := child_of v (page_addr i)),
       task_pgd := (task_pgd v)(page_addr i := task_pgd v (current v))\<rparr>) = Inr (q, w)"
    "copy_regs (task_pt_regs (page_addr i)) (task_pt_regs (current w)) (w\<lparr>task := (task w)(nr := page_addr i)\<rparr>) = Inr (y, t)"
proof -
  obtain nr u where u: "find_empty_process s = Inr (nr, u)" using assms(1) by (auto simp: copy_process_def kres_iff)
  have nr: "0 \<le> nr"
  proof (rule ccontr)
    assume "\<not> 0 \<le> nr"
    then have "copy_process s = Inr (nr, u)" using u by (simp add: copy_process_def kres_simps)
    then show False using assms \<open>\<not> 0 \<le> nr\<close> by simp
  qed
  obtain pid where pid: "u = s\<lparr>last_pid := pid\<rparr>" "nat nr < NR_TASKS" "task s (nat nr) = 0"
    using find_empty_process_slot [OF u nr] by blast
  obtain p v where v: "get_two_free_pages u = Inr (p, v)" "p \<noteq> 0"
    using assms u nr by (auto simp: copy_process_def kres_simps kres_iff EAGAIN_def split: if_splits)
  then obtain i where i: "scan_down (mem_map s) 31231 = Some i" "p = page_addr i"
    using pid(1) by (auto simp: get_two_free_pages_def PAGING_PAGES_val split: option.splits)
  let ?v = "v\<lparr>tasks := (tasks v)(p := child_of v p), task_pgd := (task_pgd v)(p := task_pgd v (current v))\<rparr>"
  obtain q w where w: "copy_page_tables p ?v = Inr (q, w)"
    using assms u nr v by (auto simp: copy_process_def kres_simps kres_iff not_less)
  have "q = 0" using assms u nr v w by (auto simp: copy_process_def kres_simps kres_iff EAGAIN_def not_less split: if_splits)
  then obtain y where y: "copy_regs (task_pt_regs p) (task_pt_regs (current w)) (w\<lparr>task := (task w)(nat nr := p)\<rparr>) = Inr (y, t)"
    using assms u nr v w by (auto simp: copy_process_def kres_simps kres_iff not_less)
  show thesis by (rule that [OF pid(2,3) i(1)]) (use v w y pid(1) i(2) in auto)
qed

text \<open>The new task is in a slot that was free, it is the copy \<open>child_of\<close> describes, and the other tasks and
  the file table are as before.\<close>

lemma copy_process_child:
  fixes s :: "'a kern_scheme"
  assumes "copy_process s = Inr (r, t)" "0 \<le> r"
  obtains nr i pid where "nr < NR_TASKS" "task s nr = 0" "mem_map s i = 0" "i < 31232"
    "task t = (task s)(nr := page_addr i)" "files t = files s"
    "tasks t = (tasks s)(page_addr i := child_of (s\<lparr>last_pid := pid\<rparr>) (page_addr i))"
proof -
  obtain nr pid i v q w y where n: "nr < NR_TASKS" "task s nr = 0" and i: "scan_down (mem_map s) 31231 = Some i"
    and v: "get_two_free_pages (s\<lparr>last_pid := pid\<rparr>) = Inr (page_addr i, v)"
    and w: "copy_page_tables (page_addr i) (v\<lparr>tasks := (tasks v)(page_addr i := child_of v (page_addr i)),
       task_pgd := (task_pgd v)(page_addr i := task_pgd v (current v))\<rparr>) = Inr (q, w)"
    and y: "copy_regs (task_pt_regs (page_addr i)) (task_pt_regs (current w)) (w\<lparr>task := (task w)(nr := page_addr i)\<rparr>) = Inr (y, t)"
    by (rule copy_process_steps [OF assms])
  note m = mm_onlyD [OF mm_only_basic(6) v] mm_onlyD [OF mm_only_copy_page_tables w] mm_onlyD [OF mm_only_copy_regs y]
  have tk: "tasks v = tasks s" "files v = files s" "jiffies v = jiffies s" "last_pid v = pid"
    using sched_more [of v "s\<lparr>last_pid := pid\<rparr>"] m(1) by simp_all
  have "tasks w = (tasks v)(page_addr i := child_of v (page_addr i))" "files w = files v"
    using sched_more(1,2) [OF conjunct1 [OF m(2)]] by simp_all
  moreover have "tasks t = tasks w" "files t = files w" using sched_more(1,2) [OF conjunct1 [OF m(3)]] by simp_all
  moreover have "child_of v (page_addr i) = child_of (s\<lparr>last_pid := pid\<rparr>) (page_addr i)"
    using tk m(1) by (simp add: child_of_def Let_def)
  moreover have "mem_map s i = 0" "i < 31232" using scan_down_Some [OF i] by simp_all
  moreover have "task t = (task s)(nr := page_addr i)" using m by simp
  ultimately show thesis using that [of nr i pid] n tk by simp
qed

text \<open>Fork does not count the references of the child: when the pages of the live tasks are in use and a file
  is open, its count is too small afterwards.\<close>

lemma fork_breaks_counts:
  fixes s :: "'a kern_scheme"
  assumes "counts_ok s" "current s \<in> live s" "fd < NR_OPEN" "filp s fd \<noteq> 0"
    "\<And>i. page_addr i \<in> live s \<Longrightarrow> mem_map s i \<noteq> 0" "copy_process s = Inr (r, t)" "0 \<le> r"
  shows "\<not> counts_ok t"
proof -
  obtain nr i pid where c: "nr < NR_TASKS" "task s nr = 0" "mem_map s i = 0" "i < 31232"
    "task t = (task s)(nr := page_addr i)" "files t = files s"
    "tasks t = (tasks s)(page_addr i := child_of (s\<lparr>last_pid := pid\<rparr>) (page_addr i))"
    by (rule copy_process_child [OF assms(6,7)])
  let ?f = "filp s fd" and ?p = "page_addr i"
  have new: "?p \<notin> live s" using assms(5) c(3) by blast
  have p: "?p \<noteq> 0" using c(4) page_addr_nonzero by simp
  have lv: "live t = insert ?p (live s)"
    using c(1,2,5) p by (auto simp: live_def)
  have "t_filp (tasks t q) = t_filp (tasks s q)" if "q \<in> live s" for q using that new c(7) by auto
  then have "ref_set s ?f \<subseteq> ref_set t ?f" by (auto simp: ref_set_def lv)
  moreover have "(?p, fd) \<in> ref_set t ?f"
    using assms(3) c(7) by (simp add: ref_set_def lv child_of_def Let_def filp_def)
  moreover have "(?p, fd) \<notin> ref_set s ?f" using new by (simp add: ref_set_def)
  ultimately have "card (ref_set s ?f) < card (ref_set t ?f)"
    by (intro psubset_card_mono) (auto simp: ref_set_bound)
  then show ?thesis using assms(1,4) c(6) by (auto simp: counts_ok_def)
qed

text \<open>The offset of \<open>task_pt_regs\<close> is 7904 task structures, 8473088 bytes, and not 7904 bytes.\<close>

lemma copy_regs_top:
  assumes "29164 \<le> i" "i < 31232"
  shows "\<exists>e. copy_regs (task_pt_regs (page_addr i)) src s = Inl e"
proof -
  have "unat (task_pt_regs (page_addr i)) = 0xFFFFFFC000400000 + i * 4096 + 8473088"
    using assms unat_page_addr [OF assms(2)]
    by (simp add: task_pt_regs_def THREAD_SIZE_def sizeof_pt_regs_def sizeof_task_struct_def unat_word_ariths)
  then have "\<not> direct (task_pt_regs (page_addr i))"
    using assms by (simp add: direct_def VA_KERNEL_def high_va word_le_nat_alt word_less_nat_alt)
  then have "\<exists>e. kbind (kload src) (kstore (task_pt_regs (page_addr i))) s = Inl e"
    by (auto simp: kbind_def kload_def kstore_def)
  then show ?thesis by (auto simp: copy_regs_def kseq_def kbind_def upt_rec)
qed

text \<open>C28: Fork creates no process while two adjacent pages among the last 2068 of memory are free.
  \<open>get_two_free_pages\<close> searches from the top, so the new task is put there; the place where
  \<open>copy_process\<close> then stores the registers of the child lies 8473088 bytes above it, behind the end of
  memory, and the store faults.  The call reports an error or does not return.\<close>

theorem fork_faults_in_high_memory:
  fixes s :: "'a kern_scheme"
  assumes "29164 \<le> k" "k < 31231" "mem_map s k = 0" "mem_map s (k + 1) = 0"
  shows "case copy_process s of Inl _ \<Rightarrow> True | Inr (r, _) \<Rightarrow> r < 0"
proof -
  have "r < 0" if r: "copy_process s = Inr (r, t)" for r t
  proof (rule ccontr)
    assume "\<not> r < 0"
    then have "0 \<le> r" by simp
    from copy_process_steps [OF r this] obtain nr i w y where i: "scan_down (mem_map s) 31231 = Some i"
      and y: "copy_regs (task_pt_regs (page_addr i)) (task_pt_regs (current w)) (w\<lparr>task := (task w)(nr := page_addr i)\<rparr>) = Inr (y, t)"
      by metis
    have "29164 \<le> i" "i < 31232" using scan_down_Some [OF i] assms by (auto simp: not_less [symmetric])
    then show False using copy_regs_top [of i] y by (metis sum.distinct(1))
  qed
  then show ?thesis by (auto split: sum.splits prod.splits)
qed

lemma fork_faults_in_high_memory_witness:
  "case copy_process (boot_kern\<lparr>mem_map := \<lambda>_. 0\<rparr>) of Inl _ \<Rightarrow> True | Inr (r, _) \<Rightarrow> r < 0"
  by (rule fork_faults_in_high_memory [of 30000]) simp_all

end
