(* ===== verification/Namei_Props.thy ===== *)
theory Namei_Props
  imports Namei Files_Props
begin

text \<open>
  Searching a directory: \<open>find_entry\<close> returns the first entry in use that carries the name, across the
  blocks of the directory.
\<close>

subsection \<open>Matching a name\<close>

text \<open>The name of the directory entry at offset \<open>de\<close> of a block.\<close>

definition entry_name :: "(nat \<Rightarrow> u8) \<Rightarrow> nat \<Rightarrow> u8 list" where
  "entry_name d de = takeWhile (\<lambda>c. c \<noteq> 0) (map (\<lambda>j. d (de + 2 + j)) [0..<14])"

lemma strncmp_loop_prefix:
  assumes "0 < n" "\<And>j. j < n \<Longrightarrow> m (p + j) \<noteq> 0"
  shows "\<exists>r. strncmp_loop m p q (int n) = Some r \<and> (r = 0 \<longleftrightarrow> (\<forall>j < n. m (p + j) = m (q + j)))"
  using assms
proof (induction n arbitrary: p q)
  case (Suc n)
  show ?case
  proof (cases "n \<noteq> 0 \<and> m p = m q")
    case True
    have "strncmp_loop m p q (int (Suc n)) = strncmp_loop m (p + 1) (q + 1) (int n)"
      using True Suc.prems(2) [of 0] by (subst strncmp_loop.simps) simp
    moreover obtain r where "strncmp_loop m (p + 1) (q + 1) (int n) = Some r"
      "r = 0 \<longleftrightarrow> (\<forall>j < n. m (p + 1 + j) = m (q + 1 + j))"
      using Suc.IH [of "p + 1" "q + 1"] True Suc.prems(2) [of "Suc _"] by auto
    ultimately show ?thesis using True by (auto simp: All_less_Suc2)
  next
    case False
    then have "strncmp_loop m p q (int (Suc n)) = Some (byte_diff (m p) (m q))"
      by (subst strncmp_loop.simps) auto
    then show ?thesis using False by (auto simp: byte_diff_eq_0_iff All_less_Suc2)
  qed
qed simp

lemma entry_name_eq:
  assumes "length xs \<le> 14" "0 \<notin> set xs"
  shows "entry_name d de = xs \<longleftrightarrow>
    (length xs < 14 \<longrightarrow> d (de + 2 + length xs) = 0) \<and> (\<forall>j < length xs. xs ! j = d (de + 2 + j))"
    (is "_ \<longleftrightarrow> ?R")
proof
  let ?ys = "map (\<lambda>j. d (de + 2 + j)) [0..<14]"
  assume e: "entry_name d de = xs"
  have "xs ! j = d (de + 2 + j)" if "j < length xs" for j
    using that e nth_take [of j "length xs" ?ys] takeWhile_nth [of j "\<lambda>c. c \<noteq> 0" ?ys] assms(1)
    by (auto simp: entry_name_def)
  moreover have "d (de + 2 + length xs) = 0" if "length xs < 14"
    using nth_length_takeWhile [of "\<lambda>c. c \<noteq> 0" ?ys] that e by (simp add: entry_name_def)
  ultimately show ?R by blast
next
  let ?ys = "map (\<lambda>j. d (de + 2 + j)) [0..<14]"
  assume r: ?R
  have "takeWhile (\<lambda>c. c \<noteq> 0) ?ys = take (length xs) ?ys"
    by (rule takeWhile_eq_take_P_nth) (use r assms in \<open>auto simp: in_set_conv_nth\<close>)
  also have "\<dots> = xs" using r assms(1) by (intro nth_equalityI) auto
  finally show "entry_name d de = xs" by (simp add: entry_name_def)
qed

lemma match_iff:
  assumes "0 < len" "len \<le> 14" "len \<le> length name" "0 \<notin> set (take len name)" "de + 16 \<le> 1024"
  shows "match len name d de \<longleftrightarrow> de_inode d de \<noteq> 0 \<and> entry_name d de = take len name"
proof -
  let ?m = "\<lambda>a. if a < 1024 then d a else char_at name (a - 1024)"
  have nz: "name ! j \<noteq> 0" if "j < len" for j
    using that assms(3,4) by (metis in_set_conv_nth length_take min.absorb2 nth_take)
  obtain r where r: "strncmp_loop ?m 1024 (de + 2) (int len) = Some r"
    "r = 0 \<longleftrightarrow> (\<forall>j < len. ?m (1024 + j) = ?m (de + 2 + j))"
    using strncmp_loop_prefix [OF assms(1), of ?m 1024 "de + 2"] nz assms(3) by (auto simp: char_at_def)
  have "r = 0 \<longleftrightarrow> (\<forall>j < len. name ! j = d (de + 2 + j))"
    unfolding r(2) using assms(2,3,5) by (auto simp: char_at_def)
  then show ?thesis
    using entry_name_eq [of "take len name" d de] r(1) assms(1-4)
    by (auto simp: match_def strncmp_def NAME_LEN_def)
qed

subsection \<open>The entries of a directory\<close>

definition dir_block :: "'a kern_scheme \<Rightarrow> u64 \<Rightarrow> nat \<Rightarrow> nat \<Rightarrow> u8" where
  "dir_block s dir k = block_data s (zone_dev s dir) (uint (file_zone s dir (k div 64)))"

definition dir_inode :: "'a kern_scheme \<Rightarrow> u64 \<Rightarrow> nat \<Rightarrow> u16" where
  "dir_inode s dir k = load16 (dir_block s dir k) (16 * (k mod 64))"

definition dir_name :: "'a kern_scheme \<Rightarrow> u64 \<Rightarrow> nat \<Rightarrow> u8 list" where
  "dir_name s dir k = entry_name (dir_block s dir k) (16 * (k mod 64))"

text \<open>All blocks that hold the first \<open>n\<close> entries can be read without waiting, and none is missing.\<close>

definition dir_resident :: "'a kern_scheme \<Rightarrow> u64 \<Rightarrow> nat \<Rightarrow> bool" where
  "dir_resident s dir n \<longleftrightarrow> (\<forall>k < n. resident s dir (k div 64) \<and> file_zone s dir (k div 64) \<noteq> 0)"

abbreviation up :: "nat \<Rightarrow> 'a kern_scheme \<Rightarrow> 'a kern_scheme" where
  "up b \<equiv> upd_buf b (\<lambda>h. h\<lparr>b_count := b_count h + 1\<rparr>)"

abbreviation zone_held :: "'a kern_scheme \<Rightarrow> u64 \<Rightarrow> nat \<Rightarrow> nat \<Rightarrow> bool" where
  "zone_held s dir k b \<equiv> holds s (zone_dev s dir) (uint (file_zone s dir (k div 64))) b \<and> idle_buf s b"

lemma resident_zone:
  assumes "cache_inv s" "quiet s" "dir_resident s dir n" "k < n"
  obtains b where "zone_held s dir k b" "bmap dir (int (k div 64)) s = Inr (uint (file_zone s dir (k div 64)), s)"
    "bread (zone_dev s dir) (uint (file_zone s dir (k div 64))) s = Inr (Some b, up b s)"
    "b_data (bufs (up b s) b) = dir_block s dir k"
proof -
  have r: "resident s dir (k div 64)" "file_zone s dir (k div 64) \<noteq> 0" using assms(3,4) by (auto simp: dir_resident_def)
  then obtain b where b: "zone_held s dir k b" by (auto simp: resident_def ready_def)
  then have h: "holds s (zone_dev s dir) (uint (file_zone s dir (k div 64))) b" "idle_buf s b" by simp_all
  have m: "bmap dir (int (k div 64)) s = Inr (uint (file_zone s dir (k div 64)), s)"
    using bmap_cached [OF assms(1,2), of dir "k div 64"] r(1) by (auto simp: resident_def)
  have d: "b_data (bufs (up b s) b) = dir_block s dir k"
    using block_data_holds [OF assms(1) h(1)] by (simp add: dir_block_def upd_buf_def)
  show thesis by (rule that [OF b m bread_cached [OF assms(1) h] d])
qed

lemma next_entry_resident:
  assumes "cache_inv s" "quiet s" "dir_resident s dir n" "k < n" "idle_buf s b"
  obtains b' where "zone_held s dir k b'" "b_data (bufs (up b' s) b') = dir_block s dir k"
    "next_entry bmap dir k b (up b s) = Inr ((uint (file_zone s dir (k div 64)), Some b'), up b' s)"
proof -
  obtain b' where b': "zone_held s dir k b'" "bmap dir (int (k div 64)) s = Inr (uint (file_zone s dir (k div 64)), s)"
    "bread (zone_dev s dir) (uint (file_zone s dir (k div 64))) s = Inr (Some b', up b' s)"
    "b_data (bufs (up b' s) b') = dir_block s dir k"
    by (rule resident_zone [OF assms(1-4)])
  have "file_zone s dir (k div 64) \<noteq> 0" using assms(3,4) by (auto simp: dir_resident_def)
  then have "next_entry bmap dir k b (up b s) = Inr ((uint (file_zone s dir (k div 64)), Some b'), up b' s)"
    using brelse_undo [OF assms(5,2)] b'(2,3)
    by (simp add: next_entry_def kres_simps kseq_def kbind_def zone_dev_def uint_0_iff)
  then show thesis using that b'(1,4) by blast
qed

subsection \<open>The search\<close>

definition wanted :: "'a kern_scheme \<Rightarrow> u64 \<Rightarrow> u8 list \<Rightarrow> nat \<Rightarrow> bool" where
  "wanted s dir xs k \<longleftrightarrow> dir_inode s dir k \<noteq> 0 \<and> dir_name s dir k = xs"

text \<open>What the search returns: the buffer of the entry, with one more user, and its offset.\<close>

definition found_at :: "'a kern_scheme \<Rightarrow> u64 \<Rightarrow> nat option \<Rightarrow> ('a kern_scheme, (nat \<times> nat) option) kres \<Rightarrow> bool" where
  "found_at s dir r res \<longleftrightarrow>
     (case r of
        None \<Rightarrow> res = Inr (None, s)
      | Some k \<Rightarrow> \<exists>b. zone_held s dir k b \<and> res = Inr (Some (b, 16 * (k mod 64)), up b s))"

lemma match_wanted:
  assumes "0 < len" "len \<le> 14" "len \<le> length name" "0 \<notin> set (take len name)"
  shows "match len name (dir_block s dir k) (16 * (k mod 64)) \<longleftrightarrow> wanted s dir (take len name) k"
proof -
  have "16 * (k mod 64) + 16 \<le> (1024 :: nat)" using mod_less_divisor [of 64 k] by linarith
  then show ?thesis using match_iff [OF assms] by (simp add: wanted_def dir_inode_def dir_name_def de_inode_def)
qed

text \<open>The loop at entry \<open>i\<close>, whose predecessor is in buffer \<open>b\<close>.\<close>

lemma find_loop_resident:
  assumes "cache_inv s" "quiet s" "dir_resident s dir n"
    "0 < len" "len \<le> 14" "len \<le> length name" "0 \<notin> set (take len name)"
    "i \<le> n" "idle_buf s b" "de = 1024 \<and> i mod 64 = 0 \<or> de = 16 * (i mod 64) \<and> (i < n \<longrightarrow> zone_held s dir i b)"
  shows "found_at s dir (find (wanted s dir (take len name)) [i..<n]) (find_loop dir name len n i b de (up b s))"
  using assms(8-10)
proof (induction "n - i" arbitrary: i b de)
  case 0
  then show ?case
    using brelse_undo [OF _ assms(2)] by (subst find_loop.simps) (simp add: found_at_def kres_simps)
next
  case (Suc d)
  then have i: "i < n" by simp
  obtain b' where b': "zone_held s dir i b'" "b_data (bufs (up b' s) b') = dir_block s dir i"
    and here: "(if 1024 \<le> de then next_entry bmap dir i b (up b s) else Inr ((1, Some b), up b s))
      = Inr ((if 1024 \<le> de then uint (file_zone s dir (i div 64)) else 1, Some b'), up b' s)"
  proof (cases "de = 1024")
    case True
    then show thesis using next_entry_resident [OF assms(1-3) i Suc.prems(2)] that by auto
  next
    case False
    have "i mod 64 < 64" by simp
    then have "de < 1024" "zone_held s dir i b" using False Suc.prems(3) i by auto
    then show thesis
      using that [of b] block_data_holds [OF assms(1), of "zone_dev s dir" _ b] by (simp add: dir_block_def upd_buf_def)
  qed
  have de: "(if 1024 \<le> de then 0 else de) = 16 * (i mod 64)" using Suc.prems(3) by auto
  have "found_at s dir (find (wanted s dir (take len name)) [i + 1..<n])
      (find_loop dir name len n (i + 1) b' (16 * (i mod 64) + 16) (up b' s))"
  proof (rule Suc.hyps(1))
    show "16 * (i mod 64) + 16 = 1024 \<and> (i + 1) mod 64 = 0
        \<or> 16 * (i mod 64) + 16 = 16 * ((i + 1) mod 64) \<and> (i + 1 < n \<longrightarrow> zone_held s dir (i + 1) b')"
      using b'(1) by (cases "i mod 64 = 63") (auto simp: mod_Suc div_Suc)
  qed (use Suc.hyps(2) i b'(1) in auto)
  moreover have "find_loop dir name len n i b de (up b s) = (if wanted s dir (take len name) i
      then Inr (Some (b', 16 * (i mod 64)), up b' s)
      else find_loop dir name len n (i + 1) b' (16 * (i mod 64) + 16) (up b' s))"
    using here i b'(2) match_wanted [OF assms(4-7), of s dir i] by (subst find_loop.simps) (simp add: de)
  moreover have "found_at s dir (Some i) (Inr (Some (b', 16 * (i mod 64)), up b' s))"
    using b'(1) by (auto simp: found_at_def)
  ultimately show ?case using i by (simp add: upt_conv_Cons)
qed

text \<open>C27: Searching a directory of any size.  If its blocks and the index blocks that lead to them are in the
  cache, up to date and unlocked, \<open>find_entry\<close> returns the first entry in use whose name is the one asked
  for, cut to 14 characters: the buffer of its block, with one more user, and its offset there.  If there
  is none it returns NULL and leaves the state as it was, the reference counts of all buffers included.\<close>

theorem find_entry_finds_first:
  assumes "cache_inv s" "quiet s" "dir_resident s dir n" "i_size (inodes s dir) = of_nat (16 * n)" "0 < n"
    "0 < namelen" "namelen \<le> length name" "0 \<notin> set (take namelen name)"
  shows "found_at s dir (find (wanted s dir (take (min namelen 14) name)) [0..<n]) (find_entry dir name namelen s)"
proof -
  let ?len = "min namelen 14" and ?z = "file_zone s dir (0 div 64)"
  obtain b where b: "zone_held s dir 0 b" "bread (zone_dev s dir) (uint ?z) s = Inr (Some b, up b s)"
    using resident_zone [OF assms(1-3), of 0] assms(5) by auto
  have z: "?z = i_zone (inodes s dir) 0" "?z \<noteq> 0"
    using assms(3,5) by (auto simp: file_zone_def Let_def dir_resident_def)
  have "(n - 1) div 64 < 7 + 512 + 512 * 512" using assms(3,5) by (simp add: dir_resident_def resident_def)
  then have "n < 64 * (7 + 512 + 512 * 512) + 1" using assms(5) by (simp add: div_less_iff_less_mult)
  then have n: "16 * n < 2 ^ 64" "n < 2 ^ 31" by simp_all
  then have "unat (i_size (inodes s dir)) = 16 * n" unfolding assms(4)
    by (simp add: unat_of_nat take_bit_nat_eq_self del: of_nat_mult)
  then have "uint (i_size (inodes s dir)) div 16 = int n" by (simp add: uint_nat)
  then have "nat (to_int32 (uint (i_size (inodes s dir)) div 16)) = n" using to_int32_small [OF n(2)] by simp
  moreover have l: "min namelen 14 \<noteq> 0" using assms(6) by simp
  ultimately have "find_entry dir name namelen s = find_loop dir name ?len n 0 b 0 (up b s)"
    using b(2) z by (simp add: find_entry_def kres_simps zone_dev_def NAME_LEN_def Let_def) (use l in linarith)
  moreover have "0 \<notin> set (take ?len name)" using assms(8) set_take_subset_set_take [of ?len namelen name] by auto
  then have "found_at s dir (find (wanted s dir (take ?len name)) [0..<n]) (find_loop dir name ?len n 0 b 0 (up b s))"
    using b(1) assms(6,7) by (intro find_loop_resident [OF assms(1-3)]) simp_all
  ultimately show ?thesis by simp
qed

text \<open>A directory with an unused entry and the entry \<open>a\<close> of inode 7.\<close>

definition one_dir :: kern where
  "one_dir = small_with ((\<lambda>_. 0)(16 := 7, 18 := 97)) (zero_inode\<lparr>i_dev := 0x301, i_size := 32, i_zone := (\<lambda>_. 0)(0 := 1)\<rparr>)"

lemma find_entry_finds_first_witness:
  "\<exists>b. find_entry 4096 [97, 47] 1 one_dir = Inr (Some (b, 16), up b one_dir)"
proof -
  note d = small_with_inv [of "(\<lambda>_. 0)(16 := 7, 18 := 97)", folded one_dir_def]
    small_with_ready [of "(\<lambda>_. 0)(16 := 7, 18 := 97)"]
  have z: "zone_dev one_dir 4096 = 0x301" "file_zone one_dir 4096 0 = 1" "indirect_blocks one_dir 4096 0 = {}"
    by (simp_all add: zone_dev_def file_zone_def indirect_blocks_def one_dir_def d)
  have "dir_resident one_dir 4096 2"
    using d(2) by (simp add: dir_resident_def resident_def z) (simp add: one_dir_def)
  moreover have "block_data one_dir 0x301 1 = (\<lambda>_. 0)(16 := 7, 18 := 97)" by (simp add: one_dir_def d)
  then have "find (wanted one_dir 4096 [97]) [0..<2] = Some 1"
    by (simp add: upt_rec wanted_def dir_inode_def dir_name_def dir_block_def z load16_def entry_name_def)
  ultimately show ?thesis
    using find_entry_finds_first [of one_dir 4096 2 1 "[97, 47]"] d
    by (auto simp: one_dir_def small_with_inv found_at_def)
qed

end
