(* ===== verification/File_Write.thy ===== *)
theory File_Write
  imports Files_Props
begin

text \<open>
  Writing to a regular file (\<open>fs/file_dev.c\<close>).  When the blocks written to exist and are in the cache,
  \<open>file_write\<close> changes the bytes of the file exactly at the position, across any number of blocks, and a
  read at the same position delivers what was written.  The file has to be mapped properly: no zone is used
  for two of its blocks, or for a block and an index.
\<close>

subsection \<open>States with the same block map\<close>

text \<open>The states differ in the contents of buffers, in open files and in the fields of inodes other than the
  device and the zones of the inode at \<open>p\<close>.\<close>

definition alike :: "u64 \<Rightarrow> 'a kern_scheme \<Rightarrow> 'a kern_scheme \<Rightarrow> bool" where
  "alike p s t \<longleftrightarrow> same_links s t \<and> waitq t = waitq s \<and> buffer_wait t = buffer_wait s
     \<and> (\<forall>b. b_lock (bufs t b) = b_lock (bufs s b) \<and> b_uptodate (bufs t b) = b_uptodate (bufs s b) \<and> b_count (bufs t b) = b_count (bufs s b))
     \<and> i_zone (inodes t p) = i_zone (inodes s p) \<and> i_dev (inodes t p) = i_dev (inodes s p)"

lemma alike_refl [simp]: "alike p s s"
  by (simp add: alike_def same_links_def)

lemma alike_trans: "alike p s t \<Longrightarrow> alike p t u \<Longrightarrow> alike p s u"
  by (simp add: alike_def same_links_def)

lemma alike_file: "alike p s (upd_file f g s)"
  by (simp add: alike_def same_links_def upd_file_def)

lemma alike_inode:
  assumes "\<And>i. i_zone (g i) = i_zone i \<and> i_dev (g i) = i_dev i"
  shows "alike p s (upd_inode q g s)"
  using assms by (simp add: alike_def same_links_def upd_inode_def)

lemma alike_data: "alike p s (upd_buf b (\<lambda>h. put_data off cs (h\<lparr>b_dirt := d\<rparr>)) s)"
  by (simp add: alike_def same_links_def upd_buf_def put_data_def)

lemma alike_cache:
  assumes "alike p s t" "cache_inv s"
  shows "cache_inv t" "holds t dev block = holds s dev block" "cache_lookup t = cache_lookup s"
    "quiet t = quiet s" "ready t dev block = ready s dev block" "zone_dev t p = zone_dev s p"
proof -
  have l: "same_links s t" using assms(1) by (simp add: alike_def)
  show h: "holds t dev block = holds s dev block" for dev block by (rule ext) (rule holds_links [OF l])
  show inv: "cache_inv t" using assms(2) cache_wf_links [OF l] l by (simp add: cache_inv_def h) (simp add: same_links_def)
  show "cache_lookup t = cache_lookup s"
  proof
    fix k
    have "cache_lookup t k = Some b \<longleftrightarrow> cache_lookup s k = Some b" for b
      using buffer_cache.lookup_iff [OF assms(2), of k b] buffer_cache.lookup_iff [OF inv, of k b] by (simp add: h)
    then show "cache_lookup t k = cache_lookup s k" by (metis option.exhaust)
  qed
  show "quiet t = quiet s" "zone_dev t p = zone_dev s p" using assms(1) by (simp_all add: alike_def quiet_def zone_dev_def)
  show "ready t dev block = ready s dev block" using assms(1) by (simp add: ready_def h idle_buf_def alike_def)
qed

text \<open>The zones that hold the block map of a file.\<close>

definition max_block :: nat where "max_block = 7 + 512 + 512 * 512"

definition index_zones :: "'a kern_scheme \<Rightarrow> u64 \<Rightarrow> u16 set" where
  "index_zones s p = (\<Union>n \<in> {..<max_block}. indirect_blocks s p n)"

lemma map_alike:
  assumes "alike p s t" "cache_inv s" "n < max_block"
    and "\<And>z. z \<in> index_zones s p \<Longrightarrow> block_data t (zone_dev s p) (uint z) = block_data s (zone_dev s p) (uint z)"
  shows "file_zone t p n = file_zone s p n" "indirect_blocks t p n = indirect_blocks s p n"
proof -
  note a = alike_cache [OF assms(1,2)]
  have z: "i_zone (inodes t p) = i_zone (inodes s p)" using assms(1) by (simp add: alike_def)
  have e: "entry t p z k = entry s p z k" if "z \<noteq> 0 \<Longrightarrow> z \<in> indirect_blocks s p n" for z k
  proof (cases "z = 0")
    case False
    then have "z \<in> index_zones s p" using that assms(3) by (auto simp: index_zones_def)
    then show ?thesis by (simp add: entry_def a(6) assms(4))
  qed (simp add: entry_def)
  consider "n < 7" | "7 \<le> n" "n < 519" | "519 \<le> n" by linarith
  then have "file_zone t p n = file_zone s p n \<and> indirect_blocks t p n = indirect_blocks s p n"
  proof cases
    case 1
    then show ?thesis by (simp add: file_zone_def indirect_blocks_def z)
  next
    case 2
    then have "entry t p (i_zone (inodes s p) 7) (n - 7) = entry s p (i_zone (inodes s p) 7) (n - 7)"
      by (intro e) (simp add: indirect_blocks_def)
    then show ?thesis using 2 by (simp add: file_zone_def indirect_blocks_def z Let_def)
  next
    case 3
    let ?y = "entry s p (i_zone (inodes s p) 8) ((n - 519) div 512)"
    have 1: "entry t p (i_zone (inodes s p) 8) ((n - 519) div 512) = ?y"
      using 3 by (intro e) (simp add: indirect_blocks_def Let_def)
    moreover have "entry t p ?y ((n - 519) mod 512) = entry s p ?y ((n - 519) mod 512)"
      using 3 by (intro e) (simp add: indirect_blocks_def Let_def)
    ultimately show ?thesis using 3 by (simp add: file_zone_def indirect_blocks_def z Let_def)
  qed
  then show "file_zone t p n = file_zone s p n" "indirect_blocks t p n = indirect_blocks s p n" by simp_all
qed

subsection \<open>Writing to one buffer\<close>

definition well_mapped :: "'a kern_scheme \<Rightarrow> u64 \<Rightarrow> bool" where
  "well_mapped s p \<longleftrightarrow>
     (\<forall>k < max_block. \<forall>j < max_block. file_zone s p k \<noteq> 0 \<and> file_zone s p j = file_zone s p k \<longrightarrow> j = k)
     \<and> (\<forall>k < max_block. file_zone s p k \<notin> index_zones s p)"

text \<open>The bytes \<open>cs\<close> at \<open>off\<close> of block \<open>k\<close> of the file.\<close>

definition overwrite :: "nat \<Rightarrow> u8 list \<Rightarrow> (nat \<Rightarrow> u8) \<Rightarrow> nat \<Rightarrow> u8" where
  "overwrite pos cs d n = (if pos \<le> n \<and> n < pos + length cs then cs ! (n - pos) else d n)"

lemma put_data_overwrite: "b_data (put_data off cs h) = overwrite off cs (b_data h)"
  by (simp add: put_data_def overwrite_def fun_eq_iff)

lemma block_data_upd:
  assumes "cache_inv s" "holds s dev block b" "alike p s t" "\<And>c. c \<noteq> b \<Longrightarrow> b_data (bufs t c) = b_data (bufs s c)"
  shows "block_data t dev' block' = (if dev' = dev \<and> block' = block then b_data (bufs t b) else block_data s dev' block')"
proof -
  note a = alike_cache [OF assms(3,1)]
  have b: "cache_lookup s (dev, block) = Some b" using buffer_cache.lookup_iff [OF assms(1), of "(dev, block)" b] assms(2) by simp
  show ?thesis
  proof (cases "dev' = dev \<and> block' = block")
    case True
    then show ?thesis using b by (simp add: block_data_def a(3))
  next
    case False
    then have "cache_lookup s (dev', block') \<noteq> Some b"
      using buffer_cache.lookup_iff [OF assms(1), of "(dev', block')" b] assms(2) by (auto simp: holds_def)
    then have "block_data t dev' block' = block_data s dev' block'"
      using assms(4) by (cases "cache_lookup s (dev', block')") (simp_all add: block_data_def a(3))
    then show ?thesis using False by auto
  qed
qed

lemma shifted_compare:
  fixes n :: nat
  assumes "n = q + r" "m = q + r'"
  shows "r' \<le> r \<longleftrightarrow> m \<le> n" "r < r' + c \<longleftrightarrow> n < m + c" "r - r' = n - m"
  using assms by simp_all

lemma block_split:
  fixes n :: nat
  assumes "n div 1024 = pos div 1024"
  shows "pos mod 1024 \<le> n mod 1024 \<longleftrightarrow> pos \<le> n" "n mod 1024 < pos mod 1024 + c \<longleftrightarrow> n < pos + c"
    "n mod 1024 - pos mod 1024 = n - pos"
proof -
  have "n = 1024 * (pos div 1024) + n mod 1024" unfolding assms [symmetric] by simp
  note c = shifted_compare [OF this mult_div_mod_eq [of 1024 pos, symmetric]]
  show "pos mod 1024 \<le> n mod 1024 \<longleftrightarrow> pos \<le> n" "n mod 1024 < pos mod 1024 + c \<longleftrightarrow> n < pos + c"
    "n mod 1024 - pos mod 1024 = n - pos" by (rule c(1), rule c(2), rule c(3))
qed

lemma block_range_div:
  fixes n :: nat
  assumes "pos \<le> n" "n < pos + c" "c \<le> 1024 - pos mod 1024"
  shows "n div 1024 = pos div 1024"
proof -
  have "pos = pos div 1024 * 1024 + pos mod 1024" "pos mod 1024 < 1024" by simp_all
  then have "pos div 1024 * 1024 \<le> n" "n < pos div 1024 * 1024 + 1024" using assms by linarith+
  then show ?thesis by (intro div_nat_eqI) (simp_all add: mult.commute)
qed

lemma write_buffer:
  assumes "cache_inv s" "well_mapped s p" "pos div 1024 < max_block" "file_zone s p (pos div 1024) \<noteq> 0"
    "holds s (zone_dev s p) (uint (file_zone s p (pos div 1024))) b" "length cs \<le> 1024 - pos mod 1024"
    and t: "alike p s t" "\<And>c. c \<noteq> b \<Longrightarrow> b_data (bufs t c) = b_data (bufs s c)"
      "b_data (bufs t b) = overwrite (pos mod 1024) cs (b_data (bufs s b))"
  shows "n < max_block \<Longrightarrow> file_zone t p n = file_zone s p n" "n < max_block \<Longrightarrow> indirect_blocks t p n = indirect_blocks s p n"
    "well_mapped t p" "n < max_block * 1024 \<Longrightarrow> file_byte t p n = overwrite pos cs (file_byte s p) n"
proof -
  let ?z = "file_zone s p (pos div 1024)" and ?dev = "zone_dev s p"
  note a = alike_cache [OF t(1) assms(1)]
  note d = block_data_upd [OF assms(1,5) t(1,2)]
  have i: "?z \<notin> index_zones s p" using assms(2,3) by (simp add: well_mapped_def)
  have "block_data t ?dev (uint z) = block_data s ?dev (uint z)" if "z \<in> index_zones s p" for z
    using that i d [of ?dev "uint z"] word_uint_eq_iff [of z ?z] by auto
  note m = map_alike [OF t(1) assms(1) _ this]
  show "n < max_block \<Longrightarrow> file_zone t p n = file_zone s p n" "n < max_block \<Longrightarrow> indirect_blocks t p n = indirect_blocks s p n"
    using m by blast+
  have "index_zones t p = index_zones s p" using m(2) by (simp add: index_zones_def)
  then show "well_mapped t p" using assms(2) m(1) by (simp add: well_mapped_def)
  assume "n < max_block * 1024"
  then have k: "n div 1024 < max_block" by (simp add: less_mult_imp_div_less)
  show "file_byte t p n = overwrite pos cs (file_byte s p) n"
  proof (cases "n div 1024 = pos div 1024")
    case True
    then show ?thesis
      using m(1) [OF k] a(6) d [of ?dev "uint ?z"] t(3) assms(4) block_split [OF True] block_data_holds [OF assms(1,5)]
      by (simp add: file_byte_def Let_def overwrite_def)
  next
    case False
    then have "file_zone s p (n div 1024) \<noteq> ?z \<or> ?z = 0" using assms(2,3,4) k by (auto simp: well_mapped_def)
    then have "file_byte t p n = file_byte s p n"
      using m(1) [OF k] a(6) d [of ?dev "uint (file_zone s p (n div 1024))"] assms(4)
      by (simp add: file_byte_def Let_def word_uint_eq_iff [symmetric])
    moreover have "\<not> (pos \<le> n \<and> n < pos + length cs)" using False block_range_div [of pos n "length cs"] assms(6) by blast
    ultimately show ?thesis by (auto simp: overwrite_def)
  qed
qed

subsection \<open>The write loop\<close>

text \<open>The state after one round on buffer \<open>b\<close>: the bytes are stored, the buffer is dirty, the size is raised.\<close>

definition stored :: "u64 \<Rightarrow> nat \<Rightarrow> nat \<Rightarrow> u8 list \<Rightarrow> 'a kern_scheme \<Rightarrow> 'a kern_scheme" where
  "stored p b pos cs s = upd_inode p (grow (int (pos + length cs)))
     (upd_buf b (\<lambda>h. put_data (pos mod 1024) cs (h\<lparr>b_dirt := 1\<rparr>)) s)"

lemma stored_fields:
  "alike p s (stored p b pos cs s)" "c \<noteq> b \<Longrightarrow> b_data (bufs (stored p b pos cs s) c) = b_data (bufs s c)"
  "b_data (bufs (stored p b pos cs s) b) = overwrite (pos mod 1024) cs (b_data (bufs s b))"
  "files (stored p b pos cs s) = files s" "jiffies (stored p b pos cs s) = jiffies s"
proof -
  show "alike p s (stored p b pos cs s)"
    unfolding stored_def by (rule alike_trans [OF alike_data alike_inode]) (simp add: grow_def)
  show "b_data (bufs (stored p b pos cs s) b) = overwrite (pos mod 1024) cs (b_data (bufs s b))"
    by (simp add: stored_def upd_inode_def upd_buf_def put_data_overwrite)
qed (simp_all add: stored_def upd_inode_def upd_buf_def)

text \<open>Block \<open>k\<close> of the file exists and can be written to without waiting.\<close>

definition writable :: "'a kern_scheme \<Rightarrow> u64 \<Rightarrow> nat \<Rightarrow> bool" where
  "writable s p k \<longleftrightarrow> resident s p k \<and> file_zone s p k \<noteq> 0"

lemma put_data_count: "put_data off cs (h\<lparr>b_count := n, b_dirt := 1\<rparr>) = (put_data off cs (h\<lparr>b_dirt := 1\<rparr>))\<lparr>b_count := n\<rparr>"
  "b_count (put_data off cs h) = b_count h"
  by (simp_all add: put_data_def cong: if_cong)

lemma file_write_round:
  assumes "cache_inv s" "quiet s" "writable s p (pos div 1024)" "bs \<noteq> []"
  defines "chars \<equiv> min (1024 - pos mod 1024) (length bs)"
  obtains b where "holds s (zone_dev s p) (uint (file_zone s p (pos div 1024))) b"
    "file_write_loop p bs (int pos) i s =
      file_write_loop p (drop chars bs) (int (pos + chars)) (i + chars) (stored p b pos (take chars bs) s)"
proof -
  let ?z = "file_zone s p (pos div 1024)" and ?dev = "zone_dev s p"
  have k: "pos div 1024 < 7 + 512 + 512 * 512" and ib: "\<And>z. z \<in> indirect_blocks s p (pos div 1024) \<Longrightarrow> ready s ?dev (uint z)"
    and z: "?z \<noteq> 0" and r: "ready s ?dev (uint ?z)"
    using assms(3) by (auto simp: writable_def resident_def)
  have "to_int32 (int pos sdiv 1024) = int (pos div 1024)" using k by (simp add: c_div_mod to_int32_small)
  then have cb: "create_block p (to_int32 (int pos sdiv 1024)) s = Inr (uint ?z, s)"
    using bmap0_cached [OF assms(1,2) ib] k z by (simp add: create_block_def)
  obtain b where b: "holds s ?dev (uint ?z) b" "idle_buf s b" using r by (auto simp: ready_def)
  let ?up = "upd_buf b (\<lambda>h. h\<lparr>b_count := b_count h + 1\<rparr>)" and ?t = "stored p b pos (take chars bs) s"
  have br: "bread ?dev (uint ?z) s = Inr (Some b, ?up s)" by (rule bread_cached [OF assms(1) b])
  have c: "nat (min (1024 - int (pos mod 1024)) (int (length bs))) = chars"
  proof -
    have "int (1024 - pos mod 1024) = 1024 - int (pos mod 1024)" using mod_less_divisor [of 1024 pos] by linarith
    then have "int chars = min (1024 - int (pos mod 1024)) (int (length bs))" by (simp add: chars_def of_nat_min)
    then show ?thesis by simp
  qed
  have l: "length (take chars bs) = chars" by (simp add: chars_def)
  have v: "upd_buf b (put_data (pos mod 1024) (take chars bs)) (upd_inode p (grow (int pos + int chars))
      (upd_buf b (\<lambda>h. h\<lparr>b_dirt := 1\<rparr>) (?up s))) = ?up ?t"
    using l by (simp add: stored_def upd_buf_def upd_inode_def put_data_count del: length_take)
  have rel: "brelse (Some b) (?up ?t) = Inr ((), ?t)"
    by (rule brelse_undo) (use b(2) assms(2) in \<open>simp_all add: idle_buf_def quiet_def stored_def upd_buf_def upd_inode_def put_data_def\<close>)
  have "file_write_loop p bs (int pos) i s = file_write_loop p (drop chars bs) (int (pos + chars)) (i + chars) ?t"
    using cb [unfolded c_div_mod] br z assms(4)
    by (subst file_write_loop.simps)
      (simp add: Let_def zone_dev_def [symmetric] c uint_0_iff v rel c_div_mod del: int_nat_eq)
  then show ?thesis using that b(1) by blast
qed

text \<open>Block \<open>k\<close> of the file is in the cache and marked to be written to the disk.\<close>

definition dirty :: "'a kern_scheme \<Rightarrow> u64 \<Rightarrow> nat \<Rightarrow> bool" where
  "dirty s p k \<longleftrightarrow> (\<exists>b. holds s (zone_dev s p) (uint (file_zone s p k)) b \<and> b_dirt (bufs s b) = 1)"

definition dirty_blocks :: "'a kern_scheme \<Rightarrow> u64 \<Rightarrow> nat \<Rightarrow> nat \<Rightarrow> bool" where
  "dirty_blocks s p pos n \<longleftrightarrow> (\<forall>k < max_block. pos div 1024 \<le> k \<and> k * 1024 < pos + n \<and> 0 < n \<longrightarrow> dirty s p k)"

text \<open>What writing \<open>bs\<close> at \<open>pos\<close> does to the file.\<close>

definition written :: "u64 \<Rightarrow> nat \<Rightarrow> u8 list \<Rightarrow> 'a kern_scheme \<Rightarrow> 'a kern_scheme \<Rightarrow> bool" where
  "written p pos bs s t \<longleftrightarrow> alike p s t \<and> files t = files s \<and> CURRENT_TIME t = CURRENT_TIME s
     \<and> i_size (inodes t p) = (if bs = [] then i_size (inodes s p) else max (i_size (inodes s p)) (of_nat (pos + length bs)))
     \<and> (\<forall>n < max_block * 1024. file_byte t p n = overwrite pos bs (file_byte s p) n)
     \<and> (\<forall>k < max_block. file_zone t p k = file_zone s p k \<and> indirect_blocks t p k = indirect_blocks s p k)
     \<and> (\<forall>b. b_dirt (bufs s b) = 1 \<longrightarrow> b_dirt (bufs t b) = 1) \<and> dirty_blocks t p pos (length bs)"

lemma overwrite_append: "overwrite (pos + length cs) ds (overwrite pos cs d) = overwrite pos (cs @ ds) d"
  by (auto simp: overwrite_def fun_eq_iff nth_append)

lemma written_dirty:
  assumes "written p pos bs s t" "cache_inv s" "k < max_block" "dirty s p k"
  shows "dirty t p k"
  using assms alike_cache [of p s t] by (auto simp: written_def dirty_def)

lemma dirty_blocks_append:
  assumes "written p (pos + length cs) ds t u" "cache_inv t" "dirty_blocks t p pos (length cs)"
  shows "dirty_blocks u p pos (length (cs @ ds))"
  unfolding dirty_blocks_def
proof (intro allI impI)
  fix k assume k: "k < max_block" "pos div 1024 \<le> k \<and> k * 1024 < pos + length (cs @ ds) \<and> 0 < length (cs @ ds)"
  show "dirty u p k"
  proof (cases "k * 1024 < pos + length cs \<and> cs \<noteq> []")
    case True
    then show ?thesis using k assms(3) written_dirty [OF assms(1,2) k(1)] by (simp add: dirty_blocks_def)
  next
    case False
    then have "(pos + length cs) div 1024 \<le> k" "ds \<noteq> []" using k(2) div_le_mono [of "pos + length cs" "k * 1024" 1024] by auto
    then show ?thesis using k assms(1) by (simp add: written_def dirty_blocks_def)
  qed
qed

lemma written_trans:
  assumes "written p pos cs s t" "written p (pos + length cs) ds t u" "pos + length cs + length ds < 2 ^ 64" "cache_inv s"
  shows "written p pos (cs @ ds) s u"
proof -
  have d: "dirty_blocks u p pos (length (cs @ ds))"
    by (rule dirty_blocks_append [OF assms(2)]) (use assms(1,4) alike_cache(1) in \<open>auto simp: written_def\<close>)
  have "(of_nat (pos + length cs) :: u64) \<le> of_nat (pos + length cs + length ds)"
    using assms(3) by (simp only: word_le_nat_alt unat_of_nat) simp
  then have m: "max (max a (of_nat (pos + length cs))) (of_nat (pos + length cs + length ds)) = max a (of_nat (pos + length cs + length ds))"
    for a :: u64 by (simp only: max.assoc max.absorb2)
  have "i_size (inodes u p) = (if cs @ ds = [] then i_size (inodes s p)
      else max (i_size (inodes s p)) (of_nat (pos + length (cs @ ds))))"
    using assms(1,2) m by (cases "cs = []"; cases "ds = []") (simp_all add: written_def add.assoc del: of_nat_add)
  moreover have "file_byte u p n = overwrite pos (cs @ ds) (file_byte s p) n" if "n < max_block * 1024" for n
    using that assms(1,2) unfolding overwrite_append [symmetric] by (simp add: written_def overwrite_def)
  ultimately show ?thesis using assms(1,2) alike_trans d by (simp add: written_def) blast
qed

lemma written_writable:
  assumes "written p pos bs s t" "cache_inv s" "k < max_block"
  shows "writable t p k = writable s p k"
  using assms alike_cache [of p s t] by (simp add: written_def writable_def resident_def)

lemma stored_written:
  assumes "cache_inv s" "well_mapped s p" "writable s p (pos div 1024)" "length cs \<le> 1024 - pos mod 1024" "cs \<noteq> []"
    "holds s (zone_dev s p) (uint (file_zone s p (pos div 1024))) b"
  shows "written p pos cs s (stored p b pos cs s)" "well_mapped (stored p b pos cs s) p"
proof -
  have k: "pos div 1024 < max_block" "file_zone s p (pos div 1024) \<noteq> 0"
    using assms(3) by (simp_all add: writable_def resident_def max_block_def)
  note w = write_buffer [OF assms(1,2) k assms(6,4) stored_fields(1-3)]
  show "well_mapped (stored p b pos cs s) p" by (rule w(3))
  have "i_size (inodes (stored p b pos cs s) p) = max (i_size (inodes s p)) (of_nat (pos + length cs))"
    by (auto simp: stored_def upd_inode_def upd_buf_def grow_def max_def)
  moreover have "dirty_blocks (stored p b pos cs s) p pos (length cs)"
    unfolding dirty_blocks_def
  proof (intro allI impI)
    fix j assume j: "j < max_block" "pos div 1024 \<le> j \<and> j * 1024 < pos + length cs \<and> 0 < length cs"
    have "pos = pos div 1024 * 1024 + pos mod 1024" "pos mod 1024 < 1024" by simp_all
    then have "j = pos div 1024" using j(2) assms(4) by linarith
    then show "dirty (stored p b pos cs s) p j"
      using assms(6) alike_cache [OF stored_fields(1) assms(1)] w(1) [OF _ j(1)]
      by (simp add: dirty_def) (auto simp: stored_def upd_inode_def upd_buf_def put_data_def)
  qed
  ultimately show "written p pos cs s (stored p b pos cs s)"
    using w(1,2,4) stored_fields(1,4) assms(5)
    by (simp add: written_def) (simp add: CURRENT_TIME_def stored_def upd_inode_def upd_buf_def put_data_def)
qed

lemma last_block:
  assumes "\<And>k. pos div 1024 \<le> k \<Longrightarrow> k * 1024 < pos + n \<Longrightarrow> k < max_block" "0 < n"
  shows "pos + n \<le> max_block * 1024"
proof -
  have "pos \<le> pos + n - 1" "(pos + n - 1) div 1024 * 1024 \<le> pos + n - 1" using assms(2) by simp_all
  then have "(pos + n - 1) div 1024 < max_block" using assms(2) by (intro assms(1) div_le_mono) linarith+
  then have "pos + n - 1 < max_block * 1024" by (simp add: div_less_iff_less_mult)
  then show ?thesis by linarith
qed

lemma file_write_loop_bytes:
  assumes "cache_inv s" "quiet s" "well_mapped s p" "\<And>k. pos div 1024 \<le> k \<Longrightarrow> k * 1024 < pos + length bs \<Longrightarrow> writable s p k"
  shows "\<exists>t. file_write_loop p bs (int pos) i s = Inr ((int (pos + length bs), i + length bs), t) \<and> written p pos bs s t"
  using assms
proof (induction "length bs" arbitrary: bs pos i s rule: less_induct)
  case less
  show ?case
  proof (cases "bs = []")
    case True
    then show ?thesis by (subst file_write_loop.simps) (auto simp: written_def overwrite_def dirty_blocks_def)
  next
    case False
    define c where "c = min (1024 - pos mod 1024) (length bs)"
    let ?cs = "take c bs" and ?ds = "drop c bs"
    have c: "0 < c" "c \<le> length bs" "c \<le> 1024 - pos mod 1024" using False mod_less_divisor [of 1024 pos] by (simp_all add: c_def)
    have "pos div 1024 * 1024 \<le> pos" "0 < length bs" using False by simp_all
    then have w: "writable s p (pos div 1024)" using less.prems(4) [of "pos div 1024"] by linarith
    obtain b where b: "holds s (zone_dev s p) (uint (file_zone s p (pos div 1024))) b"
      and e: "file_write_loop p bs (int pos) i s = file_write_loop p ?ds (int (pos + c)) (i + c) (stored p b pos ?cs s)"
      using file_write_round [OF less.prems(1,2) w False, of i] unfolding c_def [symmetric] by blast
    let ?t = "stored p b pos ?cs s"
    have t: "written p pos ?cs s ?t" "well_mapped ?t p" using stored_written [OF less.prems(1,3) w _ _ b, of ?cs] c False by auto
    note a = alike_cache [OF stored_fields(1) less.prems(1), where p = p]
    have wr: "k < max_block" if "pos div 1024 \<le> k" "k * 1024 < pos + length bs" for k
      using less.prems(4) [OF that] by (simp add: writable_def resident_def max_block_def)
    have "writable ?t p k" if "(pos + c) div 1024 \<le> k" "k * 1024 < pos + c + length ?ds" for k
      using that c(2) less.prems(4) [of k] wr [of k] written_writable [OF t(1) less.prems(1), of k] div_le_mono [of pos "pos + c" 1024]
      by simp
    moreover have "length ?ds < length bs" using c by simp
    ultimately obtain u where u: "file_write_loop p ?ds (int (pos + c)) (i + c) ?t = Inr ((int (pos + c + length ?ds), i + c + length ?ds), u)"
      "written p (pos + c) ?ds ?t u"
      using less.hyps [of ?ds ?t "pos + c" "i + c"] a(1,4) t(2) less.prems(2) by blast
    have "pos + length bs < 2 ^ 64" using last_block [of pos "length bs"] wr False by (simp add: max_block_def)
    then have "written p pos (?cs @ ?ds) s u" using written_trans [OF t(1), of ?ds u] u(2) c less.prems(1) by simp
    then show ?thesis using e u(1) c by auto
  qed
qed

subsection \<open>Writing and reading back\<close>

lemma same_bufs:
  assumes "alike p s t" "cache_inv s" "bufs t = bufs s"
  shows "k < max_block \<Longrightarrow> writable t p k = writable s p k" "n < max_block * 1024 \<Longrightarrow> file_byte t p n = file_byte s p n"
    "k < max_block \<Longrightarrow> dirty t p k = dirty s p k"
proof -
  note a = alike_cache [OF assms(1,2)]
  have d: "block_data t = block_data s" by (intro ext) (simp add: block_data_def a(3) assms(3) split: option.split)
  note m = map_alike [OF assms(1,2), unfolded d, OF _ refl]
  show "k < max_block \<Longrightarrow> writable t p k = writable s p k" by (simp add: writable_def resident_def m a(5,6))
  show "k < max_block \<Longrightarrow> dirty t p k = dirty s p k" by (simp add: dirty_def m a(2,6) assms(3))
  assume "n < max_block * 1024"
  then have "n div 1024 < max_block" by (simp add: less_mult_imp_div_less)
  then show "file_byte t p n = file_byte s p n" by (simp add: file_byte_def m d a(6) Let_def)
qed

text \<open>The position \<open>file_write\<close> starts at.\<close>

definition write_pos :: "'a kern_scheme \<Rightarrow> u64 \<Rightarrow> u64 \<Rightarrow> int" where
  "write_pos s p f = (if f_flags (files s f) AND O_APPEND \<noteq> 0 then sint (i_size (inodes s p)) else f_pos (files s f))"

lemma file_write_bytes:
  assumes "cache_inv s" "quiet s" "well_mapped s p" "write_pos s p f = int pos" "bs \<noteq> []"
    "\<forall>k. pos div 1024 \<le> k \<and> k * 1024 < pos + length bs \<longrightarrow> writable s p k"
  shows "\<exists>t u. written p pos bs s t \<and> alike p t u \<and> bufs u = bufs t \<and> i_size (inodes u p) = i_size (inodes t p)
    \<and> f_pos (files u f) = (if f_flags (files s f) AND O_APPEND = 0 then int (pos + length bs) else f_pos (files s f))
    \<and> file_write p f bs s = Inr (int (length bs), u)"
proof -
  obtain t where t: "file_write_loop p bs (int pos) 0 s = Inr ((int (pos + length bs), 0 + length bs), t)" "written p pos bs s t"
    using file_write_loop_bytes [OF assms(1-3)] assms(6) by blast
  let ?t1 = "upd_inode p (\<lambda>i. i\<lparr>i_mtime := CURRENT_TIME t\<rparr>) t"
  let ?u = "if f_flags (files ?t1 f) AND O_APPEND = 0
    then upd_inode p (\<lambda>i. i\<lparr>i_ctime := CURRENT_TIME ?t1\<rparr>) (upd_file f (\<lambda>x. x\<lparr>f_pos := int (pos + length bs)\<rparr>) ?t1) else ?t1"
  have "file_write p f bs s = Inr (int (length bs), ?u)"
    using t(1) assms(4,5) by (simp add: file_write_def write_pos_def kbind_def Let_def)
  moreover have "alike p t ?u"
    by (auto simp: alike_def same_links_def upd_inode_def upd_file_def)
  moreover have "bufs ?u = bufs t" "i_size (inodes ?u p) = i_size (inodes t p)"
    "f_pos (files ?u f) = (if f_flags (files s f) AND O_APPEND = 0 then int (pos + length bs) else f_pos (files s f))"
    using t(2) by (simp_all add: upd_inode_def upd_file_def written_def)
  ultimately show ?thesis using t(2) by blast
qed

lemma written_back:
  assumes "pos + length bs \<le> max_block * 1024" "\<And>n. n < max_block * 1024 \<Longrightarrow> d n = overwrite pos bs d' n"
  shows "map d [pos..<pos + length bs] = bs"
  by (rule nth_equalityI) (use assms in \<open>simp_all add: overwrite_def\<close>)

text \<open>C26: Writing to a regular file and reading it back.  If the blocks written to exist and are in the cache, up to
  date and unlocked, with the index blocks that lead to them, and the file is mapped properly, \<open>file_write\<close>
  returns the number of bytes; the bytes of the file are then those written at the position (the end of the
  file with \<open>O_APPEND\<close>) and the old ones everywhere else, its size is the maximum of the old one and the end
  of the bytes written, the blocks written to are marked dirty, and \<open>f_pos\<close> has moved to that end, but not
  with \<open>O_APPEND\<close>.  A \<open>file_read\<close>
  from the position delivers exactly the bytes written.\<close>

theorem file_write_read_roundtrip:
  assumes "cache_inv s" "quiet s" "well_mapped s p" "write_pos s p f = int pos" "bs \<noteq> []"
    "\<forall>k. pos div 1024 \<le> k \<and> k * 1024 < pos + length bs \<longrightarrow> writable s p k"
  shows "\<exists>t u. file_write p f bs s = Inr (int (length bs), t)
    \<and> f_pos (files t f) = (if f_flags (files s f) AND O_APPEND = 0 then int (pos + length bs) else f_pos (files s f))
    \<and> i_size (inodes t p) = max (i_size (inodes s p)) (of_nat (pos + length bs))
    \<and> (\<forall>n < max_block * 1024. file_byte t p n = overwrite pos bs (file_byte s p) n)
    \<and> (\<forall>k. pos div 1024 \<le> k \<and> k * 1024 < pos + length bs \<longrightarrow> dirty t p k)
    \<and> file_read p f (int (length bs)) (upd_file f (\<lambda>x. x\<lparr>f_pos := int pos\<rparr>) t) = Inr ((int (length bs), bs), u)"
proof -
  obtain t u where t: "written p pos bs s t" and u: "alike p t u" "bufs u = bufs t" "i_size (inodes u p) = i_size (inodes t p)"
    "f_pos (files u f) = (if f_flags (files s f) AND O_APPEND = 0 then int (pos + length bs) else f_pos (files s f))"
    "file_write p f bs s = Inr (int (length bs), u)"
    using file_write_bytes [OF assms] by blast
  have inv: "cache_inv t" "cache_inv u" "quiet u"
    using alike_cache [of p s t] alike_cache [OF u(1)] t assms(1,2) by (simp_all add: written_def)
  note b = same_bufs [OF u(1) inv(1) u(2)]
  have k: "k < max_block" if "pos div 1024 \<le> k" "k * 1024 < pos + length bs" for k
    using assms(6) that by (simp add: writable_def resident_def max_block_def)
  have "writable u p k" if "pos div 1024 \<le> k" "k * 1024 < pos + length bs" for k
    using assms(6) that k [OF that] b(1) written_writable [OF t assms(1)] by simp
  then have r: "resident u p k" if "pos div 1024 \<le> k" "k * 1024 < pos + length bs" for k using that by (simp add: writable_def)
  have o: "file_byte u p n = overwrite pos bs (file_byte s p) n" if "n < max_block * 1024" for n
    using that b(2) t by (simp add: written_def)
  have d: "dirty u p k" if "pos div 1024 \<le> k" "k * 1024 < pos + length bs" for k
    using that k [OF that] b(3) [of k] t assms(5) by (simp add: written_def dirty_blocks_def)
  let ?v = "upd_file f (\<lambda>x. x\<lparr>f_pos := int pos\<rparr>) u"
  have "map (file_byte ?v p) [pos..<pos + length bs] = bs"
    using written_back [OF last_block [OF k] o] assms(5) by (simp add: frame_bytes [OF inv(2), abs_def])
  moreover have "\<exists>w. file_read p f (int (length bs)) ?v = Inr ((int (length bs), map (file_byte ?v p) [pos..<pos + length bs]), w)"
    by (rule exI, rule file_read_bytes)
      (use inv r assms(5) in \<open>simp_all add: cache_inv_file frame_file frame_bytes\<close>)
  ultimately show ?thesis using u o d t assms(5) by (auto simp: written_def)
qed

text \<open>A file whose first block is zone 1, in the cache.\<close>

definition one_block :: kern where
  "one_block = small_with (\<lambda>_. 0) (zero_inode\<lparr>i_dev := 0x301, i_zone := (\<lambda>_. 0)(0 := 1)\<rparr>)"

lemmas one_block_inv = small_with_inv [of "\<lambda>_. 0" "zero_inode\<lparr>i_dev := 0x301, i_zone := (\<lambda>_. 0)(0 := 1)\<rparr>", folded one_block_def]
  and one_block_ready = small_with_ready [of "\<lambda>_. 0" "zero_inode\<lparr>i_dev := 0x301, i_zone := (\<lambda>_. 0)(0 := 1)\<rparr>", folded one_block_def]

lemma one_block_map:
  "zone_dev one_block 4096 = 0x301" "file_zone one_block 4096 k = (if k = 0 then 1 else 0)" "indirect_blocks one_block 4096 k = {}"
  by (simp_all add: file_zone_def entry_def zone_dev_def one_block_ready Let_def indirect_blocks_def)

lemma one_block_well_mapped: "well_mapped one_block 4096"
  by (simp add: well_mapped_def one_block_map index_zones_def)

lemma file_write_read_roundtrip_witness:
  "\<exists>t u. file_write 4096 8192 [104, 105] (upd_file 8192 (\<lambda>x. x\<lparr>f_pos := 1000, f_flags := 1\<rparr>) one_block) = Inr (2, t)
    \<and> f_pos (files t 8192) = 1002 \<and> i_size (inodes t 4096) = 1002 \<and> file_byte t 4096 999 = 0 \<and> file_byte t 4096 1001 = 105
    \<and> file_read 4096 8192 2 (upd_file 8192 (\<lambda>x. x\<lparr>f_pos := 1000\<rparr>) t) = Inr ((2, [104, 105]), u)"
proof -
  let ?s = "upd_file 8192 (\<lambda>x. x\<lparr>f_pos := 1000, f_flags := 1\<rparr>) one_block"
  have wm: "well_mapped ?s 4096"
    using one_block_well_mapped by (simp add: well_mapped_def index_zones_def frame_file [OF one_block_inv])
  have wp: "write_pos ?s 4096 8192 = int 1000" by (simp add: write_pos_def O_APPEND_def)
  have "writable ?s 4096 k" if "k * 1024 < 1002" for k
  proof -
    have "k = 0" using that by linarith
    then show ?thesis using one_block_ready(1)
      by (simp add: writable_def resident_def frame_file [OF one_block_inv] one_block_map)
  qed
  then have w: "\<forall>k. 1000 div 1024 \<le> k \<and> k * 1024 < 1000 + length [104, 105 :: u8] \<longrightarrow> writable ?s 4096 k" by simp
  note r = file_write_read_roundtrip [OF cache_inv_file [OF one_block_inv] _ wm wp _ w]
  have "file_byte one_block 4096 999 = 0" by (simp add: file_byte_def one_block_map one_block_ready(3))
  then show ?thesis
    using r one_block_ready(2)
    by (auto simp: frame_file [OF one_block_inv] max_block_def overwrite_def frame_bytes [OF one_block_inv]
        one_block_ready(4) zero_inode_def O_APPEND_def)
qed

end
