(* ===== verification/Traps.thy ===== *)
theory Traps
  imports Process
begin

text \<open>
  Model of \<open>kernel/traps.c\<close> and \<open>kernel/system_call.c\<close>: the exception handlers and their table, and the
  system call dispatcher with the table of the calls that have a definition.  The trap frame is the record
  \<open>pt_regs\<close> of the registers these routines use.
\<close>

record pt_regs =
  r_epc :: u64
  r_ra :: u64
  r_sp :: u64
  r_tp :: u64
  r_a0 :: u64
  r_a1 :: u64
  r_a2 :: u64
  r_a7 :: u64
  r_status :: u64
  r_badaddr :: u64
  r_cause :: u64
  r_orig_a0 :: u64

definition user_mode :: "pt_regs \<Rightarrow> bool" where
  "user_mode r \<longleftrightarrow> r_status r AND 0x100 = 0"

subsection \<open>Exceptions\<close>

text \<open>\<open>lit\<close> gives the addresses at which the linker puts the strings of the program.\<close>

definition skip_insn :: "pt_regs \<Rightarrow> 'a kernel_scheme \<Rightarrow> ('a kernel_scheme, pt_regs) kres" where
  "skip_insn r s = Inr (r\<lparr>r_epc := r_epc r + 4\<rparr>, s)"

definition die :: "(string \<Rightarrow> u64) \<Rightarrow> string \<Rightarrow> pt_regs \<Rightarrow> 'a kernel_scheme \<Rightarrow> ('a kernel_scheme, unit) kres" where
  "die lit msg r =
     kseq (printk (str ''%s: %02x'' @ [10, 13]) [lit msg, r_cause r AND 0x3F])
     (kseq (printk (str ''EPC:'' @ [9] @ str ''%p'' @ [10] @ str ''RA:'' @ [9] @ str ''%p'' @ [10] @ str ''SP:'' @ [9] @ str ''%p'' @ [10]
                    @ str ''STATUS:'' @ [9] @ str ''%p'' @ [10] @ str ''BADADDR:'' @ [9] @ str ''%p'' @ [10])
              [r_epc r, r_ra r, r_sp r, r_status r, r_badaddr r])
     (kseq (\<lambda>s. printk (str ''Pid: %d'' @ [10, 13]) [word_of_int (t_pid (tasks s (current s)))] s)
     (kseq (printk [10, 13] [])
       (do_exit 11))))"

definition do_reserved :: "(string \<Rightarrow> u64) \<Rightarrow> pt_regs \<Rightarrow> 'a kernel_scheme \<Rightarrow> ('a kernel_scheme, pt_regs) kres" where
  "do_reserved lit r = kseq (die lit ''Reserved Exception'' r) (skip_insn r)"

definition do_insn_illegal :: "(string \<Rightarrow> u64) \<Rightarrow> pt_regs \<Rightarrow> 'a kernel_scheme \<Rightarrow> ('a kernel_scheme, pt_regs) kres" where
  "do_insn_illegal lit r = kseq (die lit ''Reserved Exception'' r) (skip_insn r)"

definition do_misaligned :: "(string \<Rightarrow> u64) \<Rightarrow> pt_regs \<Rightarrow> 'a kernel_scheme \<Rightarrow> ('a kernel_scheme, pt_regs) kres" where
  "do_misaligned lit r = kseq (die lit ''Misaligned Exception'' r) (skip_insn r)"

definition do_access_fault :: "(string \<Rightarrow> u64) \<Rightarrow> pt_regs \<Rightarrow> 'a kernel_scheme \<Rightarrow> ('a kernel_scheme, pt_regs) kres" where
  "do_access_fault lit r = kseq (die lit ''Access Fault Exception'' r) (skip_insn r)"

definition do_impossible_ecall :: "(string \<Rightarrow> u64) \<Rightarrow> pt_regs \<Rightarrow> 'a kernel_scheme \<Rightarrow> ('a kernel_scheme, pt_regs) kres" where
  "do_impossible_ecall lit r = kseq (die lit ''Impossible Ecall Exception'' r) (skip_insn r)"

definition do_trap_unknown :: "(string \<Rightarrow> u64) \<Rightarrow> pt_regs \<Rightarrow> 'a kernel_scheme \<Rightarrow> ('a kernel_scheme, pt_regs) kres" where
  "do_trap_unknown lit r = kseq (die lit ''Unknown Exception'' r) (skip_insn r)"

text \<open>The messages of a breakpoint: the names of the double words of the trap frame, and those that are shown.\<close>

definition pt_regs_name :: "string list" where
  "pt_regs_name =
     [''epc'', ''ra'', ''sp'', ''gp'', ''tp'', ''t0'', ''t1'', ''t2'', ''s0'', ''s1'', ''a0'', ''a1'', ''a2'', ''a3'', ''a4'', ''a5'',
      ''a6'', ''a7'', ''s2'', ''s3'', ''s4'', ''s5'', ''s6'', ''s7'', ''s8'', ''s9'', ''s10'', ''s11'', ''t3'', ''t4'', ''t5'', ''t6'',
      ''status'', ''badaddr'', ''cause'', ''orig_a0'']"

definition show_reg :: "nat list" where
  "show_reg = [0, 1, 2, 4, 32, 33, 34]"

definition break_from_user :: "string list" where
  "break_from_user = [''User'', ''Kernel'']"

text \<open>\<open>((size_t*)regs)[k]\<close> for the registers of \<open>show_reg\<close>.\<close>

definition reg_word :: "pt_regs \<Rightarrow> nat \<Rightarrow> u64" where
  "reg_word r k = (if k = 0 then r_epc r else if k = 1 then r_ra r else if k = 2 then r_sp r else if k = 4 then r_tp r
     else if k = 32 then r_status r else if k = 33 then r_badaddr r else r_cause r)"

definition do_break :: "(string \<Rightarrow> u64) \<Rightarrow> pt_regs \<Rightarrow> 'a kernel_scheme \<Rightarrow> ('a kernel_scheme, pt_regs) kres" where
  "do_break lit r =
     kseq (printk (str ''Breakpoint From %s Mode.'' @ [10]) [lit (break_from_user ! (if user_mode r then 1 else 0))])
     (kseq (printk (str ''Register in pt_regs:'' @ [10]) [])
     (kseq (kfor show_reg (\<lambda>k s. kseq (printk (str ''%s:'' @ [9, 9] @ str ''0x%p'' @ [10]) [lit (pt_regs_name ! k), reg_word r k]) (kreturn ()) s))
       (skip_insn r)))"

text \<open>\<open>buf\<close> is the address of \<open>sbi_printbuf\<close>.\<close>

definition do_early_trap :: "nat \<Rightarrow> (string \<Rightarrow> u64) \<Rightarrow> pt_regs \<Rightarrow> 'a kernel_scheme \<Rightarrow> ('a kernel_scheme, pt_regs) kres" where
  "do_early_trap buf lit r =
     kseq (sbi_printf buf (str ''Early Trap caused by %d'' @ [10] @ str ''Register in pt_regs:'' @ [10]) [r_cause r])
     (kseq (kfor show_reg (\<lambda>k s. kseq (sbi_printf buf (str ''%s:'' @ [9, 9] @ str ''0x%p'' @ [10]) [lit (pt_regs_name ! k), reg_word r k]) (kreturn ()) s))
     (kseq (print_debug ''do_early_trap'') (skip_insn r)))"

datatype trap_handler = Do_misaligned | Do_access_fault | Do_insn_illegal | Do_break | System_call
  | Do_impossible_ecall | Do_reserved | Do_page_fault

text \<open>\<open>excp_vect_table\<close> as \<open>trap_init\<close> fills it.\<close>

definition trap_init :: "trap_handler list" where
  "trap_init =
     [Do_misaligned, Do_access_fault, Do_insn_illegal, Do_break, Do_misaligned, Do_access_fault, Do_misaligned,
      Do_access_fault, System_call, Do_impossible_ecall, Do_reserved, Do_impossible_ecall, Do_page_fault,
      Do_page_fault, Do_reserved, Do_page_fault]"

subsection \<open>System calls\<close>

text \<open>The calls that have a definition, by their number.  \<open>ubytes\<close> gives the bytes at an address of the
  caller, \<open>regs_addr\<close> is the address of the trap frame, which \<open>sys_exit\<close> and \<open>sys_link\<close> take for their first
  argument; the second argument register of \<open>sys_link\<close> is whatever it holds then.  \<open>undef\<close> stands for the
  calls that are only declared and for the result of \<open>sys_execve\<close> and \<open>sys_open\<close>, which return nothing.\<close>

record sys_params =
  ubytes :: "u64 \<Rightarrow> u8 list"
  regs_addr :: u64
  second_arg :: u64
  stack_junk :: "nat \<Rightarrow> u8"
  plural_text :: "bool \<Rightarrow> u64"
  undef :: "nat \<Rightarrow> int"

definition sys_call_table :: "sys_params \<Rightarrow> nat \<Rightarrow> pt_regs \<Rightarrow> 'a kernel_scheme \<Rightarrow> ('a kernel_scheme, int) kres" where
  "sys_call_table e n r =
     (let a0 = r_a0 r; a1 = r_a1 r; a2 = r_a2 r; path = ubytes e a0 in
      if n = 0 then sys_setup (plural_text e)
      else if n = 1 then kseq (sys_exit (regs_addr e)) (kreturn (undef e 1))
      else if n = 2 then sys_fork
      else if n = 3 then kbind (sys_read a0 a1 a2) (\<lambda>x. kreturn (fst x))
      else if n = 4 then sys_write a0 (ubytes e a1) a2
      else if n = 5 then sys_open (undef e 5) path a1 a2
      else if n = 6 then sys_close a0
      else if n = 7 then sys_waitpid a0 a1 a2
      else if n = 8 then sys_creat path a1
      else if n = 9 then sys_link (ubytes e (regs_addr e)) (ubytes e (second_arg e))
      else if n = 10 then sys_unlink path
      else if n = 12 then sys_chdir path
      else if n = 15 then sys_chmod path a1
      else if n = 16 then sys_chown path a1 a2
      else if n = 18 then kbind (sys_stat (stack_junk e) path a1) (\<lambda>x. kreturn (fst x))
      else if n = 19 then sys_lseek a0 a1 a2
      else if n = 28 then kbind (sys_fstat (stack_junk e) a0 a1) (\<lambda>x. kreturn (fst x))
      else if n = 29 then sys_pause
      else if n = 30 then sys_utime path a1
      else if n = 33 then sys_access path a1
      else if n = 36 then sys_sync
      else if n = 37 then sys_kill (reg_int a0) (reg_int a1)
      else if n = 39 then sys_mkdir a0 path
      else if n = 40 then sys_rmdir path
      else if n = 41 then sys_dup a0
      else if n = 42 then sys_pipe a0
      else if n = 54 then sys_ioctl a0 a1 a2
      else if n = 55 then sys_fcntl a0 a1 a2
      else if n = 61 then sys_chroot path
      else if n = 63 then sys_dup2 a0 a1
      else kreturn (undef e n))"

definition nr_system_calls :: nat where "nr_system_calls = 67"

text \<open>The dispatcher returns the trap frame and whether interrupts are enabled at the end.\<close>

definition system_call :: "sys_params \<Rightarrow> pt_regs \<Rightarrow> 'a kernel_scheme \<Rightarrow> ('a kernel_scheme, pt_regs \<times> bool) kres" where
  "system_call e r0 s =
     (let syscall = r_a7 r0; r = r0\<lparr>r_epc := r_epc r0 + 4, r_orig_a0 := r_a0 r0\<rparr> in
      if sint syscall < 0 \<or> of_nat nr_system_calls \<le> syscall then Inr ((r\<lparr>r_a0 := - 1\<rparr>, True), s)
      else kbind (sys_call_table e (unat syscall) r) (\<lambda>v.
             kseq (do_signal (user_mode r)) (kreturn (r\<lparr>r_a0 := word_of_int v\<rparr>, False))) s)"

end
