(* ===== verification/Mm_Boot.thy ===== *)
theory Mm_Boot
  imports Mm_Tables
begin

text \<open>
  The address space of the kernel after \<open>paging_init\<close> (\<open>mm/memory.c\<close>).  The routine calls
  \<open>map_page\<close> some 80,000 times without looking at its result; the pages of the tables are accounted
  for by \<open>budget\<close>, which shows that the pool cannot run out, and the updates of the address space are
  collected into one function of the page number.
\<close>

subsection \<open>Page numbers\<close>

definition vpn :: "u64 \<Rightarrow> nat" where
  "vpn va = unat va div 4096 mod 2 ^ 27"

lemma vidx_vpn: "vidx va = (vpn va div 2 ^ 18, vpn va div 2 ^ 9 mod 2 ^ 9, vpn va mod 2 ^ 9)"
proof -
  define n where "n = unat va div 4096"
  have "unat va div 2 ^ 30 = n div 2 ^ 18" "unat va div 2 ^ 21 = n div 2 ^ 9"
    by (simp_all add: n_def div_mult2_eq [symmetric])
  moreover have "n mod 2 ^ 27 div 2 ^ 18 = n div 2 ^ 18 mod 2 ^ 9"
    using mod_mult2_eq [of n 262144 512] by simp
  moreover have "n mod 2 ^ 27 div 2 ^ 9 = n div 2 ^ 9 mod 2 ^ 18" "n mod 2 ^ 27 mod 2 ^ 9 = n mod 2 ^ 9"
    using mod_mult2_eq [of n 512 262144] by (simp_all add: mod_mod_cancel)
  ultimately show ?thesis by (simp add: vidx_def unat_PX vpn_def mod_mod_cancel flip: n_def)
qed

lemma vidx_eq_iff: "vidx va = vidx vb \<longleftrightarrow> vpn va = vpn vb"
proof
  assume "vidx va = vidx vb"
  then have "vpn va div 262144 = vpn vb div 262144" "vpn va div 512 mod 512 = vpn vb div 512 mod 512"
    "vpn va mod 512 = vpn vb mod 512" by (simp_all add: vidx_vpn)
  moreover have "n = n div 262144 * 262144 + n div 512 mod 512 * 512 + n mod 512" for n :: nat
  proof -
    have "n = n div 512 * 512 + n mod 512" by simp
    moreover have "n div 512 = n div 512 div 512 * 512 + n div 512 mod 512" by simp
    moreover have "n div 512 div 512 = n div 262144" by (simp add: div_mult2_eq [symmetric])
    ultimately show ?thesis by linarith
  qed
  ultimately show "vpn va = vpn vb" by metis
qed (simp add: vidx_vpn)

subsection \<open>Mapping many pages\<close>

text \<open>A request is a virtual address, a physical address and permissions; \<open>below I\<close> are the paths that
  start at an index of \<open>I\<close> in the root table.\<close>

type_synonym mapping_request = "u64 \<times> u64 \<times> u64"

definition map_request :: "u64 \<Rightarrow> mapping_request \<Rightarrow> 'a mm_scheme \<Rightarrow> ('a mm_scheme, unit) kres" where
  "map_request root = (\<lambda>(va, pa, perm). kseq (map_page root va pa perm 2 0) (kreturn ()))"

definition enter :: "mapping_request \<Rightarrow> (nat \<times> nat \<times> nat \<rightharpoonup> u64) \<Rightarrow> nat \<times> nat \<times> nat \<rightharpoonup> u64" where
  "enter = (\<lambda>(va, pa, perm) m. m(vidx va \<mapsto> PA2PTE pa OR perm))"

definition below :: "nat set \<Rightarrow> nat list set" where
  "below I = (\<lambda>i. [i]) ` I \<union> (\<lambda>(i, j). [j, i]) ` (I \<times> {..<512})"

lemma below_finite: "finite I \<Longrightarrow> finite (below I)" "finite I \<Longrightarrow> card (below I) \<le> 513 * card I"
proof -
  assume "finite I"
  then show "finite (below I)" by (simp add: below_def)
  have "card (below I) \<le> card I + card (I \<times> {..<512 :: nat})"
    unfolding below_def using \<open>finite I\<close>
    by (intro order_trans [OF card_Un_le] add_mono card_image_le) simp_all
  then show "card (below I) \<le> 513 * card I" by (simp add: card_cartesian_product)
qed

lemma map_request_step:
  assumes wf: "wf_tables s root" and tabs: "tabs s root \<subseteq> below I" "finite I" "513 * card I + 2 \<le> budget s root"
    and perm: "perm AND PTE_V \<noteq> 0" and va: "unat (PX 2 va) \<in> I"
  shows "\<exists>t. map_request root (va, pa, perm) s = Inr ((), t) \<and> wf_tables t root
    \<and> pt_lookup t root = enter (va, pa, perm) (pt_lookup s root) \<and> tabs t root \<subseteq> below I
    \<and> budget t root = budget s root \<and> keeps s t"
proof -
  have "card (tabs s root) \<le> 513 * card I"
    using card_mono [OF below_finite(1) tabs(1)] below_finite(2) tabs(2) by (meson order_trans)
  then have "2 \<le> free_pages s" using tabs(3) by (simp add: budget_def)
  from map_page_total [OF wf this] obtain t where t: "map_page root va pa perm 2 0 s = Inr (0, t)" by blast
  note m = map_page_success [OF wf perm t]
  have "{[unat (PX 2 va)], [unat (PX 1 va), unat (PX 2 va)]} \<subseteq> below I"
    using va PX_bound [of 1 va] by (auto simp: below_def)
  then have "tabs t root \<subseteq> below I" using m(5) tabs(1) by blast
  then show ?thesis using t m by (auto simp: map_request_def enter_def kseq_def kbind_def kreturn_def)
qed

lemma map_requests:
  assumes "wf_tables s root" "tabs s root \<subseteq> below I" "finite I" "513 * card I + 2 \<le> budget s root"
    and "\<forall>(va, pa, perm) \<in> set rs. perm AND PTE_V \<noteq> 0 \<and> unat (PX 2 va) \<in> I"
  shows "\<exists>t. kfor rs (map_request root) s = Inr ((), t) \<and> wf_tables t root
    \<and> pt_lookup t root = fold enter rs (pt_lookup s root) \<and> keeps s t"
  using assms
proof (induction rs arbitrary: s)
  case Nil
  then show ?case by (simp add: kreturn_def)
next
  case (Cons r rs)
  obtain va pa perm where r: "r = (va, pa, perm)" by (cases r)
  from Cons.prems r obtain t where t: "map_request root r s = Inr ((), t)" "wf_tables t root"
    "pt_lookup t root = enter r (pt_lookup s root)" "tabs t root \<subseteq> below I" "budget t root = budget s root" "keeps s t"
    using map_request_step [of s root I perm va pa] by auto
  from Cons.IH [OF t(2,4) Cons.prems(3)] Cons.prems t(5) obtain u where
    "kfor rs (map_request root) t = Inr ((), u)" "wf_tables u root"
    "pt_lookup u root = fold enter rs (pt_lookup t root)" "keeps t u" by auto
  then show ?case using t keeps_trans [OF t(6)] by (auto simp: kseq_def kbind_def)
qed

text \<open>When the entries agree with a function of the page number, so does the address space.\<close>

lemma fold_enter:
  assumes "\<forall>(va, pa, perm) \<in> set rs. f (vpn va) = Some (PA2PTE pa OR perm)"
  shows "fold enter rs m (vidx va) = (if vpn va \<in> (\<lambda>r. vpn (fst r)) ` set rs then f (vpn va) else m (vidx va))"
  using assms
proof (induction rs arbitrary: m)
  case (Cons r rs)
  obtain va' pa perm where r: "r = (va', pa, perm)" by (cases r)
  then have "f (vpn va') = Some (PA2PTE pa OR perm)" using Cons.prems by simp
  then have "enter r m (vidx va) = (if vpn va = vpn va' then f (vpn va) else m (vidx va))"
    by (auto simp: enter_def r vidx_eq_iff)
  then show ?case using Cons r by (auto simp: image_iff)
qed simp

subsection \<open>The requests of \<open>paging_init\<close>\<close>

definition ram_requests :: "mapping_request list" where
  "ram_requests = concat (map (\<lambda>a. [(P2V a, a, 0xF), (a, a, 0x1F)]) (page_range PA_KERNEL (RAM_START + RAM_SIZE)))"

definition dev_requests :: "u64 \<Rightarrow> u64 \<Rightarrow> mapping_request list" where
  "dev_requests a b = map (\<lambda>a. (D_P2V_WO a, a, 0xF)) (page_range a b)"

lemma kfor_concat: "kfor (concat xss) f s = kfor xss (\<lambda>xs. kfor xs f) s"
  by (induction xss arbitrary: s) (auto simp: kfor_append split: sum.splits)

lemma kfor_map: "kfor (map g xs) f s = kfor xs (\<lambda>x. f (g x)) s"
  by (induction xs arbitrary: s) (auto split: sum.splits)

lemma kfor_ram_requests:
  "kfor (page_range PA_KERNEL (RAM_START + RAM_SIZE)) (\<lambda>a. kseq (map_page r (P2V a) a 0xF 2 0)
     (kseq (map_page r a a 0x1F 2 0) (kreturn ()))) s = kfor ram_requests (map_request r) s"
  unfolding ram_requests_def kfor_concat kfor_map
  by (rule kfor_cong_on) (auto simp: map_request_def kseq_def kbind_def kreturn_def split: sum.splits)

lemma kfor_dev_requests:
  "kfor (page_range a b) (\<lambda>a. kseq (map_page r (D_P2V_WO a) a 0xF 2 0) (kreturn ())) s
     = kfor (dev_requests a b) (map_request r) s"
  unfolding dev_requests_def kfor_map by (simp add: map_request_def)

lemma paging_init_requests:
  "paging_init s =
     (case kfor (ram_requests @ dev_requests 0x10000 0x11000 @ dev_requests 0xC000000 0x10002000)
        (map_request (swapper_pg_dir s)) s of
        Inl e \<Rightarrow> Inl e
      | Inr (_, t) \<Rightarrow> Inr ((), t\<lparr>satp := SATP_MODE_39 OR drop_bit 12 (V2P (swapper_pg_dir s))\<rparr>))"
proof -
  have "PTE_X OR PTE_W OR PTE_R OR PTE_V = 0xF" "PTE_U OR (0xF :: u64) = 0x1F"
    by (simp_all add: PTE_X_def PTE_W_def PTE_R_def PTE_V_def PTE_U_def)
  then show ?thesis
    unfolding paging_init_def Let_def kfor_append
    by (simp add: kfor_ram_requests kfor_dev_requests load_root_page_table_def kmodify_def kseq_def [of "kfor _ _"]
        kbind_def split: sum.splits)
qed

subsection \<open>Their page numbers\<close>

definition frame :: "nat \<Rightarrow> u64" where "frame n = of_nat (4096 * n)"

lemma unat_frame: "n < 2 ^ 52 \<Longrightarrow> unat (frame n) = 4096 * n"
  by (simp add: frame_def unat_of_nat take_bit_nat_eq_self del: of_nat_mult)

lemma frame_add: "frame m + frame n = frame (m + n)"
  by (simp add: frame_def algebra_simps)

lemma vpn_frame: "n < 2 ^ 52 \<Longrightarrow> vpn (frame n) = n mod 2 ^ 27"
  by (simp add: vpn_def unat_frame)

lemma page_range_frame:
  assumes "a \<le> b" "b < 2 ^ 52"
  shows "page_range (frame a) (frame b) = map frame [a..<b]"
proof -
  have "frame b = frame (b - a) + frame a" using assms(1) by (simp add: frame_add)
  then have "frame b - frame a = frame (b - a)" by simp
  moreover have "(4096 * (b - a) + 4095) div 4096 = b - a" by simp
  ultimately have "page_range (frame a) (frame b) = map (\<lambda>i. frame a + 4096 * of_nat i) [0..<b - a]"
    using assms(2) by (simp add: page_range_def unat_frame)
  also have "\<dots> = map frame (map (\<lambda>i. i + a) [0..<b - a])" by (simp add: frame_def algebra_simps)
  finally show ?thesis using map_add_upt [of a "b - a"] assms(1) by simp
qed

lemma boundaries:
  "PA_KERNEL = frame 0x80200" "RAM_START + RAM_SIZE = frame 0x88000" "(0x10000 :: u64) = frame 0x10" "(0x11000 :: u64) = frame 0x11"
  "(0xC000000 :: u64) = frame 0xC000" "(0x10002000 :: u64) = frame 0x10002" "V_P_DIFF = frame 0xFFFFFFBF7FE00"
  "D_V_P_DIFF = frame 0xFFFFFFFF80000"
  by (simp_all add: frame_def mm_consts D_V_P_DIFF_def)

lemma set_ram_requests:
  "set ram_requests = (\<Union>n \<in> {0x80200..<0x88000}. {(frame (n + 0xFFFFFFBF7FE00), frame n, 0xF), (frame n, frame n, 0x1F)})"
proof -
  have "set (concat (map (\<lambda>a. [(P2V a, a, 0xF), (a, a, 0x1F)]) (map frame [m..<n])))
      = (\<Union>n \<in> {m..<n}. {(frame (n + 0xFFFFFFBF7FE00), frame n, 0xF), (frame n, frame n, 0x1F)})" for m n
    by (auto simp: P2V_def boundaries(7) frame_add)
  then show ?thesis unfolding ram_requests_def boundaries(1,2) by (simp add: page_range_frame del: upt_rec_numeral)
qed

lemma set_dev_requests:
  assumes "a \<le> b" "b < 2 ^ 52"
  shows "set (dev_requests (frame a) (frame b)) = (\<lambda>n. (frame (n + 0xFFFFFFFF80000), frame n, 0xF)) ` {a..<b}"
  unfolding dev_requests_def page_range_frame [OF assms] by (auto simp: D_P2V_WO_def boundaries(8) frame_add)

lemma vpn_ram:
  assumes "0x80200 \<le> n" "n < 0x88000"
  shows "vpn (frame (n + 0xFFFFFFBF7FE00)) = 0x4000000 + (n - 0x80200)" "vpn (frame n) = n"
proof -
  have "n + 0xFFFFFFBF7FE00 = (0x4000000 + (n - 0x80200)) + 2 ^ 27 * 0x1FFFFFF" using assms by simp
  then have "(n + 0xFFFFFFBF7FE00) mod 2 ^ 27 = (0x4000000 + (n - 0x80200)) mod 2 ^ 27" by (metis mod_mult_self2)
  then show "vpn (frame (n + 0xFFFFFFBF7FE00)) = 0x4000000 + (n - 0x80200)" using assms by (simp add: vpn_frame)
  show "vpn (frame n) = n" using assms by (simp add: vpn_frame)
qed

lemma vpn_dev:
  assumes "n < 0x80000"
  shows "vpn (frame (n + 0xFFFFFFFF80000)) = 0x7F80000 + n"
proof -
  have "n + 0xFFFFFFFF80000 = (0x7F80000 + n) + 2 ^ 27 * 0x1FFFFFF" by simp
  then have "(n + 0xFFFFFFFF80000) mod 2 ^ 27 = (0x7F80000 + n) mod 2 ^ 27" by (metis mod_mult_self2)
  then show ?thesis using assms by (simp add: vpn_frame)
qed

lemmas vpn_dev_first = vpn_dev [of 16, simplified]

text \<open>The specification: RAM from the kernel on at the kernel's addresses, once more at its physical
  addresses for user mode, and the devices.\<close>

definition kernel_map :: "nat \<Rightarrow> u64 option" where
  "kernel_map n =
     (if 0x4000000 \<le> n \<and> n < 0x4007E00 then Some (PA2PTE (frame (0x80200 + (n - 0x4000000))) OR 0xF)
      else if 0x80200 \<le> n \<and> n < 0x88000 then Some (PA2PTE (frame n) OR 0x1F)
      else if n = 0x7F80010 \<or> 0x7F8C000 \<le> n \<and> n < 0x7F90002 then Some (PA2PTE (frame (n - 0x7F80000)) OR 0xF)
      else None)"

definition boot_requests :: "mapping_request list" where
  "boot_requests = ram_requests @ dev_requests 0x10000 0x11000 @ dev_requests 0xC000000 0x10002000"

lemma set_boot_requests:
  "set boot_requests = (\<Union>n \<in> {0x80200..<0x88000}. {(frame (n + 0xFFFFFFBF7FE00), frame n, 0xF), (frame n, frame n, 0x1F)})
     \<union> (\<lambda>n. (frame (n + 0xFFFFFFFF80000), frame n, 0xF)) ` insert 0x10 {0xC000..<0x10002}"
proof -
  have "{0x10..<0x11 :: nat} = {0x10}" by auto
  then show ?thesis
    unfolding boot_requests_def boundaries(3-6) by (simp add: set_ram_requests set_dev_requests)
qed

lemma boot_requests_ok:
  "\<forall>(va, pa, perm) \<in> set boot_requests. kernel_map (vpn va) = Some (PA2PTE pa OR perm)
     \<and> perm AND PTE_V \<noteq> 0 \<and> unat (PX 2 va) \<in> {2, 256, 510}"
proof -
  have px: "unat (PX 2 va) = vpn va div 2 ^ 18" for va using vidx_vpn [of va] by (simp add: vidx_def)
  have "(0x4000000 + (n - 0x80200)) div 2 ^ 18 = 256" "n div 2 ^ 18 = 2" if "0x80200 \<le> n" "n < 0x88000" for n :: nat
    using that by (simp_all add: div_nat_eqI)
  moreover have "(0x7F80000 + n) div 2 ^ 18 = 510" if "n < 0x10002" for n :: nat
    using that by (simp add: div_nat_eqI)
  ultimately show ?thesis
    unfolding set_boot_requests ball_Un px by (auto simp: vpn_ram vpn_dev vpn_dev_first kernel_map_def PTE_V_def)
qed

lemma boot_request_ram:
  assumes "0x80200 \<le> n" "n < 0x88000"
  shows "(frame (n + 0xFFFFFFBF7FE00), frame n, 0xF) \<in> set boot_requests" "(frame n, frame n, 0x1F) \<in> set boot_requests"
  unfolding set_boot_requests by (rule UnI1, rule UN_I [of n]; use assms in simp)+

lemma boot_request_dev:
  "n = 0x10 \<or> 0xC000 \<le> n \<and> n < 0x10002 \<Longrightarrow> (frame (n + 0xFFFFFFFF80000), frame n, 0xF) \<in> set boot_requests"
  unfolding set_boot_requests by (rule UnI2, rule image_eqI [of _ _ n]) auto

lemma vpn_request: "(va, pa, perm) \<in> set boot_requests \<Longrightarrow> vpn va = n \<Longrightarrow> n \<in> (\<lambda>r. vpn (fst r)) ` set boot_requests"
  by force

lemma boot_request_keys: "(\<lambda>r. vpn (fst r)) ` set boot_requests = {n. kernel_map n \<noteq> None}"
proof -
  have "n \<in> (\<lambda>r. vpn (fst r)) ` set boot_requests" if m: "kernel_map n \<noteq> None" for n
  proof -
    consider "0x4000000 \<le> n" "n < 0x4007E00" | "0x80200 \<le> n" "n < 0x88000"
      | "n = 0x7F80010 \<or> 0x7F8C000 \<le> n \<and> n < 0x7F90002"
      using m unfolding kernel_map_def by (auto split: if_splits)
    then show ?thesis
    proof cases
      case 1
      then have "0x80200 \<le> n - 0x3F7FE00" "n - 0x3F7FE00 < 0x88000" by auto
      from vpn_request [OF boot_request_ram(1) [OF this]] vpn_ram(1) [OF this] 1 show ?thesis by simp
    next
      case 2
      from vpn_request [OF boot_request_ram(2) [OF 2]] vpn_ram(2) [OF 2] show ?thesis by simp
    next
      case 3
      then have "n - 0x7F80000 = 0x10 \<or> 0xC000 \<le> n - 0x7F80000 \<and> n - 0x7F80000 < 0x10002" "n - 0x7F80000 < 0x80000" "0x7F80000 \<le> n"
        by auto
      from vpn_request [OF boot_request_dev [OF this(1)]] vpn_dev [OF this(2)] this(3) show ?thesis by simp
    qed
  qed
  moreover have "kernel_map (vpn (fst r)) \<noteq> None" if "r \<in> set boot_requests" for r
    using bspec [OF boot_requests_ok that] by (cases r) simp
  ultimately show ?thesis by blast
qed

subsection \<open>Properties\<close>

text \<open>The state in which \<open>start_kernel\<close> begins: the pool and the table \<open>swapper_pg_dir\<close>, in the image of
  the kernel, are empty.\<close>

definition fresh_tables :: "'a mm_scheme \<Rightarrow> bool" where
  "fresh_tables s \<longleftrightarrow> (\<forall>n < 31232. mem_map s n = 0) \<and> al (swapper_pg_dir s) \<and> direct (swapper_pg_dir s)
     \<and> swapper_pg_dir s < P2V LOW_MEM \<and> (\<forall>i < 512. ent_of s (swapper_pg_dir s) i = 0)"

lemma fresh_tables_wf:
  assumes "fresh_tables s"
  shows "wf_tables s (swapper_pg_dir s)" "tabs s (swapper_pg_dir s) = {}" "budget s (swapper_pg_dir s) = 31232"
    "pt_lookup s (swapper_pg_dir s) = Map.empty"
proof -
  let ?r = "swapper_pg_dir s"
  have node: "node (ent_of s) ?r p = (if p = [] then Some ?r else None)" for p
    using assms by (induction p) (auto simp: fresh_tables_def)
  have "?r \<notin> pool_pages"
    using assms page_addr_range(1) by (fastforce simp: fresh_tables_def pool_pages_def)
  moreover have "wf_tree (ent_of s) (in_use s) ?r" by (auto simp: wf_tree_def node split: if_splits)
  ultimately show "wf_tables s ?r" using assms by (simp add: fresh_tables_def wf_tables_def)
  show t: "tabs s ?r = {}" by (auto simp: tabs_def node)
  have "{n. n < 31232 \<and> mem_map s n = 0} = {..<31232}" using assms by (auto simp: fresh_tables_def)
  then show "budget s ?r = 31232" by (simp add: budget_def t free_pages_def)
  show "pt_lookup s ?r = Map.empty" by (auto simp: pt_lookup_def node simp del: node.simps)
qed

lemma paging_init_result:
  assumes "fresh_tables s"
  shows "\<exists>t. paging_init s = Inr ((), t\<lparr>satp := SATP_MODE_39 OR drop_bit 12 (V2P (swapper_pg_dir s))\<rparr>)
    \<and> wf_tables t (swapper_pg_dir s) \<and> (\<forall>va. pt_lookup t (swapper_pg_dir s) (vidx va) = kernel_map (vpn va)) \<and> keeps s t"
proof -
  note f = fresh_tables_wf [OF assms]
  have I: "513 * card {2 :: nat, 256, 510} + 2 \<le> budget s (swapper_pg_dir s)" unfolding f(3) by simp
  have "\<forall>(va, pa, perm) \<in> set boot_requests. perm AND PTE_V \<noteq> 0 \<and> unat (PX 2 va) \<in> {2, 256, 510}"
    using boot_requests_ok by fast
  from map_requests [OF f(1) _ _ I this] f(2) obtain t where
    t: "kfor boot_requests (map_request (swapper_pg_dir s)) s = Inr ((), t)" "wf_tables t (swapper_pg_dir s)"
      "pt_lookup t (swapper_pg_dir s) = fold enter boot_requests Map.empty" "keeps s t"
    unfolding f(4) by auto
  have "\<forall>(va, pa, perm) \<in> set boot_requests. kernel_map (vpn va) = Some (PA2PTE pa OR perm)"
    using boot_requests_ok by fast
  from fold_enter [OF this, of Map.empty]
  have "pt_lookup t (swapper_pg_dir s) (vidx va) = kernel_map (vpn va)" for va
    unfolding t(3) boot_request_keys by simp
  then show ?thesis
    using t by (auto simp: paging_init_requests simp flip: boot_requests_def)
qed

lemma tables_satp [simp]:
  "pt_lookup (t\<lparr>satp := x\<rparr>) = pt_lookup t" "wf_tables (t\<lparr>satp := x\<rparr>) = wf_tables t"
proof -
  have e: "ent_of (t\<lparr>satp := x\<rparr>) = ent_of t" "in_use (t\<lparr>satp := x\<rparr>) = in_use t"
    by (simp_all add: ent_of_def in_use_def fun_eq_iff)
  show "pt_lookup (t\<lparr>satp := x\<rparr>) = pt_lookup t" unfolding pt_lookup_def e ..
  show "wf_tables (t\<lparr>satp := x\<rparr>) = wf_tables t" unfolding wf_tables_def e by (simp add: fun_eq_iff)
qed



end
