(* ===== verification/Irq.thy ===== *)
theory Irq
  imports Traps Mm_Boot
begin

text \<open>
  Model of \<open>kernel/irq.c\<close>, of the start of the drivers in \<open>kernel/serial.c\<close>, \<open>kernel/rs_io.c\<close> and
  \<open>kernel/hd.c\<close>, and of \<open>init/main.c\<close>.  The state gains the registers these routines set: the interrupt
  enable and pending CSRs, the timer, the interrupt controller (PLIC) as the words last written to it,
  and the table of interrupt handlers.

  The PLIC and the serial line are reached through the page tables: an access to a page that the
  table named by \<open>satp\<close> does not map for writing is \<open>BadAccess\<close>.
\<close>

subsection \<open>State\<close>

datatype irq_handler = Rs_interrupt | Hd_interrupt

record machine = kernel +
  boot_cpu_hartid :: u64
  sie :: u64                                     \<comment> \<open>the CSR\<close>
  sip :: u64                                     \<comment> \<open>the CSR\<close>
  stimecmp :: u64                                \<comment> \<open>argument of the last \<open>sbi_set_timer\<close>\<close>
  plic :: "u64 \<Rightarrow> u32"                         \<comment> \<open>words written to the PLIC, by address\<close>
  plic_intr_table :: "nat \<Rightarrow> irq_handler option" \<comment> \<open>\<open>None\<close> is NULL\<close>
  uart_lcr :: u8                                 \<comment> \<open>line control register\<close>
  excp_vect_table :: "trap_handler list"
  virtio_reg :: "nat \<Rightarrow> u32"                   \<comment> \<open>values the disk returns at the offsets of its registers\<close>
  virtio_log :: "(nat \<times> u32) list"              \<comment> \<open>writes to the registers of the disk\<close>
  virtqueue :: u64                               \<comment> \<open>link address of the array\<close>

definition smp_processor_id :: "'a machine_scheme \<Rightarrow> u64" where
  "smp_processor_id s = boot_cpu_hartid s"

subsection \<open>Device registers\<close>

text \<open>The root table in use and the entry for an address.\<close>

definition satp_root :: "'a mm_scheme \<Rightarrow> u64" where
  "satp_root s = P2V (push_bit 12 (satp s AND 0xFFFFFFFFFFF))"

definition dev_ok :: "u64 \<Rightarrow> 'a mm_scheme \<Rightarrow> bool" where
  "dev_ok va s \<longleftrightarrow> (case pt_lookup s (satp_root s) (vidx va) of None \<Rightarrow> False | Some e \<Rightarrow> e AND PTE_W \<noteq> 0)"

definition PLIC_SOURCE_NR :: nat where "PLIC_SOURCE_NR = 54"
definition PLIC_BASE :: u64 where "PLIC_BASE = D_P2V_WO 0xC000000"
definition PLIC_PRIORITY :: "nat \<Rightarrow> u64" where "PLIC_PRIORITY n = PLIC_BASE + of_nat n * 4"
definition PLIC_SENABLE :: "u64 \<Rightarrow> nat \<Rightarrow> u64" where
  "PLIC_SENABLE hart n = PLIC_BASE + 0x2080 + hart * 0x100 + of_nat (n div 32) * 4"
definition PLIC_STHRESHOLD :: "u64 \<Rightarrow> u64" where "PLIC_STHRESHOLD hart = PLIC_BASE + 0x201000 + hart * 0x2000"
definition PLIC_SCOMPLETE :: "u64 \<Rightarrow> u64" where "PLIC_SCOMPLETE hart = PLIC_BASE + 0x201004 + hart * 0x2000"

definition plic_write :: "u64 \<Rightarrow> u32 \<Rightarrow> 'a machine_scheme \<Rightarrow> ('a machine_scheme, unit) kres" where
  "plic_write a v s = (if dev_ok a s then Inr ((), s\<lparr>plic := (plic s)(a := v)\<rparr>) else Inl (BadAccess a, s))"

text \<open>\<open>csr_set(csr, v)\<close> and \<open>csr_clear(csr, v)\<close> set and clear the bits of \<open>v\<close>; \<open>RV_IRQ_SOFT\<close>,
  \<open>RV_IRQ_TIMER\<close> and \<open>RV_IRQ_EXT\<close> are the interrupt numbers.\<close>

definition RV_IRQ_SOFT :: u64 where "RV_IRQ_SOFT = 1"
definition RV_IRQ_TIMER :: u64 where "RV_IRQ_TIMER = 5"
definition RV_IRQ_EXT :: u64 where "RV_IRQ_EXT = 9"

definition csr_set_sie :: "u64 \<Rightarrow> 'a machine_scheme \<Rightarrow> 'a machine_scheme" where
  "csr_set_sie v s = s\<lparr>sie := sie s OR v\<rparr>"

definition csr_clear_sip :: "u64 \<Rightarrow> 'a machine_scheme \<Rightarrow> 'a machine_scheme" where
  "csr_clear_sip v s = s\<lparr>sip := sip s AND NOT v\<rparr>"

subsection \<open>Interrupts\<close>

definition CLINT_IRQ :: u64 where "CLINT_IRQ = RV_IRQ_SOFT OR RV_IRQ_TIMER OR RV_IRQ_EXT"

definition do_irq_unknown :: "pt_regs \<Rightarrow> 'a kern_scheme \<Rightarrow> ('a kern_scheme, unit) kres" where
  "do_irq_unknown r = panic ''Unknown IRQ from CLINT''"

text \<open>No case of the \<open>switch\<close> has a body of its own: each falls through to the default.\<close>

definition do_irq :: "pt_regs \<Rightarrow> 'a kern_scheme \<Rightarrow> ('a kern_scheme, unit) kres" where
  "do_irq r =
     (let intr_type = r_cause r AND CLINT_IRQ in
      if intr_type = RV_IRQ_SOFT then do_irq_unknown r
      else if intr_type = RV_IRQ_TIMER then do_irq_unknown r
      else if intr_type = RV_IRQ_EXT then do_irq_unknown r
      else do_irq_unknown r)"

definition do_irq_software :: "pt_regs \<Rightarrow> 'a machine_scheme \<Rightarrow> ('a machine_scheme, unit) kres" where
  "do_irq_software r s = Inr ((), csr_clear_sip RV_IRQ_SOFT s)"

definition LATCH :: u64 where "LATCH = 10000000 div 100"

text \<open>\<open>now\<close> is the value of the CSR \<open>time\<close>.\<close>

definition do_irq_timer :: "u64 \<Rightarrow> pt_regs \<Rightarrow> 'a machine_scheme \<Rightarrow> ('a machine_scheme, unit) kres" where
  "do_irq_timer now r s = do_timer (user_mode r) (s\<lparr>jiffies := jiffies s + 1, stimecmp := now + LATCH\<rparr>)"

text \<open>\<open>irq\<close> is the word read from the claim register; \<open>uart\<close> the successive values of the
  registers of the serial line, as in \<open>rs_interrupt\<close>.\<close>

definition run_handler :: "(u8 \<times> u8) list \<Rightarrow> irq_handler \<Rightarrow> 'a machine_scheme \<Rightarrow> ('a machine_scheme, unit) kres" where
  "run_handler uart h = (case h of Rs_interrupt \<Rightarrow> rs_interrupt uart | Hd_interrupt \<Rightarrow> hd_interrupt)"

definition do_irq_external :: "u32 \<Rightarrow> (u8 \<times> u8) list \<Rightarrow> pt_regs \<Rightarrow> 'a machine_scheme \<Rightarrow> ('a machine_scheme, pt_regs) kres" where
  "do_irq_external irq uart r s =
     (let cpu = smp_processor_id s; r' = r\<lparr>r_orig_a0 := scast irq\<rparr> in
      if sint irq < 0 \<or> int PLIC_SOURCE_NR \<le> sint irq then Inl (OutOfBounds, s)
      else case plic_intr_table s (unat irq) of
        None \<Rightarrow> Inl (BadAccess 0, s)
      | Some h \<Rightarrow>
          kseq (run_handler uart h) (kseq (plic_write (PLIC_SCOMPLETE cpu) (ucast (r_orig_a0 r'))) (kreturn r')) s)"

subsection \<open>Initialisation\<close>

definition irq_software_init :: "'a machine_scheme \<Rightarrow> 'a machine_scheme" where
  "irq_software_init = csr_set_sie RV_IRQ_SOFT"

definition irq_timer_init :: "'a machine_scheme \<Rightarrow> 'a machine_scheme" where
  "irq_timer_init = csr_set_sie RV_IRQ_TIMER"

definition irq_external_init :: "'a machine_scheme \<Rightarrow> ('a machine_scheme, unit) kres" where
  "irq_external_init s =
     (let cpu = smp_processor_id s; p = PLIC_SENABLE cpu 0 in
      kseq (kfor [0..<PLIC_SOURCE_NR div 32 + 1] (\<lambda>i. plic_write (p + 4 * of_nat i) 0))
        (kseq (plic_write (PLIC_STHRESHOLD cpu) 0) (kmodify (csr_set_sie RV_IRQ_EXT))) s)"

definition irq_init :: "'a machine_scheme \<Rightarrow> ('a machine_scheme, unit) kres" where
  "irq_init s = irq_external_init (irq_timer_init (irq_software_init s))"

definition set_intr_init :: "nat \<Rightarrow> irq_handler \<Rightarrow> 'a machine_scheme \<Rightarrow> ('a machine_scheme, unit) kres" where
  "set_intr_init n addr s =
     (let cpu = smp_processor_id s; e = PLIC_SENABLE cpu n in
      kseq (plic_write (PLIC_PRIORITY n) 7)
        (kseq (kmodify (\<lambda>s. s\<lparr>plic_intr_table := (plic_intr_table s)(n := Some addr)\<rparr>))
          (\<lambda>s. plic_write e (plic s e OR push_bit (n mod 32) 1) s)) s)"

definition UART_BASE :: u64 where "UART_BASE = D_P2V_WO 0x10000000"

definition rs_io_init :: "'a machine_scheme \<Rightarrow> ('a machine_scheme, unit) kres" where
  "rs_io_init s =
     (if \<not> dev_ok (UART_BASE + 3) s then Inl (BadAccess (UART_BASE + 3), s)
      else
        let t = s\<lparr>uart_lcr := 0 OR push_bit 0 3\<rparr> in
        if \<not> dev_ok (UART_BASE + 1) t then Inl (BadAccess (UART_BASE + 1), t)
        else Inr ((), t\<lparr>uart_ier := uart_ier t OR 0x0D\<rparr>))"

definition rs_init :: "'a machine_scheme \<Rightarrow> ('a machine_scheme, unit) kres" where
  "rs_init = kseq (set_intr_init 10 Rs_interrupt) rs_io_init"

definition tty_init :: "'a machine_scheme \<Rightarrow> ('a machine_scheme, unit) kres" where
  "tty_init = rs_init"

text \<open>\<open>hd_init\<close> with the initialisation of the disk before and the registration of the handler after it.
  All registers of the disk lie in one page: the first access, to the register at offset 0, faults or none
  of them does.\<close>

definition VIRTIO_R :: "nat \<Rightarrow> u64" where "VIRTIO_R r = D_P2V_WO 0x10001000 + of_nat r"

definition hd_init :: "'a machine_scheme \<Rightarrow> ('a machine_scheme, unit) kres" where
  "hd_init s =
     (if \<not> dev_ok (VIRTIO_R 0) s then Inl (BadAccess (VIRTIO_R 0), s)
      else
        let (ws, bad) = virtio_mmio_init (virtio_reg s) (ucast (drop_bit 12 (virtqueue s)));
            t = s\<lparr>virtio_log := virtio_log s @ ws\<rparr> in
        case bad of
          Some msg \<Rightarrow> panic msg t
        | None \<Rightarrow> kseq hd_tables_init (set_intr_init 1 Hd_interrupt) t)"

subsection \<open>Starting the kernel\<close>

text \<open>\<open>start_kernel\<close> up to its breakpoint.  \<open>trap_init\<close> fills the table of exceptions.\<close>

definition start_kernel :: "'a machine_scheme \<Rightarrow> ('a machine_scheme, unit) kres" where
  "start_kernel =
     kseq paging_init
       (kseq (kmodify (\<lambda>s. s\<lparr>excp_vect_table := trap_init\<rparr>))
         (kseq irq_init
           (kseq tty_init
             (kseq (kmodify sched_init)
               (kseq buffer_init hd_init)))))"

end
