(* ===== verification/Irq_Props.thy ===== *)
theory Irq_Props
  imports Irq Process_Props
begin

text \<open>
  Results on starting the kernel: the devices are reached through the tables that \<open>paging_init\<close> built,
  every component is in its initial state and the handlers are registered, but none of the three
  supervisor interrupts is enabled.
\<close>

subsection \<open>Device addresses\<close>

lemma pt_lookup_pmem: "pmem t = pmem s \<Longrightarrow> pt_lookup t = pt_lookup s"
proof -
  assume "pmem t = pmem s"
  then have "ent_of t = ent_of s" by (simp add: ent_of_def fun_eq_iff)
  then show ?thesis by (simp add: pt_lookup_def fun_eq_iff)
qed

definition kernel_space :: "'a mm_scheme \<Rightarrow> bool" where
  "kernel_space s \<longleftrightarrow> (\<forall>va. pt_lookup s (satp_root s) (vidx va) = kernel_map (vpn va))"

lemma kernel_space_cong: "pmem t = pmem s \<Longrightarrow> satp t = satp s \<Longrightarrow> kernel_space t = kernel_space s"
  using pt_lookup_pmem [of t s] by (simp add: kernel_space_def satp_root_def)

lemma vpn_plic:
  assumes "x < 0x4002000"
  shows "0x7F8C000 \<le> vpn (PLIC_BASE + x)" "vpn (PLIC_BASE + x) < 0x7F90002"
proof -
  have x: "unat x < 0x4002000" using assms by (simp add: word_less_nat_alt)
  then have u: "unat (PLIC_BASE + x) = 0xFFFFFFFF8C000000 + unat x"
    by (simp add: PLIC_BASE_def D_P2V_WO_def D_V_P_DIFF_def unat_word_ariths)
  have e: "(0xFFFFFFFF8C000000 + unat x) div 4096 = (0x7F8C000 + unat x div 4096) + 2 ^ 27 * 0x1FFFFFF"
    using div_mult_self2 [of 4096 "unat x" "0xFFFFFFFF8C000"] by simp
  have d: "unat x div 4096 < 0x4002" using x by (simp add: less_mult_imp_div_less)
  then have "vpn (PLIC_BASE + x) = 0x7F8C000 + unat x div 4096"
    unfolding vpn_def u e mod_mult_self2 by simp
  then show "0x7F8C000 \<le> vpn (PLIC_BASE + x)" "vpn (PLIC_BASE + x) < 0x7F90002" using d by simp_all
qed

lemma dev_ok_plic:
  assumes "kernel_space s" "x < 0x4002000"
  shows "dev_ok (PLIC_BASE + x) s"
proof -
  have "(e OR 0xF) AND PTE_W \<noteq> 0" for e
    by (simp add: PTE_W_def word_ao_dist or_eq_0_iff)
  then show ?thesis
    using assms(1) vpn_plic [OF assms(2)] by (simp add: dev_ok_def kernel_space_def kernel_map_def)
qed

lemma plic_write_ok:
  "kernel_space s \<Longrightarrow> x < 0x4002000 \<Longrightarrow> plic_write (PLIC_BASE + x) v s = Inr ((), s\<lparr>plic := (plic s)(PLIC_BASE + x := v)\<rparr>)"
  by (simp add: plic_write_def dev_ok_plic)

lemma satp_root_loaded:
  assumes "al root" "direct root" "satp s = SATP_MODE_39 OR drop_bit 12 (V2P root)"
  shows "satp_root s = root"
proof -
  let ?p = "V2P root"
  have r: "0xFFFFFFC000000000 \<le> unat root" "unat root < 0xFFFFFFC007E00000"
    using assms(2) by (simp_all add: direct_def VA_KERNEL_def high_va word_le_nat_alt word_less_nat_alt)
  then have p: "unat ?p = unat root - 0xFFFFFFBF7FE00000"
    by (simp add: mm_consts unat_sub_if_size word_size)
  have "unat ?p mod 4096 = 0"
  proof -
    obtain k where "unat root = 4096 * k" using assms(1) al_multiple by blast
    then show ?thesis unfolding p by (simp add: mod_eq_0_iff_dvd dvd_diff_nat)
  qed
  then have t: "take_bit 12 ?p = 0" by (simp add: take_bit_eq_mod unat_eq_0 [symmetric] unat_mod)
  have "take_bit 56 ?p = ?p" using p r by (simp add: take_bit_eq_mod word_unat_eq_iff unat_mod)
  then have d: "take_bit 44 (drop_bit 12 ?p) = drop_bit 12 ?p" using take_bit_drop_bit [of 44 12 ?p] by simp
  have "satp s AND 0xFFFFFFFFFFF = take_bit 44 (drop_bit 12 ?p)"
    unfolding assms(3) SATP_MODE_39_def by (simp add: take_bit_eq_mask mask_eq_exp_minus_1 word_ao_dist)
  then have "satp_root s = P2V (push_bit 12 (drop_bit 12 ?p))" by (simp add: satp_root_def d)
  also have "push_bit 12 (drop_bit 12 ?p) = ?p" using t by (metis bits_ident add.right_neutral)
  finally show ?thesis by simp
qed

subsection \<open>The steps of the start\<close>

definition hart_ok :: "u64 \<Rightarrow> bool" where "hart_ok h \<longleftrightarrow> h < 0x1F00"

lemma plic_offsets:
  assumes "hart_ok h"
  shows "0x2080 + h * 0x100 < 0x4002000" "0x2084 + h * 0x100 < 0x4002000" "0x201000 + h * 0x2000 < 0x4002000"
    "0x201000 + h * 0x2000 \<noteq> 0x2080 + h * 0x100" "n < 32 \<Longrightarrow> of_nat n * 4 \<noteq> 0x2080 + h * 0x100"
    "n < 32 \<Longrightarrow> of_nat n * 4 \<noteq> 0x201000 + h * 0x2000"
proof -
  have h: "unat h < 0x1F00" using assms by (simp add: hart_ok_def word_less_nat_alt)
  then have u: "unat (0x2080 + h * 0x100) = 0x2080 + unat h * 0x100" "unat (0x2084 + h * 0x100) = 0x2084 + unat h * 0x100"
    "unat (0x201000 + h * 0x2000) = 0x201000 + unat h * 0x2000"
    by (simp_all add: unat_word_ariths)
  show "0x2080 + h * 0x100 < 0x4002000" "0x2084 + h * 0x100 < 0x4002000" "0x201000 + h * 0x2000 < 0x4002000"
    "0x201000 + h * 0x2000 \<noteq> 0x2080 + h * 0x100"
    using h u by (simp_all add: word_less_nat_alt word_unat_eq_iff)
  assume "n < 32"
  then have "unat (of_nat n * 4 :: u64) = n * 4" by (simp add: unat_word_ariths unat_of_nat)
  then show "of_nat n * 4 \<noteq> 0x2080 + h * 0x100" "of_nat n * 4 \<noteq> 0x201000 + h * 0x2000"
    using u \<open>n < 32\<close> by (simp_all add: word_unat_eq_iff)
qed

lemma plic_writes:
  assumes "kernel_space s" "hart_ok h"
  shows "n < 32 \<Longrightarrow> plic_write (PLIC_SENABLE h n) v s = Inr ((), s\<lparr>plic := (plic s)(PLIC_SENABLE h n := v)\<rparr>)"
    "plic_write (PLIC_SENABLE h 0 + 4) v s = Inr ((), s\<lparr>plic := (plic s)(PLIC_SENABLE h 0 + 4 := v)\<rparr>)"
    "plic_write (PLIC_STHRESHOLD h) v s = Inr ((), s\<lparr>plic := (plic s)(PLIC_STHRESHOLD h := v)\<rparr>)"
    "n < 32 \<Longrightarrow> plic_write (PLIC_PRIORITY n) v s = Inr ((), s\<lparr>plic := (plic s)(PLIC_PRIORITY n := v)\<rparr>)"
proof -
  note o = plic_offsets [OF assms(2)]
  show "n < 32 \<Longrightarrow> plic_write (PLIC_SENABLE h n) v s = Inr ((), s\<lparr>plic := (plic s)(PLIC_SENABLE h n := v)\<rparr>)"
    using plic_write_ok [OF assms(1) o(1)] by (simp add: PLIC_SENABLE_def add.assoc)
  show "plic_write (PLIC_SENABLE h 0 + 4) v s = Inr ((), s\<lparr>plic := (plic s)(PLIC_SENABLE h 0 + 4 := v)\<rparr>)"
    using plic_write_ok [OF assms(1) o(2)] by (simp add: PLIC_SENABLE_def algebra_simps)
  show "plic_write (PLIC_STHRESHOLD h) v s = Inr ((), s\<lparr>plic := (plic s)(PLIC_STHRESHOLD h := v)\<rparr>)"
    using plic_write_ok [OF assms(1) o(3)] by (simp add: PLIC_STHRESHOLD_def add.assoc)
  assume "n < 32"
  then have "of_nat n * 4 < (0x4002000 :: u64)" by (simp add: word_less_nat_alt unat_word_ariths unat_of_nat)
  then show "plic_write (PLIC_PRIORITY n) v s = Inr ((), s\<lparr>plic := (plic s)(PLIC_PRIORITY n := v)\<rparr>)"
    using plic_write_ok [OF assms(1)] by (simp add: PLIC_PRIORITY_def)
qed

lemma plic_distinct:
  assumes "hart_ok h"
  shows "n < 32 \<Longrightarrow> PLIC_PRIORITY n \<noteq> PLIC_SENABLE h 0" "n < 32 \<Longrightarrow> PLIC_PRIORITY n \<noteq> PLIC_STHRESHOLD h"
    "PLIC_STHRESHOLD h \<noteq> PLIC_SENABLE h 0" "PLIC_SENABLE h 0 + 4 \<noteq> PLIC_SENABLE h 0"
  using plic_offsets(4-6) [OF assms]
  by (simp_all add: PLIC_SENABLE_def PLIC_STHRESHOLD_def PLIC_PRIORITY_def add.assoc)

lemma senable_first: "n < 32 \<Longrightarrow> PLIC_SENABLE h n = PLIC_SENABLE h 0"
  by (simp add: PLIC_SENABLE_def)

text \<open>Writes to device registers do not change the address space.\<close>

lemma kernel_space_upd [simp]:
  "kernel_space (s\<lparr>plic := p\<rparr>) = kernel_space s" "kernel_space (s\<lparr>sie := c\<rparr>) = kernel_space s"
  "kernel_space (s\<lparr>plic_intr_table := h\<rparr>) = kernel_space s" "kernel_space (s\<lparr>uart_lcr := l\<rparr>) = kernel_space s"
  "kernel_space (s\<lparr>excp_vect_table := e\<rparr>) = kernel_space s" "kernel_space (s\<lparr>virtio_log := w\<rparr>) = kernel_space s"
  by (rule kernel_space_cong; simp)+

lemma irq_init_result:
  assumes "kernel_space s" "hart_ok (boot_cpu_hartid s)"
  shows "irq_init s = Inr ((), s\<lparr>sie := sie s OR 0xD, plic := (plic s)(PLIC_SENABLE (boot_cpu_hartid s) 0 := 0,
    PLIC_SENABLE (boot_cpu_hartid s) 0 + 4 := 0, PLIC_STHRESHOLD (boot_cpu_hartid s) := 0)\<rparr>)"
proof -
  have r: "[0..<PLIC_SOURCE_NR div 32 + 1] = [0, 1]" by (simp add: PLIC_SOURCE_NR_def upt_rec)
  show ?thesis
    using assms unfolding irq_init_def irq_external_init_def Let_def r
    by (simp add: irq_timer_init_def irq_software_init_def csr_set_sie_def smp_processor_id_def kseq_def kbind_def
        kmodify_def plic_writes RV_IRQ_SOFT_def RV_IRQ_TIMER_def RV_IRQ_EXT_def or.assoc)
qed

lemma set_intr_init_result:
  assumes "kernel_space s" "hart_ok (boot_cpu_hartid s)" "n < 32"
  shows "set_intr_init n f s = Inr ((), s\<lparr>plic := (plic s)(PLIC_PRIORITY n := 7, PLIC_SENABLE (boot_cpu_hartid s) 0 :=
    plic s (PLIC_SENABLE (boot_cpu_hartid s) 0) OR push_bit n 1), plic_intr_table := (plic_intr_table s)(n \<mapsto> f)\<rparr>)"
proof -
  let ?h = "boot_cpu_hartid s" and ?s1 = "s\<lparr>plic := (plic s)(PLIC_PRIORITY n := 7)\<rparr>"
  have 1: "plic_write (PLIC_PRIORITY n) 7 s = Inr ((), ?s1)"
    by (rule plic_writes(4) [OF assms])
  have 2: "plic_write (PLIC_SENABLE ?h 0) v (?s1\<lparr>plic_intr_table := p\<rparr>)
      = Inr ((), s\<lparr>plic := (plic s)(PLIC_PRIORITY n := 7, PLIC_SENABLE ?h 0 := v), plic_intr_table := p\<rparr>)" for v p
    by (subst plic_writes(1)) (use assms in simp_all)
  show ?thesis
    using plic_distinct(1) [OF assms(2,3)] assms(3)
    by (simp add: set_intr_init_def smp_processor_id_def kseq_def kbind_def kmodify_def Let_def senable_first [OF assms(3)] 1 2)
qed

lemma rs_io_init_result:
  assumes "kernel_space s"
  shows "rs_io_init s = Inr ((), s\<lparr>uart_lcr := 3, uart_ier := uart_ier s OR 0x0D\<rparr>)"
proof -
  have u: "UART_BASE + 3 = PLIC_BASE + 0x4000003" "UART_BASE + 1 = PLIC_BASE + 0x4000001"
    by (simp_all add: UART_BASE_def PLIC_BASE_def D_P2V_WO_def)
  have "dev_ok (UART_BASE + 3) t" "dev_ok (UART_BASE + 1) t" if "kernel_space t" for t :: "'a machine_scheme"
    unfolding u by (rule dev_ok_plic [OF that], simp)+
  then show ?thesis using assms by (simp add: rs_io_init_def Let_def)
qed

lemma dev_ok_virtio: "kernel_space s \<Longrightarrow> dev_ok (VIRTIO_R 0) s"
  using dev_ok_plic [of s "0x4001000"] by (simp add: VIRTIO_R_def PLIC_BASE_def D_P2V_WO_def)

lemma hd_part_fold: "\<exists>hp. fold (\<lambda>i t. t\<lparr>hd_part := f i t\<rparr>) xs s = s\<lparr>hd_part := hp\<rparr>"
proof (induction xs arbitrary: s)
  case Nil
  show ?case by (rule exI [of _ "hd_part s"]) simp
next
  case (Cons i xs)
  then obtain hp where "fold (\<lambda>i t. t\<lparr>hd_part := f i t\<rparr>) xs (s\<lparr>hd_part := f i s\<rparr>) = s\<lparr>hd_part := f i s, hd_part := hp\<rparr>"
    by blast
  then show ?case by auto
qed

lemma hd_tables_init_result:
  assumes "hd_info s \<noteq> []"
  shows "\<exists>hp. hd_tables_init s = Inr ((), s\<lparr>hd_info := (hd_info s)[0 := geometry s],
    request := \<lambda>i. if i < NR_REQUEST then (request s i)\<lparr>r_hd := - 1, r_next := None\<rparr> else request s i, hd_part := hp\<rparr>)"
proof -
  let ?s = "s\<lparr>hd_info := (hd_info s)[0 := geometry s],
    request := \<lambda>i. if i < NR_REQUEST then (request s i)\<lparr>r_hd := - 1, r_next := None\<rparr> else request s i\<rparr>"
  obtain hp where "hd_tables_init s = Inr ((), ?s\<lparr>hd_part := hp\<rparr>)"
    using assms hd_part_fold [of "\<lambda>i t. (hd_part t)(5 * i := (0, sint (g_head (hd_info t ! i) * g_sect (hd_info t ! i)
            * g_cyl (hd_info t ! i))))" "[0..<length (hd_info ?s)]" ?s]
    by (auto simp: hd_tables_init_def Let_def cong: if_cong)
  then show ?thesis by auto
qed

lemma buffer_init_frame:
  assumes "unat (start_buffer s) + 1080 \<le> 0xFFFFFFC000400000"
  shows "\<exists>n b w f h. buffer_init s = Inr ((), s\<lparr>nr_buffers := n, bufs := b, waitq := w, free_list := f, hash_table := h\<rparr>)"
proof -
  have "unat (BUFFER_END + V_P_DIFF) = 0xFFFFFFC000400000" by (simp add: mm_consts)
  then have "buffer_rounds (unat (start_buffer s)) (unat (BUFFER_END + V_P_DIFF)) \<noteq> 0"
    using assms by (subst buffer_rounds.simps) simp
  then show ?thesis by (simp add: buffer_init_def Let_def) (intro exI, rule refl)
qed

definition disk_ok :: "(nat \<Rightarrow> u32) \<Rightarrow> bool" where
  "disk_ok reg \<longleftrightarrow> reg 0 = 0x74726976 \<and> reg 4 = 1 \<and> reg 8 = 2 \<and> reg 12 = 0x554d4551 \<and> 4 \<le> reg 0x34"

lemma virtio_mmio_init_ok: "disk_ok reg \<Longrightarrow> snd (virtio_mmio_init reg pfn) = None"
  by (auto simp: disk_ok_def virtio_mmio_init_def Let_def)

lemma paging_step:
  assumes "fresh_tables s"
  shows "\<exists>mp pm sa. paging_init s = Inr ((), s\<lparr>mem_map := mp, pmem := pm, satp := sa\<rparr>)
    \<and> kernel_space (s\<lparr>mem_map := mp, pmem := pm, satp := sa\<rparr>)"
proof -
  let ?r = "swapper_pg_dir s" and ?sa = "SATP_MODE_39 OR drop_bit 12 (V2P (swapper_pg_dir s))"
  obtain t where t: "paging_init s = Inr ((), t\<lparr>satp := ?sa\<rparr>)"
    "\<forall>va. pt_lookup t ?r (vidx va) = kernel_map (vpn va)" "keeps s t"
    using paging_init_result [OF assms] by blast
  then obtain mp pm where "t = s\<lparr>mem_map := mp, pmem := pm\<rparr>" by (auto simp: keeps_def)
  moreover have "satp_root (t\<lparr>satp := ?sa\<rparr>) = ?r"
    by (rule satp_root_loaded) (use assms in \<open>simp_all add: fresh_tables_def\<close>)
  then have "kernel_space (t\<lparr>satp := ?sa\<rparr>)" using t(2) by (simp add: kernel_space_def)
  ultimately show ?thesis using t(1) by auto
qed

lemma tty_step:
  assumes "kernel_space s" "hart_ok (boot_cpu_hartid s)"
  shows "tty_init s = Inr ((), s\<lparr>plic := (plic s)(PLIC_PRIORITY 10 := 7, PLIC_SENABLE (boot_cpu_hartid s) 0 :=
      plic s (PLIC_SENABLE (boot_cpu_hartid s) 0) OR 0x400), plic_intr_table := (plic_intr_table s)(10 \<mapsto> Rs_interrupt),
    uart_lcr := 3, uart_ier := uart_ier s OR 0x0D\<rparr>)"
  using set_intr_init_result [OF assms, of 10 Rs_interrupt] assms(1)
  by (simp add: tty_init_def rs_init_def kseq_def kbind_def rs_io_init_result)

lemma hd_step:
  assumes "kernel_space s" "hart_ok (boot_cpu_hartid s)" "hd_info s \<noteq> []" "disk_ok (virtio_reg s)"
  shows "\<exists>ws hi hp. hd_init s = Inr ((), s\<lparr>virtio_log := ws, hd_info := hi, hd_part := hp,
    request := \<lambda>i. if i < NR_REQUEST then (request s i)\<lparr>r_hd := - 1, r_next := None\<rparr> else request s i,
    plic := (plic s)(PLIC_PRIORITY 1 := 7, PLIC_SENABLE (boot_cpu_hartid s) 0 :=
      plic s (PLIC_SENABLE (boot_cpu_hartid s) 0) OR 2), plic_intr_table := (plic_intr_table s)(1 \<mapsto> Hd_interrupt)\<rparr>)"
proof -
  let ?pfn = "ucast (drop_bit 12 (virtqueue s)) :: u32"
  obtain ws where v: "virtio_mmio_init (virtio_reg s) ?pfn = (ws, None)"
    using virtio_mmio_init_ok [OF assms(4), of ?pfn] by (cases "virtio_mmio_init (virtio_reg s) ?pfn") auto
  let ?t = "s\<lparr>virtio_log := virtio_log s @ ws\<rparr>"
  obtain hp where h: "hd_tables_init ?t = Inr ((), ?t\<lparr>hd_info := (hd_info ?t)[0 := geometry ?t],
    request := \<lambda>i. if i < NR_REQUEST then (request ?t i)\<lparr>r_hd := - 1, r_next := None\<rparr> else request ?t i, hd_part := hp\<rparr>)"
    (is "_ = Inr ((), ?u)")
    using hd_tables_init_result [of ?t] assms(3) by auto
  have "kernel_space ?u" "hart_ok (boot_cpu_hartid ?u)" using assms(1,2) by (simp_all cong: kernel_space_cong)
  from set_intr_init_result [OF this, of 1 Hd_interrupt] show ?thesis
    unfolding hd_init_def v
    by (intro exI [of _ "virtio_log s @ ws"] exI [of _ "(hd_info s)[0 := geometry s]"] exI [of _ hp])
      (simp add: Let_def kseq_def kbind_def dev_ok_virtio [OF assms(1)] h [simplified] cong: if_cong)
qed

subsection \<open>Properties\<close>

text \<open>The state the boot code hands to \<open>start_kernel\<close>: the image of the kernel with cleared tables, the
  interrupt enable register cleared, a disk that answers as the driver expects, and room for at least one
  buffer behind the kernel.\<close>

definition boot_state :: "'a machine_scheme \<Rightarrow> bool" where
  "boot_state s \<longleftrightarrow> fresh_tables s \<and> hart_ok (boot_cpu_hartid s) \<and> sie s = 0 \<and> plic_intr_table s = Map.empty
     \<and> nr_buffers s = 0 \<and> (\<forall>k. NR_HASH \<le> k \<longrightarrow> hash_table s k = None)
     \<and> unat (start_buffer s) + 1080 \<le> 0xFFFFFFC000400000 \<and> disk_ok (virtio_reg s)"

text \<open>The state at the end: the address space of \<open>paging_init\<close>, an orderly and empty buffer cache, only task 0,
  the exception table filled and the serial driver registered and enabled in the interrupt controller; for the
  disk, no pending request and the driver registered and enabled too.\<close>

definition kernel_up :: "'a machine_scheme \<Rightarrow> bool" where
  "kernel_up t \<longleftrightarrow> kernel_space t \<and> cache_wf t \<and> (\<forall>i. \<not> cached t i) \<and> 0 < nr_buffers t
     \<and> (\<forall>i. 1 \<le> i \<and> i < NR_TASKS \<longrightarrow> task t i = 0) \<and> excp_vect_table t = trap_init
     \<and> plic_intr_table t 10 = Some Rs_interrupt \<and> bit (plic t (PLIC_SENABLE (boot_cpu_hartid t) 0)) 10
     \<and> plic t (PLIC_STHRESHOLD (boot_cpu_hartid t)) = 0 \<and> plic t (PLIC_PRIORITY 10) = 7"

definition disk_up :: "'a machine_scheme \<Rightarrow> bool" where
  "disk_up t \<longleftrightarrow> (\<forall>i < NR_REQUEST. r_hd (request t i) = - 1 \<and> r_next (request t i) = None)
     \<and> plic_intr_table t 1 = Some Hd_interrupt \<and> bit (plic t (PLIC_SENABLE (boot_cpu_hartid t) 0)) 1
     \<and> plic t (PLIC_PRIORITY 1) = 7"

text \<open>The state between the start of the devices and that of the buffers.\<close>

definition devices_ready :: "'a machine_scheme \<Rightarrow> 'a machine_scheme \<Rightarrow> bool" where
  "devices_ready s t \<longleftrightarrow> kernel_space t \<and> boot_cpu_hartid t = boot_cpu_hartid s \<and> sie t = sie s OR 0xD
     \<and> start_buffer t = start_buffer s \<and> nr_buffers t = nr_buffers s \<and> hash_table t = hash_table s \<and> hd_info t = hd_info s
     \<and> virtio_reg t = virtio_reg s \<and> excp_vect_table t = trap_init \<and> plic_intr_table t = (plic_intr_table s)(10 \<mapsto> Rs_interrupt)
     \<and> (\<forall>i. 1 \<le> i \<and> i < NR_TASKS \<longrightarrow> task t i = 0) \<and> plic t (PLIC_SENABLE (boot_cpu_hartid s) 0) = 0x400
     \<and> plic t (PLIC_STHRESHOLD (boot_cpu_hartid s)) = 0 \<and> plic t (PLIC_PRIORITY 10) = 7"

lemma start_devices:
  assumes "fresh_tables s" "hart_ok (boot_cpu_hartid s)"
  shows "\<exists>t. kseq paging_init (kseq (kmodify (\<lambda>s. s\<lparr>excp_vect_table := trap_init\<rparr>)) (kseq irq_init (kseq tty_init
    (kmodify sched_init)))) s = Inr ((), t) \<and> devices_ready s t"
proof -
  let ?h = "boot_cpu_hartid s"
  obtain mp pm sa where 1: "paging_init s = Inr ((), s\<lparr>mem_map := mp, pmem := pm, satp := sa\<rparr>)"
    and k1: "kernel_space (s\<lparr>mem_map := mp, pmem := pm, satp := sa\<rparr>)" using paging_step [OF assms(1)] by blast
  define s2 where "s2 = s\<lparr>mem_map := mp, pmem := pm, satp := sa, excp_vect_table := trap_init\<rparr>"
  have 2: "kernel_space s2" "hart_ok (boot_cpu_hartid s2)" using k1 assms(2) by (simp_all add: s2_def)
  define s3 where "s3 = s2\<lparr>sie := sie s2 OR 0xD, plic := (plic s2)(PLIC_SENABLE ?h 0 := 0,
    PLIC_SENABLE ?h 0 + 4 := 0, PLIC_STHRESHOLD ?h := 0)\<rparr>"
  have irq: "irq_init s2 = Inr ((), s3)" using irq_init_result [OF 2] by (simp add: s3_def) (simp add: s2_def)
  have 3: "kernel_space s3" "hart_ok (boot_cpu_hartid s3)" using 2 by (simp_all add: s3_def)
  define s4 where "s4 = s3\<lparr>plic := (plic s3)(PLIC_PRIORITY 10 := 7, PLIC_SENABLE ?h 0 := plic s3 (PLIC_SENABLE ?h 0) OR 0x400),
    plic_intr_table := (plic_intr_table s3)(10 \<mapsto> Rs_interrupt), uart_lcr := 3, uart_ier := uart_ier s3 OR 0x0D\<rparr>"
  have h: "boot_cpu_hartid s3 = ?h" by (simp add: s3_def s2_def)
  have tty: "tty_init s3 = Inr ((), s4)" using tty_step [OF 3] by (simp add: s4_def h)
  have d: "PLIC_PRIORITY 10 \<noteq> PLIC_SENABLE ?h 0" "PLIC_PRIORITY 10 \<noteq> PLIC_STHRESHOLD ?h"
    using plic_distinct(1,2) [OF assms(2), of 10] by simp_all
  have "plic s4 (PLIC_SENABLE ?h 0) = 0x400" "plic s4 (PLIC_STHRESHOLD ?h) = 0" "plic s4 (PLIC_PRIORITY 10) = 7"
    using d plic_distinct(3,4) [OF assms(2)] by (auto simp: s4_def s3_def fun_upd_def)
  then have "devices_ready s (sched_init s4)"
    using 3(1) kernel_space_cong [of "sched_init s4" s3]
    by (simp add: devices_ready_def sched_init_def) (simp add: s4_def s3_def s2_def)
  then show ?thesis using irq tty by (simp add: kseq_def kbind_def 1 kmodify_def flip: s2_def)
qed

lemma start_buffers:
  assumes "boot_state s" "devices_ready s t"
  shows "\<exists>v. buffer_init t = Inr ((), v) \<and> kernel_up v \<and> sie v = 0xD \<and> plic v (PLIC_SENABLE (boot_cpu_hartid v) 0) = 0x400
    \<and> hart_ok (boot_cpu_hartid v) \<and> disk_ok (virtio_reg v) \<and> hd_info v = hd_info s"
proof -
  note b = assms [unfolded boot_state_def devices_ready_def]
  obtain n bs w f h where bi: "buffer_init t = Inr ((), t\<lparr>nr_buffers := n, bufs := bs, waitq := w, free_list := f, hash_table := h\<rparr>)"
    (is "_ = Inr ((), ?v)") using buffer_init_frame [of t] b by auto
  have "cache_wf ?v" "\<forall>i. \<not> cached ?v i" "0 < nr_buffers ?v"
    using buffer_init_cache [of t ?v] b bi by simp_all
  moreover have "kernel_space ?v" using b kernel_space_cong [of ?v t] by simp
  ultimately show ?thesis using bi b by (simp add: kernel_up_def bit_numeral_rec)
qed

lemma hd_init_missing:
  assumes "hd_info s = []" "disk_ok (virtio_reg s)" "kernel_up s"
  shows "\<exists>ws. hd_init s = Inl (OutOfBounds, s\<lparr>virtio_log := ws\<rparr>)"
proof -
  let ?pfn = "ucast (drop_bit 12 (virtqueue s)) :: u32"
  have "snd (virtio_mmio_init (virtio_reg s) ?pfn) = None" by (rule virtio_mmio_init_ok [OF assms(2)])
  then show ?thesis
    using assms(1,3) dev_ok_virtio [of s] by (auto simp: kernel_up_def hd_init_def hd_tables_init_def kseq_def kbind_def Let_def split: prod.splits)
qed

lemma kernel_up_frame:
  "kernel_up s \<Longrightarrow> kernel_up (s\<lparr>virtio_log := ws\<rparr>)"
  using cache_wf_links [of s "s\<lparr>virtio_log := ws\<rparr>"] by (simp add: kernel_up_def same_links_def cached_def)

lemma hd_init_up:
  assumes "kernel_up s" "hart_ok (boot_cpu_hartid s)" "disk_ok (virtio_reg s)" "hd_info s \<noteq> []"
  shows "\<exists>t. hd_init s = Inr ((), t) \<and> kernel_up t \<and> disk_up t \<and> sie t = sie s"
proof -
  let ?h = "boot_cpu_hartid s"
  have k: "kernel_space s" using assms(1) by (simp add: kernel_up_def)
  obtain ws hi hp where hd: "hd_init s = Inr ((), s\<lparr>virtio_log := ws, hd_info := hi, hd_part := hp,
    request := \<lambda>i. if i < NR_REQUEST then (request s i)\<lparr>r_hd := - 1, r_next := None\<rparr> else request s i,
    plic := (plic s)(PLIC_PRIORITY 1 := 7, PLIC_SENABLE ?h 0 := plic s (PLIC_SENABLE ?h 0) OR 2),
    plic_intr_table := (plic_intr_table s)(1 \<mapsto> Hd_interrupt)\<rparr>)"
    (is "_ = Inr ((), ?u)") using hd_step [OF k assms(2,4,3)] by blast
  have "same_links s ?u" by (simp add: same_links_def)
  then have "cache_wf ?u" "\<forall>i. \<not> cached ?u i"
    using assms(1) cache_wf_links by (auto simp: cached_def kernel_up_def)
  moreover have "kernel_space ?u" using k kernel_space_cong [of ?u s] by simp
  moreover have "PLIC_PRIORITY 1 \<noteq> PLIC_SENABLE ?h 0" "PLIC_PRIORITY 1 \<noteq> PLIC_STHRESHOLD ?h" "PLIC_PRIORITY 10 \<noteq> PLIC_SENABLE ?h 0"
    "PLIC_PRIORITY 10 \<noteq> PLIC_PRIORITY 1" "PLIC_STHRESHOLD ?h \<noteq> PLIC_SENABLE ?h 0"
    using plic_distinct(1,2) [OF assms(2), of 1] plic_distinct(1) [OF assms(2), of 10] plic_distinct(3) [OF assms(2)]
    by (simp_all add: PLIC_PRIORITY_def)
  ultimately have "kernel_up ?u" "disk_up ?u"
    using assms(1) by (simp_all add: kernel_up_def disk_up_def bit_simps)
  then show ?thesis using hd by simp
qed

lemma start_kernel_steps:
  assumes "boot_state s"
  shows "\<exists>v. start_kernel s = hd_init v \<and> kernel_up v \<and> sie v = 0xD
    \<and> hart_ok (boot_cpu_hartid v) \<and> disk_ok (virtio_reg v) \<and> hd_info v = hd_info s"
proof -
  obtain t where t: "kseq paging_init (kseq (kmodify (\<lambda>s. s\<lparr>excp_vect_table := trap_init\<rparr>)) (kseq irq_init (kseq tty_init
    (kmodify sched_init)))) s = Inr ((), t)" "devices_ready s t"
    using start_devices assms by (auto simp: boot_state_def)
  then have "start_kernel s = kseq buffer_init hd_init t"
    by (auto simp: start_kernel_def kseq_def kbind_def split: sum.splits)
  then show ?thesis using start_buffers [OF assms t(2)] by (auto simp: kseq_def kbind_def)
qed


text \<open>A machine as the boot code leaves it, with the table of drives of the source or with one drive.\<close>

definition boot_machine :: "hd_geometry list \<Rightarrow> machine" where
  "boot_machine drives = kernel.extend (boot_kernel\<lparr>swapper_pg_dir := 0xFFFFFFC000010000, start_buffer := 0xFFFFFFC000020000,
       hd_info := drives\<rparr>)
     \<lparr>boot_cpu_hartid = 0, sie = 0, sip = 0, stimecmp = 0, plic = \<lambda>_. 0, plic_intr_table = Map.empty, uart_lcr = 0,
      excp_vect_table = [], virtio_reg = (\<lambda>_. 0)(0 := 0x74726976, 4 := 1, 8 := 2, 12 := 0x554d4551, 0x34 := 8),
      virtio_log = [], virtqueue = 0xFFFFFFC000012000\<rparr>"

lemma boot_machine_state: "boot_state (boot_machine drives)" and boot_machine_drives: "hd_info (boot_machine drives) = drives"
proof -
  have "fresh_tables (boot_machine drives)"
    by (simp add: fresh_tables_def boot_machine_def kernel.extend_def boot_kernel_def kern.extend_def boot_kern_def ttys.extend_def
        sched.extend_def two_tasks_def al_def direct_def VA_KERNEL_def high_va low_va ent_of_def)
  then show "boot_state (boot_machine drives)"
    by (simp add: boot_state_def)
      (simp add: boot_machine_def kernel.extend_def boot_kernel_def kern.extend_def boot_kern_def ttys.extend_def hart_ok_def disk_ok_def)
  show "hd_info (boot_machine drives) = drives" by (simp add: boot_machine_def kernel.extend_def boot_kernel_def kern.extend_def)
qed


text \<open>C37: After \<open>start_kernel\<close> none of the supervisor interrupts, bits 1, 5 and 9 of \<open>sie\<close>, is enabled, because
  \<open>irq_init\<close> sets the bits of the interrupt numbers instead; and an interrupt of any cause would end in the panic of
  \<open>do_irq\<close>.\<close>

theorem interrupts_stay_disabled:
  assumes "boot_state s" "start_kernel s = Inl (e, t) \<or> start_kernel s = Inr ((), t)"
  shows "sie t AND 0x222 = 0 \<and> (\<forall>r u. do_irq r (u :: machine) = Inl (Panic ''Unknown IRQ from CLINT'', u))"
proof -
  obtain v where v: "start_kernel s = hd_init v" "kernel_up v" "sie v = 0xD" "hart_ok (boot_cpu_hartid v)" "disk_ok (virtio_reg v)"
    using start_kernel_steps [OF assms(1)] by blast
  have "sie t = 0xD"
    using hd_init_missing [of v] hd_init_up [of v] v assms(2) by (cases "hd_info v = []") auto
  then show ?thesis by (simp add: do_irq_def do_irq_unknown_def panic_def Let_def)
qed

theorem interrupts_stay_disabled_witness:
  "\<exists>t. start_kernel (boot_machine []) = Inl (OutOfBounds, t) \<and> sie t AND 0x222 = 0"
proof -
  obtain v where v: "start_kernel (boot_machine []) = hd_init v" "disk_ok (virtio_reg v)" "hd_info v = []" "kernel_up v"
    using start_kernel_steps [OF boot_machine_state [of "[]"]] boot_machine_drives [of "[]"] by auto
  obtain ws where w: "start_kernel (boot_machine []) = Inl (OutOfBounds, v\<lparr>virtio_log := ws\<rparr>)"
    using hd_init_missing [OF v(3,2,4)] v(1) by auto
  show ?thesis using interrupts_stay_disabled [OF boot_machine_state disjI1 [OF w]] w by blast
qed

end
