(* ===== verification/Keeps.thy ===== *)
theory Keeps
  imports Kernel_Prelude
begin

text \<open>
  Rules to show that a routine keeps a predicate on the state, however it ends: \<open>kok P r\<close> says that the state
  in the result \<open>r\<close> satisfies \<open>P\<close>, for a normal return and for a stop; \<open>ook\<close> is the same for the results of
  loops that may not end, \<open>rok\<close> for one round of such a loop.
\<close>

definition kok :: "('s \<Rightarrow> bool) \<Rightarrow> ('s, 'a) kres \<Rightarrow> bool" where
  "kok P r = (case r of Inl (_, s) \<Rightarrow> P s | Inr (_, s) \<Rightarrow> P s)"

definition ook :: "('s \<Rightarrow> bool) \<Rightarrow> ('s, 'a) kres option \<Rightarrow> bool" where
  "ook P r \<longleftrightarrow> (\<forall>x. r = Some x \<longrightarrow> kok P x)"

definition rok :: "('s \<Rightarrow> bool) \<Rightarrow> ('v \<Rightarrow> 's) \<Rightarrow> ('s, 'a) kres + 'v \<Rightarrow> bool" where
  "rok P st r = (case r of Inl x \<Rightarrow> kok P x | Inr v \<Rightarrow> P (st v))"

lemma kok_simps [simp]:
  "kok P (Inl (e, s)) = P s" "kok P (Inr (a, s)) = P s" "kok P (kreturn b s) = P s" "kok P (panic m s) = P s"
  "kok P (kmodify f s) = P (f s)" "kok P (kstop e s) = P s"
  by (simp_all add: kok_def kreturn_def panic_def kmodify_def kstop_def)

lemma ook_simps [simp]: "ook P None" "ook P (Some r) = kok P r"
  by (simp_all add: ook_def)

lemma rok_simps [simp]: "rok P st (Inl x) = kok P x" "rok P st (Inr v) = P (st v)"
  by (simp_all add: rok_def)

definition kstate :: "('s, 'a) kres \<Rightarrow> 's" where
  "kstate r = (case r of Inl (_, s) \<Rightarrow> s | Inr (_, s) \<Rightarrow> s)"

lemma kok_kstate: "kok P r \<longleftrightarrow> P (kstate r)"
  by (simp add: kok_def kstate_def split: sum.split)

named_theorems keeps \<open>rules for composed routines\<close>

lemma kok_bind [keeps]:
  assumes "kok P (m s)" "\<And>a t. P t \<Longrightarrow> kok P (f a t)"
  shows "kok P (kbind m f s)"
  using assms by (cases "m s") (auto simp: kbind_def kok_def)

lemma kok_bind_weak:
  assumes "kok P (m s)" "\<And>t. P t \<Longrightarrow> Q t" "\<And>a t. P t \<Longrightarrow> kok Q (f a t)"
  shows "kok Q (kbind m f s)"
  using assms by (cases "m s") (auto simp: kbind_def kok_def)

lemma kok_seq [keeps]: "kok P (m s) \<Longrightarrow> (\<And>t. P t \<Longrightarrow> kok P (n t)) \<Longrightarrow> kok P (kseq m n s)"
  unfolding kseq_def by (rule kok_bind)

lemma kok_for [keeps]:
  assumes "P s" "\<And>i t. P t \<Longrightarrow> kok P (body i t)"
  shows "kok P (kfor is body s)"
  using assms(1)
proof (induction "is" arbitrary: s)
  case (Cons i "is")
  have "kok P (body i s)" using assms(2) Cons.prems by blast
  then show ?case using Cons.IH by (cases "body i s") (auto simp: kok_def)
qed simp

lemma kok_case [keeps]:
  assumes "kok P r" "\<And>a t. P t \<Longrightarrow> kok P (h (a, t))"
  shows "kok P (case r of Inl e \<Rightarrow> Inl e | Inr p \<Rightarrow> h p)"
  using assms by (cases r) (auto simp: kok_def)

lemma ook_case [keeps]:
  assumes "kok P r" "\<And>a t. P t \<Longrightarrow> ook P (h (a, t))"
  shows "ook P (case r of Inl e \<Rightarrow> Some (Inl e) | Inr p \<Rightarrow> h p)"
  using assms by (cases r) (auto simp: kok_def)

lemma rok_case [keeps]:
  assumes "kok P r" "\<And>a t. P t \<Longrightarrow> rok P st (h (a, t))"
  shows "rok P st (case r of Inl e \<Rightarrow> Inl (Inl e) | Inr p \<Rightarrow> h p)"
  using assms by (cases r) (auto simp: kok_def)

lemma ook_round [keeps]:
  assumes "rok P st r" "\<And>v. P (st v) \<Longrightarrow> ook P (h v)"
  shows "ook P (case r of Inl x \<Rightarrow> Some x | Inr v \<Rightarrow> h v)"
  using assms by (cases r) auto

text \<open>The result of a loop, taken as it is or with a continuation.\<close>

lemma kok_loop [keeps]: "ook P r \<Longrightarrow> P s \<Longrightarrow> kok P (case r of None \<Rightarrow> Inl (Loops, s) | Some x \<Rightarrow> x)"
  by (cases r) simp_all

lemma kok_loop_case [keeps]:
  assumes "ook P r" "P s" "\<And>a t. P t \<Longrightarrow> kok P (h (a, t))"
  shows "kok P (case r of None \<Rightarrow> Inl (e, s) | Some x \<Rightarrow> (case x of Inl e \<Rightarrow> Inl e | Inr p \<Rightarrow> h p))"
  using assms by (cases r) (auto intro: kok_case)

lemma rok_loop_case [keeps]:
  assumes "ook P r" "P s" "\<And>a t. P t \<Longrightarrow> rok P st (h (a, t))"
  shows "rok P st (case r of None \<Rightarrow> Inl (Inl (e, s)) | Some x \<Rightarrow> (case x of Inl e \<Rightarrow> Inl (Inl e) | Inr p \<Rightarrow> h p))"
  using assms by (cases r) (auto intro: rok_case)

text \<open>For routines with many conditionals, instead of case splits.\<close>

lemma if_keeps:
  "(c \<Longrightarrow> kok P x) \<Longrightarrow> (\<not> c \<Longrightarrow> kok P y) \<Longrightarrow> kok P (if c then x else y)"
  "(c \<Longrightarrow> rok P st u) \<Longrightarrow> (\<not> c \<Longrightarrow> rok P st v) \<Longrightarrow> rok P st (if c then u else v)"
  by simp_all

lemma fold_keeps:
  assumes "P s" "\<And>i t. i \<in> set is \<Longrightarrow> P t \<Longrightarrow> P (f i t)"
  shows "P (fold f is s)"
  using assms by (induction "is" arbitrary: s) auto

text \<open>The induction rules of loops given by a partial function with one to four arguments, the last with the
  state: \<open>loop_adm\<close> are the side conditions.\<close>

lemma loop_adm_all:
  fixes Q :: "'x \<Rightarrow> bool" and P :: "'s \<Rightarrow> bool"
  shows "option.admissible (\<lambda>f :: 'x \<Rightarrow> ('s, 'a) kres option. \<forall>x. Q x \<longrightarrow> ook P (f x))"
proof -
  have "(\<lambda>f :: 'x \<Rightarrow> ('s, 'a) kres option. \<forall>x. Q x \<longrightarrow> ook P (f x)) = (\<lambda>f. \<forall>x y. f x = Some y \<longrightarrow> Q x \<longrightarrow> kok P y)" by (auto simp: ook_def fun_eq_iff)
  then show ?thesis using option_admissible [of "\<lambda>x y. Q x \<longrightarrow> kok P y"] by (simp only:)
qed

lemma loop_adm:
  "option.admissible (\<lambda>f. \<forall>v. Q v \<longrightarrow> ook P (f v))"
  "option.admissible (\<lambda>f. \<forall>a v. Q v \<longrightarrow> ook P (curry f a v))"
  "option.admissible (\<lambda>f. \<forall>a b v. Q v \<longrightarrow> ook P (curry (curry f) a b v))"
  "option.admissible (\<lambda>f. \<forall>a b c v. Q v \<longrightarrow> ook P (curry (curry (curry f)) a b c v))"
  "option.admissible (\<lambda>f. \<forall>a b c d v. Q v \<longrightarrow> ook P (curry (curry (curry (curry f))) a b c d v))"
  using loop_adm_all [of Q P] loop_adm_all [of "\<lambda>(a, v). Q v" P] loop_adm_all [of "\<lambda>((a, b), v). Q v" P]
    loop_adm_all [of "\<lambda>(((a, b), c), v). Q v" P] loop_adm_all [of "\<lambda>((((a, b), c), d), v). Q v" P]
  by simp_all

lemma ook_D: "ook P r \<Longrightarrow> r = Some x \<Longrightarrow> kok P x"
  by (simp add: ook_def)

end
