(* ===== verification/Fs_Frame.thy ===== *)
theory Fs_Frame
  imports Keeps Open
begin

text \<open>
  What the file system does not touch.  The locale \<open>fs_stable\<close> fixes a predicate on the state that does not
  depend on the variables of memory management, wait queues, disk, buffer cache and inodes, nor on the
  fields of a task the scheduler changes.  Every routine of the file system up to the calls that take a path
  keeps such a predicate, however it ends.
\<close>

text \<open>A task without the fields that the scheduler changes.\<close>

definition task_core :: "task_struct \<Rightarrow> task_struct" where
  "task_core t = t\<lparr>t_state := 0, t_signal := 0, t_alarm := 0, t_counter := 0\<rparr>"

lemma pick_slot: "snd (pick s) < NR_TASKS"
  unfolding pick_def by (rule fold_keeps) (auto simp: pick_step_def slots_def NR_TASKS_def Let_def)

lemma sched_loop_slot:
  assumes "sched_loop s = Some (n, t)"
  shows "\<not> direct (of_nat n)"
proof -
  have "fst (n, t) < NR_TASKS"
    by (rule sched_loop.raw_induct [OF _ assms]) (auto simp: pick_slot split: if_splits)
  then have "unat (of_nat n :: u64) = n" "n < 64" by (simp_all add: unat_of_nat NR_TASKS_def take_bit_nat_eq_self)
  then show ?thesis by (simp add: direct_def VA_KERNEL_def word_le_nat_alt)
qed

locale fs_stable =
  fixes P :: "'a kern_scheme \<Rightarrow> bool"
  assumes mem: "P s \<Longrightarrow> P (s\<lparr>mem_map := m\<rparr>)" "P s \<Longrightarrow> P (s\<lparr>pmem := w\<rparr>)" "P s \<Longrightarrow> P (s\<lparr>satp := x\<rparr>)"
    and wait: "P s \<Longrightarrow> P (s\<lparr>waitq := q\<rparr>)"
    and core: "P s \<Longrightarrow> (\<And>t. task_core (f t) = task_core t) \<Longrightarrow> P (upd_task p f s)"
    and disk: "P s \<Longrightarrow> P (s\<lparr>request := r\<rparr>)" "P s \<Longrightarrow> P (s\<lparr>this_request := n\<rparr>)" "P s \<Longrightarrow> P (s\<lparr>sorting := b\<rparr>)"
      "P s \<Longrightarrow> P (s\<lparr>do_hd := d\<rparr>)" "P s \<Longrightarrow> P (s\<lparr>virt_buffer := v\<rparr>)" "P s \<Longrightarrow> P (virtio_cmd write sector s)"
      "P s \<Longrightarrow> P (VIRT_ACK s)"
    and cache: "P s \<Longrightarrow> P (s\<lparr>hash_table := h\<rparr>)" "P s \<Longrightarrow> P (s\<lparr>free_list := l\<rparr>)" "P s \<Longrightarrow> P (upd_buf i g s)"
    and inode: "P s \<Longrightarrow> P (upd_inode j k s)" "P s \<Longrightarrow> P (s\<lparr>last_allocated_inode := a\<rparr>)"
begin

lemmas prims = mem wait disk cache inode

text \<open>The scheduler.\<close>

lemma sched_alarm_keeps: "P s \<Longrightarrow> P (sched_alarm i s)"
  by (auto simp: sched_alarm_def Let_def task_core_def intro!: core)

lemma recalc_keeps: "P s \<Longrightarrow> P (recalc s)"
  unfolding recalc_def by (erule fold_keeps) (auto simp: recalc_step_def task_core_def intro!: core)

lemma sched_loop_keeps:
  assumes "sched_loop s = Some x" "P s"
  shows "P (snd x)"
proof -
  have "P s \<longrightarrow> P (snd x)"
    by (rule sched_loop.raw_induct [OF _ assms(1)]) (auto split: if_splits intro: recalc_keeps)
  then show ?thesis using assms(2) by blast
qed

lemma schedule_keeps [keeps]:
  assumes "P s"
  shows "kok P (schedule s)"
proof -
  have "P (fold sched_alarm slots s)" using assms by (rule fold_keeps) (rule sched_alarm_keeps)
  then show ?thesis
    using sched_loop_slot sched_loop_keeps
    by (auto simp: schedule_def Let_def context_switch_def split: option.split)
qed

lemma wake_up_keeps [keeps]: "P s \<Longrightarrow> P (wake_up p s)"
  by (auto simp: wake_up_def task_core_def intro!: core wait)

lemma sleep_on_keeps [keeps]: "P s \<Longrightarrow> kok P (sleep_on p s)"
  by (auto simp: sleep_on_def sleep_enter_def wake_tmp_def task_core_def intro!: core wait keeps)

subsection \<open>Disk and buffers\<close>

lemma wait_buffer_loop_keeps [rule_format, keeps]: "\<forall>b s. P s \<longrightarrow> ook P (wait_buffer_loop b s)"
  by (rule wait_buffer_loop.fixp_induct [OF loop_adm(2)]) (auto intro!: keeps)

lemma wait_on_buffer_keeps [keeps]: "P s \<Longrightarrow> kok P (wait_on_buffer b s)"
  by (auto simp: wait_on_buffer_def intro!: keeps)

lemma lock_unlock_keeps [keeps]: "P s \<Longrightarrow> P (lock_buffer b s)" "P s \<Longrightarrow> P (unlock_buffer b s)"
  by (auto simp: lock_buffer_def unlock_buffer_def Let_def intro!: prims keeps)

lemma upd_req_keeps: "P s \<Longrightarrow> P (upd_req r f s)"
  by (simp add: upd_req_def disk)

lemma do_request_keeps [keeps]: "P s \<Longrightarrow> kok P (do_request s)"
  by (auto simp: do_request_def hd_out_def Let_def split: option.split intro!: prims)

lemma add_request_keeps [keeps]: "P s \<Longrightarrow> kok P (add_request r s)"
  by (auto simp: add_request_def link_request_def split: option.splits intro!: prims upd_req_keeps keeps)

lemma find_request_keeps [rule_format, keeps]: "\<forall>s. P s \<longrightarrow> ook P (find_request s)"
  by (rule find_request.fixp_induct [OF loop_adm(1)]) (auto split: option.split intro!: keeps)

lemma hd_interrupt_keeps [keeps]: "P s \<Longrightarrow> kok P (hd_interrupt s)"
  by (auto simp: hd_interrupt_def unexpected_hd_interrupt_def read_intr_def write_intr_def end_request_def Let_def split: option.split hd_handler.split
      intro!: prims upd_req_keeps keeps)

lemma rw_abs_hd_keeps [keeps]: "P s \<Longrightarrow> kok P (rw_abs_hd rw nr sec head cyl b s)"
  by (auto simp: rw_abs_hd_def Let_def intro!: keeps upd_req_keeps)

lemma ll_rw_block_keeps [keeps]: "P s \<Longrightarrow> kok P (ll_rw_block rw b s)"
  by (auto simp: ll_rw_block_def rd_blk_def rw_hd_def Let_def nth_Cons split: option.split nat.split prod.split intro!: keeps)

lemma sync_keeps [keeps]: "P s \<Longrightarrow> kok P (sync_buf b s)" "P s \<Longrightarrow> kok P (sync_dev dev s)"
  by (auto simp: sync_buf_def sync_dev_def intro!: keeps)

lemma find_buffer_keeps [keeps]: "P s \<Longrightarrow> kok P (find_buffer dev block s)"
  by (auto simp: find_buffer_def split: option.split)

lemma brelse_keeps [keeps]: "P s \<Longrightarrow> kok P (brelse b s)"
  by (auto simp: brelse_def Let_def split: option.split intro!: keeps prims)

lemma queue_keeps [keeps]: "P s \<Longrightarrow> kok P (remove_from_queues b s)" "P s \<Longrightarrow> kok P (insert_into_queues b s)"
  by (auto simp: remove_from_queues_def unfree_def unhash_def insert_into_queues_def enfree_def enhash_def Let_def
      split: option.split intro!: keeps prims)

lemma hash_round_keeps [keeps]: "P s \<Longrightarrow> rok P (\<lambda>t. t) (hash_round dev block s)"
  by (auto simp: hash_round_def split: option.split intro!: keeps prims)

lemma hash_loop_keeps [rule_format, keeps]: "\<forall>d b s. P s \<longrightarrow> ook P (hash_loop d b s)"
  by (rule hash_loop.fixp_induct [OF loop_adm(3)]) (auto intro!: keeps)

lemma get_hash_table_keeps [keeps]: "P s \<Longrightarrow> kok P (get_hash_table dev block s)"
  by (auto simp: get_hash_table_def intro!: keeps)

lemma free_scan_keeps [rule_format, keeps]: "\<forall>b s. P s \<longrightarrow> ook P (free_scan b s)"
  by (rule free_scan.fixp_induct [OF loop_adm(2)]) (auto split: option.split intro!: keeps)

lemma claim_buf_keeps [keeps]: "P s \<Longrightarrow> kok P (claim_buf dev block b s)"
  by (auto simp: claim_buf_def intro!: keeps prims)

lemma getblk_round_keeps [keeps]: "P s \<Longrightarrow> rok P (\<lambda>t. t) (getblk_round dev block s)"
  by (auto simp: getblk_round_def split: option.split intro!: keeps prims)
    (blast intro: ook_D [OF free_scan_keeps])

lemma getblk_loop_keeps [rule_format, keeps]: "\<forall>d b s. P s \<longrightarrow> ook P (getblk_loop d b s)"
  by (rule getblk_loop.fixp_induct [OF loop_adm(3)]) (auto intro!: keeps)

lemma getblk_keeps [keeps]: "P s \<Longrightarrow> kok P (getblk dev block s)"
  by (auto simp: getblk_def intro!: keeps)

lemma bread_keeps [keeps]: "P s \<Longrightarrow> kok P (bread dev block s)"
  by (auto simp: bread_def intro!: keeps)

subsection \<open>Bit maps and inodes\<close>

lemma free_block_keeps [keeps]: "P s \<Longrightarrow> kok P (free_block dev block s)"
  by (auto simp: free_block_def free_zone_bit_def Let_def split: option.split prod.split intro!: keeps prims)

lemma new_block_keeps [keeps]: "P s \<Longrightarrow> kok P (new_block dev s)"
  by (auto simp: new_block_def clear_block_def Let_def split: option.split prod.split intro!: keeps prims)

lemma clear_inode_keeps [keeps]: "P s \<Longrightarrow> P (clear_inode p s)"
  by (simp add: clear_inode_def prims)

lemma free_inode_keeps [keeps]: "P s \<Longrightarrow> kok P (free_inode p s)"
  by (auto simp: free_inode_def Let_def split: option.split prod.split intro!: keeps prims)

lemma wait_inode_loop_keeps [rule_format, keeps]: "\<forall>p s. P s \<longrightarrow> ook P (wait_inode_loop p s)"
  by (rule wait_inode_loop.fixp_induct [OF loop_adm(2)]) (auto intro!: keeps)

lemma wait_on_inode_keeps [keeps]: "P s \<Longrightarrow> kok P (wait_on_inode p s)"
  by (auto simp: wait_on_inode_def intro!: keeps)

lemma lock_inode_keeps [keeps]: "P s \<Longrightarrow> kok P (lock_inode p s)" "P s \<Longrightarrow> P (unlock_inode p s)"
  by (auto simp: lock_inode_def unlock_inode_def intro!: keeps prims)

lemma rw_inode_keeps [keeps]: "P s \<Longrightarrow> kok P (read_inode p s)" "P s \<Longrightarrow> kok P (write_inode p s)"
  by (auto simp: read_inode_def write_inode_def Let_def split: option.split intro!: keeps prims)

lemma sys_sync_keeps [keeps]: "P s \<Longrightarrow> kok P (sys_sync s)"
  by (auto simp: sys_sync_def sync_inodes_def Let_def intro!: keeps)

lemma make_zone_keeps [keeps]: "P s \<Longrightarrow> kok P (make_zone p k create s)"
  by (auto simp: make_zone_def Let_def intro!: keeps prims)

lemma indirect_keeps [keeps]: "P s \<Longrightarrow> kok P (indirect p b k create s)"
  by (auto simp: indirect_def Let_def intro!: keeps prims)

lemma bmap0_keeps [keeps]: "P s \<Longrightarrow> kok P (bmap0 p block create s)"
  by (auto simp: bmap0_def bmap_single_def bmap_double_def Let_def split: option.split intro!: keeps)

lemma bmap_keeps [keeps]: "P s \<Longrightarrow> kok P (bmap p block s)" "P s \<Longrightarrow> kok P (create_block p block s)"
  by (simp_all add: bmap_def create_block_def bmap0_keeps)

lemma free_ind_keeps [keeps]: "P s \<Longrightarrow> kok P (free_ind dev block s)"
  by (auto simp: free_ind_def for_entries_def Let_def split: option.split intro!: keeps)

lemma truncate_keeps [keeps]: "P s \<Longrightarrow> kok P (Inode.truncate p s)"
  by (auto simp: Inode.truncate_def free_dind_def for_entries_def Let_def split: option.split intro!: keeps prims)

lemma iput_round_keeps [keeps]: "P s \<Longrightarrow> rok P (\<lambda>t. t) (iput_round p s)"
  by (auto simp: iput_round_def intro!: keeps prims)

lemma iput_loop_keeps [rule_format, keeps]: "\<forall>p s. P s \<longrightarrow> ook P (iput_loop p s)"
  by (rule iput_loop.fixp_induct [OF loop_adm(2)]) (auto intro!: keeps)

lemma page_keeps [keeps]: "P s \<Longrightarrow> kok P (free_page a s)" "P s \<Longrightarrow> kok P (get_free_page s)"
  by (auto simp: free_page_def get_count_def set_count_def get_free_page_def split: option.split intro!: keeps prims)

lemma iput_keeps [keeps]: "P s \<Longrightarrow> kok P (iput p s)"
  by (auto simp: iput_def Let_def intro!: keeps prims)

lemma clean_loop_keeps [rule_format, keeps]: "\<forall>p s. P s \<longrightarrow> ook P (clean_loop p s)"
  by (rule clean_loop.fixp_induct [OF loop_adm(2)]) (auto intro!: keeps)

lemma empty_round_keeps [keeps]: "P s \<Longrightarrow> rok P (\<lambda>t. t) (empty_round s)"
  by (auto simp: empty_round_def Let_def split: option.split intro!: keeps prims intro: ook_D [OF clean_loop_keeps])

lemma empty_loop_keeps [rule_format, keeps]: "\<forall>s. P s \<longrightarrow> ook P (empty_loop s)"
  by (rule empty_loop.fixp_induct [OF loop_adm(1)]) (auto intro!: keeps)

lemma get_empty_inode_keeps [keeps]: "P s \<Longrightarrow> kok P (get_empty_inode s)" "P s \<Longrightarrow> kok P (get_pipe_inode s)"
  by (auto simp: get_empty_inode_def get_pipe_inode_def Let_def intro!: keeps prims)

lemma iget_loop_keeps [rule_format, keeps]: "\<forall>d n s. P s \<longrightarrow> ook P (iget_loop d n s)"
  by (rule iget_loop.fixp_induct [OF loop_adm(3)]) (auto simp: Let_def intro!: keeps prims)

lemma iget_keeps [keeps]: "P s \<Longrightarrow> kok P (iget dev nr s)"
  by (auto simp: iget_def split: option.split intro!: keeps prims intro: ook_D [OF iget_loop_keeps])

lemma new_inode_keeps [keeps]: "P s \<Longrightarrow> kok P (new_inode dev s)"
  by (auto simp: new_inode_def Let_def split: option.split prod.split intro!: keeps prims)

subsection \<open>Directories and paths\<close>

lemma next_entry_keeps [keeps]: "P s \<Longrightarrow> (\<And>t. P t \<Longrightarrow> kok P (block_of dir (int (i div 64)) t)) \<Longrightarrow> kok P (next_entry block_of dir i b s)"
  by (auto simp: next_entry_def intro!: keeps)

lemma find_loop_keeps [keeps]: "P s \<Longrightarrow> kok P (find_loop dir name len entries i b de s)"
proof (induction "entries - i" arbitrary: i b de s rule: less_induct)
  case less
  then show ?case
    by (subst find_loop.simps) (auto simp: Let_def split: option.split intro!: keeps)
qed

lemma find_entry_keeps [keeps]: "P s \<Longrightarrow> kok P (find_entry dir name len s)"
  by (auto simp: find_entry_def Let_def split: option.split intro!: keeps)

lemma add_here_keeps [keeps]: "P s \<Longrightarrow> rok P (\<lambda>v. snd (snd (snd v))) (add_here dir name len i b de s)"
  by (auto simp: add_here_def set_de_inode_def Let_def intro!: prims)

lemma add_round_keeps [keeps]: "P (snd (snd (snd v))) \<Longrightarrow> rok P (\<lambda>v. snd (snd (snd v))) (add_round dir name len v)"
  by (auto simp: add_round_def split: prod.split option.split intro!: keeps)

lemma add_loop_keeps [rule_format, keeps]: "\<forall>d n l v. P (snd (snd (snd v))) \<longrightarrow> ook P (add_loop d n l v)"
  by (rule add_loop.fixp_induct [OF loop_adm(4)]) (auto intro!: keeps)

lemma add_entry_keeps [keeps]: "P s \<Longrightarrow> kok P (add_entry dir name len s)"
  by (auto simp: add_entry_def Let_def split: option.split intro!: keeps) (rule ook_D [OF add_loop_keeps], simp_all)

lemma dir_enter_keeps [keeps]: "P s \<Longrightarrow> kok P (dir_enter dir name len s)"
  by (auto simp: dir_enter_def Let_def split: option.split intro!: keeps)

lemma get_dir_loop_keeps [keeps]: "P s \<Longrightarrow> kok P (get_dir_loop p path s)"
proof (induction "length path" arbitrary: p path s rule: less_induct)
  case less
  then show ?case
    by (subst get_dir_loop.simps) (auto simp: Let_def char_at_def split: if_splits intro!: keeps)
qed

lemma namei_keeps [keeps]: "P s \<Longrightarrow> kok P (dir_namei path s)" "P s \<Longrightarrow> kok P (namei path s)"
  by (auto simp: namei_def dir_namei_def get_dir_def Let_def intro!: keeps prims)

lemma fail_keeps [keeps]: "P s \<Longrightarrow> kok P (fail dir e s)" "P s \<Longrightarrow> kok P (fail2 dir b e s)" "P s \<Longrightarrow> kok P (fail3 p dir b e s)"
  by (auto simp: fail_def fail2_def fail3_def intro!: keeps)

lemma open_namei_keeps [keeps]: "P s \<Longrightarrow> kok P (open_namei path flag mode s)"
  by (auto simp: open_namei_def open_create_def open_found_def set_de_inode_def Let_def split: option.split intro!: keeps prims)

lemma mkdir_keeps [keeps]: "P s \<Longrightarrow> kok P (sys_mkdir a path s)"
  by (auto simp: sys_mkdir_def mkdir_new_def mkdir_fill_def mkdir_enter_def dec_nlinks_def set_de_inode_def Let_def
      split: option.split intro!: keeps prims)

lemma edir_loop_keeps [keeps]: "P s \<Longrightarrow> kok P (edir_loop p len nr b de s)"
proof (induction "len - nr" arbitrary: nr b de s rule: less_induct)
  case less
  then show ?case by (subst edir_loop.simps) (auto simp: Let_def split: option.split intro!: keeps)
qed

lemma rmdir_keeps [keeps]: "P s \<Longrightarrow> kok P (sys_rmdir path s)"
  by (auto simp: sys_rmdir_def empty_dir_def rmdir_do_def erase_entry_def set_de_inode_def Let_def split: option.split intro!: keeps prims)

lemma unlink_keeps [keeps]: "P s \<Longrightarrow> kok P (sys_unlink path s)"
  by (auto simp: sys_unlink_def unlink_do_def erase_entry_def set_de_inode_def Let_def split: option.split intro!: keeps prims)

lemma link_keeps [keeps]: "P s \<Longrightarrow> kok P (sys_link old new s)"
  by (auto simp: sys_link_def link_do_def set_de_inode_def Let_def split: option.split intro!: keeps prims)

lemma attribute_keeps [keeps]:
  "P s \<Longrightarrow> kok P (sys_utime path tbuf s)" "P s \<Longrightarrow> kok P (sys_access path a s)" "P s \<Longrightarrow> kok P (sys_chmod path a s)"
  "P s \<Longrightarrow> kok P (sys_chown path a b s)"
  by (auto simp: sys_utime_def sys_access_def sys_chmod_def sys_chown_def kload_def Let_def intro!: keeps prims)

end

end
