(* ===== verification/Call_Frame.thy ===== *)
theory Call_Frame
  imports Fs_Frame Traps Tty_Line
begin

text \<open>
  What the system calls do not touch.  The locale \<open>call_stable\<close> extends \<open>fs_stable\<close>: the predicate may depend on the
  terminals only through the well-formedness of their queues, on tasks only through their descriptors, and
  on the file table only through its counts.  Reading, writing, the path calls and the interrupts keep such a predicate.
  The last locale is for predicates that depend on no task and no file at all; it covers every call.
\<close>

subsection \<open>Well-formed terminals\<close>

definition wf_tty :: "tty_struct \<Rightarrow> bool" where
  "wf_tty t \<longleftrightarrow> wfq (read_q t) \<and> wfq (write_q t) \<and> wfq (secondary t)"

lemma wfq_DEC: "wfq q \<Longrightarrow> wfq (q\<lparr>q_head := DEC (q_head q)\<rparr>)"
  using unat_DEC [of "q_head q"] by (simp add: wfq_def hix_def tix_def)

lemma GETCH_wf: "GETCH q = (c, q') \<Longrightarrow> wfq q \<Longrightarrow> wfq q'"
  using wfq_GETCH [of q] by simp

lemmas wf_simps = wf_tty_def wfq_PUTCH wfq_DEC

lemma write_chars_wf: "write_chars t cr bs = (cr', bs', t') \<Longrightarrow> wf_tty t \<Longrightarrow> wf_tty t'"
proof (induction t cr bs rule: write_chars.induct)
  case (2 t cr b bs)
  have "wf_tty (t\<lparr>write_q := PUTCH c (write_q t)\<rparr>)" for c using "2.prems"(2) by (simp add: wf_simps)
  then show ?case using "2.prems" "2.IH" by (auto simp: write_chars.simps(2) [of t cr b bs] Let_def split: if_splits)
qed (simp add: write_chars.simps)

subsection \<open>System calls on descriptors\<close>

locale call_stable = fs_stable P for P :: "'a kern_scheme \<Rightarrow> bool" +
  assumes upd_tty: "P s \<Longrightarrow> (wf_tty (tty_table s n) \<Longrightarrow> wf_tty (h (tty_table s n))) \<Longrightarrow> P (upd_tty n h s)"
    and line: "P s \<Longrightarrow> P (s\<lparr>cr_flag := c\<rparr>)" "P s \<Longrightarrow> P (s\<lparr>uart_ier := e\<rparr>)"
    and task_rest: "P s \<Longrightarrow> (\<And>t. t_filp (f t) = t_filp t) \<Longrightarrow> P (upd_task p f s)"
    and file_rest: "P s \<Longrightarrow> (\<And>x. f_count (g x) = f_count x) \<Longrightarrow> P (upd_file q g s)"
begin

lemma tty_keeps:
  assumes "P s"
  shows "P (upd_tty n (\<lambda>t. t\<lparr>write_q := PUTCH c (write_q t)\<rparr>) s)" "P (upd_tty n (\<lambda>t. t\<lparr>secondary := PUTCH c (secondary t)\<rparr>) s)"
    "P (upd_tty n (\<lambda>t. t\<lparr>secondary := (secondary t)\<lparr>q_head := DEC (q_head (secondary t))\<rparr>\<rparr>) s)"
    "P (upd_tty n (\<lambda>t. t\<lparr>secondary := (secondary t)\<lparr>q_data := q_data (secondary t) + 1\<rparr>\<rparr>) s)"
    "P (upd_tty n (\<lambda>t. t\<lparr>stopped := b\<rparr>) s)" "P (upd_tty n (\<lambda>t. t\<lparr>pgrp := g\<rparr>) s)"
    "GETCH (read_q (tty_table s n)) = (c, q) \<Longrightarrow> P (upd_tty n (\<lambda>t. t\<lparr>read_q := q\<rparr>) s)"
    "GETCH (secondary (tty_table s n)) = (c, q) \<Longrightarrow> P (upd_tty n (\<lambda>t. t\<lparr>secondary := q\<rparr>) s)"
    "GETCH (secondary (tty_table s n)) = (c, q) \<Longrightarrow> P (upd_tty n (\<lambda>t. t\<lparr>secondary := q\<lparr>q_data := q_data q - 1\<rparr>\<rparr>) s)"
  using assms by (auto simp: wf_simps dest: GETCH_wf intro!: upd_tty)

lemma call_write_keeps [keeps]: "P s \<Longrightarrow> kok P (call_write n s)"
  by (auto simp: call_write_def rs_write_def split: tty_writer.split intro!: line)

lemma interruptible_sleep_on_keeps [keeps]: "P s \<Longrightarrow> kok P (interruptible_sleep_on p s)"
proof -
  have "\<forall>p tmp s. P s \<longrightarrow> ook P (intr_loop p tmp s)"
    by (rule intr_loop.fixp_induct [OF loop_adm(3)])
      (auto simp: intr_resume_def wake_tmp_def task_rest wait intro!: keeps)
  then show "P s \<Longrightarrow> kok P (interruptible_sleep_on p s)"
    by (auto simp: interruptible_sleep_on_def sleep_enter_def wait task_rest intro!: keeps)
qed

lemma sleep_empty_loop_keeps [rule_format, keeps]: "\<forall>n s. P s \<longrightarrow> ook P (sleep_empty_loop n s)"
  by (rule sleep_empty_loop.fixp_induct [OF loop_adm(2)]) (auto intro!: keeps)

lemma sleep_full_loop_keeps [rule_format, keeps]: "\<forall>n s. P s \<longrightarrow> ook P (sleep_full_loop n s)"
  by (rule sleep_full_loop.fixp_induct [OF loop_adm(2)]) (auto intro!: keeps)

lemma sleep_if_keeps [keeps]: "P s \<Longrightarrow> kok P (sleep_if_empty n s)" "P s \<Longrightarrow> kok P (sleep_if_full n s)"
  by (auto simp: sleep_if_empty_def sleep_if_full_def intro!: keeps)

lemma read_chars_keeps: "read_chars n nr b s = (eof, nr', b', t) \<Longrightarrow> P s \<Longrightarrow> P t"
  by (induction n nr b s rule: read_chars.induct)
    (auto simp: Let_def tty_keeps split: prod.splits if_splits)

lemma set_alarm_keeps: "P s \<Longrightarrow> P (set_alarm a s)"
  by (simp add: set_alarm_def task_rest)

lemma read_finish_keeps [keeps]: "P s \<Longrightarrow> kok P (read_finish a b s)"
  by (simp add: read_finish_def set_alarm_keeps Let_def)

lemma read_round_keeps [keeps]: "P (snd (snd (snd v))) \<Longrightarrow> rok P (\<lambda>v. snd (snd (snd v))) (read_round n m time a v)"
proof -
  assume p: "P (snd (snd (snd v)))"
  obtain flag nr b s where v: "v = (flag, nr, b, s)" by (cases v)
  obtain eof nr' b' t where r: "read_chars n nr b s = (eof, nr', b', t)" by (cases "read_chars n nr b s")
  have "P s" "P t" using p v read_chars_keeps [OF r] by simp_all
  then show ?thesis
    unfolding v read_round_def Let_def prod.case r by (intro if_keeps keeps; simp add: task_rest set_alarm_keeps keeps)
qed

lemma read_loop_keeps [rule_format, keeps]: "\<forall>n m time a v. P (snd (snd (snd v))) \<longrightarrow> ook P (read_loop n m time a v)"
  by (rule read_loop.fixp_induct [OF loop_adm(5)]) (auto intro!: keeps)

lemma tty_read_keeps [keeps]: "P s \<Longrightarrow> kok P (tty_read n nr s)"
  by (auto simp: tty_read_def Let_def set_alarm_keeps intro!: keeps)

lemma write_round_keeps [keeps]: "P (snd v) \<Longrightarrow> rok P snd (write_round n v)"
proof -
  assume p: "P (snd v)"
  have "P (upd_tty n (\<lambda>_. t) (s\<lparr>cr_flag := cr\<rparr>))" if "write_chars (tty_table s n) cr' bs = (cr, bs', t)" "P s" for s cr' bs cr bs' t
    using that write_chars_wf [OF that(1)] by (intro upd_tty line) simp_all
  then show ?thesis using p by (auto simp: write_round_def Let_def split: prod.split intro!: keeps)
qed

lemma write_loop_keeps [rule_format, keeps]: "\<forall>n v. P (snd v) \<longrightarrow> ook P (write_loop n v)"
  by (rule write_loop.fixp_induct [OF loop_adm(2)]) (auto intro!: keeps)

lemma tty_write_keeps [keeps]: "P s \<Longrightarrow> kok P (tty_write n buf nr s)"
  by (auto simp: tty_write_def intro!: keeps)

lemma rw_char_keeps [keeps]: "P s \<Longrightarrow> kok P (rw_char rw dev buf count s)"
  by (auto simp: rw_char_def rw_ttyx_def rw_tty_def Let_def intro!: keeps)

lemma pipe_wait_data_keeps [rule_format, keeps]: "\<forall>p s. P s \<longrightarrow> ook P (pipe_wait_data p s)"
  by (rule pipe_wait_data.fixp_induct [OF loop_adm(2)]) (auto simp: Let_def intro!: keeps)

lemma pipe_wait_room_keeps [rule_format, keeps]: "\<forall>p s. P s \<longrightarrow> ook P (pipe_wait_room p s)"
  by (rule pipe_wait_room.fixp_induct [OF loop_adm(2)]) (auto simp: Let_def raise_sigpipe_def intro!: keeps task_rest)

lemma byte_keeps [keeps]: "P s \<Longrightarrow> kok P (load_byte a s)" "P s \<Longrightarrow> kok P (store_byte a c s)" "P s \<Longrightarrow> kok P (kload a s)"
  "P s \<Longrightarrow> kok P (kstore a w s)"
  by (simp_all add: load_byte_def store_byte_def kload_def kstore_def mem)

lemma pipe_get_keeps [keeps]: "P s \<Longrightarrow> kok P (pipe_get p n b s)"
  by (induction n arbitrary: b s) (auto simp: load_byte_def prims)

lemma pipe_put_keeps [keeps]: "P s \<Longrightarrow> kok P (pipe_put p bs n s)"
proof (induction bs arbitrary: n s)
  case (Cons c bs)
  then show ?case
    by (auto simp: prims wake_up_keeps split: bool.split intro!: keeps)
qed (simp add: keeps)

lemma read_pipe_keeps [keeps]: "P s \<Longrightarrow> kok P (read_pipe p n s)"
  by (auto simp: read_pipe_def intro!: keeps split: bool.split)

lemma write_pipe_keeps [keeps]: "P s \<Longrightarrow> kok P (write_pipe p buf s)"
  by (auto simp: write_pipe_def raise_sigpipe_def Let_def intro!: keeps task_rest)

lemma file_read_loop_keeps [keeps]: "P s \<Longrightarrow> kok P (file_read_loop p f left buf s)"
proof (induction left arbitrary: buf s rule: less_induct)
  case (less left)
  then show ?case
    by (subst file_read_loop.simps) (auto simp: Let_def file_rest rest_less smod_1024_less [THEN less_imp_le] split: option.split intro!: keeps)
qed

lemma file_write_loop_keeps [keeps]: "P s \<Longrightarrow> kok P (file_write_loop p bs pos i s)"
proof (induction "length bs" arbitrary: bs pos i s rule: less_induct)
  case less
  then show ?case
    by (subst file_write_loop.simps) (auto simp: Let_def rest_less prims smod_1024_less [THEN less_imp_le] split: option.split intro!: keeps)
qed

lemma file_keeps [keeps]: "P s \<Longrightarrow> kok P (file_read p f n s)" "P s \<Longrightarrow> kok P (file_write p f buf s)"
  by (auto simp: file_read_def file_write_def Let_def prims file_rest intro!: keeps)

lemma block_keeps [keeps]:
  "P s \<Longrightarrow> kok P (block_read dev block off count buf s)" "P s \<Longrightarrow> kok P (block_write dev block off bs n s)"
proof -
  show "P s \<Longrightarrow> kok P (block_read dev block off count buf s)"
  proof (induction "nat count" arbitrary: block off count buf s rule: less_induct)
    case less
    then show ?case
      by (subst block_read.simps) (auto simp: Let_def blk_chars_def prims split: option.split intro!: keeps)
  qed
  show "P s \<Longrightarrow> kok P (block_write dev block off bs n s)"
  proof (induction "length bs" arbitrary: block off bs n s rule: less_induct)
    case less
    then show ?case
      by (subst block_write.simps) (auto simp: Let_def blk_chars_def prims split: option.split intro!: keeps)
  qed
qed

lemma blkdev_keeps [keeps]: "P s \<Longrightarrow> kok P (read_blkdev dev f n s)" "P s \<Longrightarrow> kok P (write_blkdev dev f buf s)"
  by (auto simp: read_blkdev_def write_blkdev_def advance_def Let_def file_rest intro!: keeps)

lemma write_verify_keeps [keeps]: "P s \<Longrightarrow> kok P (write_verify a s)"
proof -
  have "e OR PTE_W OR PTE_V \<noteq> PTE_V" for e :: u64
  proof
    assume "e OR PTE_W OR PTE_V = PTE_V"
    then have "bit (e OR PTE_W OR PTE_V) 2 = bit PTE_V 2" by simp
    then show False by (simp add: bit_or_iff PTE_W_def PTE_V_def bit_numeral_rec)
  qed
  then show "P s \<Longrightarrow> kok P (write_verify a s)"
    by (auto simp: write_verify_def get_pte_def Let_def intro!: keeps)
qed

lemma verify_area_keeps [keeps]: "P s \<Longrightarrow> kok P (verify_area a n s)"
proof -
  have "P s \<Longrightarrow> kok P (verify_loop a n s)" for a n
  proof (induction "nat n" arbitrary: a n s rule: less_induct)
    case less
    then show ?case by (subst verify_loop.simps) (auto intro!: keeps)
  qed
  then show "P s \<Longrightarrow> kok P (verify_area a n s)" by (simp add: verify_area_def)
qed

lemma transfer_keeps [keeps]:
  "P s \<Longrightarrow> kok P (sys_read a0 a1 a2 s)" "P s \<Longrightarrow> kok P (sys_write a0 ubuf a2 s)"
  by (auto simp: sys_read_def sys_write_def Let_def intro!: keeps)

lemma status_keeps [keeps]:
  "P s \<Longrightarrow> kok P (sys_fstat junk a0 a1 s)" "P s \<Longrightarrow> kok P (sys_stat junk path a1 s)" "P s \<Longrightarrow> kok P (sys_ioctl a0 a1 a2 s)"
  "P s \<Longrightarrow> kok P (sys_lseek a0 a1 a2 s)"
  by (auto simp: sys_fstat_def sys_stat_def cp_stat_def sys_ioctl_def tty_ioctl_def sys_lseek_def set_pos_def Let_def
      file_rest intro!: keeps)

lemma chdir_keeps [keeps]: "P s \<Longrightarrow> kok P (sys_chdir path s)" "P s \<Longrightarrow> kok P (sys_chroot path s)"
  by (auto simp: sys_chdir_def sys_chroot_def task_rest intro!: keeps)

lemma open_tty_keeps [keeps]: "P s \<Longrightarrow> kok P (open_tty p s)"
  by (auto simp: open_tty_def Let_def task_rest tty_keeps)

lemma free_page_tables_keeps [keeps]: "P s \<Longrightarrow> kok P (free_page_tables p s)"
  by (auto simp: free_page_tables_def free_one_table_def load_root_page_table_def intro!: keeps mem)

lemma do_kill_keeps [keeps]: "P s \<Longrightarrow> P (do_kill pid sig priv s)"
  unfolding do_kill_def by (erule fold_keeps) (auto simp: send_sig_def Let_def task_rest)

lemma do_signal_keeps [keeps]: "P s \<Longrightarrow> kok P (do_signal u s)"
  by (auto simp: do_signal_def signal_step_def Let_def task_rest intro!: keeps)

lemma do_timer_keeps [keeps]: "P s \<Longrightarrow> kok P (do_timer u s)"
  by (auto simp: do_timer_def Let_def task_rest intro!: keeps)

lemma put_write_keeps: "P s \<Longrightarrow> P (put_write c n s)"
  by (simp add: put_write_def tty_keeps)

lemma cook_erase_keeps [keeps]: "P s \<Longrightarrow> kok P (cook_erase n s)"
  by (auto simp: cook_erase_def Let_def tty_keeps put_write_keeps intro!: keeps)

lemma cook_echo_keeps [keeps]: "P s \<Longrightarrow> kok P (cook_echo n c s)"
  by (auto simp: cook_echo_def Let_def put_write_keeps intro!: keeps)

lemma cook_store_keeps [keeps]: "P s \<Longrightarrow> kok P (cook_store n c s)"
  by (auto simp: cook_store_def tty_keeps intro!: keeps)

lemma tty_intr_keeps: "P s \<Longrightarrow> P (tty_intr n signal s)"
  by (auto simp: tty_intr_def task_rest intro!: fold_keeps [of P])

lemma cook_char_keeps [keeps]: "P s \<Longrightarrow> kok P (cook_char n c s)"
  by (simp add: cook_char_def Let_def tty_keeps tty_intr_keeps cook_erase_keeps cook_store_keeps split: option.split)

lemma cook_loop_keeps [rule_format, keeps]: "\<forall>n s. P s \<longrightarrow> ook P (cook_loop n s)"
  by (rule cook_loop.fixp_induct [OF loop_adm(2)])
    (auto simp: cook_get_def tty_keeps split: prod.split intro!: keeps)

lemma do_tty_interrupt_keeps [keeps]: "P s \<Longrightarrow> kok P (do_tty_interrupt n s)"
  by (auto simp: do_tty_interrupt_def copy_to_cooked_def intro!: keeps)

lemma map_descend_keeps [keeps]: "P s \<Longrightarrow> kok P (map_descend va top_level leaf level rec table s)"
proof (induction level arbitrary: rec table s)
  case (Suc level)
  then show ?case
    by (subst map_descend.simps) (auto simp: map_rollback_def Let_def intro!: keeps)
qed (subst map_descend.simps, simp)

lemma map_page_keeps [keeps]: "P s \<Longrightarrow> kok P (map_page pt va pa perm top_level leaf s)"
  by (auto simp: map_page_def split: option.split intro!: keeps)

lemma do_page_fault_keeps [keeps]: "P s \<Longrightarrow> kok P (do_page_fault a s)"
  by (auto simp: do_page_fault_def get_pte_def do_wp_page_def do_no_page_def wp_copy_def set_writable_def get_count_def dec_count_def
      set_count_def memcpy_page_def Let_def mem intro!: keeps)

lemma do_pause_keeps [keeps]: "P s \<Longrightarrow> kok P (do_pause s)"
  by (auto simp: do_pause_def task_rest intro!: keeps)

lemma sys_pause_keeps [keeps]: "P s \<Longrightarrow> kok P (sys_pause s)"
  unfolding sys_pause_def by (rule keeps)

lemma leave_keeps [keeps]: "P s \<Longrightarrow> kok P (leave_tty s)" "P s \<Longrightarrow> P (orphan s)"
  by (auto simp: leave_tty_def orphan_def Let_def tty_keeps task_rest intro!: fold_keeps [of P])

end

locale kernel_stable = call_stable P for P :: "'a kernel_scheme \<Rightarrow> bool" +
  assumes boot: "P s \<Longrightarrow> P (s\<lparr>kbytes := m\<rparr>)" "P s \<Longrightarrow> P (s\<lparr>sbi_out := out\<rparr>)" "P s \<Longrightarrow> P (s\<lparr>printk_write := w\<rparr>)"
    "P s \<Longrightarrow> P (s\<lparr>setup_callable := c\<rparr>)" "P s \<Longrightarrow> P (s\<lparr>hd_part := h\<rparr>)"
begin

lemma printk_keeps [keeps]: "P s \<Longrightarrow> kok P (printk fmt args s)"
  by (auto simp: printk_def printk_sbi_write_def Let_def boot split: option.split printk_writer.split intro!: keeps)

lemma mount_root_keeps [keeps]: "P s \<Longrightarrow> kok P (mount_root s)"
  by (simp add: mount_root_def sizeof_d_inode_def)

lemma sys_setup_keeps [keeps]: "P s \<Longrightarrow> kok P (sys_setup plural s)"
  by (auto simp: sys_setup_def setup_drive_def printk_init_def Let_def boot intro!: keeps fold_keeps [of P])

end

subsection \<open>Processes and descriptors\<close>

locale task_stable = kernel_stable P for P :: "'a kernel_scheme \<Rightarrow> bool" +
  assumes proc: "P s \<Longrightarrow> P (s\<lparr>tasks := x\<rparr>)" "P s \<Longrightarrow> P (s\<lparr>task := y\<rparr>)" "P s \<Longrightarrow> P (s\<lparr>task_pgd := z\<rparr>)"
      "P s \<Longrightarrow> P (s\<lparr>last_pid := i\<rparr>)" "P s \<Longrightarrow> P (s\<lparr>last_task_used_math := m\<rparr>)"
    and table: "P s \<Longrightarrow> P (s\<lparr>files := w\<rparr>)"
begin

lemma table_keeps: "P s \<Longrightarrow> P (upd_task p f s)" "P s \<Longrightarrow> P (upd_file q g s)" "P s \<Longrightarrow> P (set_filp k f' s)"
  "P s \<Longrightarrow> P (clear_cloexec k s)" "P s \<Longrightarrow> P (set_f_count f' c s)"
  by (simp_all add: upd_task_def upd_file_def set_filp_def clear_cloexec_def set_f_count_def proc table)

lemma close_keeps [keeps]: "P s \<Longrightarrow> kok P (dupfd fd arg s)" "P s \<Longrightarrow> kok P (do_close fd s)"
  by (auto simp: dupfd_def do_close_def Let_def table_keeps split: option.split intro!: keeps)

lemma do_open_keeps [keeps]: "P s \<Longrightarrow> kok P (do_open path flag mode s)"
  by (auto simp: do_open_def Let_def table_keeps split: option.split intro!: keeps)

lemma sys_pipe_keeps [keeps]: "P s \<Longrightarrow> kok P (sys_pipe fildes s)"
  by (auto simp: sys_pipe_def Let_def table_keeps split: list.split intro!: keeps)

lemma two_pages_keeps [keeps]: "P s \<Longrightarrow> kok P (free_two_pages a s)" "P s \<Longrightarrow> kok P (get_two_free_pages s)"
  by (auto simp: free_two_pages_def get_two_free_pages_def get_count_def set_count_def split: option.split intro!: keeps prims)

lemma copy_page_tables_keeps [keeps]: "P s \<Longrightarrow> kok P (copy_page_tables p s)"
  by (auto simp: copy_page_tables_def reference_count_one_table_def inc_count_def get_count_def set_count_def memcpy_page_def Let_def
      proc mem intro!: keeps)

lemma sys_fork_keeps [keeps]: "P s \<Longrightarrow> kok P (sys_fork s)"
  by (auto simp: sys_fork_def copy_process_def find_empty_process_def copy_regs_def Let_def proc split: option.split intro!: keeps)

lemma become_zombie_keeps [keeps]: "P s \<Longrightarrow> P (become_zombie code s)"
  by (simp add: become_zombie_def Let_def table_keeps proc do_kill_keeps)

lemma do_exit_keeps [keeps]: "P s \<Longrightarrow> kok P (do_exit code s)"
  by (auto simp: do_exit_def close_all_def table_keeps intro!: keeps)

lemma release_keeps [keeps]: "P s \<Longrightarrow> kok P (release p s)"
proof -
  have "P s \<Longrightarrow> kok P (release_loop is p s)" for "is"
    by (induction "is" arbitrary: s) (auto simp: proc intro!: keeps)
  then show "P s \<Longrightarrow> kok P (release p s)" by (simp add: release_def)
qed

lemma wait_round_keeps [keeps]: "P s \<Longrightarrow> rok P (\<lambda>t. t) (wait_round pid a options flag s)"
proof (cases "wait_scan pid s slots flag")
  case (Inl p)
  then show "P s \<Longrightarrow> rok P (\<lambda>t. t) (wait_round pid a options flag s)"
    by (auto simp: wait_round_def reap_def store_uint_def Let_def table_keeps intro!: keeps)
next
  case (Inr b)
  then show "P s \<Longrightarrow> rok P (\<lambda>t. t) (wait_round pid a options flag s)"
    by (cases b) (auto simp: wait_round_def Let_def table_keeps intro!: keeps)
qed

lemma wait_loop_keeps [rule_format, keeps]: "\<forall>pid a options flag s. P s \<longrightarrow> ook P (wait_loop pid a options flag s)"
  by (rule wait_loop.fixp_induct [OF loop_adm(5)]) (auto intro!: keeps)

lemma sys_waitpid_keeps [keeps]: "P s \<Longrightarrow> kok P (sys_waitpid a0 a1 a2 s)"
  by (auto simp: sys_waitpid_def intro!: keeps)

lemma system_call_keeps [keeps]: "P s \<Longrightarrow> kok P (system_call e r s)"
  by (auto simp: system_call_def sys_call_table_def sys_exit_def sys_open_def sys_creat_def sys_close_def sys_dup_def sys_dup2_def
      sys_fcntl_def sys_kill_def Let_def table_keeps intro!: keeps)

end

end
