(* ===== verification/Kernel_Run.thy ===== *)
theory Kernel_Run
  imports Call_Frame Super_Props
begin

text \<open>
  The states the kernel passes through, as an inductive relation over system calls, exceptions and interrupts.
  What the locales of \<open>Call_Frame\<close> show of the single steps holds along every such run; the first
  application are the terminals, whose indices stay inside their buffers.
\<close>

subsection \<open>Runs\<close>

text \<open>Steps are system calls with any registers and any user memory (except those whose number is in \<open>F\<close>),
  page faults and other exceptions of the current process, clock ticks, disk interrupts, interrupts of the
  serial line, and the line discipline run on a read queue that holds any characters.  The state a step leads to is the one
  it returns in, or the one it stops in: where it panics, faults, or switches to another process.\<close>

inductive kernel_run :: "u64 set \<Rightarrow> 'a kernel_scheme \<Rightarrow> 'a kernel_scheme \<Rightarrow> bool" for F where
  start: "kernel_run F s s"
| syscall: "kernel_run F s t \<Longrightarrow> r_a7 r \<notin> F \<Longrightarrow> kernel_run F s (kstate (system_call e r t))"
| page_fault: "kernel_run F s t \<Longrightarrow> kernel_run F s (kstate (do_page_fault a t))"
| exception: "kernel_run F s t \<Longrightarrow> kernel_run F s (kstate (die lit msg r t))"
| breakpoint: "kernel_run F s t \<Longrightarrow> kernel_run F s (kstate (do_break lit r t))"
| tick: "kernel_run F s t \<Longrightarrow> kernel_run F s (kstate (do_timer user t))"
| disk: "kernel_run F s t \<Longrightarrow> kernel_run F s (kstate (hd_interrupt t))"
| serial: "kernel_run F s t \<Longrightarrow> kernel_run F s (kstate (rs_interrupt rs t))"
| typed: "kernel_run F s t \<Longrightarrow> wfq q \<Longrightarrow> kernel_run F s (kstate (do_tty_interrupt n (upd_tty n (\<lambda>y. y\<lparr>read_q := q\<rparr>) t)))"

text \<open>What the calls keep, the runs keep.\<close>

context kernel_stable
begin

lemma typed_keeps: "P s \<Longrightarrow> wfq q \<Longrightarrow> P (upd_tty n (\<lambda>y. y\<lparr>read_q := q\<rparr>) s)"
  by (rule upd_tty) (simp_all add: wf_tty_def)

lemma run_keeps:
  assumes "kernel_run F s t" "P s" "\<And>e r t. r_a7 r \<notin> F \<Longrightarrow> P t \<Longrightarrow> kok P (system_call e r t)"
    "\<And>c t. P t \<Longrightarrow> kok P (do_exit c t)"
  shows "P t"
  using assms(1,2)
proof (induction rule: kernel_run.induct)
  case (syscall s t r e)
  then show ?case using assms(3) kok_kstate by blast
qed (auto simp: kok_kstate [symmetric] die_def do_break_def skip_insn_def assms(4) rs_interrupt_idle typed_keeps intro!: keeps)

end

context task_stable
begin

lemma reachable_keeps: "kernel_run F s t \<Longrightarrow> P s \<Longrightarrow> P t"
  using run_keeps system_call_keeps do_exit_keeps by blast

end

subsection \<open>The queues of the terminals\<close>

lemma CHARS_bytes: "wfq q \<Longrightarrow> unat (CHARS q) = length (bytes q)"
proof -
  assume "wfq q"
  then have w: "hix q < 1024" "tix q < 1024" by (simp_all add: wfq_def)
  have "int (unat (CHARS q)) = (int (hix q) - int (tix q)) mod 1024"
    using uint_wrap [of "q_head q" "q_tail q"] by (simp add: CHARS_def uint_and_mask10 hix_def tix_def)
  also have "\<dots> = int (ring_len 1024 (hix q) (tix q))"
  proof (cases "tix q \<le> hix q")
    case False
    then have "(int (hix q) - int (tix q)) mod 1024 = (int (hix q) - int (tix q) + 1024) mod 1024" by simp
    also have "\<dots> = int (hix q) - int (tix q) + 1024" using False w by (intro mod_pos_pos_trivial) auto
    finally show ?thesis using False w by (simp add: ring_len_cases)
  qed (use w in \<open>simp add: ring_len_cases\<close>)
  finally show ?thesis by (simp only: bytes_def length_ring_list of_nat_eq_iff)
qed

interpretation terminal: task_stable "\<lambda>s. wf_tty (tty_table s n)" for n
  by unfold_locales (auto simp: upd_tty_def upd_task_def upd_buf_def upd_inode_def virtio_cmd_def VIRT_ACK_def upd_file_def split: prod.splits)

text \<open>C34: The queues of the terminals stay typed.  From a state in which head and tail of every queue are
  indices of its buffer of 1024 bytes, any run of the kernel -- all system calls with any arguments,
  exceptions, interrupts, and any characters received -- leads to such a state, also where a step panics or stops in the middle.
  So no read, write, echo or erase of a character leaves the buffer, and the macro \<open>CHARS\<close> gives the number of characters in the queue.\<close>

theorem terminal_queues_typed:
  fixes s :: "'a kernel_scheme"
  assumes "kernel_run {} s t" "\<forall>n < 3. wf_tty (tty_table s n)" "n < 3" "q \<in> {read_q (tty_table t n), write_q (tty_table t n), secondary (tty_table t n)}"
  shows "unat (q_head q) < 1024 \<and> unat (q_tail q) < 1024 \<and> unat (CHARS q) = length (bytes q)"
proof -
  have "wf_tty (tty_table t n)" using terminal.reachable_keeps [OF assms(1)] assms(2,3) by blast
  then have "wfq q" using assms(4) by (auto simp: wf_tty_def)
  then show ?thesis using CHARS_bytes by (simp add: wfq_def hix_def tix_def)
qed

definition call_regs :: "u64 \<Rightarrow> u64 \<Rightarrow> pt_regs" where
  "call_regs n a = \<lparr>r_epc = 0, r_ra = 0, r_sp = 0, r_tp = 0, r_a0 = a, r_a1 = 0, r_a2 = 0, r_a7 = n, r_status = 0, r_badaddr = 0, r_cause = 8, r_orig_a0 = 0\<rparr>"

definition no_memory :: sys_params where
  "no_memory = \<lparr>ubytes = \<lambda>_. [], regs_addr = 0, second_arg = 0, stack_junk = \<lambda>_. 0, plural_text = \<lambda>_. 0, undef = \<lambda>_. 0\<rparr>"


text \<open>A \<open>fork\<close> of the first process and a clock tick, in the state after start-up.\<close>

lemma terminal_queues_typed_witness:
  "let q = secondary (tty_table (kstate (do_timer True (kstate (system_call no_memory (call_regs 2 0) boot_kernel)))) 1) in
     unat (q_head q) < 1024 \<and> unat (q_tail q) < 1024 \<and> unat (CHARS q) = length (bytes q)"
proof -
  have "tty_table boot_kernel = tty_table boot_ttys"
    by (simp add: boot_kernel_def kern.extend_def boot_kern_def ttys.extend_def boot_ttys_def sched.extend_def)
  then have "\<forall>n < 3. wf_tty (tty_table boot_kernel n)" by (simp add: boot_ttys_table init_tty_table_def wf_tty_def)
  moreover have "kernel_run {} boot_kernel (kstate (do_timer True (kstate (system_call no_memory (call_regs 2 0) boot_kernel))))"
    by (intro kernel_run.intros) simp
  ultimately show ?thesis using terminal_queues_typed [of boot_kernel _ 1] by (simp add: Let_def)
qed

end
