(* ===== verification/Fd_Calls.thy ===== *)
theory Fd_Calls
  imports Kernel_Run Files_Props Process_Props Traps
begin

text \<open>
  The reference counts of the file table under all system calls.  The routines below the descriptors -- path
  names, inodes, buffers, disk, scheduler, terminals, pipes -- are shown to leave the descriptors and the counts
  alone by interpreting the locales of \<open>Fs_Frame\<close> and \<open>Call_Frame\<close>; what is left are the calls that open, duplicate and close.
\<close>

subsection \<open>What the routines below the descriptors do not touch\<close>

text \<open>The descriptors of all tasks and the counts of all files.\<close>

definition fdview :: "'a kern_scheme \<Rightarrow> (nat \<Rightarrow> u64) \<times> u64 \<times> u64 \<times> (u64 \<Rightarrow> nat \<Rightarrow> u64) \<times> (u64 \<Rightarrow> u16)" where
  "fdview s = (task s, current s, file_table s, \<lambda>p. t_filp (tasks s p), \<lambda>f. f_count (files s f))"

lemma core_filp: "(\<And>t. task_core (f t) = task_core t) \<Longrightarrow> t_filp (f t) = t_filp t"
  by (metis task_core_def task_struct.select_convs task_struct.surjective task_struct.update_convs)

definition fd_inv :: "'a kern_scheme \<Rightarrow> bool" where
  "fd_inv s \<longleftrightarrow> counts_ok s \<and> current s \<in> live s \<and> (\<forall>k < NR_FILE. file_at s k \<noteq> 0)"

lemma fd_inv_view: "fdview t = fdview s \<Longrightarrow> fd_inv t = fd_inv s"
  by (simp add: fdview_def fd_inv_def counts_ok_def ref_set_def live_def file_at_def fun_eq_iff)

lemmas view_simps = fdview_def upd_tty_def upd_task_def upd_buf_def upd_inode_def virtio_cmd_def VIRT_ACK_def upd_file_def

interpretation fd: kernel_stable "\<lambda>t. fdview t = v" for v
  by unfold_locales (auto simp: view_simps core_filp fun_eq_iff split: prod.splits)

interpretation counts: kernel_stable fd_inv
proof unfold_locales
qed (erule fd_inv_view [THEN iffD2, rotated], simp add: view_simps core_filp fun_eq_iff split: prod.splits)+

subsection \<open>Opening and closing\<close>

lemma fd_inv_open:
  assumes "fd_inv s" "k < NR_OPEN" "filp s k = 0" "f \<noteq> 0"
  shows "fd_inv (upd_file f (\<lambda>x. x\<lparr>f_count := f_count x + 1\<rparr>) (set_filp k f s))"
  using assms counts_open_fd [of s k f]
  by (simp add: fd_inv_def) (simp add: live_def upd_file_def set_filp_def upd_task_def file_at_def)

lemma fd_inv_close:
  assumes "fd_inv s" "k < NR_OPEN" "filp s k = f" "f \<noteq> 0"
  shows "fd_inv (upd_file f (\<lambda>x. x\<lparr>f_count := f_count x - 1\<rparr>) (set_filp k 0 s))"
  using assms counts_close_fd [of s k f]
  by (simp add: fd_inv_def) (simp add: live_def upd_file_def set_filp_def upd_task_def file_at_def)

lemma cloexec_view [simp]: "fdview (clear_cloexec k s) = fdview s"
  by (simp add: clear_cloexec_def view_simps fun_eq_iff)

lemma fd_inv_cloexec [simp]: "fd_inv (clear_cloexec k s) = fd_inv s"
  by (rule fd_inv_view) simp

lemma view_fields: "fdview t = fdview s \<Longrightarrow> filp t = filp s \<and> f_count (files t f) = f_count (files s f) \<and> file_at t = file_at s"
  by (auto simp: fdview_def filp_def file_at_def fun_eq_iff)

lemma files_upd: "files (upd_file f g s) = (files s)(f := g (files s f))"
  by (simp add: upd_file_def)

lemma dupfd_counts [keeps]: "fd_inv s \<Longrightarrow> kok fd_inv (dupfd fd arg s)"
  by (auto simp: dupfd_def Let_def find_upt_Some_iff split: option.split intro!: fd_inv_open)

lemma do_close_counts [keeps]:
  fixes s :: "'a kernel_scheme"
  shows "fd_inv s \<Longrightarrow> kok fd_inv (do_close fd s)"
  using count_pos [of s "unat fd"]
  by (auto simp: do_close_def Let_def fd_inv_def [of s] intro!: keeps fd_inv_close)

text \<open>The descriptor \<open>k\<close> is given up for a file that has no other.\<close>

lemma fd_inv_undo:
  assumes "fd_inv s" "k < NR_OPEN" "filp s k = f" "f \<noteq> 0" "f_count (files s f) = 1"
  shows "fd_inv (set_f_count f 0 (set_filp k 0 s))"
proof -
  have "set_f_count f 0 (set_filp k 0 s) = upd_file f (\<lambda>x. x\<lparr>f_count := f_count x - 1\<rparr>) (set_filp k 0 s)"
    using assms(5) by (simp add: set_f_count_def upd_file_def set_filp_def upd_task_def)
  then show ?thesis using fd_inv_close [OF assms(1-4)] by simp
qed

lemma open_finish_counts:
  fixes u :: "'a kernel_scheme"
  assumes "fd_inv u" "filp u k = f" "f \<noteq> 0" "f_count (files u f) = 1" "k < NR_OPEN"
  shows "kok fd_inv (if \<not> ok then kseq (iput p) (kseq (kmodify (\<lambda>s. set_f_count f 0 (set_filp k 0 s))) (kreturn (- EPERM))) u
    else Inr (r, upd_file f (\<lambda>x. x\<lparr>f_mode := m, f_flags := fl, f_count := 1, f_inode := p, f_pos := 0\<rparr>) u))"
proof -
  have "fdview (upd_file f (\<lambda>x. x\<lparr>f_mode := m, f_flags := fl, f_count := 1, f_inode := p, f_pos := 0\<rparr>) u) = fdview u"
    using assms(4) by (auto simp: fdview_def upd_file_def)
  note v = fd_inv_view [OF this]
  have i: "fd_inv t" "fd_inv (set_f_count f 0 (set_filp k 0 t))" if "fdview t = fdview u" for t :: "'a kernel_scheme"
    using that view_fields [OF that] fd_inv_view [OF that] assms by (simp, intro fd_inv_undo) simp_all
  have "kok (\<lambda>t. fdview t = fdview u) (iput p u)" by (rule fd.iput_keeps) simp
  then have "kok fd_inv (kseq (iput p) (kseq (kmodify (\<lambda>s. set_f_count f 0 (set_filp k 0 s))) (kreturn (- EPERM))) u)"
    unfolding kseq_def [of "iput p"] by (rule kok_bind_weak) (use i in \<open>auto simp: kseq_def kbind_def kmodify_def\<close>)
  then show ?thesis using assms(1) v by simp
qed

lemma do_open_counts [keeps]:
  fixes s :: "'a kernel_scheme"
  assumes "fd_inv s"
  shows "kok fd_inv (do_open path flag mode s)"
proof -
  let ?t = "\<lambda>k f. upd_file f (\<lambda>x. x\<lparr>f_count := f_count x + 1\<rparr>) (set_filp k f (clear_cloexec k s))"
  have *: "kok fd_inv (kbind (open_namei path flag m) (\<lambda>r t.
      if fst r < 0 then Inr (fst r, set_f_count f 0 (set_filp k 0 t))
      else let p = snd r in kbind (open_tty p) (\<lambda>ok u.
        if \<not> ok then kseq (iput p) (kseq (kmodify (\<lambda>s. set_f_count f 0 (set_filp k 0 s))) (kreturn (- EPERM))) u
        else Inr (int k, upd_file f (\<lambda>x. x\<lparr>f_mode := i_mode (inodes u p), f_flags := ucast flag,
               f_count := 1, f_inode := p, f_pos := 0\<rparr>) u)) t) (?t k f))"
    if k: "k < NR_OPEN" "filp s k = 0" "f = file_at s j" "f_count (files s f) = 0" "j < NR_FILE" for k f j m
  proof -
    have f: "f \<noteq> 0" using assms k(3,5) by (simp add: fd_inv_def)
    have t: "fd_inv (?t k f)" using assms k(1,2) f by (intro fd_inv_open) simp_all
    have v: "filp (?t k f) k = f" "f_count (files (?t k f) f) = 1" using k(4) by (simp, simp add: upd_file_def)
    have w: "fd_inv u \<and> filp u k = f \<and> f_count (files u f) = 1" if "fdview u = fdview (?t k f)" for u :: "'a kernel_scheme"
      using that view_fields [OF that, of f] fd_inv_view [OF that] t v by simp
    show ?thesis
      by (rule kok_bind_weak [where P = "\<lambda>u. fdview u = fdview (?t k f)"])
        (auto simp: Let_def w f k(1) fd_inv_undo
          intro!: fd.open_namei_keeps kok_bind_weak [where P = "\<lambda>u. fdview u = fdview (?t k f)"] fd.open_tty_keeps open_finish_counts)
  qed
  show ?thesis
    using assms * by (auto simp: do_open_def Let_def find_upt_Some_iff view_fields [OF cloexec_view] split: option.split)
qed

lemma two_first:
  assumes "take 2 (filter Q [0..<n]) = [i, j]"
  shows "i < n \<and> j < n \<and> i \<noteq> j \<and> Q i \<and> Q j"
proof -
  have "distinct (take 2 (filter Q [0..<n]))" by simp
  then show ?thesis using set_take_subset [of 2 "filter Q [0..<n]"] unfolding assms by simp
qed

lemma file_at_inj: "i < NR_FILE \<Longrightarrow> j < NR_FILE \<Longrightarrow> file_at s i = file_at s j \<longleftrightarrow> i = j"
proof -
  assume ij: "i < NR_FILE" "j < NR_FILE"
  have "file_at s i = file_at s j \<longleftrightarrow> (of_nat (24 * i) :: u64) = of_nat (24 * j)" by (simp add: file_at_def del: of_nat_mult)
  also have "\<dots> \<longleftrightarrow> i = j"
    using ij by (simp add: word_unat_eq_iff unat_of_nat NR_FILE_def take_bit_nat_eq_self del: of_nat_mult)
  finally show ?thesis .
qed

text \<open>The two entries of the file table and the two descriptors \<open>sys_pipe\<close> takes.\<close>

lemma free_files_two:
  assumes "fd_inv s" "free_files s = [i, j]"
  shows "file_at s i \<noteq> 0 \<and> file_at s j \<noteq> 0 \<and> file_at s i \<noteq> file_at s j
    \<and> f_count (files s (file_at s i)) = 0 \<and> f_count (files s (file_at s j)) = 0"
proof -
  have t: "i < NR_FILE \<and> j < NR_FILE \<and> i \<noteq> j \<and> f_count (files s (file_at s i)) = 0 \<and> f_count (files s (file_at s j)) = 0"
    by (rule two_first) (use assms(2) in \<open>simp only: free_files_def\<close>)
  then show ?thesis using file_at_inj [of i j s] assms(1) unfolding fd_inv_def by blast
qed

abbreviation raise_count :: "u64 \<Rightarrow> 'a kernel_scheme \<Rightarrow> 'a kernel_scheme" where
  "raise_count f \<equiv> upd_file f (\<lambda>x. x\<lparr>f_count := f_count x + 1\<rparr>)"

lemma free_fds_two:
  assumes "free_fds (raise_count f1 (raise_count f0 s)) = [a, b]"
  shows "a < NR_OPEN \<and> b < NR_OPEN \<and> a \<noteq> b \<and> filp s a = 0 \<and> filp s b = 0"
proof -
  have "free_fds (raise_count f1 (raise_count f0 s)) = take 2 (filter (\<lambda>k. filp s k = 0) [0..<NR_OPEN])"
    by (simp add: free_fds_def filp_def upd_file_def)
  then have "take 2 (filter (\<lambda>k. filp s k = 0) [0..<NR_OPEN]) = [a, b]" using assms by metis
  then show ?thesis by (rule two_first)
qed

lemma pipe_drop_counts:
  assumes "fd_inv s" "f_count (files s f0) = 0" "f_count (files s f1) = 0"
  shows "fd_inv (set_f_count f0 0 (set_f_count f1 0 (raise_count f1 (raise_count f0 s))))"
proof -
  have "fdview (set_f_count f0 0 (set_f_count f1 0 (raise_count f1 (raise_count f0 s)))) = fdview s"
    using assms(2,3) by (auto simp: set_f_count_def fdview_def upd_file_def)
  then show ?thesis using fd_inv_view assms(1) by blast
qed

definition two_open :: "nat \<Rightarrow> u64 \<Rightarrow> nat \<Rightarrow> u64 \<Rightarrow> 'a kern_scheme \<Rightarrow> bool" where
  "two_open a f0 b f1 s \<longleftrightarrow> fd_inv s \<and> filp s a = f0 \<and> filp s b = f1 \<and> f_count (files s f0) = 1 \<and> f_count (files s f1) = 1
     \<and> f0 \<noteq> 0 \<and> f1 \<noteq> 0 \<and> f0 \<noteq> f1 \<and> a < NR_OPEN \<and> b < NR_OPEN \<and> a \<noteq> b"

lemma two_open_view: "fdview t = fdview s \<Longrightarrow> two_open a f0 b f1 t = two_open a f0 b f1 s"
  using view_fields [of t s] fd_inv_view [of t s] by (simp add: two_open_def)

interpretation pipe: kernel_stable "two_open a f0 b f1" for a f0 b f1
proof unfold_locales
qed (erule two_open_view [THEN iffD2, rotated], simp add: view_simps core_filp fun_eq_iff split: prod.splits)+

lemma two_open_undo:
  assumes "two_open a f0 b f1 u"
  shows "fd_inv (set_f_count f0 0 (set_f_count f1 0 (set_filp a 0 (set_filp b 0 u))))"
proof -
  have "set_f_count f0 0 (set_f_count f1 0 (set_filp a 0 (set_filp b 0 u))) = set_f_count f0 0 (set_filp a 0 (set_f_count f1 0 (set_filp b 0 u)))"
    by (simp add: set_f_count_def upd_file_def set_filp_def upd_task_def)
  moreover have "fd_inv (set_f_count f1 0 (set_filp b 0 u))" using assms by (intro fd_inv_undo) (simp_all add: two_open_def)
  then have "fd_inv (set_f_count f0 0 (set_filp a 0 (set_f_count f1 0 (set_filp b 0 u))))"
    using assms by (intro fd_inv_undo) (simp_all add: two_open_def set_f_count_def files_upd)
  ultimately show ?thesis by simp
qed

lemma two_open_start:
  assumes "fd_inv s" "f0 \<noteq> 0" "f1 \<noteq> 0" "f0 \<noteq> f1" "f_count (files s f0) = 0" "f_count (files s f1) = 0"
    "a < NR_OPEN" "b < NR_OPEN" "a \<noteq> b" "filp s a = 0" "filp s b = 0"
  shows "two_open a f0 b f1 (set_filp b f1 (set_filp a f0 (raise_count f1 (raise_count f0 s))))"
proof -
  have "set_filp b f1 (set_filp a f0 (raise_count f1 (raise_count f0 s))) = raise_count f1 (set_filp b f1 (raise_count f0 (set_filp a f0 s)))"
    by (simp add: upd_file_def set_filp_def upd_task_def)
  moreover have "fd_inv (raise_count f0 (set_filp a f0 s))" using assms by (intro fd_inv_open)
  then have "fd_inv (raise_count f1 (set_filp b f1 (raise_count f0 (set_filp a f0 s))))" using assms by (intro fd_inv_open) simp_all
  ultimately show ?thesis using assms by (simp add: two_open_def) (simp add: files_upd)
qed

lemma sys_pipe_counts [keeps]:
  fixes s :: "'a kernel_scheme"
  assumes "fd_inv s"
  shows "kok fd_inv (sys_pipe fildes s)"
proof -
  have "kok fd_inv (kbind get_pipe_inode (\<lambda>p u.
        if p = 0 then Inr (- 1, set_f_count f0 0 (set_f_count f1 0 (set_filp a 0 (set_filp b 0 u))))
        else kseq (kstore fildes (of_nat a)) (kseq (kstore (fildes + 8) (of_nat b)) (kreturn 0))
               (upd_file f1 (pipe_file p 2) (upd_file f0 (pipe_file p 1) u))) t)"
    if "two_open a f0 b f1 t" for a f0 b f1 and t :: "'a kernel_scheme"
    by (rule kok_bind_weak [where P = "two_open a f0 b f1"])
      (use that two_open_undo in \<open>auto simp: two_open_def pipe_file_def intro!: pipe.get_empty_inode_keeps keeps counts.file_rest\<close>)
  note * = this [OF two_open_start]
  show ?thesis
    using assms free_files_two [OF assms]
    by (auto simp: sys_pipe_def Let_def pipe_drop_counts dest!: free_fds_two intro!: * split: list.split)
qed

subsection \<open>All calls\<close>

lemma close_all_counts [keeps]: "fd_inv s \<Longrightarrow> kok fd_inv (close_all s)" for s :: "'a kernel_scheme"
  by (auto simp: close_all_def intro!: keeps)

lemma become_zombie_counts [keeps]: "fd_inv s \<Longrightarrow> fd_inv (become_zombie code s)" for s :: "'a kernel_scheme"
proof -
  assume "fd_inv s"
  moreover have "fd_inv (s\<lparr>last_task_used_math := 0\<rparr>) = fd_inv s" by (rule fd_inv_view) (simp add: fdview_def)
  ultimately show ?thesis
    by (auto simp: become_zombie_def Let_def intro!: counts.task_rest keeps)
qed

lemma do_exit_counts [keeps]: "fd_inv s \<Longrightarrow> kok fd_inv (do_exit code s)" for s :: "'a kernel_scheme"
  by (auto simp: do_exit_def intro!: keeps counts.task_rest)

lemma schedule_stops: "\<exists>e t. schedule s = Inl (e, t)"
  by (auto simp: schedule_def Let_def context_switch_def sched_loop_slot split: option.split)

lemma do_pause_stops: "\<exists>e t. do_pause s = Inl (e, t)"
proof -
  obtain e t where "schedule (upd_task (current s) (\<lambda>t. t\<lparr>t_state := TASK_INTERRUPTIBLE\<rparr>) s) = Inl (e, t)"
    using schedule_stops by blast
  then show ?thesis by (simp add: do_pause_def kres_simps)
qed

lemma waitpid_counts [keeps]:
  fixes s :: "'a kernel_scheme"
  assumes "fd_inv s"
  shows "kok fd_inv (sys_waitpid a0 a1 a2 s)"
proof (cases "wait_scan (reg_int a0) s slots False")
  case (Inl p)
  then show ?thesis using waitpid_zombie [OF Inl, of a1 a2] assms by auto
next
  case (Inr b)
  obtain e t where p: "do_pause s = Inl (e, t)" using do_pause_stops by blast
  have "fd_inv t" using counts.do_pause_keeps [OF assms] p by simp
  then have "ook fd_inv (wait_loop (reg_int a0) a1 (reg_uint a2) False s)"
    using Inr p assms by (subst wait_loop.simps) (auto simp: wait_round_def split: bool.split)
  then show ?thesis
    using verify_loop_cases [of "a1 AND NOT 0xFFF" "4 + uint (a1 AND 0xFFF)" s] assms
    by (auto simp: sys_waitpid_def verify_area_def kseq_def kbind_def intro!: kok_loop)
qed

lemma table_counts:
  fixes s :: "'a kernel_scheme"
  assumes "fd_inv s" "n \<noteq> 2"
  shows "kok fd_inv (sys_call_table e n r s)"
  using assms unfolding sys_call_table_def Let_def
  by (auto simp: sys_exit_def sys_open_def sys_creat_def sys_close_def sys_dup_def sys_dup2_def sys_fcntl_def sys_kill_def Let_def
      intro!: keeps counts.task_rest counts.file_rest)

lemma system_call_counts:
  fixes s :: "'a kernel_scheme"
  assumes "fd_inv s" "r_a7 r \<noteq> 2"
  shows "kok fd_inv (system_call e r s)"
proof -
  have "unat (r_a7 r) \<noteq> 2"
    using assms(2) word_unat_eq_iff [of "r_a7 r" 2] by simp
  then show ?thesis
    using assms(1) by (auto simp: system_call_def Let_def intro!: keeps table_counts)
qed

subsection \<open>Reachable states\<close>

lemma counts_run: "kernel_run {2} s t \<Longrightarrow> fd_inv s \<Longrightarrow> fd_inv t"
  by (erule counts.run_keeps) (simp_all add: system_call_counts do_exit_counts)

text \<open>C33: The reference counts of the file table are exact in every state the kernel reaches.  From a state
  in which every entry counts the descriptors that refer to it, any sequence of system calls (of all 67
  numbers except \<open>fork\<close>, with any arguments), faults, clock ticks, disk interrupts and received characters
  leads to such a state again, also where a step panics or stops in the middle; so no descriptor refers to
  an entry that could be given to another file.\<close>

theorem file_counts_reachable:
  fixes s :: "'a kernel_scheme"
  assumes "kernel_run {2} s t" "counts_ok s" "current s \<in> live s" "\<forall>k < NR_FILE. file_at s k \<noteq> 0"
  shows "counts_ok t \<and> (\<forall>p \<in> live t. \<forall>k < NR_OPEN. t_filp (tasks t p) k \<noteq> 0 \<longrightarrow> f_count (files t (t_filp (tasks t p) k)) \<noteq> 0)"
proof -
  have c: "counts_ok t" using counts_run [OF assms(1)] assms(2-4) by (simp add: fd_inv_def)
  have "f_count (files t (t_filp (tasks t p) k)) \<noteq> 0"
    if p: "p \<in> live t" "k < NR_OPEN" "t_filp (tasks t p) k \<noteq> 0" for p k
  proof -
    have "(p, k) \<in> ref_set t (t_filp (tasks t p) k)" using p by (simp add: ref_set_def)
    then have "card (ref_set t (t_filp (tasks t p) k)) \<noteq> 0" using ref_set_bound(1) by (metis card_0_eq empty_iff)
    then show ?thesis using c p(3) by (auto simp: counts_ok_def)
  qed
  then show ?thesis using c by blast
qed

text \<open>Descriptor 1 of the first process is duplicated and closed.\<close>

definition started :: kernel where
  "started = upd_file 8192 (\<lambda>x. x\<lparr>f_count := 1\<rparr>) (set_filp 1 8192 boot_kernel)"

lemma started_counts: "counts_ok started" "current started \<in> live started" "\<forall>k < NR_FILE. file_at started k \<noteq> 0"
proof -
  have b: "current boot_kernel \<in> live boot_kernel" "t_filp (tasks boot_kernel p) k = 0" "f_count (files boot_kernel g) = 0"
    "file_table boot_kernel = 8192" for p k g
    by (auto simp: live_def NR_TASKS_def boot_kernel_def kern.extend_def boot_kern_def ttys.extend_def sched.extend_def
        two_tasks_def plain_task_def)
  have "file_at boot_kernel k \<noteq> 0" if "k < NR_FILE" for k
  proof -
    have "unat (file_at boot_kernel k) = 8192 + 24 * k"
      using that by (simp add: file_at_def b NR_FILE_def unat_word_ariths unat_of_nat)
    then show ?thesis by auto
  qed
  moreover have "ref_set boot_kernel g = {}" if "g \<noteq> 0" for g using that by (simp add: ref_set_def b)
  ultimately have i: "fd_inv boot_kernel" using b by (simp add: fd_inv_def counts_ok_def)
  have "upd_file 8192 (\<lambda>x. x\<lparr>f_count := f_count x + 1\<rparr>) (set_filp 1 8192 boot_kernel) = started"
    using b(3) by (simp add: started_def upd_file_def set_filp_def upd_task_def)
  then have "fd_inv started" using fd_inv_open [OF i, of 1 8192] b(2) by (simp add: NR_OPEN_def filp_def)
  then show "counts_ok started" "current started \<in> live started" "\<forall>k < NR_FILE. file_at started k \<noteq> 0"
    by (simp_all add: fd_inv_def)
qed

lemma file_counts_reachable_witness:
  "filp started 1 = 8192
    \<and> counts_ok (kstate (system_call no_memory (call_regs 6 1) (kstate (system_call no_memory (call_regs 41 1) started))))"
proof -
  have "kernel_run {2} started (kstate (system_call no_memory (call_regs 6 1) (kstate (system_call no_memory (call_regs 41 1) started))))"
    by (intro kernel_run.intros) (simp_all add: call_regs_def)
  then show ?thesis using file_counts_reachable [OF _ started_counts] by (simp add: started_def)
qed

end
