(* ===== verification/Layout.thy ===== *)
theory Layout
  imports Process Super Hd
begin

text \<open>
  The layout of the structures in memory, by the rules of the LP64 ABI of RISC-V: every scalar is aligned to its size, a
  structure to its most aligned member.  The offsets the assembler files use (\<open>asm/asm_offsets.h\<close>), the
  sizes the other theories use, and the queue the disk expects are checked against the declarations.
\<close>

subsection \<open>C types\<close>

datatype cty = Scalar nat | Array nat cty | Struct "(string \<times> cty) list"

definition align_up :: "nat \<Rightarrow> nat \<Rightarrow> nat" where
  "align_up a n = (n + a - 1) div a * a"

fun alignof :: "cty \<Rightarrow> nat" and align_fields :: "(string \<times> cty) list \<Rightarrow> nat" where
  "alignof (Scalar n) = n"
| "alignof (Array k t) = alignof t"
| "alignof (Struct fs) = align_fields fs"
| "align_fields [] = 1"
| "align_fields ((f, t) # fs) = max (alignof t) (align_fields fs)"

text \<open>\<open>end_fields n fs\<close> is the offset behind the members \<open>fs\<close> when they start at \<open>n\<close>.\<close>

fun sizeof :: "cty \<Rightarrow> nat" and end_fields :: "nat \<Rightarrow> (string \<times> cty) list \<Rightarrow> nat" where
  "sizeof (Scalar n) = n"
| "sizeof (Array k t) = k * sizeof t"
| "sizeof (Struct fs) = align_up (align_fields fs) (end_fields 0 fs)"
| "end_fields n [] = n"
| "end_fields n ((f, t) # fs) = end_fields (align_up (alignof t) n + sizeof t) fs"

fun field :: "nat \<Rightarrow> (string \<times> cty) list \<Rightarrow> string \<Rightarrow> (nat \<times> cty) option" where
  "field n [] f = None"
| "field n ((g, t) # fs) f =
     (let a = align_up (alignof t) n in if g = f then Some (a, t) else field (a + sizeof t) fs f)"

datatype access = Fld string | Idx nat

fun offsetof :: "cty \<Rightarrow> access list \<Rightarrow> nat option" where
  "offsetof t [] = Some 0"
| "offsetof (Struct fs) (Fld f # p) =
     (case field 0 fs f of None \<Rightarrow> None | Some (a, t) \<Rightarrow> map_option ((+) a) (offsetof t p))"
| "offsetof (Array k t) (Idx i # p) = (if i < k then map_option ((+) (i * sizeof t)) (offsetof t p) else None)"
| "offsetof _ _ = None"

abbreviation c_char :: cty where "c_char \<equiv> Scalar 1"
abbreviation c_short :: cty where "c_short \<equiv> Scalar 2"
abbreviation c_int :: cty where "c_int \<equiv> Scalar 4"
abbreviation c_long :: cty where "c_long \<equiv> Scalar 8"
abbreviation c_ptr :: cty where "c_ptr \<equiv> Scalar 8"

definition fields :: "cty \<Rightarrow> string list \<Rightarrow> (string \<times> cty) list" where
  "fields t fs = map (\<lambda>f. (f, t)) fs"

subsection \<open>The trap frame and the task structure\<close>

definition struct_pt_regs :: cty where
  "struct_pt_regs = Struct (fields c_long
     [''epc'', ''ra'', ''sp'', ''gp'', ''tp'', ''t0'', ''t1'', ''t2'', ''s0'', ''s1'', ''a0'', ''a1'', ''a2'', ''a3'', ''a4'', ''a5'',
      ''a6'', ''a7'', ''s2'', ''s3'', ''s4'', ''s5'', ''s6'', ''s7'', ''s8'', ''s9'', ''s10'', ''s11'', ''t3'', ''t4'', ''t5'', ''t6'',
      ''status'', ''badaddr'', ''cause'', ''orig_a0''])"

definition struct_riscv_d_ext_state :: cty where
  "struct_riscv_d_ext_state = Struct [(''f'', Array 32 c_long), (''fcsr'', c_int)]"

definition struct_thread_info :: cty where
  "struct_thread_info = Struct [(''flags'', c_long), (''kernel_sp'', c_long), (''user_sp'', c_long), (''cpu'', c_int)]"

definition struct_thread_struct :: cty where
  "struct_thread_struct = Struct
     [(''ra'', c_long), (''sp'', c_long), (''s'', Array 12 c_long), (''fstate'', struct_riscv_d_ext_state), (''bad_cause'', c_long)]"

definition struct_task_struct :: cty where
  "struct_task_struct = Struct (
     [(''thread_info'', struct_thread_info), (''state'', c_long), (''stack'', c_ptr), (''counter'', c_long), (''priority'', c_long),
      (''signal'', c_long), (''sig_restorer'', c_ptr), (''sig_fn'', Array 32 c_ptr), (''exit_code'', c_int), (''pgd'', c_ptr)]
     @ fields c_long [''end_code'', ''end_data'', ''brk'', ''start_stack'', ''pid'', ''father'', ''pgrp'', ''session'', ''leader'']
     @ fields c_short [''uid'', ''euid'', ''suid'', ''gid'', ''egid'', ''sgid'']
     @ fields c_long [''alarm'', ''utime'', ''stime'', ''cutime'', ''cstime'', ''start_time'']
     @ [(''used_math'', c_short), (''tty'', c_int), (''umask'', c_short), (''pwd'', c_ptr), (''root'', c_ptr), (''close_on_exec'', c_long),
        (''filp'', Array NR_OPEN c_ptr), (''thread'', struct_thread_struct)])"

subsection \<open>The offsets for the assembler\<close>

definition asm_offsets :: "(string \<times> nat) list" where
  "asm_offsets =
     [(''PT_SIZE'', 288),
      (''PT_EPC'', 0), (''PT_RA'', 8), (''PT_FP'', 64), (''PT_S0'', 64), (''PT_S1'', 72), (''PT_S2'', 144), (''PT_S3'', 152),
      (''PT_S4'', 160), (''PT_S5'', 168), (''PT_S6'', 176), (''PT_S7'', 184), (''PT_S8'', 192), (''PT_S9'', 200), (''PT_S10'', 208),
      (''PT_S11'', 216), (''PT_SP'', 16), (''PT_TP'', 32), (''PT_A0'', 80), (''PT_A1'', 88), (''PT_A2'', 96), (''PT_A3'', 104),
      (''PT_A4'', 112), (''PT_A5'', 120), (''PT_A6'', 128), (''PT_A7'', 136), (''PT_T0'', 40), (''PT_T1'', 48), (''PT_T2'', 56),
      (''PT_T3'', 224), (''PT_T4'', 232), (''PT_T5'', 240), (''PT_T6'', 248), (''PT_GP'', 24), (''PT_ORIG_A0'', 280),
      (''PT_STATUS'', 256), (''PT_BADADDR'', 264), (''PT_CAUSE'', 272),
      (''THREAD_RA'', 0), (''THREAD_SP'', 8), (''THREAD_S0'', 16), (''THREAD_S1'', 24), (''THREAD_S2'', 32), (''THREAD_S3'', 40),
      (''THREAD_S4'', 48), (''THREAD_S5'', 56), (''THREAD_S6'', 64), (''THREAD_S7'', 72), (''THREAD_S8'', 80), (''THREAD_S9'', 88),
      (''THREAD_S10'', 96), (''THREAD_S11'', 104), (''THREAD_F0'', 112), (''THREAD_F1'', 120), (''THREAD_F2'', 128), (''THREAD_F3'', 136),
      (''THREAD_F4'', 144), (''THREAD_F5'', 152), (''THREAD_F6'', 160), (''THREAD_F7'', 168), (''THREAD_F8'', 176), (''THREAD_F9'', 184),
      (''THREAD_F10'', 192), (''THREAD_F11'', 200), (''THREAD_F12'', 208), (''THREAD_F13'', 216), (''THREAD_F14'', 224),
      (''THREAD_F15'', 232), (''THREAD_F16'', 240), (''THREAD_F17'', 248), (''THREAD_F18'', 256), (''THREAD_F19'', 264),
      (''THREAD_F20'', 272), (''THREAD_F21'', 280), (''THREAD_F22'', 288), (''THREAD_F23'', 296), (''THREAD_F24'', 304),
      (''THREAD_F25'', 312), (''THREAD_F26'', 320), (''THREAD_F27'', 328), (''THREAD_F28'', 336), (''THREAD_F29'', 344),
      (''THREAD_F30'', 352), (''THREAD_F31'', 360), (''THREAD_FCSR'', 368),
      (''TASK_TI_FLAGS'', 0), (''TASK_TI_KERNEL_SP'', 8), (''TASK_TI_USER_SP'', 16), (''TASK_TI_CPU'', 24)]"

text \<open>\<open>OFFSET_TASK_THREAD\<close>, which \<open>start_kernel\<close> computes.\<close>

definition OFFSET_TASK_THREAD :: nat where
  "OFFSET_TASK_THREAD = the (offsetof struct_task_struct [Fld ''thread''])"

text \<open>What the names stand for: a member of a structure, which starts where the assembler's base register points.\<close>

definition pt_members :: "(string \<times> string) list" where
  "pt_members =
     [(''PT_EPC'', ''epc''), (''PT_RA'', ''ra''), (''PT_FP'', ''s0''), (''PT_S0'', ''s0''), (''PT_S1'', ''s1''), (''PT_S2'', ''s2''),
      (''PT_S3'', ''s3''), (''PT_S4'', ''s4''), (''PT_S5'', ''s5''), (''PT_S6'', ''s6''), (''PT_S7'', ''s7''), (''PT_S8'', ''s8''),
      (''PT_S9'', ''s9''), (''PT_S10'', ''s10''), (''PT_S11'', ''s11''), (''PT_SP'', ''sp''), (''PT_TP'', ''tp''), (''PT_A0'', ''a0''),
      (''PT_A1'', ''a1''), (''PT_A2'', ''a2''), (''PT_A3'', ''a3''), (''PT_A4'', ''a4''), (''PT_A5'', ''a5''), (''PT_A6'', ''a6''),
      (''PT_A7'', ''a7''), (''PT_T0'', ''t0''), (''PT_T1'', ''t1''), (''PT_T2'', ''t2''), (''PT_T3'', ''t3''), (''PT_T4'', ''t4''),
      (''PT_T5'', ''t5''), (''PT_T6'', ''t6''), (''PT_GP'', ''gp''), (''PT_ORIG_A0'', ''orig_a0''), (''PT_STATUS'', ''status''),
      (''PT_BADADDR'', ''badaddr''), (''PT_CAUSE'', ''cause'')]"

definition indexed :: "string \<Rightarrow> access list \<Rightarrow> nat \<Rightarrow> (string \<times> access list) list" where
  "indexed n p k = map (\<lambda>i. (n @ (if i < 10 then '''' else [char_of (48 + i div 10)]) @ [char_of (48 + i mod 10)], p @ [Idx i])) [0..<k]"

definition asm_members :: "(string \<times> cty \<times> access list) list" where
  "asm_members =
     map (\<lambda>(n, f). (n, struct_pt_regs, [Fld f])) pt_members
     @ map (\<lambda>(n, p). (n, struct_thread_struct, p))
         ([(''THREAD_RA'', [Fld ''ra'']), (''THREAD_SP'', [Fld ''sp''])] @ indexed ''THREAD_S'' [Fld ''s''] 12
          @ indexed ''THREAD_F'' [Fld ''fstate'', Fld ''f''] 32 @ [(''THREAD_FCSR'', [Fld ''fstate'', Fld ''fcsr''])])
     @ map (\<lambda>(n, f). (n, struct_task_struct, [Fld ''thread_info'', Fld f]))
         [(''TASK_TI_FLAGS'', ''flags''), (''TASK_TI_KERNEL_SP'', ''kernel_sp''), (''TASK_TI_USER_SP'', ''user_sp''), (''TASK_TI_CPU'', ''cpu'')]"


subsection \<open>The file system\<close>

definition struct_buffer_head :: cty where
  "struct_buffer_head = Struct (
     [(''b_data'', c_ptr), (''b_dev'', c_short), (''b_blocknr'', c_short)]
     @ fields c_char [''b_uptodate'', ''b_dirt'', ''b_count'', ''b_lock'']
     @ fields c_ptr [''b_wait'', ''b_prev'', ''b_next'', ''b_prev_free'', ''b_next_free''])"

definition struct_d_inode :: cty where
  "struct_d_inode = Struct
     [(''i_mode'', c_short), (''i_uid'', c_short), (''i_size'', c_long), (''i_time'', c_long), (''i_gid'', c_char), (''i_nlinks'', c_char),
      (''i_zone'', Array 9 c_short)]"

definition struct_m_inode :: cty where
  "struct_m_inode = Struct (
     [(''i_mode'', c_short), (''i_uid'', c_short), (''i_size'', c_long), (''i_mtime'', c_long), (''i_gid'', c_char), (''i_nlinks'', c_char),
      (''i_zone'', Array 9 c_short), (''i_wait'', c_ptr), (''i_atime'', c_long), (''i_ctime'', c_long)]
     @ fields c_short [''i_dev'', ''i_num'', ''i_count'']
     @ fields c_char [''i_lock'', ''i_dirt'', ''i_pipe'', ''i_mount'', ''i_seek'', ''i_update''])"

definition struct_file :: cty where
  "struct_file = Struct (fields c_short [''f_mode'', ''f_flags'', ''f_count''] @ [(''f_inode'', c_ptr), (''f_pos'', c_long)])"

definition struct_super_block :: cty where
  "struct_super_block = Struct (
     fields c_short [''s_ninodes'', ''s_nzones'', ''s_imap_blocks'', ''s_zmap_blocks'', ''s_firstdatazone'', ''s_log_zone_size'']
     @ [(''s_max_size'', c_long), (''s_magic'', c_short), (''s_imap'', Array 8 c_ptr), (''s_zmap'', Array 8 c_ptr), (''s_dev'', c_short),
        (''s_isup'', c_ptr), (''s_imount'', c_ptr), (''s_time'', c_long), (''s_rd_only'', c_char), (''s_dirt'', c_char)])"

definition struct_dir_entry :: cty where
  "struct_dir_entry = Struct [(''inode'', c_short), (''name'', Array NAME_LEN c_char)]"

definition struct_partition :: cty where
  "struct_partition = Struct (
     fields c_char [''boot_ind'', ''head'', ''sector'', ''cyl'', ''sys_ind'', ''end_head'', ''end_sector'', ''end_cyl'']
     @ fields c_int [''start_sect'', ''nr_sects''])"

definition struct_stat :: cty where
  "struct_stat = Struct (
     [(''st_dev'', c_short), (''st_ino'', c_short), (''st_mode'', c_short), (''st_nlink'', c_char), (''st_uid'', c_short),
      (''st_gid'', c_char), (''st_rdev'', c_short)]
     @ fields c_long [''st_size'', ''st_atime'', ''st_mtime'', ''st_ctime''])"

subsection \<open>The queue of the disk\<close>

definition QUEUE_SIZE :: nat where "QUEUE_SIZE = 4"

definition struct_virtq_desc :: cty where
  "struct_virtq_desc = Struct [(''addr'', c_long), (''len'', c_int), (''flags'', c_short), (''next'', c_short)]"

definition struct_virtq_avail :: cty where
  "struct_virtq_avail = Struct
     [(''flags'', c_short), (''idx'', c_short), (''ring'', Array QUEUE_SIZE c_short), (''used_event'', c_short)]"

definition struct_virtq_used_elem :: cty where
  "struct_virtq_used_elem = Struct [(''id'', c_int), (''len'', c_int)]"

definition struct_virtq_used :: cty where
  "struct_virtq_used = Struct
     [(''flags'', c_short), (''idx'', c_short), (''ring'', Array QUEUE_SIZE struct_virtq_used_elem), (''avail_event'', c_short)]"

definition struct_virtq :: cty where
  "struct_virtq = Struct
     [(''desc'', Array QUEUE_SIZE struct_virtq_desc), (''avail'', struct_virtq_avail),
      (''pad'', Array (4096 - 16 * QUEUE_SIZE - (6 + 2 * QUEUE_SIZE)) c_char), (''used'', struct_virtq_used)]"

definition struct_virtio_blk_req :: cty where
  "struct_virtio_blk_req = Struct [(''type'', c_int), (''reserved'', c_int), (''sector'', c_long)]"

definition struct_virtio_blk_config :: cty where
  "struct_virtio_blk_config = Struct (
     [(''capacity'', c_long), (''size_max'', c_int), (''seg_max'', c_int),
      (''geometry'', Struct [(''cylinders'', c_short), (''heads'', c_char), (''sectors'', c_char)]),
      (''blk_size'', c_int),
      (''topology'', Struct [(''physical_block_exp'', c_char), (''alignment_offset'', c_char), (''min_io_size'', c_short), (''opt_io_size'', c_int)]),
      (''writeback'', c_char), (''unused0'', c_char), (''num_queues'', c_short)]
     @ fields c_int [''max_discard_sectors'', ''max_discard_seg'', ''discard_sector_alignment'', ''max_write_zeroes_sectors'', ''max_write_zeroes_seg'']
     @ [(''write_zeroes_may_unmap'', c_char), (''unused1'', Array 3 c_char)]
     @ fields c_int [''max_secure_erase_sectors'', ''max_secure_erase_seg'', ''secure_erase_sector_alignment''])"

subsection \<open>Agreement\<close>

text \<open>Every offset of \<open>asm/asm_offsets.h\<close> is the offset of the member it is named after, by the
  declarations of \<open>struct pt_regs\<close>, \<open>thread_struct\<close> and \<open>thread_info\<close>, and \<open>PT_SIZE\<close> is the size of the trap frame.  The
  sizes that fork and the trap frame address depend on are those of the structures.\<close>

theorem asm_offsets_match:
  "asm_offsets = (''PT_SIZE'', sizeof struct_pt_regs) # map (\<lambda>(n, t, p). (n, the (offsetof t p))) asm_members
    \<and> list_all (\<lambda>(n, t, p). offsetof t p \<noteq> None) asm_members
    \<and> sizeof_pt_regs = of_nat (sizeof struct_pt_regs) \<and> sizeof_task_struct = of_nat (sizeof struct_task_struct)
    \<and> OFFSET_TASK_THREAD + sizeof struct_thread_struct = sizeof struct_task_struct"
  by code_simp

text \<open>The sizes with which the other theories step through tables, and the offsets at which they read and
  write structures on the disk and for the user.\<close>

lemma table_strides:
  "inode_at s (Suc i) - inode_at s i = of_nat (sizeof struct_m_inode)" "file_at s (Suc i) - file_at s i = of_nat (sizeof struct_file)"
proof -
  have *: "sizeof struct_m_inode = 88" "sizeof struct_file = 24" by code_simp+
  show "inode_at s (Suc i) - inode_at s i = of_nat (sizeof struct_m_inode)" "file_at s (Suc i) - file_at s i = of_nat (sizeof struct_file)"
    unfolding * by (simp_all add: inode_at_def file_at_def algebra_simps)
qed

lemma struct_sizes:
  "sizeof struct_d_inode = sizeof_d_inode" "sizeof struct_buffer_head = 56" "sizeof struct_dir_entry = 16"
  "sizeof struct_partition = 16" "sizeof struct_stat = 48"
  by code_simp+

lemma disk_offsets:
  "map (\<lambda>f. the (offsetof struct_d_inode [Fld f])) [''i_mode'', ''i_uid'', ''i_size'', ''i_time'', ''i_gid'', ''i_nlinks'', ''i_zone'']
    = [0, 2, 8, 16, 24, 25, 26]"
  "map (\<lambda>f. the (offsetof struct_super_block [Fld f]))
      [''s_max_size'', ''s_magic'', ''s_imap'', ''s_zmap'', ''s_dev'', ''s_isup'', ''s_imount'', ''s_time'', ''s_rd_only'', ''s_dirt'']
    = [16, 24, 32, 96, 160, 168, 176, 184, 192, 193]"
  "map (\<lambda>f. the (offsetof struct_stat [Fld f]))
      [''st_dev'', ''st_ino'', ''st_mode'', ''st_nlink'', ''st_uid'', ''st_gid'', ''st_rdev'', ''st_size'', ''st_atime'', ''st_mtime'', ''st_ctime'']
    = [0, 2, 4, 6, 8, 10, 12, 16, 24, 32, 40]"
  by code_simp+

text \<open>The positions of a pipe are two \<open>long\<close> in \<open>i_zone\<close>, whose address is never a multiple of eight.\<close>

lemma pipe_positions_misaligned: "the (offsetof struct_m_inode [Fld ''i_zone'']) mod 8 = 2" "sizeof struct_m_inode mod 8 = 0"
  by code_simp+

text \<open>The queue lies as the legacy interface of the device expects: the descriptors, behind them the available
  ring, and the used ring at the next multiple of the alignment of 4096 bytes.\<close>

lemma virtq_layout:
  "offsetof struct_virtq [Fld ''desc''] = Some 0"
  "offsetof struct_virtq [Fld ''avail''] = Some (16 * QUEUE_SIZE)"
  "offsetof struct_virtq [Fld ''used''] = Some (align_up 4096 (16 * QUEUE_SIZE + 2 * (3 + QUEUE_SIZE)))"
  "sizeof struct_virtq_desc = 16" "sizeof struct_virtio_blk_req = 16" "offsetof struct_virtio_blk_config [Fld ''blk_size''] = Some 20"
  by (simp_all add: struct_virtq_def struct_virtq_desc_def struct_virtq_avail_def struct_virtq_used_def struct_virtq_used_elem_def
      struct_virtio_blk_req_def struct_virtio_blk_config_def QUEUE_SIZE_def align_up_def flip: numeral_2_eq_2)

end
