(* ===== verification/Entry.thy ===== *)
theory Entry
  imports Layout Traps
begin

text \<open>
  Model of \<open>kernel/entry.S\<close>: the entry and exit of traps and the switch between two threads.  An instruction is a
  function on the state of the processor, a routine their composition in the order of the file; labels of
  other routines are parameters or the constructors of \<open>target\<close>.  Memory is accessed in double words; the
  offsets are those of \<open>asm/asm_offsets.h\<close>.
\<close>

subsection \<open>The processor\<close>

record hart =
  gpr :: "nat \<Rightarrow> u64"               \<comment> \<open>\<open>x1\<close> to \<open>x31\<close>\<close>
  c_status :: u64
  c_epc :: u64
  c_tval :: u64
  c_cause :: u64
  c_scratch :: u64
  dword :: "u64 \<Rightarrow> u64"             \<comment> \<open>the double word at an address\<close>

text \<open>Register \<open>x0\<close> reads as zero and ignores writes.\<close>

definition rd :: "nat \<Rightarrow> hart \<Rightarrow> u64" where
  "rd r h = (if r = 0 then 0 else gpr h r)"

definition wr :: "nat \<Rightarrow> u64 \<Rightarrow> hart \<Rightarrow> hart" where
  "wr r v h = (if r = 0 then h else h\<lparr>gpr := (gpr h)(r := v)\<rparr>)"

definition REG_S :: "nat \<Rightarrow> u64 \<Rightarrow> nat \<Rightarrow> hart \<Rightarrow> hart" where
  "REG_S r ofs b h = h\<lparr>dword := (dword h)(rd b h + ofs := rd r h)\<rparr>"

definition REG_L :: "nat \<Rightarrow> u64 \<Rightarrow> nat \<Rightarrow> hart \<Rightarrow> hart" where
  "REG_L r ofs b h = wr r (dword h (rd b h + ofs)) h"

definition ofs :: "string \<Rightarrow> u64" where
  "ofs n = of_nat (the (map_of asm_offsets n))"

definition saves :: "(nat \<times> string) list \<Rightarrow> nat \<Rightarrow> hart \<Rightarrow> hart" where
  "saves rs b = fold (\<lambda>(r, n). REG_S r (ofs n) b) rs"

definition loads :: "(nat \<times> string) list \<Rightarrow> nat \<Rightarrow> hart \<Rightarrow> hart" where
  "loads rs b = fold (\<lambda>(r, n). REG_L r (ofs n) b) rs"

abbreviation (input) ra :: nat where "ra \<equiv> 1"
abbreviation (input) sp :: nat where "sp \<equiv> 2"
abbreviation (input) tp :: nat where "tp \<equiv> 4"
abbreviation (input) t0 :: nat where "t0 \<equiv> 5"
abbreviation (input) s0 :: nat where "s0 \<equiv> 8"
abbreviation (input) a0 :: nat where "a0 \<equiv> 10"

subsection \<open>Traps\<close>

text \<open>The registers and offsets of the macros \<open>save_from_x6_to_x31\<close> and \<open>restore_from_x6_to_x31\<close>; then the
  registers saved before the former, the values saved after it, and the registers restored before the latter.\<close>

definition x6_to_x31 :: "(nat \<times> string) list" where
  "x6_to_x31 =
     [(6, ''PT_T1''), (7, ''PT_T2''), (8, ''PT_S0''), (9, ''PT_S1''), (10, ''PT_A0''), (11, ''PT_A1''), (12, ''PT_A2''), (13, ''PT_A3''),
      (14, ''PT_A4''), (15, ''PT_A5''), (16, ''PT_A6''), (17, ''PT_A7''), (18, ''PT_S2''), (19, ''PT_S3''), (20, ''PT_S4''), (21, ''PT_S5''),
      (22, ''PT_S6''), (23, ''PT_S7''), (24, ''PT_S8''), (25, ''PT_S9''), (26, ''PT_S10''), (27, ''PT_S11''), (28, ''PT_T3''), (29, ''PT_T4''),
      (30, ''PT_T5''), (31, ''PT_T6'')]"

definition x1_x3_x5 :: "(nat \<times> string) list" where
  "x1_x3_x5 = [(1, ''PT_RA''), (3, ''PT_GP''), (5, ''PT_T0'')]"

definition trap_values :: "(nat \<times> string) list" where
  "trap_values = [(8, ''PT_SP''), (9, ''PT_STATUS''), (18, ''PT_EPC''), (19, ''PT_BADADDR''), (20, ''PT_CAUSE''), (21, ''PT_TP'')]"

definition x1_x3_x4_x5 :: "(nat \<times> string) list" where
  "x1_x3_x4_x5 = [(1, ''PT_RA''), (3, ''PT_GP''), (4, ''PT_TP''), (5, ''PT_T0'')]"

definition SR_SPP :: u64 where "SR_SPP = 0x100"
definition SR_SUM :: u64 where "SR_SUM = 0x40000"
definition SR_FS_VS :: u64 where "SR_FS_VS = 0x6000 OR 0x600"

datatype target = Do_irq | Do_trap_unknown | To u64

text \<open>From the label \<open>handle_exception\<close> to \<open>save_context\<close>: the task structure in \<open>tp\<close>.  The scratch register holds it
  in user mode and zero in the kernel.\<close>

definition enter_kernel :: "hart \<Rightarrow> hart" where
  "enter_kernel h0 =
     (let h = wr tp (c_scratch h0) (h0\<lparr>c_scratch := rd tp h0\<rparr>) in
      if rd tp h \<noteq> 0 then h
      else REG_S sp (ofs ''TASK_TI_KERNEL_SP'') tp (wr tp (c_scratch h) h))"

definition save_context :: "hart \<Rightarrow> hart" where
  "save_context h0 =
     (let h1 = REG_L sp (ofs ''TASK_TI_KERNEL_SP'') tp (REG_S sp (ofs ''TASK_TI_USER_SP'') tp h0);
          h2 = wr sp (rd sp h1 - ofs ''PT_SIZE'') h1;
          h3 = saves x6_to_x31 sp (saves x1_x3_x5 sp h2);
          h4 = REG_L s0 (ofs ''TASK_TI_USER_SP'') tp (wr t0 (SR_SUM OR SR_FS_VS) h3);
          h5 = wr 9 (c_status h4) (h4\<lparr>c_status := c_status h4 AND NOT (rd t0 h4)\<rparr>);
          h6 = wr 21 (c_scratch h5) (wr 20 (c_cause h5) (wr 19 (c_tval h5) (wr 18 (c_epc h5) h5))) in
      saves trap_values sp h6)"

text \<open>\<open>ret\<close>, \<open>table\<close> and \<open>table_end\<close> are the addresses of \<open>ret_from_exception\<close>, \<open>excp_vect_table\<close> and \<open>excp_vect_table_end\<close>.\<close>

definition dispatch :: "u64 \<Rightarrow> u64 \<Rightarrow> u64 \<Rightarrow> hart \<Rightarrow> target \<times> hart" where
  "dispatch ret table table_end h0 =
     (let h = wr ra ret (wr a0 (rd sp h0) (h0\<lparr>c_scratch := 0\<rparr>)) in
      if sint (rd 20 h) < 0 then (Do_irq, h)
      else
        let h1 = wr 7 table_end (wr 6 table (wr t0 (push_bit 3 (rd 20 h)) h));
            h2 = wr t0 (rd 6 h1 + rd t0 h1) h1 in
        if rd 7 h2 \<le> rd t0 h2 then (Do_trap_unknown, h2)
        else let h3 = REG_L t0 0 t0 h2 in (To (rd t0 h3), h3))"

definition handle_exception :: "u64 \<Rightarrow> u64 \<Rightarrow> u64 \<Rightarrow> hart \<Rightarrow> target \<times> hart" where
  "handle_exception ret table table_end h = dispatch ret table table_end (save_context (enter_kernel h))"

text \<open>\<open>ret_from_exception\<close> up to the local label: before a return to user mode the stack pointer and the task are put where
  the next trap looks for them.\<close>

definition leave_kernel :: "hart \<Rightarrow> hart" where
  "leave_kernel h0 =
     (let h1 = REG_L s0 (ofs ''PT_STATUS'') sp h0;
          h2 = wr s0 (rd s0 h1 AND SR_SPP) h1 in
      if rd s0 h2 \<noteq> 0 then h2
      else (REG_S s0 (ofs ''TASK_TI_KERNEL_SP'') tp (wr s0 (rd sp h2 + ofs ''PT_SIZE'') h2))\<lparr>c_scratch := rd tp h2\<rparr>)"

text \<open>The rest, up to \<open>sret\<close>; \<open>sc\<close> says whether the store conditional succeeds.\<close>

definition restore_context :: "bool \<Rightarrow> hart \<Rightarrow> hart" where
  "restore_context sc h0 =
     (let h1 = REG_L 12 (ofs ''PT_EPC'') sp (REG_L a0 (ofs ''PT_STATUS'') sp h0);
          h2 = (if sc then REG_S 12 (ofs ''PT_EPC'') sp h1 else h1);
          h3 = h2\<lparr>c_status := rd a0 h2, c_epc := rd 12 h2\<rparr> in
      REG_L sp (ofs ''PT_SP'') sp (loads x6_to_x31 sp (loads x1_x3_x4_x5 sp h3)))"

definition ret_from_exception :: "bool \<Rightarrow> hart \<Rightarrow> hart" where
  "ret_from_exception sc h = restore_context sc (leave_kernel h)"

subsection \<open>The switch of threads\<close>

definition thread_regs :: "(nat \<times> string) list" where
  "thread_regs =
     [(1, ''THREAD_RA''), (2, ''THREAD_SP''), (8, ''THREAD_S0''), (9, ''THREAD_S1''), (18, ''THREAD_S2''), (19, ''THREAD_S3''),
      (20, ''THREAD_S4''), (21, ''THREAD_S5''), (22, ''THREAD_S6''), (23, ''THREAD_S7''), (24, ''THREAD_S8''), (25, ''THREAD_S9''),
      (26, ''THREAD_S10''), (27, ''THREAD_S11'')]"

text \<open>\<open>var\<close> is the address of the variable \<open>OFFSET_TASK_THREAD\<close>.\<close>

definition switch_to :: "u64 \<Rightarrow> hart \<Rightarrow> hart" where
  "switch_to var h0 =
     (let h1 = REG_L 14 0 14 (wr 14 var h0);
          h2 = wr 14 (rd 11 h1 + rd 14 h1) (wr 13 (rd a0 h1 + rd 14 h1) h1);
          h3 = loads thread_regs 14 (saves thread_regs 13 h2) in
      wr tp (rd 11 h3) h3)"

end
