(* ===== verification/Entry_Props.thy ===== *)
theory Entry_Props
  imports Entry Super_Props
begin

text \<open>
  What the trap entry and exit and the switch of threads do to the registers of the interrupted program: everything
  is saved in the trap frame at the offset the C code knows, and what the C code leaves there is restored.
\<close>

subsection \<open>Groups of stores and loads\<close>

definition places :: "(nat \<times> string) list \<Rightarrow> (nat \<times> u64) list" where
  "places = map (\<lambda>(r, n). (r, ofs n))"

lemma rd_simps [simp]:
  "r \<noteq> 0 \<Longrightarrow> rd r h = gpr h r" "rd 0 h = 0"
  by (simp_all add: rd_def)

lemma wr_simps [simp]:
  "r \<noteq> 0 \<Longrightarrow> gpr (wr r v h) = (gpr h)(r := v)" "dword (wr r v h) = dword h" "c_status (wr r v h) = c_status h"
  "c_epc (wr r v h) = c_epc h" "c_tval (wr r v h) = c_tval h" "c_cause (wr r v h) = c_cause h" "c_scratch (wr r v h) = c_scratch h"
  by (simp_all add: wr_def)

lemma REG_S_simps [simp]:
  "gpr (REG_S r a b h) = gpr h" "dword (REG_S r a b h) = (dword h)(rd b h + a := rd r h)" "c_status (REG_S r a b h) = c_status h"
  "c_epc (REG_S r a b h) = c_epc h" "c_tval (REG_S r a b h) = c_tval h" "c_cause (REG_S r a b h) = c_cause h"
  "c_scratch (REG_S r a b h) = c_scratch h"
  by (simp_all add: REG_S_def)

lemma REG_L_simps [simp]:
  "r \<noteq> 0 \<Longrightarrow> gpr (REG_L r a b h) = (gpr h)(r := dword h (rd b h + a))" "dword (REG_L r a b h) = dword h"
  "c_status (REG_L r a b h) = c_status h" "c_epc (REG_L r a b h) = c_epc h" "c_tval (REG_L r a b h) = c_tval h"
  "c_cause (REG_L r a b h) = c_cause h" "c_scratch (REG_L r a b h) = c_scratch h"
  by (simp_all add: REG_L_def)

lemma saves_other [simp]:
  "gpr (saves rs b h) = gpr h" "c_status (saves rs b h) = c_status h" "c_epc (saves rs b h) = c_epc h" "c_tval (saves rs b h) = c_tval h"
  "c_cause (saves rs b h) = c_cause h" "c_scratch (saves rs b h) = c_scratch h"
  by (induction rs arbitrary: h) (auto simp: saves_def)

lemma loads_other [simp]:
  "dword (loads rs b h) = dword h" "c_status (loads rs b h) = c_status h" "c_epc (loads rs b h) = c_epc h" "c_tval (loads rs b h) = c_tval h"
  "c_cause (loads rs b h) = c_cause h" "c_scratch (loads rs b h) = c_scratch h"
  by (induction rs arbitrary: h) (auto simp: loads_def)

text \<open>Memory after a group of stores: the inverse of the list of places, from the base register on.\<close>

lemma saves_dword:
  assumes "distinct (map snd (places rs))" "b \<noteq> 0" "0 \<notin> fst ` set rs"
  shows "dword (saves rs b h) = (\<lambda>a. case map_of (map prod.swap (places rs)) (a - gpr h b) of None \<Rightarrow> dword h a | Some r \<Rightarrow> gpr h r)"
  using assms
proof (induction rs arbitrary: h)
  case (Cons x rs)
  obtain r n where x: "x = (r, n)" by (cases x)
  have "dword (saves (x # rs) b h) = dword (saves rs b (REG_S r (ofs n) b h))" by (simp add: saves_def x)
  also have "\<dots> = (\<lambda>a. case map_of (map prod.swap (places rs)) (a - gpr h b) of
      None \<Rightarrow> if a - gpr h b = ofs n then gpr h r else dword h a | Some r \<Rightarrow> gpr h r)"
    using Cons by (auto simp: places_def x fun_eq_iff algebra_simps split: option.split)
  moreover have "map_of (map prod.swap (places rs)) (ofs n) = None"
    using Cons.prems(1) by (auto simp: places_def x map_of_eq_None_iff image_iff)
  ultimately show ?case by (auto simp: places_def x fun_eq_iff split: option.split)
qed (simp add: saves_def places_def)

lemma loads_gpr:
  assumes "b \<noteq> 0" "b \<notin> fst ` set rs" "0 \<notin> fst ` set rs" "distinct (map fst rs)"
  shows "gpr (loads rs b h) = (\<lambda>r. case map_of (places rs) r of None \<Rightarrow> gpr h r | Some a \<Rightarrow> dword h (gpr h b + a))"
  using assms
proof (induction rs arbitrary: h)
  case (Cons x rs)
  obtain r n where x: "x = (r, n)" by (cases x)
  have "gpr (loads (x # rs) b h) = gpr (loads rs b (REG_L r (ofs n) b h))" by (simp add: loads_def x)
  also have "\<dots> = (\<lambda>k. case map_of (places rs) k of None \<Rightarrow> if k = r then dword h (gpr h b + ofs n) else gpr h k
      | Some a \<Rightarrow> dword h (gpr h b + a))"
    using Cons by (auto simp: x fun_eq_iff split: option.split)
  moreover have "map_of (places rs) r = None" using Cons.prems(4) by (force simp: places_def x map_of_eq_None_iff)
  ultimately show ?case by (auto simp: places_def x fun_eq_iff split: option.split)
qed (simp add: loads_def places_def)

lemma saves_at:
  assumes "distinct (map snd (places rs))" "b \<noteq> 0" "0 \<notin> fst ` set rs" "gpr h b = f"
  shows "dword (saves rs b h) (f + x) = (case map_of (map prod.swap (places rs)) x of None \<Rightarrow> dword h (f + x) | Some r \<Rightarrow> gpr h r)"
    and "(\<forall>x \<in> snd ` set (places rs). a \<noteq> f + x) \<Longrightarrow> dword (saves rs b h) a = dword h a"
proof -
  show "dword (saves rs b h) (f + x) = (case map_of (map prod.swap (places rs)) x of None \<Rightarrow> dword h (f + x) | Some r \<Rightarrow> gpr h r)"
    by (simp add: saves_dword [OF assms(1-3)] assms(4))
  assume "\<forall>x \<in> snd ` set (places rs). a \<noteq> f + x"
  then have "map_of (map prod.swap (places rs)) (a - f) = None" by (force simp: map_of_eq_None_iff)
  then show "dword (saves rs b h) a = dword h a" by (simp add: saves_dword [OF assms(1-3)] assms(4))
qed

subsection \<open>The places\<close>

text \<open>The trap frame has 36 double words; register \<open>xr\<close> is the \<open>r\<close>-th.\<close>

definition slot :: "nat \<Rightarrow> u64" where
  "slot k = of_nat (8 * k)"

lemma slot_eq: "j < 36 \<Longrightarrow> k < 36 \<Longrightarrow> slot j = slot k \<longleftrightarrow> j = k"
  by (simp add: slot_def word_unat_eq_iff unat_of_nat take_bit_nat_eq_self del: of_nat_mult)

lemma ofs_values [simp]:
  "ofs ''PT_SIZE'' = 288" "ofs ''PT_EPC'' = slot 0" "ofs ''PT_SP'' = slot 2" "ofs ''PT_STATUS'' = slot 32"
  "ofs ''TASK_TI_KERNEL_SP'' = 8" "ofs ''TASK_TI_USER_SP'' = 16"
  by code_simp+

lemma places_values [simp]:
  "places x6_to_x31 = map (\<lambda>r. (r, slot r)) [6..<32]"
  "places x1_x3_x5 = [(1, slot 1), (3, slot 3), (5, slot 5)]"
  "places trap_values = [(8, slot 2), (9, slot 32), (18, slot 0), (19, slot 33), (20, slot 34), (21, slot 4)]"
  "places x1_x3_x4_x5 = [(1, slot 1), (3, slot 3), (4, slot 4), (5, slot 5)]"
  by code_simp+

lemma places_thread: "places thread_regs = [(1, slot 0), (2, slot 1), (8, slot 2), (9, slot 3)] @ map (\<lambda>r. (r, slot (r - 14))) [18..<28]"
  by code_simp

lemma x6_to_x31_regs [simp]: "map fst x6_to_x31 = [6..<32]" "fst ` set x6_to_x31 = {6..<32}"
proof -
  show *: "map fst x6_to_x31 = [6..<32]" by (simp add: x6_to_x31_def upt_rec)
  show "fst ` set x6_to_x31 = {6..<32}" using arg_cong [OF *, of set] by (simp only: set_map set_upt)
qed

lemma group_regs [simp]: "0 \<notin> fst ` set x1_x3_x5" "0 \<notin> fst ` set trap_values"
  by (simp_all add: x1_x3_x5_def trap_values_def)

lemma exit_regs: "map fst x1_x3_x4_x5 = [1, 3, 4, 5]" "fst ` set x1_x3_x4_x5 = {1, 3, 4, 5}"
  by (simp_all add: x1_x3_x4_x5_def)

lemma map_of_slots:
  "set rs \<subseteq> {..<36} \<Longrightarrow> k < 36 \<Longrightarrow> map_of (map (\<lambda>r. (slot r, r)) rs) (slot k) = (if k \<in> set rs then Some k else None)"
  by (induction rs) (auto simp: slot_eq)

lemma map_of_regs: "map_of (map (\<lambda>r. (r, g r)) rs) k = (if k \<in> set rs then Some (g k) else None)"
  by (induction rs) auto

lemma frame_slots_distinct: "set rs \<subseteq> {..<36} \<Longrightarrow> distinct rs \<Longrightarrow> distinct (map slot rs)"
  by (auto simp: distinct_map inj_on_def subset_iff slot_eq)

text \<open>The frame at \<open>f\<close> lies apart from the stack pointers in the thread information of the task at \<open>p\<close>.\<close>

definition apart :: "u64 \<Rightarrow> u64 \<Rightarrow> bool" where
  "apart p f \<longleftrightarrow> (\<forall>k < 36. f + slot k \<noteq> p + 8 \<and> f + slot k \<noteq> p + 16)"

lemma apart_stack:
  assumes "312 \<le> n" "n \<le> 8192"
  shows "apart p (p + of_nat n - 288)"
proof -
  have "p + of_nat n - 288 + slot k \<noteq> p + c" if "k < 36" "c = 8 \<or> c = 16" for k c
  proof -
    have "p + of_nat n - 288 + slot k = p + of_nat (n - 288 + 8 * k)" using assms by (simp add: slot_def of_nat_diff)
    moreover have "unat (of_nat (n - 288 + 8 * k) :: u64) = n - 288 + 8 * k"
      using assms that(1) by (simp add: unat_of_nat take_bit_nat_eq_self del: of_nat_add of_nat_mult of_nat_diff)
    then have "(of_nat (n - 288 + 8 * k) :: u64) \<noteq> c" using assms that by (auto simp del: of_nat_add of_nat_mult of_nat_diff)
    ultimately show ?thesis by (simp del: of_nat_add of_nat_mult of_nat_diff)
  qed
  then show ?thesis by (auto simp: apart_def)
qed

subsection \<open>Entering the kernel\<close>

text \<open>The task structure and the top of the kernel stack that a trap finds.\<close>

definition task_at :: "hart \<Rightarrow> u64" where
  "task_at h = (if c_scratch h \<noteq> 0 then c_scratch h else gpr h tp)"

definition stack_at :: "hart \<Rightarrow> u64" where
  "stack_at h = (if c_scratch h \<noteq> 0 then dword h (task_at h + 8) else gpr h sp)"

lemma enter_kernel_effect:
  "gpr (enter_kernel h) = (gpr h)(tp := task_at h)" "c_scratch (enter_kernel h) = gpr h tp"
  "dword (enter_kernel h) = (dword h)(task_at h + 8 := stack_at h)"
  "c_status (enter_kernel h) = c_status h" "c_epc (enter_kernel h) = c_epc h" "c_tval (enter_kernel h) = c_tval h"
  "c_cause (enter_kernel h) = c_cause h"
  by (auto simp: enter_kernel_def Let_def task_at_def stack_at_def fun_eq_iff)

text \<open>The stores of the general registers and those of the other values, at a place of the frame and elsewhere.\<close>

abbreviation save_general :: "hart \<Rightarrow> hart" where
  "save_general h \<equiv> saves x6_to_x31 sp (saves x1_x3_x5 sp h)"

abbreviation save_others :: "hart \<Rightarrow> hart" where
  "save_others h \<equiv> saves trap_values sp h"

lemma swap_slots: "map prod.swap (map (\<lambda>r. (r, slot r)) rs) = map (\<lambda>r. (slot r, r)) rs"
  by simp

lemma save_general_at:
  assumes "gpr h sp = f"
  shows "k < 36 \<Longrightarrow> dword (save_general h) (f + slot k) = (if k \<in> {1, 3} \<union> {5..<32} then gpr h k else dword h (f + slot k))"
    and "\<forall>k < 36. a \<noteq> f + slot k \<Longrightarrow> dword (save_general h) a = dword h a"
proof -
  note st = saves_at [where rs = x6_to_x31 and b = sp] saves_at [where rs = x1_x3_x5 and b = sp]
  have d: "distinct (map slot [6..<32])" by (rule frame_slots_distinct) auto
  have m: "map_of (map (\<lambda>r. (slot r, r)) [6..<32]) (slot k) = (if 6 \<le> k \<and> k < 32 then Some k else None)" if "k < 36" for k
    using that by (subst map_of_slots) (auto simp del: upt_rec_numeral)
  show "k < 36 \<Longrightarrow> dword (save_general h) (f + slot k) = (if k \<in> {1, 3} \<union> {5..<32} then gpr h k else dword h (f + slot k))"
    using d assms by (auto simp: st swap_slots m slot_eq comp_def simp del: upt_rec_numeral)
  show "\<forall>k < 36. a \<noteq> f + slot k \<Longrightarrow> dword (save_general h) a = dword h a"
    using d assms st(2) [where f = f] st(4) [where f = f] by (simp add: slot_eq comp_def)
qed

lemma save_others_at:
  assumes "gpr h sp = f"
  shows "k < 36 \<Longrightarrow> dword (save_others h) (f + slot k) =
     (if k = 2 then gpr h 8 else if k = 32 then gpr h 9 else if k = 0 then gpr h 18 else if k = 33 then gpr h 19
      else if k = 34 then gpr h 20 else if k = 4 then gpr h 21 else dword h (f + slot k))"
    and "\<forall>k < 36. a \<noteq> f + slot k \<Longrightarrow> dword (save_others h) a = dword h a"
  using saves_at [where rs = trap_values and b = sp and f = f] assms by (simp_all add: slot_eq)

text \<open>The trap frame: the double word \<open>k\<close> after the entry of a trap.\<close>

definition frame :: "hart \<Rightarrow> nat \<Rightarrow> u64" where
  "frame h k =
     (if k = 0 then c_epc h else if k < 32 then gpr h k else if k = 32 then c_status h else if k = 33 then c_tval h
      else if k = 34 then c_cause h else dword h (stack_at h - 288 + slot 35))"

lemma dispatch_effect:
  "dword (snd (dispatch ret table table_end h)) = dword h" "gpr (snd (dispatch ret table table_end h)) sp = gpr h sp"
  "gpr (snd (dispatch ret table table_end h)) tp = gpr h tp" "gpr (snd (dispatch ret table table_end h)) a0 = gpr h sp"
  "gpr (snd (dispatch ret table table_end h)) ra = ret" "c_scratch (snd (dispatch ret table table_end h)) = 0"
  "c_status (snd (dispatch ret table table_end h)) = c_status h"
  by (simp_all add: dispatch_def Let_def)

text \<open>The registers before the last stores of \<open>save_context\<close>.\<close>

lemma save_context_split:
  assumes "gpr h tp = p" "dword h (p + 8) = f + 288" "apart p f"
  obtains u where "save_context h = save_others u"
    "gpr u 8 = gpr h sp" "gpr u 9 = c_status h" "gpr u 18 = c_epc h" "gpr u 19 = c_tval h" "gpr u 20 = c_cause h" "gpr u 21 = c_scratch h"
    "gpr u sp = f" "gpr u tp = p" "c_status u = c_status h AND NOT (SR_SUM OR SR_FS_VS)"
    "\<And>k. k < 36 \<Longrightarrow> dword u (f + slot k) = (if k \<in> {1, 3} \<union> {5..<32} then gpr h k else dword h (f + slot k))"
    "\<And>a. \<forall>k < 36. a \<noteq> f + slot k \<Longrightarrow> a \<noteq> p + 16 \<Longrightarrow> dword u a = dword h a"
proof -
  let ?h2 = "wr sp f (REG_L sp 8 tp (REG_S sp 16 tp h))"
  let ?h3 = "save_general ?h2"
  have g2: "gpr ?h2 = (gpr h)(sp := f)" "dword ?h2 = (dword h)(p + 16 := gpr h sp)" using assms(1) by (simp_all add: fun_eq_iff)
  have f2: "gpr ?h2 sp = f" by simp
  have "\<forall>k < 36. p + 16 \<noteq> f + slot k" using assms(3) unfolding apart_def by metis
  then have m: "dword ?h3 (p + 16) = gpr h sp" using save_general_at(2) [OF f2] by (simp only: g2 fun_upd_same)
  let ?u = "wr 21 (c_scratch h) (wr 20 (c_cause h) (wr 19 (c_tval h) (wr 18 (c_epc h) (wr 9 (c_status h)
    ((REG_L s0 16 tp (wr t0 (SR_SUM OR SR_FS_VS) ?h3))\<lparr>c_status := c_status h AND NOT (SR_SUM OR SR_FS_VS)\<rparr>)))))"
  have u: "dword ?u = dword ?h3" by simp
  show thesis
  proof (rule that [of ?u])
    show "dword ?u (f + slot k) = (if k \<in> {1, 3} \<union> {5..<32} then gpr h k else dword h (f + slot k))" if "k < 36" for k
      using that assms(3) unfolding u save_general_at(1) [OF f2 that] g2 by (auto simp: apart_def)
    show "dword ?u a = dword h a" if "\<forall>k < 36. a \<noteq> f + slot k" "a \<noteq> p + 16" for a
      using that(2) unfolding u save_general_at(2) [OF f2 that(1)] g2 by simp
  qed (use assms(1,2) m in \<open>simp_all add: save_context_def Let_def\<close>)
qed

lemma save_context_effect:
  assumes "gpr h tp = p" "dword h (p + 8) = f + 288" "apart p f"
  shows "gpr (save_context h) sp = f" "gpr (save_context h) tp = p" "gpr (save_context h) 20 = c_cause h"
    "c_status (save_context h) = c_status h AND NOT (SR_SUM OR SR_FS_VS)"
    "k < 36 \<Longrightarrow> dword (save_context h) (f + slot k) =
       (if k = 0 then c_epc h else if k = 4 then c_scratch h else if k < 32 then gpr h k else if k = 32 then c_status h
        else if k = 33 then c_tval h else if k = 34 then c_cause h else dword h (f + slot 35))"
    "\<forall>k < 36. a \<noteq> f + slot k \<Longrightarrow> a \<noteq> p + 16 \<Longrightarrow> dword (save_context h) a = dword h a"
proof -
  obtain u where e: "save_context h = save_others u"
    and g: "gpr u 8 = gpr h sp" "gpr u 9 = c_status h" "gpr u 18 = c_epc h" "gpr u 19 = c_tval h" "gpr u 20 = c_cause h"
      "gpr u 21 = c_scratch h" "gpr u sp = f" "gpr u tp = p" "c_status u = c_status h AND NOT (SR_SUM OR SR_FS_VS)"
    and m: "\<And>k. k < 36 \<Longrightarrow> dword u (f + slot k) = (if k \<in> {1, 3} \<union> {5..<32} then gpr h k else dword h (f + slot k))"
      "\<And>a. \<forall>k < 36. a \<noteq> f + slot k \<Longrightarrow> a \<noteq> p + 16 \<Longrightarrow> dword u a = dword h a"
    by (rule save_context_split [OF assms]) (rule that; assumption)
  show "gpr (save_context h) sp = f" "gpr (save_context h) tp = p" "gpr (save_context h) 20 = c_cause h"
    "c_status (save_context h) = c_status h AND NOT (SR_SUM OR SR_FS_VS)"
    unfolding e by (simp_all only: saves_other g)
  show "dword (save_context h) (f + slot k) =
       (if k = 0 then c_epc h else if k = 4 then c_scratch h else if k < 32 then gpr h k else if k = 32 then c_status h
        else if k = 33 then c_tval h else if k = 34 then c_cause h else dword h (f + slot 35))" if k: "k < 36"
  proof -
    have "k < 32 \<or> k = 32 \<or> k = 33 \<or> k = 34 \<or> k = 35" using k by linarith
    moreover have "k = 0 \<or> k = 2 \<or> k = 4 \<or> k \<in> {1, 3} \<union> {5..<32} \<or> 32 \<le> k" by auto
    ultimately show ?thesis unfolding e save_others_at(1) [OF g(7) k] m(1) [OF k] by (elim disjE) (auto simp: g)
  qed
  show "\<forall>k < 36. a \<noteq> f + slot k \<Longrightarrow> a \<noteq> p + 16 \<Longrightarrow> dword (save_context h) a = dword h a"
    unfolding e by (subst save_others_at(2) [OF g(7)]) (auto intro: m(2))
qed

text \<open>After the entry of a trap the frame holds the state of the interrupted program, and the handler gets its address.\<close>

lemma handle_exception_effect:
  assumes "apart (task_at h) f" "stack_at h = f + 288" "handle_exception ret table table_end h = (tgt, t)"
  shows "gpr t sp = f" "gpr t tp = task_at h" "gpr t a0 = f" "gpr t ra = ret" "c_scratch t = 0"
    "c_status t = c_status h AND NOT (SR_SUM OR SR_FS_VS)"
    "k < 36 \<Longrightarrow> dword t (f + slot k) = frame h k"
    "\<forall>k < 36. a \<noteq> f + slot k \<Longrightarrow> a \<noteq> task_at h + 8 \<Longrightarrow> a \<noteq> task_at h + 16 \<Longrightarrow> dword t a = dword h a"
proof -
  let ?e = "enter_kernel h"
  have g: "gpr ?e tp = task_at h" "dword ?e (task_at h + 8) = f + 288" using assms(2) by (simp_all add: enter_kernel_effect)
  note s = save_context_effect [OF g assms(1)]
  note d = dispatch_effect [of ret table table_end "save_context ?e"]
  have t: "t = snd (dispatch ret table table_end (save_context ?e))" using assms(3) by (simp add: handle_exception_def)
  have n: "f + slot 35 \<noteq> task_at h + 8" using assms(1) by (simp add: apart_def)
  show "gpr t sp = f" "gpr t tp = task_at h" "gpr t a0 = f" "gpr t ra = ret" "c_scratch t = 0"
    "c_status t = c_status h AND NOT (SR_SUM OR SR_FS_VS)"
    using s d by (simp_all add: t enter_kernel_effect)
  show "dword t (f + slot k) = frame h k" if "k < 36"
    using that s(5) [of k] d(1) n assms(2) by (auto simp: t enter_kernel_effect frame_def)
  show "dword t a = dword h a" if "\<forall>k < 36. a \<noteq> f + slot k" "a \<noteq> task_at h + 8" "a \<noteq> task_at h + 16"
    using that s(6) d(1) by (simp add: t enter_kernel_effect)
qed

text \<open>Where the trap goes.\<close>

lemma handle_exception_target:
  assumes "apart (task_at h) f" "stack_at h = f + 288" "uint table + 128 < 2 ^ 64" "handle_exception ret table (table + 128) h = (tgt, t)"
  shows "sint (c_cause h) < 0 \<Longrightarrow> tgt = Do_irq"
    and "c_cause h < 16 \<Longrightarrow> tgt = To (dword t (table + slot (unat (c_cause h))))"
    and "16 \<le> c_cause h \<Longrightarrow> uint table + 8 * uint (c_cause h) < 2 ^ 64 \<Longrightarrow> tgt = Do_trap_unknown"
proof -
  let ?e = "enter_kernel h"
  let ?c = "c_cause h"
  have g: "gpr ?e tp = task_at h" "dword ?e (task_at h + 8) = f + 288" using assms(2) by (simp_all add: enter_kernel_effect)
  have c: "gpr (save_context ?e) 20 = ?c" using save_context_effect(3) [OF g assms(1)] by (simp add: enter_kernel_effect)
  note d = assms(4) [unfolded handle_exception_def dispatch_def Let_def, simplified]
  show "sint ?c < 0 \<Longrightarrow> tgt = Do_irq" using d c by simp
  have a: "push_bit 3 ?c = slot (unat ?c)" by (simp add: slot_def push_bit_eq_mult mult.commute)
  have e: "uint (table + 128) = uint table + 128" using assms(3) by (simp add: uint_plus_if')
  have n: "\<not> sint ?c < 0" "uint (table + push_bit 3 ?c) = uint table + 8 * uint ?c" if "uint table + 8 * uint ?c < 2 ^ 64"
  proof -
    have u: "8 * uint ?c < 2 ^ 64" using that uint_ge_0 [of table] by linarith
    moreover have "- (2 ^ 63) \<le> uint ?c" using uint_ge_0 [of ?c] by (rule order_trans [rotated]) simp
    ultimately have "sint ?c = uint ?c" unfolding sint_uint by (intro signed_take_bit_int_eq_self) simp_all
    then show "\<not> sint ?c < 0" by simp
    have "uint (push_bit 3 ?c) = 8 * uint ?c" using u by (simp add: push_bit_eq_mult uint_word_ariths)
    then show "uint (table + push_bit 3 ?c) = uint table + 8 * uint ?c" using that by (simp add: uint_plus_if')
  qed
  show "tgt = To (dword t (table + slot (unat ?c)))" if "?c < 16"
  proof -
    have "uint ?c < 16" using that by (simp add: word_less_def)
    then show ?thesis using n assms(3) d e by (auto simp: word_le_def a c split: if_splits)
  qed
  show "tgt = Do_trap_unknown" if "16 \<le> ?c" "uint table + 8 * uint ?c < 2 ^ 64"
  proof -
    have "16 \<le> uint ?c" using that(1) by (simp add: word_le_def)
    then show ?thesis using n [OF that(2)] d e by (auto simp: word_le_def c split: if_splits)
  qed
qed

subsection \<open>Leaving the kernel\<close>

lemma exit_loads:
  assumes "gpr h sp = f"
  shows "gpr (REG_L sp (slot 2) sp (loads x6_to_x31 sp (loads x1_x3_x4_x5 sp h))) r = (if 1 \<le> r \<and> r < 32 then dword h (f + slot r) else gpr h r)"
proof -
  have x: "gpr (loads x1_x3_x4_x5 sp h) = (\<lambda>r. if r \<in> {1, 3, 4, 5} then dword h (f + slot r) else gpr h r)"
    using assms by (subst loads_gpr) (auto simp: exit_regs fun_eq_iff)
  have "gpr (loads x6_to_x31 sp (loads x1_x3_x4_x5 sp h)) = (\<lambda>r. if r \<in> {1, 3, 4, 5} \<union> {6..<32} then dword h (f + slot r) else gpr h r)"
    using assms by (subst loads_gpr) (auto simp: x map_of_regs fun_eq_iff simp del: upt_rec_numeral)
  then show ?thesis using assms by (auto simp: le_Suc_eq numeral_eq_Suc)
qed

lemma restore_context_effect:
  assumes "gpr h sp = f"
  shows "1 \<le> r \<Longrightarrow> r < 32 \<Longrightarrow> gpr (restore_context sc h) r = dword h (f + slot r)" "c_epc (restore_context sc h) = dword h f"
    "c_status (restore_context sc h) = dword h (f + slot 32)" "c_scratch (restore_context sc h) = c_scratch h"
    "dword (restore_context sc h) = dword h"
proof -
  have z: "slot 0 = 0" by (simp add: slot_def)
  let ?h1 = "REG_L 12 0 sp (REG_L a0 (slot 32) sp h)"
  let ?h2 = "if sc then REG_S 12 0 sp ?h1 else ?h1"
  let ?h3 = "?h2\<lparr>c_status := gpr ?h2 a0, c_epc := gpr ?h2 12\<rparr>"
  have d: "dword ?h3 = dword h" "gpr ?h3 sp = f" using assms by auto
  have e: "restore_context sc h = REG_L sp (slot 2) sp (loads x6_to_x31 sp (loads x1_x3_x4_x5 sp ?h3))"
    by (simp add: restore_context_def Let_def z)
  show "1 \<le> r \<Longrightarrow> r < 32 \<Longrightarrow> gpr (restore_context sc h) r = dword h (f + slot r)" unfolding e exit_loads [OF d(2)] d(1) by simp
  show "dword (restore_context sc h) = dword h" unfolding e by (simp only: REG_L_simps loads_other d)
  show "c_epc (restore_context sc h) = dword h f" "c_status (restore_context sc h) = dword h (f + slot 32)"
    "c_scratch (restore_context sc h) = c_scratch h"
    unfolding e using assms by simp_all
qed

lemma leave_kernel_effect:
  assumes "gpr u sp = f" "gpr u tp = p"
  shows "gpr (leave_kernel u) sp = f" "c_scratch (leave_kernel u) = (if dword u (f + slot 32) AND SR_SPP = 0 then p else c_scratch u)"
    "dword (leave_kernel u) = (if dword u (f + slot 32) AND SR_SPP = 0 then (dword u)(p + 8 := f + 288) else dword u)"
  using assms by (simp_all add: leave_kernel_def Let_def)

lemma ret_from_exception_effect:
  assumes "gpr u sp = f" "gpr u tp = p" "apart p f"
  shows "1 \<le> r \<Longrightarrow> r < 32 \<Longrightarrow> gpr (ret_from_exception sc u) r = dword u (f + slot r)" "c_epc (ret_from_exception sc u) = dword u f"
    "c_status (ret_from_exception sc u) = dword u (f + slot 32)"
    "c_scratch (ret_from_exception sc u) = (if dword u (f + slot 32) AND SR_SPP = 0 then p else c_scratch u)"
    "dword (ret_from_exception sc u) = (if dword u (f + slot 32) AND SR_SPP = 0 then (dword u)(p + 8 := f + 288) else dword u)"
proof -
  note l = leave_kernel_effect [OF assms(1,2)]
  have a: "dword (leave_kernel u) (f + slot k) = dword u (f + slot k)" if "k < 36" for k using assms(3) that by (simp add: l apart_def)
  have z: "dword (leave_kernel u) f = dword u f" using a [of 0] by (simp add: slot_def)
  note r = restore_context_effect [OF l(1), folded ret_from_exception_def]
  show "gpr (ret_from_exception sc u) r = dword u (f + slot r)" if "1 \<le> r" "r < 32" using r(1) [OF that] a [of r] that(2) by simp
  show "c_epc (ret_from_exception sc u) = dword u f" using r(2) z by (rule trans)
  show "c_status (ret_from_exception sc u) = dword u (f + slot 32)" using r(3) a [of 32] by simp
  show "c_scratch (ret_from_exception sc u) = (if dword u (f + slot 32) AND SR_SPP = 0 then p else c_scratch u)"
    "dword (ret_from_exception sc u) = (if dword u (f + slot 32) AND SR_SPP = 0 then (dword u)(p + 8 := f + 288) else dword u)"
    using r(4,5) l(2,3) by simp_all
qed

subsection \<open>Round trips\<close>

text \<open>What a handler in C leaves: the stack and thread pointers as they were (the calling convention), the scratch
  register, and a trap frame.\<close>

definition trap_frame :: "hart \<Rightarrow> nat \<Rightarrow> u64" where
  "trap_frame t k = dword t (gpr t sp + slot k)"

definition handled :: "hart \<Rightarrow> (nat \<Rightarrow> u64) \<Rightarrow> hart \<Rightarrow> bool" where
  "handled t fr u \<longleftrightarrow> gpr u sp = gpr t sp \<and> gpr u tp = gpr t tp \<and> c_scratch u = c_scratch t \<and> (\<forall>k < 36. trap_frame u k = fr k)"

text \<open>A trap that finds a task structure with its stack: \<open>n\<close> bytes of the 8192 lie below the stack pointer, and
  the previous mode in the status agrees with the scratch register.\<close>

definition trap_ready :: "nat \<Rightarrow> hart \<Rightarrow> bool" where
  "trap_ready n h \<longleftrightarrow> stack_at h = task_at h + of_nat n \<and> 312 \<le> n \<and> n \<le> 8192 \<and> (c_status h AND SR_SPP = 0 \<longleftrightarrow> c_scratch h \<noteq> 0)"

lemma trap_ready_apart: "trap_ready n h \<Longrightarrow> apart (task_at h) (stack_at h - 288)"
  using apart_stack [of n "task_at h"] by (simp add: trap_ready_def)

lemma trap_frame_entry:
  assumes "trap_ready n h" "handle_exception ret table table_end h = (tgt, t)" "k < 36"
  shows "trap_frame t k = frame h k"
  using handle_exception_effect(1,7) [OF trap_ready_apart [OF assms(1)] _ assms(2)] assms(3) by (simp add: trap_frame_def)

lemma trap_and_return:
  assumes "trap_ready n h" "handle_exception ret table table_end h = (tgt, t)" "handled t fr u" "fr 32 = c_status h" "ret_from_exception sc u = v"
  shows "1 \<le> r \<Longrightarrow> r < 32 \<Longrightarrow> gpr v r = fr r" "c_epc v = fr 0" "c_status v = c_status h" "c_scratch v = c_scratch h"
    "c_scratch h \<noteq> 0 \<Longrightarrow> stack_at v = stack_at h"
proof -
  let ?f = "stack_at h - 288"
  have a: "apart (task_at h) ?f" using assms(1) by (rule trap_ready_apart)
  have b: "stack_at h = ?f + 288" by simp
  note e = handle_exception_effect [OF a b assms(2)]
  have "gpr u sp = ?f" "gpr u tp = task_at h" "c_scratch u = 0" using assms(3) e(1,2,5) by (simp_all add: handled_def)
  moreover have "dword u (?f + slot k) = fr k" if "k < 36" for k
    using assms(3) that e(1) by (metis handled_def trap_frame_def)
  ultimately have u: "gpr u sp = ?f" "gpr u tp = task_at h" "c_scratch u = 0" "\<And>k. k < 36 \<Longrightarrow> dword u (?f + slot k) = fr k" by blast+
  note r = ret_from_exception_effect [OF u(1,2) a, where sc = sc, unfolded assms(5)]
  show "gpr v r = fr r" if "1 \<le> r" "r < 32" using r(1) [OF that] u(4) that by simp
  show "c_epc v = fr 0" using r(2) u(4) [of 0] by (simp add: slot_def)
  show "c_status v = c_status h" using r(3) u(4) [of 32] assms(4) by simp
  show s: "c_scratch v = c_scratch h" using r(4) u(3) u(4) [of 32] assms(1,4) by (auto simp: trap_ready_def task_at_def)
  show "stack_at v = stack_at h" if "c_scratch h \<noteq> 0"
  proof -
    have "c_status h AND SR_SPP = 0" using that assms(1) by (simp add: trap_ready_def)
    then have "dword v (c_scratch h + 8) = stack_at h" using r(5) u(4) [of 32] assms(4) that by (simp add: task_at_def)
    then show ?thesis using that s by (simp add: stack_at_def task_at_def)
  qed
qed

text \<open>C31: A trap is transparent.  When the handler returns with the trap frame unchanged, the registers \<open>x1\<close> to
  \<open>x31\<close>, the program counter and the status of the interrupted program are what they were, for traps from user mode and
  from the kernel; and the processor is ready for the next trap: the scratch register is as before, and a
  trap from user mode will find the same kernel stack.\<close>

theorem trap_transparent:
  assumes "trap_ready n h" "handle_exception ret table table_end h = (tgt, t)" "handled t (trap_frame t) u" "1 \<le> r" "r < 32"
  shows "gpr (ret_from_exception sc u) r = gpr h r \<and> c_epc (ret_from_exception sc u) = c_epc h
    \<and> c_status (ret_from_exception sc u) = c_status h \<and> c_scratch (ret_from_exception sc u) = c_scratch h
    \<and> (c_scratch h \<noteq> 0 \<longrightarrow> stack_at (ret_from_exception sc u) = stack_at h)"
  using trap_and_return [OF assms(1-3) _ refl] trap_frame_entry [OF assms(1,2)] assms(4,5) by (simp add: frame_def)

text \<open>The trap frame as the structure the C code sees, and as the C code leaves it.\<close>

definition frame_regs :: "(nat \<Rightarrow> u64) \<Rightarrow> pt_regs" where
  "frame_regs fr = \<lparr>r_epc = fr 0, r_ra = fr 1, r_sp = fr 2, r_tp = fr 4, r_a0 = fr 10, r_a1 = fr 11, r_a2 = fr 12, r_a7 = fr 17, r_status = fr 32, r_badaddr = fr 33,
     r_cause = fr 34, r_orig_a0 = fr 35\<rparr>"

definition put_regs :: "pt_regs \<Rightarrow> (nat \<Rightarrow> u64) \<Rightarrow> nat \<Rightarrow> u64" where
  "put_regs r fr = fr(0 := r_epc r, 1 := r_ra r, 2 := r_sp r, 4 := r_tp r, 10 := r_a0 r, 11 := r_a1 r, 12 := r_a2 r, 17 := r_a7 r, 32 := r_status r, 33 := r_badaddr r,
     34 := r_cause r, 35 := r_orig_a0 r)"

lemma system_call_regs:
  assumes "system_call e r s = Inr ((r', b), s')"
  shows "r' = r\<lparr>r_epc := r_epc r + 4, r_orig_a0 := r_a0 r, r_a0 := r_a0 r'\<rparr>"
    and "if sint (r_a7 r) < 0 \<or> of_nat nr_system_calls \<le> r_a7 r then r_a0 r' = - 1 \<and> s' = s
      else \<exists>x t. sys_call_table e (unat (r_a7 r)) (r\<lparr>r_epc := r_epc r + 4, r_orig_a0 := r_a0 r\<rparr>) s = Inr (x, t) \<and> r_a0 r' = word_of_int x"
  using assms by (auto simp: system_call_def Let_def kbind_Inr_iff kseq_Inr_iff kreturn_def split: if_splits)

text \<open>C30: A system call as the user program sees it.  Whatever call is made by \<open>ecall\<close> in user mode, if it
  returns, all registers but \<open>a0\<close> are unchanged, the program goes on behind the \<open>ecall\<close> with the same status, \<open>a0\<close> holds
  the result of the routine in \<open>sys_call_table\<close> for the number in \<open>a7\<close>, called with the registers of the program, or -1 for a
  number outside the table; and the next trap finds the same kernel stack.\<close>

theorem system_call_abi:
  assumes "trap_ready n h" "c_scratch h \<noteq> 0" "handle_exception ret table table_end h = (tgt, t)"
    "system_call e (frame_regs (trap_frame t)) s = Inr ((r', b), s')" "handled t (put_regs r' (trap_frame t)) u"
    "ret_from_exception sc u = v"
  shows "(\<forall>r. 1 \<le> r \<and> r < 32 \<and> r \<noteq> 10 \<longrightarrow> gpr v r = gpr h r) \<and> c_epc v = c_epc h + 4 \<and> c_status v = c_status h
    \<and> c_scratch v = c_scratch h \<and> stack_at v = stack_at h
    \<and> (if sint (gpr h 17) < 0 \<or> of_nat nr_system_calls \<le> gpr h 17 then gpr v 10 = - 1
       else \<exists>x q w. sys_call_table e (unat (gpr h 17)) q s = Inr (x, w) \<and> gpr v 10 = word_of_int x
         \<and> r_a0 q = gpr h 10 \<and> r_a1 q = gpr h 11 \<and> r_a2 q = gpr h 12)"
proof -
  let ?r = "frame_regs (trap_frame t)"
  have f: "trap_frame t k = frame h k" if "k < 36" for k using trap_frame_entry [OF assms(1,3) that] .
  have q: "r_a7 ?r = gpr h 17" "r_a0 ?r = gpr h 10" "r_a1 ?r = gpr h 11" "r_a2 ?r = gpr h 12" "r_epc ?r = c_epc h"
    by (simp_all add: frame_regs_def f frame_def)
  note c = system_call_regs [OF assms(4)]
  have p: "put_regs r' (trap_frame t) k = (if k = 0 then c_epc h + 4 else if k = 10 then r_a0 r' else frame h k)" if "k < 33" for k
    using that f by (subst c(1)) (auto simp: put_regs_def frame_regs_def frame_def)
  have "put_regs r' (trap_frame t) 32 = c_status h" using p [of 32] by (simp add: frame_def)
  note v = trap_and_return [OF assms(1,3,5) this assms(6)]
  let ?q = "?r\<lparr>r_epc := r_epc ?r + 4, r_orig_a0 := r_a0 ?r\<rparr>"
  have "if sint (gpr h 17) < 0 \<or> of_nat nr_system_calls \<le> gpr h 17 then r_a0 r' = - 1
      else \<exists>x w. sys_call_table e (unat (gpr h 17)) ?q s = Inr (x, w) \<and> r_a0 r' = word_of_int x"
    using c(2) by (auto simp: q split: if_splits)
  moreover have "r_a0 ?q = gpr h 10" "r_a1 ?q = gpr h 11" "r_a2 ?q = gpr h 12" by (simp_all add: q)
  ultimately have "if sint (gpr h 17) < 0 \<or> of_nat nr_system_calls \<le> gpr h 17 then r_a0 r' = - 1
      else \<exists>x q w. sys_call_table e (unat (gpr h 17)) q s = Inr (x, w) \<and> r_a0 r' = word_of_int x
         \<and> r_a0 q = gpr h 10 \<and> r_a1 q = gpr h 11 \<and> r_a2 q = gpr h 12"
    by (metis (no_types, lifting))
  moreover have "gpr v r = (if r = 10 then r_a0 r' else gpr h r)" if "1 \<le> r" "r < 32" for r
    using v(1) [OF that] p [of r] that by (simp add: frame_def)
  moreover have "c_epc v = c_epc h + 4" using v(2) p [of 0] by simp
  ultimately show ?thesis using v(3,4,5) assms(2) by (simp split: if_splits) blast
qed

subsection \<open>The switch of threads\<close>

text \<open>The callee-saved registers and their places in \<open>struct thread_struct\<close>.\<close>

definition callee_saved :: "nat list" where
  "callee_saved = [1, 2, 8, 9] @ [18..<28]"

definition thread_index :: "nat \<Rightarrow> nat" where
  "thread_index r = (if r = 1 then 0 else if r = 2 then 1 else if r = 8 then 2 else if r = 9 then 3 else r - 14)"

lemma thread_places: "places thread_regs = map (\<lambda>r. (r, slot (thread_index r))) callee_saved"
  by (simp add: places_thread callee_saved_def thread_index_def)

lemma thread_index: "distinct (map thread_index callee_saved)" "set callee_saved \<subseteq> {r. thread_index r < 14 \<and> r \<notin> {0, 4, 10, 11, 13, 14}}"
  by (simp_all add: callee_saved_def thread_index_def)

lemma thread_regs_fst: "map fst thread_regs = callee_saved" "fst ` set thread_regs = set callee_saved"
proof -
  show *: "map fst thread_regs = callee_saved" by (simp add: thread_regs_def callee_saved_def)
  show "fst ` set thread_regs = set callee_saved" using arg_cong [OF *, of set] by (simp only: set_map)
qed

lemma thread_map:
  "map_of (places thread_regs) r = (if r \<in> set callee_saved then Some (slot (thread_index r)) else None)"
  "r \<in> set callee_saved \<Longrightarrow> map_of (map prod.swap (places thread_regs)) (slot (thread_index r)) = Some r"
  "distinct (map snd (places thread_regs))"
proof -
  show "map_of (places thread_regs) r = (if r \<in> set callee_saved then Some (slot (thread_index r)) else None)"
    unfolding thread_places by (rule map_of_regs)
  have "distinct (map slot (map thread_index callee_saved))"
    using thread_index by (intro frame_slots_distinct) fastforce+
  then show d: "distinct (map snd (places thread_regs))" by (simp add: thread_places comp_def)
  show "map_of (map prod.swap (places thread_regs)) (slot (thread_index r)) = Some r" if "r \<in> set callee_saved"
    using d that by (intro map_of_is_SomeI) (force simp: thread_places comp_def)+
qed

text \<open>The registers in the thread structure, which starts \<open>d\<close> bytes behind the task structure at \<open>p\<close>.\<close>

definition thread_at :: "hart \<Rightarrow> u64 \<Rightarrow> u64 \<Rightarrow> nat \<Rightarrow> u64" where
  "thread_at h d p r = dword h (p + d + slot (thread_index r))"

lemma switch_to_effect:
  assumes "gpr h 10 = p" "gpr h 11 = q" "dword h var = d" "r \<in> set callee_saved"
    "\<forall>i < 14. \<forall>j < 14. p + slot i \<noteq> q + slot j"
  shows "gpr (switch_to var h) r = thread_at h d q r" "thread_at (switch_to var h) d p r = gpr h r"
    "gpr (switch_to var h) tp = q" "gpr (switch_to var h) a0 = p"
proof -
  let ?h2 = "wr 14 (q + d) (wr 13 (p + d) (REG_L 14 0 14 (wr 14 var h)))"
  let ?h3 = "saves thread_regs 13 ?h2"
  have s: "switch_to var h = wr tp (rd 11 (loads thread_regs 14 ?h3)) (loads thread_regs 14 ?h3)"
    using assms(1-3) by (simp add: switch_to_def Let_def)
  have z: "0 \<notin> fst ` set thread_regs" "14 \<notin> fst ` set thread_regs" using thread_index(2) by (auto simp: thread_regs_fst)
  have ds: "distinct (map fst thread_regs)" by (simp add: thread_regs_fst callee_saved_def)
  have n: "r \<notin> {0, 4, 10, 11, 13, 14}" "thread_index r < 14" using thread_index(2) assms(4) by auto
  have "dword ?h3 (p + d + slot (thread_index r)) = gpr h r"
    using n(1) thread_map(2) [OF assms(4)] by (subst saves_at(1) [where f = "p + d"]) (simp_all add: thread_map(3) z)
  moreover have "dword ?h3 (q + d + slot (thread_index r)) = dword h (q + d + slot (thread_index r))"
  proof (subst saves_at(2) [where f = "p + d"])
    have "p + slot (thread_index i) \<noteq> q + slot (thread_index r)" if "i \<in> set callee_saved" for i
      using that n(2) assms(5) thread_index(2) by auto
    then show "\<forall>x \<in> snd ` set (places thread_regs). q + d + slot (thread_index r) \<noteq> p + d + x"
      by (force simp: thread_places algebra_simps)
  qed (simp_all add: thread_map(3) z)
  ultimately show "gpr (switch_to var h) r = thread_at h d q r" "thread_at (switch_to var h) d p r = gpr h r"
    "gpr (switch_to var h) tp = q" "gpr (switch_to var h) a0 = p"
    unfolding s using n(1) assms(1,2,4) thread_index(2)
    by (auto simp: thread_at_def loads_gpr [OF _ z(2,1) ds] thread_map(1))
qed

text \<open>C32: A switch saves and restores a thread.  \<open>__switch_to\<close> with the task structures \<open>p\<close> and \<open>q\<close> stores the
  callee-saved registers of the running thread in the one and loads those of the other; when later the thread of \<open>p\<close>
  is switched to from any other task, and its thread structure is still what the switch left there, its return address, stack
  pointer and callee-saved registers are what they were, and \<open>tp\<close> is the task again.\<close>

theorem switch_to_resumes:
  assumes "gpr h 10 = p" "gpr h 11 = q" "dword h var = d" "\<forall>i < 14. \<forall>j < 14. p + slot i \<noteq> q + slot j"
    "gpr u 10 = q'" "gpr u 11 = p" "dword u var = d" "\<forall>i < 14. \<forall>j < 14. q' + slot i \<noteq> p + slot j"
    "\<forall>r \<in> set callee_saved. thread_at u d p r = thread_at (switch_to var h) d p r" "r \<in> set callee_saved"
  shows "gpr (switch_to var h) r = thread_at h d q r \<and> gpr (switch_to var u) r = gpr h r
    \<and> gpr (switch_to var u) tp = p \<and> gpr (switch_to var u) a0 = q'"
  using switch_to_effect [OF assms(1-3,10,4)] switch_to_effect [OF assms(5-7,10,8)] assms(9,10) by simp

subsection \<open>Examples\<close>

text \<open>A handler may leave any trap frame.\<close>

lemma handled_ex: "\<exists>u. handled t fr u"
proof -
  have "unat (slot k) div 8 = k" if "k < 36" for k
    using that by (simp add: slot_def unat_of_nat take_bit_nat_eq_self del: of_nat_mult)
  then have "handled t fr (t\<lparr>dword := \<lambda>a. fr (unat (a - gpr t sp) div 8)\<rparr>)" by (simp add: handled_def trap_frame_def)
  then show ?thesis ..
qed

text \<open>A program calls \<open>close\<close> for descriptor 99.\<close>

definition user_trap :: hart where
  "user_trap = \<lparr>gpr = (\<lambda>r. of_nat r)(17 := 6, 10 := 99), c_status = 0, c_epc = 0x1000, c_tval = 0, c_cause = 8, c_scratch = 0x10000,
     dword = (\<lambda>_. 0)(0x10008 := 0x12000)\<rparr>"

definition no_strings :: sys_params where
  "no_strings = \<lparr>ubytes = \<lambda>_. [], regs_addr = 0, second_arg = 0, stack_junk = \<lambda>_. 0, plural_text = \<lambda>_. 0, undef = \<lambda>_. 0\<rparr>"

lemma user_trap_ready: "trap_ready 8192 user_trap" "c_scratch user_trap \<noteq> 0"
  by (simp_all add: trap_ready_def user_trap_def stack_at_def task_at_def)

lemma trap_transparent_witness:
  "\<exists>t u. handled t (trap_frame t) u \<and> gpr (ret_from_exception True u) 31 = 31 \<and> c_epc (ret_from_exception True u) = 0x1000"
proof -
  obtain tgt t where t: "handle_exception 0x2000 0x8000 0x8080 user_trap = (tgt, t)" by (cases "handle_exception 0x2000 0x8000 0x8080 user_trap")
  obtain u where u: "handled t (trap_frame t) u" using handled_ex by blast
  show ?thesis using trap_transparent [OF user_trap_ready(1) t u, of 31 True] u by (auto simp: user_trap_def)
qed

lemma close_99: "sys_call_table e 6 q s = sys_close (r_a0 q) s" "sys_close 99 s = Inr (- EINVAL, s)"
  by (simp_all add: sys_call_table_def Let_def sys_close_def do_close_def reg_uint_def NR_OPEN_def)

lemma system_call_99: "r_a7 r = 6 \<Longrightarrow> r_a0 r = 99 \<Longrightarrow> t_signal (tasks s (current s)) = 0 \<Longrightarrow> \<exists>r' b. system_call e r s = Inr ((r', b), s)"
  by (auto simp: system_call_def Let_def close_99 nr_system_calls_def do_signal_def kres_simps kbind_def kseq_def kreturn_def)

lemma system_call_abi_witness:
  "\<exists>v. gpr v 10 = word_of_int (- EINVAL) \<and> gpr v 31 = 31 \<and> c_epc v = 0x1004 \<and> stack_at v = 0x12000"
proof -
  obtain tgt t where t: "handle_exception 0x2000 0x8000 0x8080 user_trap = (tgt, t)" by (cases "handle_exception 0x2000 0x8000 0x8080 user_trap")
  let ?r = "frame_regs (trap_frame t)"
  have f: "trap_frame t k = frame user_trap k" if "k < 36" for k using trap_frame_entry [OF user_trap_ready(1) t that] .
  have "r_a7 ?r = 6" "r_a0 ?r = 99" by (simp_all add: frame_regs_def f frame_def user_trap_def)
  moreover have "t_signal (tasks boot_kernel (current boot_kernel)) = 0"
    by (simp add: boot_kernel_def kern.extend_def boot_kern_def ttys.extend_def sched.extend_def two_tasks_def plain_task_def)
  ultimately obtain r' b where r: "system_call no_strings ?r boot_kernel = Inr ((r', b), boot_kernel)"
    using system_call_99 by blast
  obtain u where u: "handled t (put_regs r' (trap_frame t)) u" using handled_ex by blast
  have g: "gpr user_trap 17 = 6" "gpr user_trap 10 = 99" "gpr user_trap 31 = 31" "c_epc user_trap = 0x1000" "stack_at user_trap = 0x12000"
    by (simp_all add: user_trap_def stack_at_def task_at_def)
  have "gpr (ret_from_exception True u) 10 = word_of_int (- EINVAL) \<and> gpr (ret_from_exception True u) 31 = 31
      \<and> c_epc (ret_from_exception True u) = 0x1004 \<and> stack_at (ret_from_exception True u) = 0x12000"
    using system_call_abi [OF user_trap_ready t r u refl, of True, unfolded g] by (auto simp: nr_system_calls_def close_99 g)
  then show ?thesis by blast
qed

definition two_threads :: hart where
  "two_threads = user_trap\<lparr>gpr := (gpr user_trap)(10 := 0x10000, 11 := 0x20000), dword := (\<lambda>_. 0)(0x3000 := 688)\<rparr>"

definition back_again :: hart where
  "back_again = two_threads\<lparr>gpr := (gpr two_threads)(10 := 0x20000, 11 := 0x10000),
     dword := (dword (switch_to 0x3000 two_threads))(0x3000 := 688)\<rparr>"

lemma slots_apart:
  assumes "unat p + 112 \<le> unat q \<or> unat q + 112 \<le> unat p" "unat p + 112 < 2 ^ 64" "unat q + 112 < 2 ^ 64"
  shows "\<forall>i < 14. \<forall>j < 14. p + slot i \<noteq> q + slot j"
proof (intro allI impI)
  fix i j :: nat
  assume "i < 14" "j < 14"
  moreover have "unat (x + slot k) = unat x + 8 * k" if "k < 14" "unat x + 112 < 2 ^ 64" for k x
    using that by (simp add: slot_def unat_word_ariths unat_of_nat take_bit_nat_eq_self del: of_nat_mult)
  ultimately have "unat (p + slot i) \<noteq> unat (q + slot j)" using assms by auto
  then show "p + slot i \<noteq> q + slot j" by auto
qed

lemma switch_to_resumes_witness: "gpr (switch_to 0x3000 two_threads) 2 = 0 \<and> gpr (switch_to 0x3000 back_again) 2 = 2"
proof -
  have a: "\<forall>i < 14. \<forall>j < 14. (0x10000 :: u64) + slot i \<noteq> 0x20000 + slot j" "\<forall>i < 14. \<forall>j < 14. (0x20000 :: u64) + slot i \<noteq> 0x10000 + slot j"
    by (intro slots_apart; simp)+
  have "\<forall>r \<in> set callee_saved. thread_at back_again 688 0x10000 r = thread_at (switch_to 0x3000 two_threads) 688 0x10000 r"
    by (simp add: back_again_def thread_at_def callee_saved_def thread_index_def slot_def)
  then have "gpr (switch_to 0x3000 two_threads) 2 = thread_at two_threads 688 0x20000 2 \<and> gpr (switch_to 0x3000 back_again) 2 = gpr two_threads 2
      \<and> gpr (switch_to 0x3000 back_again) tp = 0x10000 \<and> gpr (switch_to 0x3000 back_again) a0 = 0x20000"
    by (intro switch_to_resumes) (use a in \<open>simp_all add: two_threads_def back_again_def callee_saved_def\<close>)
  then show ?thesis by (simp add: two_threads_def user_trap_def thread_at_def slot_def thread_index_def)
qed

end
