(* ===== verification/Sbi.thy ===== *)
theory Sbi
  imports Irq
begin

text \<open>
  Model of \<open>kernel/sbi.c\<close>.  The firmware is a parameter: a function from the registers \<open>a0\<close> to \<open>a7\<close> of the \<open>ecall\<close> and
  its own state to the new \<open>a0\<close> and \<open>a1\<close> and its new state.  The other theories record what the kernel hands to
  the firmware (\<open>sbi_out\<close>, \<open>stimecmp\<close>); the lemmas below connect the two for a firmware that does what the SBI
  specification says.
\<close>

subsection \<open>Calls\<close>

record sbiret =
  sbi_error :: u64
  sbi_value :: u64

type_synonym 'f firmware = "(nat \<Rightarrow> u64) \<Rightarrow> 'f \<Rightarrow> (u64 \<times> u64) \<times> 'f"

definition ecall_regs :: "int \<Rightarrow> int \<Rightarrow> u64 list \<Rightarrow> nat \<Rightarrow> u64" where
  "ecall_regs ext fid args k = (if k = 7 then word_of_int ext else if k = 6 then word_of_int fid else if k < 6 then args ! k else 0)"

definition sbi_ecall :: "'f firmware \<Rightarrow> int \<Rightarrow> int \<Rightarrow> u64 \<Rightarrow> u64 \<Rightarrow> u64 \<Rightarrow> u64 \<Rightarrow> u64 \<Rightarrow> u64 \<Rightarrow> 'f \<Rightarrow> sbiret \<times> 'f" where
  "sbi_ecall fw ext fid arg0 arg1 arg2 arg3 arg4 arg5 f =
     (case fw (ecall_regs ext fid [arg0, arg1, arg2, arg3, arg4, arg5]) f of
        ((a0, a1), g) \<Rightarrow> (\<lparr>sbi_error = a0, sbi_value = a1\<rparr>, g))"

definition SBI_EXT_0_1_CONSOLE_PUTCHAR :: int where "SBI_EXT_0_1_CONSOLE_PUTCHAR = 0x1"
definition SBI_EXT_0_1_SHUTDOWN :: int where "SBI_EXT_0_1_SHUTDOWN = 0x8"
definition SBI_EXT_TIME :: int where "SBI_EXT_TIME = 0x54494D45"
definition SBI_EXT_TIME_SET_TIMER :: int where "SBI_EXT_TIME_SET_TIMER = 0"

definition sbi_console_putchar :: "'f firmware \<Rightarrow> int \<Rightarrow> 'f \<Rightarrow> 'f" where
  "sbi_console_putchar fw ch f = snd (sbi_ecall fw SBI_EXT_0_1_CONSOLE_PUTCHAR 0 (word_of_int ch) 0 0 0 0 0 f)"

definition sbi_shutdown :: "'f firmware \<Rightarrow> 'f \<Rightarrow> 'f" where
  "sbi_shutdown fw f = snd (sbi_ecall fw SBI_EXT_0_1_SHUTDOWN 0 0 0 0 0 0 0 f)"

definition sbi_set_timer :: "'f firmware \<Rightarrow> u64 \<Rightarrow> 'f \<Rightarrow> 'f" where
  "sbi_set_timer fw stime f = snd (sbi_ecall fw SBI_EXT_TIME SBI_EXT_TIME_SET_TIMER stime 0 0 0 0 0 f)"

text \<open>The loops of \<open>printk_sbi_write\<close> and \<open>sbi_printf\<close>: a \<open>char\<close> is unsigned.\<close>

definition sbi_write :: "'f firmware \<Rightarrow> u8 list \<Rightarrow> 'f \<Rightarrow> 'f" where
  "sbi_write fw bs = fold (\<lambda>b. sbi_console_putchar fw (uint b)) bs"

subsection \<open>A firmware that follows the specification\<close>

text \<open>The legacy extension 1 appends the character in \<open>a0\<close> to the console; extension \<open>TIME\<close>, function 0, sets the timer to \<open>a0\<close>.\<close>

definition sbi_conforms :: "'f firmware \<Rightarrow> ('f \<Rightarrow> u8 list) \<Rightarrow> ('f \<Rightarrow> u64) \<Rightarrow> bool" where
  "sbi_conforms fw console timer \<longleftrightarrow>
     (\<forall>r f. r 7 = 1 \<longrightarrow> console (snd (fw r f)) = console f @ [ucast (r 0)])
     \<and> (\<forall>r f. r 7 = 0x54494D45 \<and> r 6 = 0 \<longrightarrow> timer (snd (fw r f)) = r 0)"

lemma snd_sbi_ecall: "snd (sbi_ecall fw ext fid b0 b1 b2 b3 b4 b5 f) = snd (fw (ecall_regs ext fid [b0, b1, b2, b3, b4, b5]) f)"
  by (simp add: sbi_ecall_def split: prod.split)

lemma putchar_console:
  assumes "sbi_conforms fw console timer"
  shows "console (sbi_console_putchar fw (uint b) f) = console f @ [b]"
proof -
  let ?r = "ecall_regs 1 0 [word_of_int (uint b), 0, 0, 0, 0, 0]"
  have "console (snd (fw ?r f)) = console f @ [ucast (?r 0)]" using assms by (simp add: sbi_conforms_def ecall_regs_def)
  moreover have "ucast (?r 0) = b" by (simp add: ecall_regs_def unsigned_ucast_eq take_bit_word_eq_self flip: ucast_eq)
  ultimately show ?thesis
    by (simp add: sbi_console_putchar_def snd_sbi_ecall SBI_EXT_0_1_CONSOLE_PUTCHAR_def)
qed

lemma sbi_write_console: "sbi_conforms fw console timer \<Longrightarrow> console (sbi_write fw bs f) = console f @ bs"
  by (induction bs arbitrary: f) (simp_all add: sbi_write_def putchar_console)

lemma set_timer:
  assumes "sbi_conforms fw console timer"
  shows "timer (sbi_set_timer fw t f) = t"
proof -
  let ?r = "ecall_regs SBI_EXT_TIME SBI_EXT_TIME_SET_TIMER [t, 0, 0, 0, 0, 0]"
  have "timer (snd (fw ?r f)) = ?r 0"
    using assms by (simp add: sbi_conforms_def ecall_regs_def SBI_EXT_TIME_def SBI_EXT_TIME_SET_TIMER_def)
  then show ?thesis by (simp add: sbi_set_timer_def snd_sbi_ecall ecall_regs_def)
qed

text \<open>What \<open>printk\<close> records as output before \<open>printk_init\<close> is what the console shows.\<close>

lemma printk_console:
  assumes "sbi_conforms fw console timer" "console f = sbi_out s" "printk_write s = SbiWrite" "printk fmt args s = Inr (i, t)"
  shows "\<exists>text. sbi_out t = sbi_out s @ text \<and> int (length text) = max 0 i \<and> console (sbi_write fw text f) = sbi_out t"
proof -
  obtain m where "vsprintf (kbytes s) (printk_buf s) fmt args = Some (i, m)"
    and t: "t = s\<lparr>kbytes := m, sbi_out := sbi_out s @ map (\<lambda>k. m (printk_buf s + k)) [0..<nat i]\<rparr>"
    using assms(3,4) by (auto simp: printk_def Let_def printk_sbi_write_def kseq_def kbind_def kreturn_def split: option.splits if_splits)
  then show ?thesis using sbi_write_console [OF assms(1), of _ f] assms(2) by (auto simp: max_def)
qed

end
