(* ===== verification/Spec2Isabelle.thy ===== *)
theory Spec2Isabelle
  imports Lib_Ctype_Props Lib_String Vsprintf Mm_Fault Sched_Props Tty_Read Process_Props Namei_Props File_Write Irq_Props Fd_Calls Entry_Props Sbi
begin

text \<open>
  Verification of a port of Linux 0.01 to 64-bit RISC-V.

  \<^bold>\<open>The program.\<close>  The kernel is a single image.  \<open>boot/head.S\<close> enters \<open>start_kernel\<close> (\<open>init/main.c\<close>),
  which builds the page tables (\<open>mm/memory.c\<close>), fills the table of exceptions (\<open>kernel/traps.c\<close>), sets up the
  interrupt controller (\<open>kernel/irq.c\<close>) and starts terminals, scheduler, buffer cache and disk.  System calls
  arrive in \<open>system_call\<close> and reach the file system (\<open>fs/\<close>) and the processes (\<open>fork.c\<close>, \<open>exit.c\<close>).  The file
  system is layered: path names over inodes, inodes over bit maps and the block map, these over the buffer
  cache, the cache over the disk driver, which waits by means of the scheduler.

  \<^bold>\<open>How the code is modelled.\<close>  A routine is a function from the state to \<open>('s, 'a) kres\<close>
  (\<open>Kernel_Prelude\<close>): a result with the new state, or the reason why the kernel does not go on, with the state at
  that point: a panic, an access to an address that is not mapped, an index outside an array, a division by
  zero, a switch to another task, or a loop that does not end.  Loops whose number of rounds the code bounds
  are recursive functions with a termination proof; a loop that waits for another task is a
  \<open>partial_function (option)\<close> in which \<open>None\<close>, shown as \<open>Loops\<close> by its caller, means that it does not end.  No fuel is
  used.  Machine integers are words of their width,
  \<open>int\<close> variables are integers; truncating conversions are written out, and the formatter tests the range.

  The state is a chain of records, each theory adding the variables of its files: \<open>mm\<close> (\<open>Mm\<close>), \<open>sched\<close> (\<open>Sched\<close>),
  \<open>ttys\<close> (\<open>Tty\<close>), \<open>kern\<close> (\<open>Fs_State\<close>), \<open>kernel\<close> (\<open>Printk\<close>), \<open>machine\<close> (\<open>Irq\<close>).  Routines are polymorphic in the
  rest of the record, so that a routine of the memory management runs unchanged in the state of the whole
  kernel.  Pointers to tasks, inodes and files are addresses; buffers, requests and super blocks are indices.
  The byte buffers of a system call are lists of bytes.  A store of the kernel through a user pointer to a
  single word faults, because the trap entry clears \<open>sstatus.SUM\<close>.

  \<^bold>\<open>The theories.\<close>
  \<^item> \<open>Kernel_Prelude\<close>: results, sequencing, loops, and the lemmas on words and lists that the others share.
  \<^item> \<open>Lib_Ctype\<close>, \<open>Lib_Ctype_Props\<close>, \<open>Lib_String\<close>: \<open>lib/ctype.c\<close>, \<open>lib/string.c\<close> over a byte memory, with their
    specifications (\<open>memmove\<close> on overlapping regions, \<open>strstr\<close>, comparison).
  \<^item> \<open>Vsprintf\<close>, \<open>Printk\<close>: \<open>kernel/vsprintf.c\<close>, \<open>kernel/printk.c\<close>: the number conversion is inverse to reading
    the digits; \<open>vsnprintf\<close> writes to its buffer and to the cells of \<open>%n\<close> only, and returns the length truncated to \<open>int\<close>.  A call
    in which an \<open>int\<close> overflows is undefined in C and is \<open>None\<close> in the model; formats with plain directives are shown to return.
  \<^item> \<open>Mm\<close>, \<open>Mm_Alloc\<close>, \<open>Mm_Tables\<close>, \<open>Mm_Share\<close>, \<open>Mm_Fault\<close>, \<open>Mm_Boot\<close>: \<open>mm/memory.c\<close>.  The allocator is an
    interpretation of the locale \<open>page_pool\<close>; the tables form a tree whose address space \<open>map_page\<close>
    updates at one page; sharing tables at a fork and freeing them restores the counts; \<open>paging_init\<close> builds
    exactly the specified address space; a page fault returns from \<open>do_page_fault\<close> without regard to the valid bit.
  \<^item> \<open>Sched\<close>, \<open>Sched_Props\<close>: \<open>kernel/sched.c\<close>, \<open>kernel/signal.c\<close> and parts of \<open>exit.c\<close> and \<open>fork.c\<close>: the choice of the
    next task, wait queues as a step relation in which no sleeper is lost, signals, process numbers.
  \<^item> \<open>Ring\<close>, \<open>Tty\<close>, \<open>Tty_Props\<close>, \<open>Tty_Line\<close>, \<open>Tty_Read\<close>: \<open>kernel/tty_io.c\<close>, \<open>kernel/rs_io.c\<close>: queues as bounded first-in
    first-out buffers (locales \<open>bounded_fifo\<close> and \<open>ring\<close>), output processing, and the line discipline, which
    refines an editing function on lists of bytes; a line is followed from the received bytes to the reader.
  \<^item> \<open>Fs_State\<close>, \<open>Hd\<close>, \<open>Hd_Props\<close>: \<open>kernel/hd.c\<close>, \<open>kernel/virtio.c\<close>: the elevator as insertion into a list of requests.
  \<^item> \<open>Buffer\<close>, \<open>Buffer_Props\<close>: \<open>fs/buffer.c\<close>: the order of free list and hash queues as an invariant, the cache as an
    interpretation of the locale \<open>block_cache\<close>; \<open>getblk\<close> as an update of the lookup, and its fault at an empty hash queue.
  \<^item> \<open>Bitmap\<close>, \<open>Bitmap_Props\<close>, \<open>Inode\<close>, \<open>Inode_Props\<close>, \<open>Super\<close>, \<open>Super_Props\<close>: \<open>fs/bitmap.c\<close>, \<open>inode.c\<close>, \<open>truncate.c\<close>,
    \<open>super.c\<close>: the bit search, the block map of a file as a function, writing an inode to its place on disk
    and reading it back, mounting.
  \<^item> \<open>Pipe\<close>, \<open>Pipe_Props\<close>, \<open>Files\<close>, \<open>Files_Props\<close>, \<open>File_Write\<close>: \<open>fs/pipe.c\<close>, \<open>read_write.c\<close>, \<open>file_dev.c\<close>, \<open>char_dev.c\<close>, \<open>fcntl.c\<close>,
    \<open>stat.c\<close>, \<open>ioctl.c\<close>: pipes deliver bytes in order, reading delivers the contents of a file, writing
    changes it at the position and is read back, the counts of open files are exact.
  \<^item> \<open>Namei\<close>, \<open>Namei_Props\<close>, \<open>Open\<close>: \<open>fs/namei.c\<close>, \<open>fs/open.c\<close>: directory entries, the path walk, the calls that
    take a path.
  \<^item> \<open>Process\<close>, \<open>Process_Props\<close>, \<open>Traps\<close>, \<open>Irq\<close>, \<open>Irq_Props\<close>: \<open>fork.c\<close>, \<open>exit.c\<close>, \<open>traps.c\<close>, \<open>system_call.c\<close>, \<open>irq.c\<close>,
    \<open>serial.c\<close>, \<open>init/main.c\<close>: fork and wait, the dispatchers, and the start of the kernel, whose steps find
    the devices through the tables that \<open>paging_init\<close> built.
  \<^item> \<open>Layout\<close>, \<open>Entry\<close>, \<open>Entry_Props\<close>: the structures in memory and \<open>kernel/entry.S\<close>.  \<open>Layout\<close> computes sizes and offsets
    from the declarations and finds those of \<open>asm/asm_offsets.h\<close>, of the disk formats and of the queue of the disk; \<open>Entry\<close> has the
    trap entry and exit and \<open>__switch_to\<close> instruction by instruction, on a record of the processor.  A trap is transparent, a system call changes
    \<open>a0\<close> and the program counter only, and a thread that is switched to again finds its registers.
  \<^item> \<open>Sbi\<close>: \<open>kernel/sbi.c\<close>, with the firmware as a parameter: the output that the other theories record is what a
    console of a firmware that follows the specification shows.
  \<^item> \<open>Keeps\<close>, \<open>Fs_Frame\<close>, \<open>Call_Frame\<close>, \<open>Kernel_Run\<close>, \<open>Fd_Calls\<close>: what a run of the whole kernel keeps.  \<open>Keeps\<close> has
    the rules for a predicate that a routine keeps however it ends.  The locales \<open>fs_stable\<close>, \<open>call_stable\<close>,
    \<open>kernel_stable\<close> and \<open>task_stable\<close>, each extending the one before, list on which parts of the state a predicate
    may not depend, and show that all routines of the file system, the terminals and the system calls keep it.  \<open>kernel_run\<close> are the runs of system
    calls, exceptions and interrupts; interpretations give the invariants of the file table and of the
    terminal queues along every run.

  \<^bold>\<open>What the results say.\<close>  Where the code does what it means to, the results are functional: refinement of
  an abstract operation, preservation of an invariant, equality with a reference definition, round trips, termination.  Where
  it does not, the result states what happens instead: the scheduler passes a slot number for a task, a read
  is sent to the disk as a write, the allocation of a block beyond the first 64 panics, no block enters the empty cache,
  mounting always panics, a fork faults in high memory, waiting for a child never returns its status, and no interrupt is ever enabled.

  \<^bold>\<open>Not modelled.\<close>  \<open>kernel/sys.c\<close> and most of \<open>fs/tty_ioctl.c\<close> are commented out in the source.  The boot code
  \<open>boot/head.S\<close> and the instruction \<open>sret\<close> are outside.  The C routines run to their end or to a stop: a task
  switch ends a run, and \<open>Entry\<close> takes the effect of a handler on the trap frame as a hypothesis (\<open>handled\<close>).  The
  TLB, memory barriers, floating point registers and the effect of enabling interrupts in the middle of a routine are left out.  \<open>start_kernel\<close> is
  modelled up to its breakpoint.
\<close>

end
